(* ===== verification/Prelude.thy ===== *)
theory Prelude
  imports Main "HOL-Library.Word" "HOL-Library.Multiset"
begin

text \<open>
  Shared vocabulary of the development: the machine integer types of the sources, the three ways
  in which a C++ function of this code base can end, the collections that carry the component
  proofs, and the generic facts on lists and words that several components use.
\<close>

unbundle bit_operations_syntax

section \<open>Machine integers\<close>

type_synonym u8 = "8 word"
type_synonym u16 = "16 word"
type_synonym u32 = "32 word"
type_synonym u64 = "64 word"
type_synonym bytes = "u8 list"

section \<open>Collections of rewrite rules\<close>

named_theorems codec_simps \<open>reading back what a bounded writer has stored\<close>
named_theorems returns_intros \<open>operations that come back: no failing check, no endless loop\<close>
named_theorems tsn_simps \<open>arithmetic of unwrapped sequence numbers\<close>

section \<open>Outcomes\<close>

text \<open>
  A function that returns \<open>std::optional\<close> ends in one of four ways: a failing
  \<open>RTC_CHECK\<close> aborts the process, a loop runs forever, it returns \<open>std::nullopt\<close>, or it
  returns a value. A function that returns a plain value never takes the third way.
\<close>

datatype 'a outcome = CheckFailed | Diverges | Nullopt | Value 'a

fun obind :: "'a outcome \<Rightarrow> ('a \<Rightarrow> 'b outcome) \<Rightarrow> 'b outcome" where
  "obind CheckFailed f = CheckFailed"
| "obind Diverges f = Diverges"
| "obind Nullopt f = Nullopt"
| "obind (Value x) f = f x"

definition RTC_CHECK :: "bool \<Rightarrow> 'a outcome \<Rightarrow> 'a outcome" where
  "RTC_CHECK b k = (if b then k else CheckFailed)"

text \<open>Control comes back to the caller, with or without a value.\<close>

fun returns :: "'a outcome \<Rightarrow> bool" where
  "returns CheckFailed = False"
| "returns Diverges = False"
| "returns Nullopt = True"
| "returns (Value x) = True"

lemma RTC_CHECK_True [simp]: "RTC_CHECK True k = k"
  by (simp add: RTC_CHECK_def)

lemma RTC_CHECK_False [simp]: "RTC_CHECK False k = CheckFailed"
  by (simp add: RTC_CHECK_def)

lemma obind_Value_iff: "obind m f = Value y \<longleftrightarrow> (\<exists>x. m = Value x \<and> f x = Value y)"
  by (cases m) auto

lemma obind_assoc: "obind (obind m f) g = obind m (\<lambda>x. obind (f x) g)"
  by (cases m) simp_all

lemma obind_returns [returns_intros]:
  assumes "returns m" and "\<And>x. m = Value x \<Longrightarrow> returns (f x)"
  shows "returns (obind m f)"
  using assms by (cases m) auto

lemma returns_obind_iff: "returns (obind m f) \<longleftrightarrow> returns m \<and> (\<forall>x. m = Value x \<longrightarrow> returns (f x))"
  by (cases m) auto

lemma returns_intros_basic [returns_intros]: "returns (Value x)" "returns Nullopt"
  by simp_all

lemma returns_if [returns_intros]:
  "(b \<Longrightarrow> returns m) \<Longrightarrow> (\<not> b \<Longrightarrow> returns n) \<Longrightarrow> returns (if b then m else n)"
  by simp

section \<open>Lists\<close>

lemma take_list_update_ge [simp]: "n \<le> i \<Longrightarrow> take n (xs[i := x]) = take n xs"
  by (simp add: list_eq_iff_nth_eq)

lemma drop_list_update_lt [simp]: "i < n \<Longrightarrow> drop n (xs[i := x]) = drop n xs"
  by (simp add: list_eq_iff_nth_eq)

section \<open>Words\<close>

lemma unat_of_nat_word_eq: "n < 2 ^ LENGTH('a) \<Longrightarrow> unat (of_nat n :: 'a::len word) = n"
  by (simp add: unat_of_nat take_bit_eq_mod)

lemma unat_word16_less: "unat (w :: u16) < 65536"
  by (rule less_le_trans [OF unsigned_less]) simp

lemma unat_word8_less: "unat (w :: u8) < 256"
  by (rule less_le_trans [OF unsigned_less]) simp

lemma unat_word32_less: "unat (w :: u32) < 4294967296"
  by (rule less_le_trans [OF unsigned_less]) simp

end
