(* ===== verification/Byte_IO.thy ===== *)
theory Byte_IO
  imports Prelude
begin

text \<open>
  The bounded byte readers and writers of \<open>net/dcsctp/packet\<close>, the \<open>ArrayView\<close> they are built
  on, and the alignment helpers of \<open>net/dcsctp/common/math.h\<close>. A view is the list of the bytes
  it shows; a writer also remembers the bytes of the output vector that precede its view.
\<close>

section \<open>Array views\<close>

definition subview :: "'a list \<Rightarrow> nat \<Rightarrow> nat \<Rightarrow> 'a list" where
  "subview xs offset n =
     (if offset < length xs then take (min n (length xs - offset)) (drop offset xs) else [])"

definition subview_from :: "'a list \<Rightarrow> nat \<Rightarrow> 'a list" where
  "subview_from xs offset = subview xs offset (length xs)"

lemma subview_eq [simp]: "subview xs offset n = take n (drop offset xs)"
  by (auto simp: subview_def min_def)

lemma subview_from_eq [simp]: "subview_from xs offset = drop offset xs"
  by (simp add: subview_from_def)

section \<open>Alignment to four bytes\<close>

text \<open>
  \<open>RoundUpTo4\<close> is a template: the sum is computed in the promoted type and the result is
  converted back to the argument's type. For \<open>size_t\<close> no wrap-around occurs at the sizes of this
  library; for \<open>uint16_t\<close> the conversion wraps at 65536, which the parsers rely on or suffer from.
\<close>

definition RoundUpTo4 :: "nat \<Rightarrow> nat" where
  "RoundUpTo4 val = nat ((int val + 3) AND NOT 3)"

definition RoundUpTo4_u16 :: "u16 \<Rightarrow> u16" where
  "RoundUpTo4_u16 val = of_nat (RoundUpTo4 (unat val))"

definition RoundDownTo4 :: "nat \<Rightarrow> nat" where
  "RoundDownTo4 val = nat (int val AND NOT 3)"

definition IsDivisibleBy4 :: "nat \<Rightarrow> bool" where
  "IsDivisibleBy4 val \<longleftrightarrow> int val AND 3 = 0"

lemma int_and_not_3: "(x :: int) AND NOT 3 = x div 4 * 4"
proof -
  have shift: "Suc (Suc (n - 2)) = n" if "2 \<le> n" for n :: nat
    using that by simp
  have "x AND NOT 3 = x AND NOT (mask 2)"
    by (simp add: mask_eq_exp_minus_1)
  also have "\<dots> = push_bit 2 (drop_bit 2 x)"
    by (rule bit_eqI) (auto simp: bit_simps shift)
  finally show ?thesis
    by (simp add: push_bit_eq_mult drop_bit_eq_div)
qed

lemma RoundUpTo4_eq: "RoundUpTo4 n = (n + 3) div 4 * 4"
  unfolding RoundUpTo4_def int_and_not_3
  by (simp add: nat_mult_distrib nat_div_distrib nat_add_distrib)

lemma RoundDownTo4_eq: "RoundDownTo4 n = n div 4 * 4"
  unfolding RoundDownTo4_def int_and_not_3
  by (simp add: nat_mult_distrib nat_div_distrib)

lemma IsDivisibleBy4_eq: "IsDivisibleBy4 n \<longleftrightarrow> n mod 4 = 0"
proof -
  have "int n AND 3 = int n AND mask 2"
    by (simp add: mask_eq_exp_minus_1)
  also have "\<dots> = int (n mod 4)"
    by (simp add: take_bit_eq_mod zmod_int flip: take_bit_eq_mask)
  finally show ?thesis
    by (simp add: IsDivisibleBy4_def)
qed

lemma RoundUpTo4_ge [simp]: "n \<le> RoundUpTo4 n"
  unfolding RoundUpTo4_eq by presburger

lemma RoundUpTo4_less [simp]: "RoundUpTo4 n < n + 4"
  unfolding RoundUpTo4_eq by presburger

lemma RoundUpTo4_mod [simp]: "RoundUpTo4 n mod 4 = 0"
  by (simp add: RoundUpTo4_eq)

lemma RoundUpTo4_id: "n mod 4 = 0 \<Longrightarrow> RoundUpTo4 n = n"
  unfolding RoundUpTo4_eq by presburger

lemma RoundUpTo4_mono: "m \<le> n \<Longrightarrow> RoundUpTo4 m \<le> RoundUpTo4 n"
  unfolding RoundUpTo4_eq by (simp add: div_le_mono)

lemma RoundUpTo4_0 [simp]: "RoundUpTo4 0 = 0"
  by (simp add: RoundUpTo4_eq)

lemma RoundUpTo4_add_aligned: "RoundUpTo4 (RoundUpTo4 m + n) = RoundUpTo4 m + RoundUpTo4 n"
proof -
  have "(k * 4 + n + 3) div 4 = k + (n + 3) div 4" for k :: nat
    by presburger
  then show ?thesis
    by (simp add: RoundUpTo4_eq distrib_right)
qed

lemma RoundDownTo4_le [simp]: "RoundDownTo4 n \<le> n"
  unfolding RoundDownTo4_eq by presburger

lemma RoundDownTo4_mod [simp]: "RoundDownTo4 n mod 4 = 0"
  by (simp add: RoundDownTo4_eq)

lemma unat_RoundUpTo4_u16: "unat (RoundUpTo4_u16 w) = RoundUpTo4 (unat w) mod 65536"
  by (simp add: RoundUpTo4_u16_def unat_of_nat take_bit_eq_mod)

lemma RoundUpTo4_u16_small:
  "unat w \<le> 65532 \<Longrightarrow> unat (RoundUpTo4_u16 w) = RoundUpTo4 (unat w)"
  using RoundUpTo4_mono [of "unat w" 65532] by (simp add: unat_RoundUpTo4_u16 RoundUpTo4_id)

lemma RoundUpTo4_u16_wraps: "unat w > 65532 \<Longrightarrow> RoundUpTo4_u16 w = 0"
proof -
  assume "unat w > 65532"
  then have "RoundUpTo4 (unat w) = 65536"
    using unat_word16_less [of w] by (simp add: RoundUpTo4_eq)
  then have "unat (RoundUpTo4_u16 w) = 0"
    by (simp add: unat_RoundUpTo4_u16)
  then show ?thesis by (simp add: unat_eq_0)
qed

section \<open>Big-endian loads and stores\<close>

text \<open>The pointer argument of the sources is a list of bytes with an index into it.\<close>

definition LoadBigEndian8 :: "bytes \<Rightarrow> nat \<Rightarrow> u8" where
  "LoadBigEndian8 d i = d ! i"

definition LoadBigEndian16 :: "bytes \<Rightarrow> nat \<Rightarrow> u16" where
  "LoadBigEndian16 d i = push_bit 8 (ucast (d ! i)) OR ucast (d ! (i + 1))"

definition LoadBigEndian32 :: "bytes \<Rightarrow> nat \<Rightarrow> u32" where
  "LoadBigEndian32 d i =
     push_bit 24 (ucast (d ! i)) OR push_bit 16 (ucast (d ! (i + 1))) OR
     push_bit 8 (ucast (d ! (i + 2))) OR ucast (d ! (i + 3))"

definition StoreBigEndian8 :: "nat \<Rightarrow> u8 \<Rightarrow> bytes \<Rightarrow> bytes" where
  "StoreBigEndian8 i val d = d[i := val]"

definition StoreBigEndian16 :: "nat \<Rightarrow> u16 \<Rightarrow> bytes \<Rightarrow> bytes" where
  "StoreBigEndian16 i val d = d[i := ucast (drop_bit 8 val), i + 1 := ucast val]"

definition StoreBigEndian32 :: "nat \<Rightarrow> u32 \<Rightarrow> bytes \<Rightarrow> bytes" where
  "StoreBigEndian32 i val d =
     d[i := ucast (drop_bit 24 val), i + 1 := ucast (drop_bit 16 val),
       i + 2 := ucast (drop_bit 8 val), i + 3 := ucast val]"

lemmas big_endian_defs =
  LoadBigEndian8_def LoadBigEndian16_def LoadBigEndian32_def
  StoreBigEndian8_def StoreBigEndian16_def StoreBigEndian32_def

lemma join_u16: "push_bit 8 (ucast (ucast (drop_bit 8 v) :: u8)) OR ucast (ucast v :: u8) = (v :: u16)"
  by (rule bit_word_eqI) (auto simp: bit_simps)

lemma join_u32:
  "push_bit 24 (ucast (ucast (drop_bit 24 v) :: u8)) OR push_bit 16 (ucast (ucast (drop_bit 16 v) :: u8))
     OR push_bit 8 (ucast (ucast (drop_bit 8 v) :: u8)) OR ucast (ucast v :: u8) = (v :: u32)"
  (is "?l = v")
proof (rule bit_word_eqI)
  fix n :: nat assume n: "n < LENGTH(32)"
  consider "n < 8" | "8 \<le> n" "n < 16" | "16 \<le> n" "n < 24" | "24 \<le> n" "n < 32"
    using n by fastforce
  then show "bit ?l n \<longleftrightarrow> bit v n"
    by cases (auto simp: bit_simps)
qed

lemma split_u16:
  "ucast (drop_bit 8 (push_bit 8 (ucast a) OR ucast b :: u16)) = (a :: u8)"
  "ucast (push_bit 8 (ucast a) OR ucast b :: u16) = (b :: u8)"
  by (rule bit_word_eqI; auto simp: bit_simps dest: bit_imp_le_length)+

lemma length_stores [simp, codec_simps]:
  "length (StoreBigEndian8 i a d) = length d"
  "length (StoreBigEndian16 i b d) = length d"
  "length (StoreBigEndian32 i c d) = length d"
  by (simp_all add: big_endian_defs)

lemma load_store_same [codec_simps]:
  "i < length d \<Longrightarrow> LoadBigEndian8 (StoreBigEndian8 i a d) i = a"
  "i + 1 < length d \<Longrightarrow> LoadBigEndian16 (StoreBigEndian16 i b d) i = b"
  "i + 3 < length d \<Longrightarrow> LoadBigEndian32 (StoreBigEndian32 i c d) i = c"
  by (simp_all add: big_endian_defs join_u16 join_u32)

text \<open>A load is not affected by a store to bytes it does not read.\<close>

lemma load8_store_other [codec_simps]:
  "i \<noteq> j \<Longrightarrow> LoadBigEndian8 (StoreBigEndian8 j a d) i = LoadBigEndian8 d i"
  "i < j \<or> j + 2 \<le> i \<Longrightarrow> LoadBigEndian8 (StoreBigEndian16 j b d) i = LoadBigEndian8 d i"
  "i < j \<or> j + 4 \<le> i \<Longrightarrow> LoadBigEndian8 (StoreBigEndian32 j c d) i = LoadBigEndian8 d i"
  by (auto simp: big_endian_defs)

lemma load16_store_other [codec_simps]:
  "i + 1 < j \<or> j < i \<Longrightarrow> LoadBigEndian16 (StoreBigEndian8 j a d) i = LoadBigEndian16 d i"
  "i + 2 \<le> j \<or> j + 2 \<le> i \<Longrightarrow> LoadBigEndian16 (StoreBigEndian16 j b d) i = LoadBigEndian16 d i"
  "i + 2 \<le> j \<or> j + 4 \<le> i \<Longrightarrow> LoadBigEndian16 (StoreBigEndian32 j c d) i = LoadBigEndian16 d i"
  by (auto simp: big_endian_defs)

lemma load32_store_other [codec_simps]:
  "i + 3 < j \<or> j < i \<Longrightarrow> LoadBigEndian32 (StoreBigEndian8 j a d) i = LoadBigEndian32 d i"
  "i + 4 \<le> j \<or> j + 2 \<le> i \<Longrightarrow> LoadBigEndian32 (StoreBigEndian16 j b d) i = LoadBigEndian32 d i"
  "i + 4 \<le> j \<or> j + 4 \<le> i \<Longrightarrow> LoadBigEndian32 (StoreBigEndian32 j c d) i = LoadBigEndian32 d i"
  by (auto simp: big_endian_defs)

lemma loads_append [codec_simps]:
  "i < length d \<Longrightarrow> LoadBigEndian8 (d @ e) i = LoadBigEndian8 d i"
  "i + 1 < length d \<Longrightarrow> LoadBigEndian16 (d @ e) i = LoadBigEndian16 d i"
  "i + 3 < length d \<Longrightarrow> LoadBigEndian32 (d @ e) i = LoadBigEndian32 d i"
  by (simp_all add: big_endian_defs nth_append)

lemma loads_take [codec_simps]:
  "i < n \<Longrightarrow> LoadBigEndian8 (take n d) i = LoadBigEndian8 d i"
  "i + 1 < n \<Longrightarrow> LoadBigEndian16 (take n d) i = LoadBigEndian16 d i"
  "i + 3 < n \<Longrightarrow> LoadBigEndian32 (take n d) i = LoadBigEndian32 d i"
  by (simp_all add: big_endian_defs)

lemma stores_append [codec_simps]:
  "i < length d \<Longrightarrow> StoreBigEndian8 i a (d @ e) = StoreBigEndian8 i a d @ e"
  "i + 1 < length d \<Longrightarrow> StoreBigEndian16 i b (d @ e) = StoreBigEndian16 i b d @ e"
  "i + 3 < length d \<Longrightarrow> StoreBigEndian32 i c (d @ e) = StoreBigEndian32 i c d @ e"
  by (simp_all add: big_endian_defs list_update_append)

lemma drop_stores [codec_simps]:
  "i < n \<Longrightarrow> drop n (StoreBigEndian8 i a d) = drop n d"
  "i + 1 < n \<Longrightarrow> drop n (StoreBigEndian16 i b d) = drop n d"
  "i + 3 < n \<Longrightarrow> drop n (StoreBigEndian32 i c d) = drop n d"
  by (simp_all add: big_endian_defs)

lemma take_stores [codec_simps]:
  "n \<le> i \<Longrightarrow> take n (StoreBigEndian8 i a d) = take n d"
  "n \<le> i \<Longrightarrow> take n (StoreBigEndian16 i b d) = take n d"
  "n \<le> i \<Longrightarrow> take n (StoreBigEndian32 i c d) = take n d"
  by (simp_all add: big_endian_defs)

text \<open>Storing back what was loaded changes nothing; the checksum is restored this way.\<close>

lemma store_store32 [codec_simps]:
  "i + 3 < length d \<Longrightarrow> StoreBigEndian32 i b (StoreBigEndian32 i a d) = StoreBigEndian32 i b d"
  by (rule nth_equalityI) (auto simp: big_endian_defs nth_list_update)

lemma split_u32:
  fixes a b c d :: u8
  defines "w \<equiv> push_bit 24 (ucast a) OR push_bit 16 (ucast b) OR push_bit 8 (ucast c) OR ucast d :: u32"
  shows "ucast (drop_bit 24 w) = a" "ucast (drop_bit 16 w) = b" "ucast (drop_bit 8 w) = c" "ucast w = d"
  unfolding w_def
  by (rule bit_word_eqI; auto simp: bit_simps dest: bit_imp_le_length)+

lemma store_load32 [codec_simps]:
  "i + 3 < length d \<Longrightarrow> StoreBigEndian32 i (LoadBigEndian32 d i) d = d"
  unfolding big_endian_defs split_u32 by simp

section \<open>Bounded readers\<close>

text \<open>
  The template parameter \<open>FixedSize\<close> is a field of the model. Its static assertions bound every
  constant offset of a load by \<open>FixedSize\<close>, and the constructor's run-time check bounds
  \<open>FixedSize\<close> by the size of the view, so a load never leaves the view.
\<close>

record bounded_byte_reader =
  reader_fixed_size :: nat
  reader_data :: bytes

definition BoundedByteReader :: "nat \<Rightarrow> bytes \<Rightarrow> bounded_byte_reader outcome" where
  "BoundedByteReader fixed_size data =
     RTC_CHECK (fixed_size \<le> length data)
       (Value \<lparr>reader_fixed_size = fixed_size, reader_data = data\<rparr>)"

definition Load8 :: "bounded_byte_reader \<Rightarrow> nat \<Rightarrow> u8" where
  "Load8 r offset = LoadBigEndian8 (reader_data r) offset"

definition Load16 :: "bounded_byte_reader \<Rightarrow> nat \<Rightarrow> u16" where
  "Load16 r offset = LoadBigEndian16 (reader_data r) offset"

definition Load32 :: "bounded_byte_reader \<Rightarrow> nat \<Rightarrow> u32" where
  "Load32 r offset = LoadBigEndian32 (reader_data r) offset"

definition sub_reader :: "bounded_byte_reader \<Rightarrow> nat \<Rightarrow> nat \<Rightarrow> bounded_byte_reader outcome" where
  "sub_reader r sub_size variable_offset =
     RTC_CHECK (reader_fixed_size r + variable_offset + sub_size \<le> length (reader_data r))
       (BoundedByteReader sub_size
          (subview (reader_data r) (reader_fixed_size r + variable_offset) sub_size))"

definition variable_data_size :: "bounded_byte_reader \<Rightarrow> nat" where
  "variable_data_size r = length (reader_data r) - reader_fixed_size r"

definition variable_data :: "bounded_byte_reader \<Rightarrow> bytes" where
  "variable_data r =
     subview (reader_data r) (reader_fixed_size r) (length (reader_data r) - reader_fixed_size r)"

lemmas reader_defs =
  BoundedByteReader_def Load8_def Load16_def Load32_def sub_reader_def
  variable_data_size_def variable_data_def

lemma variable_data_eq [simp]: "variable_data r = drop (reader_fixed_size r) (reader_data r)"
  by (simp add: variable_data_def)

section \<open>Bounded writers\<close>

text \<open>
  A writer is a view of the end of the output vector: \<open>writer_before\<close> are the bytes of the vector
  in front of the view. A sub-writer shares the memory of its writer; \<open>sub_writer\<close> takes the
  stores performed through the sub-writer as a function and writes their effect back.
\<close>

record bounded_byte_writer =
  writer_before :: bytes
  writer_fixed_size :: nat
  writer_data :: bytes

definition BoundedByteWriter :: "bytes \<Rightarrow> nat \<Rightarrow> bytes \<Rightarrow> bounded_byte_writer outcome" where
  "BoundedByteWriter before fixed_size data =
     RTC_CHECK (fixed_size \<le> length data)
       (Value \<lparr>writer_before = before, writer_fixed_size = fixed_size, writer_data = data\<rparr>)"

definition Store8 :: "nat \<Rightarrow> u8 \<Rightarrow> bounded_byte_writer \<Rightarrow> bounded_byte_writer" where
  "Store8 offset val w = w\<lparr>writer_data := StoreBigEndian8 offset val (writer_data w)\<rparr>"

definition Store16 :: "nat \<Rightarrow> u16 \<Rightarrow> bounded_byte_writer \<Rightarrow> bounded_byte_writer" where
  "Store16 offset val w = w\<lparr>writer_data := StoreBigEndian16 offset val (writer_data w)\<rparr>"

definition Store32 :: "nat \<Rightarrow> u32 \<Rightarrow> bounded_byte_writer \<Rightarrow> bounded_byte_writer" where
  "Store32 offset val w = w\<lparr>writer_data := StoreBigEndian32 offset val (writer_data w)\<rparr>"

definition sub_writer ::
  "nat \<Rightarrow> nat \<Rightarrow> (bounded_byte_writer \<Rightarrow> bounded_byte_writer) \<Rightarrow> bounded_byte_writer
     \<Rightarrow> bounded_byte_writer outcome" where
  "sub_writer sub_size variable_offset stores w =
     (let pos = writer_fixed_size w + variable_offset; d = writer_data w in
      RTC_CHECK (pos + sub_size \<le> length d)
        (obind (BoundedByteWriter (writer_before w @ take pos d) sub_size (subview d pos sub_size))
           (\<lambda>sub. Value (w\<lparr>writer_data :=
               take pos d @ writer_data (stores sub) @ drop (pos + sub_size) d\<rparr>))))"

definition CopyToVariableData :: "bytes \<Rightarrow> bounded_byte_writer \<Rightarrow> bounded_byte_writer" where
  "CopyToVariableData source w =
     (let d = writer_data w; fixed_size = writer_fixed_size w;
          copy_size = min (length source) (length d - fixed_size) in
      if copy_size = 0 then w
      else w\<lparr>writer_data := take fixed_size d @ take copy_size source @ drop (fixed_size + copy_size) d\<rparr>)"

definition written :: "bounded_byte_writer \<Rightarrow> bytes" where
  "written w = writer_before w @ writer_data w"

lemmas writer_defs = BoundedByteWriter_def Store8_def Store16_def Store32_def written_def

lemma store_selectors [simp, codec_simps]:
  "writer_before (Store8 i a w) = writer_before w"
  "writer_before (Store16 i b w) = writer_before w"
  "writer_before (Store32 i c w) = writer_before w"
  "writer_fixed_size (Store8 i a w) = writer_fixed_size w"
  "writer_fixed_size (Store16 i b w) = writer_fixed_size w"
  "writer_fixed_size (Store32 i c w) = writer_fixed_size w"
  "writer_data (Store8 i a w) = StoreBigEndian8 i a (writer_data w)"
  "writer_data (Store16 i b w) = StoreBigEndian16 i b (writer_data w)"
  "writer_data (Store32 i c w) = StoreBigEndian32 i c (writer_data w)"
  by (simp_all add: writer_defs)

lemma CopyToVariableData_selectors [simp, codec_simps]:
  "writer_before (CopyToVariableData src w) = writer_before w"
  "writer_fixed_size (CopyToVariableData src w) = writer_fixed_size w"
  by (simp_all add: CopyToVariableData_def Let_def)

text \<open>In every serializer the variable part has exactly the size of the copied source.\<close>

lemma writer_data_CopyToVariableData [codec_simps]:
  "length (writer_data w) = writer_fixed_size w + length src \<Longrightarrow>
   writer_data (CopyToVariableData src w) = take (writer_fixed_size w) (writer_data w) @ src"
  by (auto simp: CopyToVariableData_def Let_def)

section \<open>Arrays in the variable part\<close>

text \<open>
  Several chunks and parameters carry an array of fixed-size elements. Their serializers open one
  sub-writer per element at consecutive offsets, and their parsers one sub-reader per element;
  \<open>store_array\<close> and \<open>load_array\<close> are those loops.
\<close>

fun store_array ::
  "nat \<Rightarrow> ('a \<Rightarrow> bounded_byte_writer \<Rightarrow> bounded_byte_writer) \<Rightarrow> 'a list \<Rightarrow> nat \<Rightarrow> bounded_byte_writer
     \<Rightarrow> bounded_byte_writer outcome" where
  "store_array sub_size store [] offset w = Value w"
| "store_array sub_size store (x # xs) offset w =
     obind (sub_writer sub_size offset (store x) w) (store_array sub_size store xs (offset + sub_size))"

fun load_array ::
  "nat \<Rightarrow> (bounded_byte_reader \<Rightarrow> 'a) \<Rightarrow> nat \<Rightarrow> nat \<Rightarrow> bounded_byte_reader \<Rightarrow> 'a list outcome" where
  "load_array sub_size load 0 offset r = Value []"
| "load_array sub_size load (Suc n) offset r =
     obind (sub_reader r sub_size offset) (\<lambda>sub.
     obind (load_array sub_size load n (offset + sub_size) r) (\<lambda>xs. Value (load sub # xs)))"

lemma load_array_in_bounds:
  "reader_fixed_size r + offset + n * sub_size \<le> length (reader_data r) \<Longrightarrow>
   \<exists>xs. load_array sub_size load n offset r = Value xs \<and> length xs = n"
proof (induction n arbitrary: offset)
  case 0
  then show ?case by simp
next
  case (Suc n)
  then have "reader_fixed_size r + (offset + sub_size) + n * sub_size \<le> length (reader_data r)"
    by (simp add: algebra_simps)
  from Suc.IH [OF this] obtain xs
    where "load_array sub_size load n (offset + sub_size) r = Value xs" "length xs = n" by blast
  with Suc.prems show ?case
    by (simp add: sub_reader_def BoundedByteReader_def)
qed

lemma load_array_returns [returns_intros]:
  "reader_fixed_size r + offset + n * sub_size \<le> length (reader_data r) \<Longrightarrow>
   returns (load_array sub_size load n offset r)"
  using load_array_in_bounds [of r offset n sub_size load] by auto

lemma load_array_all_returns [returns_intros]:
  assumes "n \<le> variable_data_size r div sub_size" and "reader_fixed_size r \<le> length (reader_data r)"
  shows "returns (load_array sub_size load n 0 r)"
proof (rule load_array_returns)
  have "n * sub_size \<le> variable_data_size r div sub_size * sub_size"
    using assms(1) by simp
  also have "\<dots> \<le> variable_data_size r"
    by (rule div_times_less_eq_dividend)
  finally show "reader_fixed_size r + 0 + n * sub_size \<le> length (reader_data r)"
    using assms(2) by (simp add: variable_data_size_def)
qed

text \<open>The loop reads only the bytes of its elements.\<close>

lemma load_array_cong:
  assumes "take (f + offset + n * sub_size) d = take (f + offset + n * sub_size) e"
    and "f + offset + n * sub_size \<le> length d" and "f + offset + n * sub_size \<le> length e"
  shows "load_array sub_size load n offset \<lparr>reader_fixed_size = f, reader_data = d\<rparr> =
         load_array sub_size load n offset \<lparr>reader_fixed_size = f, reader_data = e\<rparr>"
  using assms
proof (induction n arbitrary: offset)
  case 0
  then show ?case by simp
next
  case (Suc n)
  have "load_array sub_size load n (offset + sub_size) \<lparr>reader_fixed_size = f, reader_data = d\<rparr> =
        load_array sub_size load n (offset + sub_size) \<lparr>reader_fixed_size = f, reader_data = e\<rparr>"
    by (rule Suc.IH) (use Suc.prems in \<open>simp_all add: add.assoc\<close>)
  moreover have "take sub_size (drop (f + offset) d) = take sub_size (drop (f + offset) e)"
  proof -
    have "take (f + offset + sub_size) d = take (f + offset + sub_size) (take (f + offset + Suc n * sub_size) d)"
      by (simp add: min_def)
    also have "\<dots> = take (f + offset + sub_size) e"
      unfolding Suc.prems(1) by (simp add: min_def)
    finally show ?thesis
      by (simp add: take_drop add.commute)
  qed
  ultimately show ?case
    using Suc.prems by (simp add: sub_reader_def BoundedByteReader_def)
qed

locale element_codec =
  fixes sub_size :: nat
    and store :: "'a \<Rightarrow> bounded_byte_writer \<Rightarrow> bounded_byte_writer"
    and load :: "bounded_byte_reader \<Rightarrow> 'a"
    and wire :: "'a \<Rightarrow> 'a"
  assumes length_store: "length (writer_data (store x w)) = length (writer_data w)"
    and store_view: "writer_data w = writer_data w' \<Longrightarrow> writer_data (store x w) = writer_data (store x w')"
    and load_store: "length (writer_data w) = sub_size \<Longrightarrow>
      load \<lparr>reader_fixed_size = sub_size, reader_data = writer_data (store x w)\<rparr> = wire x"
begin

lemma sub_writer_store:
  assumes "f + offset + sub_size \<le> length e"
  obtains elem where "\<And>out. sub_writer sub_size offset (store x)
        \<lparr>writer_before = out, writer_fixed_size = f, writer_data = e\<rparr> =
      Value \<lparr>writer_before = out, writer_fixed_size = f,
        writer_data = take (f + offset) e @ elem @ drop (f + offset + sub_size) e\<rparr>"
    and "length elem = sub_size"
    and "load \<lparr>reader_fixed_size = sub_size, reader_data = elem\<rparr> = wire x"
proof -
  let ?sub = "\<lambda>out. \<lparr>writer_before = out, writer_fixed_size = sub_size,
    writer_data = take sub_size (drop (f + offset) e)\<rparr>"
  have len: "length (writer_data (?sub out)) = sub_size" for out
    using assms by simp
  have view: "writer_data (store x (?sub out)) = writer_data (store x (?sub []))" for out
    by (rule store_view) simp
  show thesis
  proof
    show "sub_writer sub_size offset (store x)
        \<lparr>writer_before = out, writer_fixed_size = f, writer_data = e\<rparr> =
      Value \<lparr>writer_before = out, writer_fixed_size = f, writer_data =
        take (f + offset) e @ writer_data (store x (?sub [])) @ drop (f + offset + sub_size) e\<rparr>" for out
      using assms view [of "out @ take (f + offset) e"]
      by (simp add: sub_writer_def BoundedByteWriter_def Let_def RTC_CHECK_def)
    show "length (writer_data (store x (?sub []))) = sub_size"
      using len length_store by metis
    show "load \<lparr>reader_fixed_size = sub_size, reader_data = writer_data (store x (?sub []))\<rparr> = wire x"
      by (rule load_store [OF len])
  qed
qed

text \<open>
  Storing an array and reading it back gives the array; the bytes in front of it and behind it
  are untouched, and those in front of the view have no influence.
\<close>

lemma store_array_at:
  assumes "f + offset + length xs * sub_size \<le> length e"
  obtains elems where "\<And>out. store_array sub_size store xs offset
        \<lparr>writer_before = out, writer_fixed_size = f, writer_data = e\<rparr> =
      Value \<lparr>writer_before = out, writer_fixed_size = f, writer_data =
        take (f + offset) e @ elems @ drop (f + offset + length xs * sub_size) e\<rparr>"
    and "length elems = length xs * sub_size"
    and "\<And>pre post. length pre = f + offset \<Longrightarrow> load_array sub_size load (length xs) offset
        \<lparr>reader_fixed_size = f, reader_data = pre @ elems @ post\<rparr> = Value (map wire xs)"
  using assms
proof (induction xs arbitrary: offset e thesis)
  case Nil
  show ?case
    by (rule Nil.prems(1) [of "[]"]) simp_all
next
  case (Cons x xs)
  have bound: "f + offset + sub_size + length xs * sub_size \<le> length e"
    using Cons.prems(2) by (simp add: algebra_simps)
  then have "f + offset + sub_size \<le> length e" by simp
  then obtain elem where elem: "\<And>out. sub_writer sub_size offset (store x)
        \<lparr>writer_before = out, writer_fixed_size = f, writer_data = e\<rparr> =
      Value \<lparr>writer_before = out, writer_fixed_size = f,
        writer_data = take (f + offset) e @ elem @ drop (f + offset + sub_size) e\<rparr>"
    "length elem = sub_size" "load \<lparr>reader_fixed_size = sub_size, reader_data = elem\<rparr> = wire x"
    using sub_writer_store by blast
  let ?e = "take (f + offset) e @ elem @ drop (f + offset + sub_size) e"
  have "f + (offset + sub_size) + length xs * sub_size \<le> length ?e"
    using bound elem(2) by simp
  then obtain elems where elems: "\<And>out. store_array sub_size store xs (offset + sub_size)
        \<lparr>writer_before = out, writer_fixed_size = f, writer_data = ?e\<rparr> =
      Value \<lparr>writer_before = out, writer_fixed_size = f, writer_data = take (f + (offset + sub_size)) ?e @
        elems @ drop (f + (offset + sub_size) + length xs * sub_size) ?e\<rparr>"
    "length elems = length xs * sub_size"
    "\<And>pre post. length pre = f + (offset + sub_size) \<Longrightarrow>
      load_array sub_size load (length xs) (offset + sub_size)
        \<lparr>reader_fixed_size = f, reader_data = pre @ elems @ post\<rparr> = Value (map wire xs)"
    using Cons.IH by blast
  show ?case
  proof (rule Cons.prems(1) [of "elem @ elems"])
    fix pre post :: bytes assume "length pre = f + offset"
    then show "load_array sub_size load (length (x # xs)) offset
        \<lparr>reader_fixed_size = f, reader_data = pre @ (elem @ elems) @ post\<rparr> = Value (map wire (x # xs))"
      using elem(2,3) elems(3) [of "pre @ elem" post]
      by (simp add: sub_reader_def BoundedByteReader_def RTC_CHECK_def)
  qed (use elem elems(1,2) bound in \<open>simp_all add: algebra_simps\<close>)
qed

end

end
