(* ===== verification/Tlv.thy ===== *)
theory Tlv
  imports Byte_IO
begin

text \<open>
  The type-length-value trait of \<open>net/dcsctp/packet/tlv_trait.h\<close>, from which every chunk,
  parameter and error cause inherits its framing. The template parameter \<open>Config\<close> is a record.
\<close>

section \<open>Configuration\<close>

record tlv_config =
  kType :: nat
  kTypeSizeInBytes :: nat
  kHeaderSize :: nat
  kVariableLengthAlignment :: nat

definition kTlvHeaderSize :: nat where
  "kTlvHeaderSize = 4"

text \<open>The static assertions of the trait; the type value fits its field.\<close>

definition tlv_config_ok :: "tlv_config \<Rightarrow> bool" where
  "tlv_config_ok cfg \<longleftrightarrow>
     (kTypeSizeInBytes cfg = 1 \<or> kTypeSizeInBytes cfg = 2) \<and>
     kHeaderSize cfg \<ge> kTlvHeaderSize \<and>
     kHeaderSize cfg mod 4 = 0 \<and>
     kVariableLengthAlignment cfg \<in> {0, 1, 2, 4, 8} \<and>
     kType cfg < 256 ^ kTypeSizeInBytes cfg"

section \<open>Parsing and allocation\<close>

definition ValidateLengthAlignment :: "u16 \<Rightarrow> nat \<Rightarrow> bool" where
  "ValidateLengthAlignment len alignment =
     (if alignment = 0 then True else unat len mod alignment = 0)"

definition ParseTLV :: "tlv_config \<Rightarrow> bytes \<Rightarrow> bounded_byte_reader outcome" where
  "ParseTLV cfg data =
     (if length data < kHeaderSize cfg then Nullopt
      else obind (BoundedByteReader kTlvHeaderSize data) (\<lambda>tlv_header.
        let type = (if kTypeSizeInBytes cfg = 1 then unat (Load8 tlv_header 0)
                    else unat (Load16 tlv_header 0)) in
        if type \<noteq> kType cfg then Nullopt
        else let len = Load16 tlv_header 2 in
          if kVariableLengthAlignment cfg = 0 then
            (if unat len \<noteq> kHeaderSize cfg \<or> length data \<noteq> kHeaderSize cfg then Nullopt
             else BoundedByteReader (kHeaderSize cfg) (subview data 0 (unat len)))
          else if unat len > length data \<or> unat len < kHeaderSize cfg then Nullopt
          else if length data - unat len > 3 then Nullopt
          else if \<not> ValidateLengthAlignment len (kVariableLengthAlignment cfg) then Nullopt
          else BoundedByteReader (kHeaderSize cfg) (subview data 0 (unat len))))"

definition AllocateTLV :: "tlv_config \<Rightarrow> bytes \<Rightarrow> nat \<Rightarrow> bounded_byte_writer outcome" where
  "AllocateTLV cfg out variable_size =
     (let sz = kHeaderSize cfg + variable_size; data = replicate sz 0 in
      obind (BoundedByteWriter out kTlvHeaderSize (take kTlvHeaderSize data)) (\<lambda>tlv_header.
        let tlv_header =
              (if kTypeSizeInBytes cfg = 1 then Store8 0 (of_nat (kType cfg)) tlv_header
               else Store16 0 (of_nat (kType cfg)) tlv_header);
            tlv_header = Store16 2 (of_nat sz) tlv_header in
        BoundedByteWriter out (kHeaderSize cfg) (writer_data tlv_header @ drop kTlvHeaderSize data)))"

section \<open>What parsing accepts\<close>

text \<open>The run-time checks inside the parser never fire.\<close>

lemma ParseTLV_returns [returns_intros]:
  "tlv_config_ok cfg \<Longrightarrow> returns (ParseTLV cfg data)"
  by (auto simp: ParseTLV_def tlv_config_ok_def BoundedByteReader_def Let_def RTC_CHECK_def)

definition tlv_type_field :: "tlv_config \<Rightarrow> bytes \<Rightarrow> nat" where
  "tlv_type_field cfg d =
     (if kTypeSizeInBytes cfg = 1 then unat (LoadBigEndian8 d 0) else unat (LoadBigEndian16 d 0))"

lemma ParseTLV_Value_iff:
  assumes "tlv_config_ok cfg"
  shows "ParseTLV cfg data = Value r \<longleftrightarrow>
     (let len = unat (LoadBigEndian16 data 2) in
      kHeaderSize cfg \<le> len \<and> len \<le> length data \<and> tlv_type_field cfg data = kType cfg \<and>
      (if kVariableLengthAlignment cfg = 0 then length data = kHeaderSize cfg
       else length data - len \<le> 3 \<and> kVariableLengthAlignment cfg dvd len) \<and>
      r = \<lparr>reader_fixed_size = kHeaderSize cfg, reader_data = take len data\<rparr>)"
  using assms
  by (auto simp: ParseTLV_def tlv_config_ok_def BoundedByteReader_def Let_def RTC_CHECK_def
      Load8_def Load16_def tlv_type_field_def ValidateLengthAlignment_def dvd_eq_mod_eq_0)

lemma ParseTLV_reader:
  assumes "tlv_config_ok cfg" and "ParseTLV cfg data = Value r"
  shows "reader_fixed_size r = kHeaderSize cfg" and "kHeaderSize cfg \<le> length (reader_data r)"
    and "length (reader_data r) < 65536"
    and "kVariableLengthAlignment cfg \<noteq> 0 \<Longrightarrow> kVariableLengthAlignment cfg dvd length (reader_data r)"
    and "kVariableLengthAlignment cfg = 0 \<Longrightarrow> length (reader_data r) = kHeaderSize cfg"
    and "length data \<le> length (reader_data r) + 3"
  using assms unat_word16_less [of "LoadBigEndian16 data 2"]
  by (auto simp: ParseTLV_Value_iff Let_def split: if_splits)

lemma ParseTLV_obind_returns:
  assumes "tlv_config_ok cfg"
    and "\<And>r. reader_fixed_size r = kHeaderSize cfg \<Longrightarrow> kHeaderSize cfg \<le> length (reader_data r) \<Longrightarrow>
      length (reader_data r) < 65536 \<Longrightarrow> returns (k r)"
  shows "returns (obind (ParseTLV cfg data) k)"
  using assms ParseTLV_reader [OF assms(1)] ParseTLV_returns [OF assms(1)]
  by (simp add: returns_obind_iff)

section \<open>Framed byte strings\<close>

text \<open>
  A byte string is framed when its type field is that of the configuration and its length field
  is its own length. Allocation produces a framed string, and every later store of a serializer
  keeps it framed.
\<close>

definition framed :: "tlv_config \<Rightarrow> bytes \<Rightarrow> bool" where
  "framed cfg d \<longleftrightarrow>
     kHeaderSize cfg \<le> length d \<and> 4 \<le> kHeaderSize cfg \<and> tlv_type_field cfg d = kType cfg \<and>
     LoadBigEndian16 d 2 = of_nat (length d)"

definition tlv_blank :: "tlv_config \<Rightarrow> nat \<Rightarrow> bytes" where
  "tlv_blank cfg n =
     (let d = replicate (kHeaderSize cfg + n) 0;
          d = (if kTypeSizeInBytes cfg = 1 then StoreBigEndian8 0 (of_nat (kType cfg)) d
               else StoreBigEndian16 0 (of_nat (kType cfg)) d)
      in StoreBigEndian16 2 (of_nat (kHeaderSize cfg + n)) d)"

lemma length_tlv_blank [simp, codec_simps]: "length (tlv_blank cfg n) = kHeaderSize cfg + n"
  by (simp add: tlv_blank_def Let_def)

lemma AllocateTLV_eq [codec_simps]:
  assumes "tlv_config_ok cfg"
  shows "AllocateTLV cfg out n =
    Value \<lparr>writer_before = out, writer_fixed_size = kHeaderSize cfg, writer_data = tlv_blank cfg n\<rparr>"
proof -
  have hs: "4 \<le> kHeaderSize cfg"
    using assms by (simp add: tlv_config_ok_def kTlvHeaderSize_def)
  then have "replicate (kHeaderSize cfg + n) (0 :: u8) =
      replicate 4 0 @ replicate (kHeaderSize cfg + n - 4) 0"
    by (simp flip: replicate_add)
  with hs show ?thesis
    by (simp add: AllocateTLV_def tlv_blank_def BoundedByteWriter_def kTlvHeaderSize_def Let_def
        stores_append RTC_CHECK_def)
qed

lemma framed_tlv_blank [codec_simps]:
  assumes "tlv_config_ok cfg"
  shows "framed cfg (tlv_blank cfg n)"
  using assms
  by (auto simp: framed_def tlv_blank_def tlv_type_field_def tlv_config_ok_def kTlvHeaderSize_def
      Let_def codec_simps unat_of_nat take_bit_eq_mod)

lemma framed_store [codec_simps]:
  "4 \<le> i \<Longrightarrow> framed cfg (StoreBigEndian8 i a d) = framed cfg d"
  "kTypeSizeInBytes cfg = 1 \<Longrightarrow> framed cfg (StoreBigEndian8 (Suc 0) a d) = framed cfg d"
  "4 \<le> i \<Longrightarrow> framed cfg (StoreBigEndian16 i b d) = framed cfg d"
  "4 \<le> i \<Longrightarrow> framed cfg (StoreBigEndian32 i c d) = framed cfg d"
  by (simp_all add: framed_def tlv_type_field_def load8_store_other load16_store_other)

text \<open>Framing looks at the first four bytes and at the length only.\<close>

lemma framed_cong:
  assumes "framed cfg d" and "length e = length d" and "take 4 e = take 4 d"
  shows "framed cfg e"
proof -
  have loads: "LoadBigEndian8 e 0 = LoadBigEndian8 d 0" "LoadBigEndian16 e 0 = LoadBigEndian16 d 0"
    "LoadBigEndian16 e 2 = LoadBigEndian16 d 2"
    using loads_take(1) [of 0 4 e] loads_take(1) [of 0 4 d] loads_take(2) [of 0 4 e]
      loads_take(2) [of 0 4 d] loads_take(2) [of 2 4 e] loads_take(2) [of 2 4 d] assms(3)
    by simp_all
  with assms show ?thesis
    by (auto simp: framed_def tlv_type_field_def)
qed

lemma framed_copy [codec_simps]:
  assumes "framed cfg d" and "n = kHeaderSize cfg" and "length d = n + length src"
  shows "framed cfg (take n d @ src)"
  using assms by (intro framed_cong [OF assms(1)]) (auto simp: framed_def)

section \<open>Framing round trip\<close>

definition padding_ok :: "tlv_config \<Rightarrow> bytes \<Rightarrow> bool" where
  "padding_ok cfg pad \<longleftrightarrow> (if kVariableLengthAlignment cfg = 0 then pad = [] else length pad \<le> 3)"

lemma padding_ok_Nil [simp]: "padding_ok cfg []"
  by (simp add: padding_ok_def)

lemma framed_length_field:
  "framed cfg d \<Longrightarrow> length d < 65536 \<Longrightarrow> unat (LoadBigEndian16 (d @ pad) 2) = length d"
  by (simp add: framed_def loads_append unat_of_nat take_bit_eq_mod)

lemma ParseTLV_framed [codec_simps]:
  assumes "tlv_config_ok cfg" and "framed cfg d" and "length d < 65536" and "padding_ok cfg pad"
    and "if kVariableLengthAlignment cfg = 0 then length d = kHeaderSize cfg
         else kVariableLengthAlignment cfg dvd length d"
  shows "ParseTLV cfg (d @ pad) =
    Value \<lparr>reader_fixed_size = kHeaderSize cfg, reader_data = d\<rparr>"
proof -
  have len: "unat (LoadBigEndian16 (d @ pad) 2) = length d"
    by (rule framed_length_field [OF assms(2,3)])
  have "4 \<le> length d" and "d \<noteq> []"
    using assms(2) by (auto simp: framed_def)
  then have type: "tlv_type_field cfg (d @ pad) = kType cfg"
    using assms(2) by (auto simp: framed_def tlv_type_field_def loads_append)
  show ?thesis
    using assms len type
    by (auto simp: ParseTLV_Value_iff Let_def framed_def padding_ok_def)
qed

lemma ParseTLV_unaligned:
  assumes "tlv_config_ok cfg" and "framed cfg d" and "length d < 65536"
    and "kVariableLengthAlignment cfg \<noteq> 0" and "\<not> kVariableLengthAlignment cfg dvd length d"
  shows "ParseTLV cfg (d @ pad) = Nullopt"
proof -
  have "ParseTLV cfg (d @ pad) \<noteq> Value r" for r
    using assms(4,5) by (auto simp: ParseTLV_Value_iff [OF assms(1)] framed_length_field [OF assms(2,3)])
  with ParseTLV_returns [OF assms(1), of "d @ pad"] show ?thesis
    by (cases "ParseTLV cfg (d @ pad)") auto
qed

section \<open>Arrays in the variable part\<close>

context element_codec
begin

text \<open>
  Filling the variable part of a framed string with an array keeps it framed, keeps the fixed
  fields, and the array reads back.
\<close>

lemma framed_array:
  assumes "framed cfg e" and "f = kHeaderSize cfg" and "length e = f + length xs * sub_size"
  obtains d where "\<And>out. store_array sub_size store xs 0
        \<lparr>writer_before = out, writer_fixed_size = f, writer_data = e\<rparr> =
      Value \<lparr>writer_before = out, writer_fixed_size = f, writer_data = d\<rparr>"
    and "length d = length e" and "framed cfg d"
    and "\<And>i. i + 1 < f \<Longrightarrow> LoadBigEndian16 d i = LoadBigEndian16 e i"
    and "\<And>i. i + 3 < f \<Longrightarrow> LoadBigEndian32 d i = LoadBigEndian32 e i"
    and "load_array sub_size load (length xs) 0
           \<lparr>reader_fixed_size = f, reader_data = d\<rparr> = Value (map wire xs)"
proof -
  have "f + 0 + length xs * sub_size \<le> length e"
    using assms(3) by simp
  then obtain elems where elems: "\<And>out. store_array sub_size store xs 0
        \<lparr>writer_before = out, writer_fixed_size = f, writer_data = e\<rparr> =
      Value \<lparr>writer_before = out, writer_fixed_size = f, writer_data =
        take (f + 0) e @ elems @ drop (f + 0 + length xs * sub_size) e\<rparr>"
    "length elems = length xs * sub_size"
    "\<And>pre post. length pre = f + 0 \<Longrightarrow> load_array sub_size load (length xs) 0
        \<lparr>reader_fixed_size = f, reader_data = pre @ elems @ post\<rparr> = Value (map wire xs)"
    using store_array_at by blast
  show thesis
    by (rule that [OF elems(1)])
      (use assms elems(2) elems(3) [of "take f e" "[]"] in
        \<open>simp_all add: loads_append loads_take framed_copy\<close>)
qed

end

section \<open>The contract of a serializable type\<close>

text \<open>
  What the containers (parameter lists, packets) rely on, for every chunk, parameter and error
  cause: parsing always returns; serialization appends one framed string, which parses, also with
  up to three bytes of padding, to what the wire format keeps of the object. A class without a
  variable part is as long as its header and takes no padding.
\<close>

locale tlv_codec =
  fixes cfg :: tlv_config
    and parse :: "bytes \<Rightarrow> 'a outcome"
    and serialize :: "'a \<Rightarrow> bytes \<Rightarrow> bytes outcome"
    and ok :: "'a \<Rightarrow> bool"
    and wire :: "'a \<Rightarrow> 'a"
  assumes config_ok: "tlv_config_ok cfg"
    and parse_returns: "returns (parse data)"
    and serialize_framed: "ok x \<Longrightarrow>
      \<exists>d. (\<forall>out. serialize x out = Value (out @ d)) \<and> framed cfg d \<and> length d < 65536 \<and>
          (kVariableLengthAlignment cfg = 0 \<longrightarrow> length d = kHeaderSize cfg) \<and>
          (\<forall>pad. padding_ok cfg pad \<longrightarrow> parse (d @ pad) = Value (wire x))"
begin

lemma serializeE:
  assumes "ok x"
  obtains d where "\<And>out. serialize x out = Value (out @ d)" and "framed cfg d"
    and "length d < 65536" and "\<And>pad. padding_ok cfg pad \<Longrightarrow> parse (d @ pad) = Value (wire x)"
    and "parse d = Value (wire x)"
proof -
  from serialize_framed [OF assms] obtain d
    where d: "\<And>out. serialize x out = Value (out @ d)" "framed cfg d" "length d < 65536"
      "\<And>pad. padding_ok cfg pad \<Longrightarrow> parse (d @ pad) = Value (wire x)" by blast
  show thesis
    by (rule that [OF d]) (use d(4) [of "[]"] in simp_all)
qed

lemma serialize_exists:
  "ok x \<Longrightarrow> \<exists>d. (\<forall>out. serialize x out = Value (out @ d)) \<and> framed cfg d \<and> length d < 65536"
  using serialize_framed by blast

lemma round_trip:
  assumes "ok x"
  shows "obind (serialize x []) parse = Value (wire x)"
  using assms by (rule serializeE) simp

lemma serialize_appends:
  assumes "ok x"
  shows "serialize x out = obind (serialize x []) (\<lambda>d. Value (out @ d))"
  using assms by (rule serializeE) simp

end

text \<open>
  For a class that parses through \<open>ParseTLV\<close> it is enough to know what it makes of the reader on
  its own serialization: padding never reaches the class.
\<close>

lemma tlv_codecI:
  assumes "tlv_config_ok cfg" and "\<And>data. returns (parse data)"
    and "\<And>x. ok x \<Longrightarrow>
      \<exists>d. (\<forall>out. serialize x out = Value (out @ d)) \<and> framed cfg d \<and> length d < 65536 \<and>
          (if kVariableLengthAlignment cfg = 0 then length d = kHeaderSize cfg
           else kVariableLengthAlignment cfg dvd length d) \<and>
          (\<forall>data. ParseTLV cfg data = Value \<lparr>reader_fixed_size = kHeaderSize cfg, reader_data = d\<rparr> \<longrightarrow>
            parse data = Value (wire x))"
  shows "tlv_codec cfg parse serialize ok wire"
proof
  fix x assume "ok x"
  with assms(3) obtain d where d: "\<forall>out. serialize x out = Value (out @ d)" "framed cfg d"
    "length d < 65536"
    "if kVariableLengthAlignment cfg = 0 then length d = kHeaderSize cfg
     else kVariableLengthAlignment cfg dvd length d"
    "\<forall>data. ParseTLV cfg data = Value \<lparr>reader_fixed_size = kHeaderSize cfg, reader_data = d\<rparr> \<longrightarrow>
       parse data = Value (wire x)" by blast
  then show "\<exists>d. (\<forall>out. serialize x out = Value (out @ d)) \<and> framed cfg d \<and> length d < 65536 \<and>
      (kVariableLengthAlignment cfg = 0 \<longrightarrow> length d = kHeaderSize cfg) \<and>
      (\<forall>pad. padding_ok cfg pad \<longrightarrow> parse (d @ pad) = Value (wire x))"
    using ParseTLV_framed [OF assms(1) d(2,3) _ d(4)] by auto
qed (use assms in simp_all)

lemmas codec_proof_simps =
  codec_simps tlv_config_ok_def kTlvHeaderSize_def written_def padding_ok_def ParseTLV_returns
  Load8_def Load16_def Load32_def obind_Value_iff returns_obind_iff variable_data_size_def

end
