(* ===== verification/Data_Chunks.thy ===== *)
theory Data_Chunks
  imports Tlv
begin

text \<open>
  The chunks that carry, acknowledge and abandon user data: DATA, I-DATA, SACK, FORWARD-TSN and
  I-FORWARD-TSN of \<open>net/dcsctp/packet/chunk\<close>, with \<open>struct Data\<close>. DATA and I-DATA each have only
  some of the fields of \<open>Data\<close> on the wire; the \<open>wire\<close> function of a class gives what is left of
  an object after a round trip.
\<close>

section \<open>User data\<close>

record Data =
  data_stream_id :: u16
  data_ssn :: u16
  data_mid :: u32
  data_fsn :: u32
  data_ppid :: u32
  data_payload :: bytes
  data_is_beginning :: bool
  data_is_end :: bool
  data_is_unordered :: bool

definition Data_size :: "Data \<Rightarrow> nat" where
  "Data_size d = length (data_payload d)"

record AnyDataChunk =
  adc_tsn :: u32
  adc_data :: Data
  adc_immediate_ack :: bool

record Options =
  opt_is_end :: bool
  opt_is_beginning :: bool
  opt_is_unordered :: bool
  opt_immediate_ack :: bool

definition AnyDataChunk_options :: "AnyDataChunk \<Rightarrow> Options" where
  "AnyDataChunk_options c =
     \<lparr>opt_is_end = data_is_end (adc_data c), opt_is_beginning = data_is_beginning (adc_data c),
      opt_is_unordered = data_is_unordered (adc_data c), opt_immediate_ack = adc_immediate_ack c\<rparr>"

definition AnyDataChunk_make ::
  "u32 \<Rightarrow> u16 \<Rightarrow> u16 \<Rightarrow> u32 \<Rightarrow> u32 \<Rightarrow> u32 \<Rightarrow> bytes \<Rightarrow> Options \<Rightarrow> AnyDataChunk" where
  "AnyDataChunk_make tsn stream_id ssn mid fsn ppid payload options =
     \<lparr>adc_tsn = tsn,
      adc_data =
        \<lparr>data_stream_id = stream_id, data_ssn = ssn, data_mid = mid, data_fsn = fsn,
         data_ppid = ppid, data_payload = payload, data_is_beginning = opt_is_beginning options,
         data_is_end = opt_is_end options, data_is_unordered = opt_is_unordered options\<rparr>,
      adc_immediate_ack = opt_immediate_ack options\<rparr>"

section \<open>The flags of DATA and I-DATA\<close>

definition kFlagsBitEnd :: nat where "kFlagsBitEnd = 0"
definition kFlagsBitBeginning :: nat where "kFlagsBitBeginning = 1"
definition kFlagsBitUnordered :: nat where "kFlagsBitUnordered = 2"
definition kFlagsBitImmediateAck :: nat where "kFlagsBitImmediateAck = 3"

definition has_flag :: "u8 \<Rightarrow> nat \<Rightarrow> bool" where
  "has_flag flags n \<longleftrightarrow> flags AND push_bit n 1 \<noteq> 0"

definition Options_of_flags :: "u8 \<Rightarrow> Options" where
  "Options_of_flags flags =
     \<lparr>opt_is_end = has_flag flags kFlagsBitEnd,
      opt_is_beginning = has_flag flags kFlagsBitBeginning,
      opt_is_unordered = has_flag flags kFlagsBitUnordered,
      opt_immediate_ack = has_flag flags kFlagsBitImmediateAck\<rparr>"

definition Options_to_flags :: "Options \<Rightarrow> u8" where
  "Options_to_flags options =
     (if opt_is_end options then push_bit kFlagsBitEnd 1 else 0) OR
     (if opt_is_beginning options then push_bit kFlagsBitBeginning 1 else 0) OR
     (if opt_is_unordered options then push_bit kFlagsBitUnordered 1 else 0) OR
     (if opt_immediate_ack options then push_bit kFlagsBitImmediateAck 1 else 0)"

lemma Options_of_to_flags [simp]: "Options_of_flags (Options_to_flags options) = options"
  by (cases options)
    (simp add: Options_of_flags_def Options_to_flags_def has_flag_def kFlagsBitEnd_def
      kFlagsBitBeginning_def kFlagsBitUnordered_def kFlagsBitImmediateAck_def)

section \<open>DATA\<close>

definition DataChunkConfig :: tlv_config where
  "DataChunkConfig =
     \<lparr>kType = 0, kTypeSizeInBytes = 1, kHeaderSize = 16, kVariableLengthAlignment = 1\<rparr>"

definition DataChunk_Parse :: "bytes \<Rightarrow> AnyDataChunk outcome" where
  "DataChunk_Parse data =
     obind (ParseTLV DataChunkConfig data) (\<lambda>reader.
     let flags = Load8 reader 1;
         tsn = Load32 reader 4;
         stream_identifier = Load16 reader 8;
         ssn = Load16 reader 10;
         ppid = Load32 reader 12
     in Value (AnyDataChunk_make tsn stream_identifier ssn 0 0 ppid (variable_data reader)
          (Options_of_flags flags)))"

definition DataChunk_SerializeTo :: "AnyDataChunk \<Rightarrow> bytes \<Rightarrow> bytes outcome" where
  "DataChunk_SerializeTo c out =
     (let data = adc_data c in
      obind (AllocateTLV DataChunkConfig out (length (data_payload data))) (\<lambda>writer.
      let writer = Store8 1 (Options_to_flags (AnyDataChunk_options c)) writer;
          writer = Store32 4 (adc_tsn c) writer;
          writer = Store16 8 (data_stream_id data) writer;
          writer = Store16 10 (data_ssn data) writer;
          writer = Store32 12 (data_ppid data) writer
      in Value (written (CopyToVariableData (data_payload data) writer))))"

definition DataChunk_wire :: "AnyDataChunk \<Rightarrow> AnyDataChunk" where
  "DataChunk_wire c = c\<lparr>adc_data := (adc_data c)\<lparr>data_mid := 0, data_fsn := 0\<rparr>\<rparr>"

lemmas AnyDataChunk_defs = AnyDataChunk_options_def AnyDataChunk_make_def

interpretation data_chunk_codec: tlv_codec DataChunkConfig DataChunk_Parse DataChunk_SerializeTo
  "\<lambda>c. length (data_payload (adc_data c)) < 65520" DataChunk_wire
  by (rule tlv_codecI)
    (simp_all add: DataChunk_Parse_def DataChunk_SerializeTo_def DataChunkConfig_def
      DataChunk_wire_def AnyDataChunk_defs codec_proof_simps Let_def)

section \<open>I-DATA\<close>

definition IDataChunkConfig :: tlv_config where
  "IDataChunkConfig =
     \<lparr>kType = 64, kTypeSizeInBytes = 1, kHeaderSize = 20, kVariableLengthAlignment = 1\<rparr>"

definition IDataChunk_Parse :: "bytes \<Rightarrow> AnyDataChunk outcome" where
  "IDataChunk_Parse data =
     obind (ParseTLV IDataChunkConfig data) (\<lambda>reader.
     let flags = Load8 reader 1;
         tsn = Load32 reader 4;
         stream_identifier = Load16 reader 8;
         mid = Load32 reader 12;
         ppid_or_fsn = Load32 reader 16;
         options = Options_of_flags flags
     in Value (AnyDataChunk_make tsn stream_identifier 0 mid
          (if opt_is_beginning options then 0 else ppid_or_fsn)
          (if opt_is_beginning options then ppid_or_fsn else 0)
          (variable_data reader) options))"

definition IDataChunk_SerializeTo :: "AnyDataChunk \<Rightarrow> bytes \<Rightarrow> bytes outcome" where
  "IDataChunk_SerializeTo c out =
     (let data = adc_data c in
      obind (AllocateTLV IDataChunkConfig out (length (data_payload data))) (\<lambda>writer.
      let writer = Store8 1 (Options_to_flags (AnyDataChunk_options c)) writer;
          writer = Store32 4 (adc_tsn c) writer;
          writer = Store16 8 (data_stream_id data) writer;
          writer = Store32 12 (data_mid data) writer;
          writer = Store32 16 (if data_is_beginning data then data_ppid data else data_fsn data) writer
      in Value (written (CopyToVariableData (data_payload data) writer))))"

definition IDataChunk_wire :: "AnyDataChunk \<Rightarrow> AnyDataChunk" where
  "IDataChunk_wire c =
     (let data = adc_data c in
      c\<lparr>adc_data := data\<lparr>data_ssn := 0,
        data_fsn := (if data_is_beginning data then 0 else data_fsn data),
        data_ppid := (if data_is_beginning data then data_ppid data else 0)\<rparr>\<rparr>)"

interpretation idata_chunk_codec: tlv_codec IDataChunkConfig IDataChunk_Parse IDataChunk_SerializeTo
  "\<lambda>c. length (data_payload (adc_data c)) < 65516" IDataChunk_wire
  by (rule tlv_codecI)
    (simp_all add: IDataChunk_Parse_def IDataChunk_SerializeTo_def IDataChunkConfig_def
      IDataChunk_wire_def AnyDataChunk_defs codec_proof_simps Let_def)

section \<open>Skipped streams\<close>

record SkippedStream =
  ss_stream_id :: u16
  ss_ssn :: u16
  ss_unordered :: bool
  ss_mid :: u32

record AnyForwardTsnChunk =
  aft_new_cumulative_tsn :: u32
  aft_skipped_streams :: "SkippedStream list"

definition kSkippedStreamBufferSize :: nat where
  "kSkippedStreamBufferSize = 4"

definition skipped_stream_load :: "bounded_byte_reader \<Rightarrow> SkippedStream" where
  "skipped_stream_load sub =
     \<lparr>ss_stream_id = Load16 sub 0, ss_ssn = Load16 sub 2, ss_unordered = False, ss_mid = 0\<rparr>"

definition skipped_stream_store :: "SkippedStream \<Rightarrow> bounded_byte_writer \<Rightarrow> bounded_byte_writer" where
  "skipped_stream_store s sub = Store16 2 (ss_ssn s) (Store16 0 (ss_stream_id s) sub)"

definition skipped_stream_wire :: "SkippedStream \<Rightarrow> SkippedStream" where
  "skipped_stream_wire s = s\<lparr>ss_unordered := False, ss_mid := 0\<rparr>"

interpretation skipped_stream_element: element_codec kSkippedStreamBufferSize
  skipped_stream_store skipped_stream_load skipped_stream_wire
  by unfold_locales
    (simp_all add: codec_proof_simps kSkippedStreamBufferSize_def skipped_stream_load_def
      skipped_stream_store_def skipped_stream_wire_def)

definition kSkippedIStreamBufferSize :: nat where
  "kSkippedIStreamBufferSize = 8"

definition skipped_istream_load :: "bounded_byte_reader \<Rightarrow> SkippedStream" where
  "skipped_istream_load sub =
     \<lparr>ss_stream_id = Load16 sub 0, ss_ssn = 0, ss_unordered = (Load8 sub 3 AND 0x01 \<noteq> 0),
      ss_mid = Load32 sub 4\<rparr>"

definition skipped_istream_store :: "SkippedStream \<Rightarrow> bounded_byte_writer \<Rightarrow> bounded_byte_writer" where
  "skipped_istream_store s sub =
     Store32 4 (ss_mid s) (Store8 3 (if ss_unordered s then 1 else 0) (Store16 0 (ss_stream_id s) sub))"

definition skipped_istream_wire :: "SkippedStream \<Rightarrow> SkippedStream" where
  "skipped_istream_wire s = s\<lparr>ss_ssn := 0\<rparr>"

interpretation skipped_istream_element: element_codec kSkippedIStreamBufferSize
  skipped_istream_store skipped_istream_load skipped_istream_wire
  by unfold_locales
    (simp_all add: codec_proof_simps kSkippedIStreamBufferSize_def skipped_istream_load_def
      skipped_istream_store_def skipped_istream_wire_def)

section \<open>FORWARD-TSN\<close>

definition ForwardTsnChunkConfig :: tlv_config where
  "ForwardTsnChunkConfig =
     \<lparr>kType = 192, kTypeSizeInBytes = 1, kHeaderSize = 8, kVariableLengthAlignment = 4\<rparr>"

definition ForwardTsnChunk_Parse :: "bytes \<Rightarrow> AnyForwardTsnChunk outcome" where
  "ForwardTsnChunk_Parse data =
     obind (ParseTLV ForwardTsnChunkConfig data) (\<lambda>reader.
     let new_cumulative_tsn = Load32 reader 4;
         streams_skipped = variable_data_size reader div kSkippedStreamBufferSize
     in obind (load_array kSkippedStreamBufferSize skipped_stream_load streams_skipped 0 reader) (\<lambda>skipped_streams.
        Value \<lparr>aft_new_cumulative_tsn = new_cumulative_tsn, aft_skipped_streams = skipped_streams\<rparr>))"

definition ForwardTsnChunk_SerializeTo :: "AnyForwardTsnChunk \<Rightarrow> bytes \<Rightarrow> bytes outcome" where
  "ForwardTsnChunk_SerializeTo c out =
     (let skipped = aft_skipped_streams c;
          variable_size = length skipped * kSkippedStreamBufferSize
      in obind (AllocateTLV ForwardTsnChunkConfig out variable_size) (\<lambda>writer.
         let writer = Store32 4 (aft_new_cumulative_tsn c) writer in
         obind (store_array kSkippedStreamBufferSize skipped_stream_store skipped 0 writer) (\<lambda>writer.
         Value (written writer))))"

definition ForwardTsnChunk_wire :: "AnyForwardTsnChunk \<Rightarrow> AnyForwardTsnChunk" where
  "ForwardTsnChunk_wire c = c\<lparr>aft_skipped_streams := map skipped_stream_wire (aft_skipped_streams c)\<rparr>"

lemmas ForwardTsnChunk_defs =
  ForwardTsnChunk_Parse_def ForwardTsnChunk_SerializeTo_def ForwardTsnChunk_wire_def
  ForwardTsnChunkConfig_def kSkippedStreamBufferSize_def

interpretation forward_tsn_codec: tlv_codec ForwardTsnChunkConfig ForwardTsnChunk_Parse ForwardTsnChunk_SerializeTo
  "\<lambda>c. length (aft_skipped_streams c) < 16382" ForwardTsnChunk_wire
proof (rule tlv_codecI, goal_cases)
  case (2 data)
  show ?case
    unfolding ForwardTsnChunk_Parse_def Let_def
    by (intro ParseTLV_obind_returns obind_returns load_array_all_returns)
      (simp_all add: ForwardTsnChunk_defs codec_proof_simps)
next
  case (3 x)
  let ?ss = "aft_skipped_streams x"
  let ?e = "StoreBigEndian32 4 (aft_new_cumulative_tsn x)
    (tlv_blank ForwardTsnChunkConfig (length ?ss * kSkippedStreamBufferSize))"
  obtain d where "\<And>out. store_array kSkippedStreamBufferSize skipped_stream_store ?ss 0
        \<lparr>writer_before = out, writer_fixed_size = 8, writer_data = ?e\<rparr> =
      Value \<lparr>writer_before = out, writer_fixed_size = 8, writer_data = d\<rparr>"
    "length d = length ?e" "framed ForwardTsnChunkConfig d"
    "\<And>i. i + 3 < 8 \<Longrightarrow> LoadBigEndian32 d i = LoadBigEndian32 ?e i"
    "load_array kSkippedStreamBufferSize skipped_stream_load (length ?ss) 0
       \<lparr>reader_fixed_size = 8, reader_data = d\<rparr> = Value (map skipped_stream_wire ?ss)"
    by (rule skipped_stream_element.framed_array [of ForwardTsnChunkConfig ?e 8 ?ss])
      (simp_all add: ForwardTsnChunk_defs codec_proof_simps)
  with 3 show ?case
    by (intro exI [of _ d]) (simp add: ForwardTsnChunk_defs codec_proof_simps Store32_def Let_def)
qed (simp add: ForwardTsnChunk_defs codec_proof_simps)

section \<open>I-FORWARD-TSN\<close>

definition IForwardTsnChunkConfig :: tlv_config where
  "IForwardTsnChunkConfig =
     \<lparr>kType = 194, kTypeSizeInBytes = 1, kHeaderSize = 8, kVariableLengthAlignment = 8\<rparr>"

definition IForwardTsnChunk_Parse :: "bytes \<Rightarrow> AnyForwardTsnChunk outcome" where
  "IForwardTsnChunk_Parse data =
     obind (ParseTLV IForwardTsnChunkConfig data) (\<lambda>reader.
     let new_cumulative_tsn = Load32 reader 4;
         streams_skipped = variable_data_size reader div kSkippedIStreamBufferSize
     in obind (load_array kSkippedIStreamBufferSize skipped_istream_load streams_skipped 0 reader) (\<lambda>skipped_streams.
        Value \<lparr>aft_new_cumulative_tsn = new_cumulative_tsn, aft_skipped_streams = skipped_streams\<rparr>))"

definition IForwardTsnChunk_SerializeTo :: "AnyForwardTsnChunk \<Rightarrow> bytes \<Rightarrow> bytes outcome" where
  "IForwardTsnChunk_SerializeTo c out =
     (let skipped = aft_skipped_streams c;
          variable_size = length skipped * kSkippedIStreamBufferSize
      in obind (AllocateTLV IForwardTsnChunkConfig out variable_size) (\<lambda>writer.
         let writer = Store32 4 (aft_new_cumulative_tsn c) writer in
         obind (store_array kSkippedIStreamBufferSize skipped_istream_store skipped 0 writer) (\<lambda>writer.
         Value (written writer))))"

definition IForwardTsnChunk_wire :: "AnyForwardTsnChunk \<Rightarrow> AnyForwardTsnChunk" where
  "IForwardTsnChunk_wire c = c\<lparr>aft_skipped_streams := map skipped_istream_wire (aft_skipped_streams c)\<rparr>"

lemmas IForwardTsnChunk_defs =
  IForwardTsnChunk_Parse_def IForwardTsnChunk_SerializeTo_def IForwardTsnChunk_wire_def
  IForwardTsnChunkConfig_def kSkippedIStreamBufferSize_def

interpretation iforward_tsn_codec: tlv_codec IForwardTsnChunkConfig IForwardTsnChunk_Parse IForwardTsnChunk_SerializeTo
  "\<lambda>c. length (aft_skipped_streams c) < 8191" IForwardTsnChunk_wire
proof (rule tlv_codecI, goal_cases)
  case (2 data)
  show ?case
    unfolding IForwardTsnChunk_Parse_def Let_def
    by (intro ParseTLV_obind_returns obind_returns load_array_all_returns)
      (simp_all add: IForwardTsnChunk_defs codec_proof_simps)
next
  case (3 x)
  let ?ss = "aft_skipped_streams x"
  let ?e = "StoreBigEndian32 4 (aft_new_cumulative_tsn x)
    (tlv_blank IForwardTsnChunkConfig (length ?ss * kSkippedIStreamBufferSize))"
  obtain d where "\<And>out. store_array kSkippedIStreamBufferSize skipped_istream_store ?ss 0
        \<lparr>writer_before = out, writer_fixed_size = 8, writer_data = ?e\<rparr> =
      Value \<lparr>writer_before = out, writer_fixed_size = 8, writer_data = d\<rparr>"
    "length d = length ?e" "framed IForwardTsnChunkConfig d"
    "\<And>i. i + 3 < 8 \<Longrightarrow> LoadBigEndian32 d i = LoadBigEndian32 ?e i"
    "load_array kSkippedIStreamBufferSize skipped_istream_load (length ?ss) 0
       \<lparr>reader_fixed_size = 8, reader_data = d\<rparr> = Value (map skipped_istream_wire ?ss)"
    by (rule skipped_istream_element.framed_array [of IForwardTsnChunkConfig ?e 8 ?ss])
      (simp_all add: IForwardTsnChunk_defs codec_proof_simps)
  with 3 show ?case
    by (intro exI [of _ d]) (simp add: IForwardTsnChunk_defs codec_proof_simps Store32_def Let_def)
qed (simp add: IForwardTsnChunk_defs codec_proof_simps)

section \<open>SACK\<close>

definition SackChunkConfig :: tlv_config where
  "SackChunkConfig =
     \<lparr>kType = 3, kTypeSizeInBytes = 1, kHeaderSize = 16, kVariableLengthAlignment = 4\<rparr>"

record GapAckBlock =
  gab_start :: u16
  gab_end :: u16

record SackChunk =
  sack_cumulative_tsn_ack :: u32
  sack_a_rwnd :: u32
  sack_gap_ack_blocks :: "GapAckBlock list"
  sack_duplicate_tsns :: "u32 set"

definition kGapAckBlockSize :: nat where
  "kGapAckBlockSize = 4"

definition kDupTsnBlockSize :: nat where
  "kDupTsnBlockSize = 4"

definition gap_ack_block_load :: "bounded_byte_reader \<Rightarrow> GapAckBlock" where
  "gap_ack_block_load sub = \<lparr>gab_start = Load16 sub 0, gab_end = Load16 sub 2\<rparr>"

definition gap_ack_block_store :: "GapAckBlock \<Rightarrow> bounded_byte_writer \<Rightarrow> bounded_byte_writer" where
  "gap_ack_block_store b sub = Store16 2 (gab_end b) (Store16 0 (gab_start b) sub)"

interpretation gap_ack_block_element: element_codec kGapAckBlockSize
  gap_ack_block_store gap_ack_block_load "\<lambda>b. b"
  by unfold_locales
    (simp_all add: codec_proof_simps kGapAckBlockSize_def gap_ack_block_load_def
      gap_ack_block_store_def)

interpretation dup_tsn_element: element_codec kDupTsnBlockSize "Store32 0" "\<lambda>sub. Load32 sub 0" "\<lambda>t. t"
  by unfold_locales (simp_all add: codec_proof_simps kDupTsnBlockSize_def)

text \<open>\<open>std::set<TSN>\<close> holds each number once and is iterated in ascending order.\<close>

definition SackChunk_Parse :: "bytes \<Rightarrow> SackChunk outcome" where
  "SackChunk_Parse data =
     obind (ParseTLV SackChunkConfig data) (\<lambda>reader.
     let tsn_ack = Load32 reader 4;
         a_rwnd = Load32 reader 8;
         nbr_of_gap_blocks = unat (Load16 reader 12);
         nbr_of_dup_tsns = unat (Load16 reader 14)
     in if variable_data_size reader \<noteq>
           nbr_of_gap_blocks * kGapAckBlockSize + nbr_of_dup_tsns * kDupTsnBlockSize
        then Nullopt
        else obind (load_array kGapAckBlockSize gap_ack_block_load nbr_of_gap_blocks 0 reader)
          (\<lambda>gap_ack_blocks.
          obind (load_array kDupTsnBlockSize (\<lambda>sub. Load32 sub 0) nbr_of_dup_tsns
            (nbr_of_gap_blocks * kGapAckBlockSize) reader) (\<lambda>duplicate_tsns.
          Value \<lparr>sack_cumulative_tsn_ack = tsn_ack, sack_a_rwnd = a_rwnd,
                 sack_gap_ack_blocks = gap_ack_blocks, sack_duplicate_tsns = set duplicate_tsns\<rparr>)))"

definition SackChunk_SerializeTo :: "SackChunk \<Rightarrow> bytes \<Rightarrow> bytes outcome" where
  "SackChunk_SerializeTo c out =
     (let dups = sorted_list_of_set (sack_duplicate_tsns c);
          nbr_of_gap_blocks = length (sack_gap_ack_blocks c);
          nbr_of_dup_tsns = length dups;
          variable_size = nbr_of_gap_blocks * kGapAckBlockSize + nbr_of_dup_tsns * kDupTsnBlockSize
      in obind (AllocateTLV SackChunkConfig out variable_size) (\<lambda>writer.
         let writer = Store32 4 (sack_cumulative_tsn_ack c) writer;
             writer = Store32 8 (sack_a_rwnd c) writer;
             writer = Store16 12 (of_nat nbr_of_gap_blocks) writer;
             writer = Store16 14 (of_nat nbr_of_dup_tsns) writer
         in obind (store_array kGapAckBlockSize gap_ack_block_store (sack_gap_ack_blocks c) 0 writer)
              (\<lambda>writer.
            obind (store_array kDupTsnBlockSize (Store32 0) dups
              (nbr_of_gap_blocks * kGapAckBlockSize) writer) (\<lambda>writer.
            Value (written writer)))))"

lemmas SackChunk_defs =
  SackChunk_Parse_def SackChunk_SerializeTo_def SackChunkConfig_def kGapAckBlockSize_def
  kDupTsnBlockSize_def

definition SackChunk_ok :: "SackChunk \<Rightarrow> bool" where
  "SackChunk_ok c \<longleftrightarrow>
     length (sack_gap_ack_blocks c) + card (sack_duplicate_tsns c) < 16380"

lemma SackChunk_Parse_returns: "returns (SackChunk_Parse data)"
  unfolding SackChunk_Parse_def Let_def
  by (intro ParseTLV_obind_returns obind_returns returns_if load_array_returns)
    (auto simp: SackChunk_defs codec_proof_simps)

text \<open>The fixed header of a SACK, before its two arrays are filled in.\<close>

definition sack_blank :: "SackChunk \<Rightarrow> u32 list \<Rightarrow> bytes" where
  "sack_blank c dups =
     StoreBigEndian16 14 (of_nat (length dups))
       (StoreBigEndian16 12 (of_nat (length (sack_gap_ack_blocks c)))
         (StoreBigEndian32 8 (sack_a_rwnd c)
           (StoreBigEndian32 4 (sack_cumulative_tsn_ack c)
             (tlv_blank SackChunkConfig (4 * length (sack_gap_ack_blocks c) + 4 * length dups)))))"

lemma sack_blank_props:
  "length (sack_blank c dups) = 16 + 4 * length (sack_gap_ack_blocks c) + 4 * length dups"
  "framed SackChunkConfig (sack_blank c dups)"
  "LoadBigEndian32 (sack_blank c dups) 4 = sack_cumulative_tsn_ack c"
  "LoadBigEndian32 (sack_blank c dups) 8 = sack_a_rwnd c"
  "LoadBigEndian16 (sack_blank c dups) 12 = of_nat (length (sack_gap_ack_blocks c))"
  "LoadBigEndian16 (sack_blank c dups) 14 = of_nat (length dups)"
  by (simp_all add: sack_blank_def SackChunkConfig_def codec_proof_simps)

text \<open>Both arrays, one behind the other.\<close>

lemma sack_arrays:
  fixes gaps :: "GapAckBlock list" and dups :: "u32 list"
  assumes "length e = 16 + 4 * length gaps + 4 * length dups"
  obtains d where "\<And>out. obind (store_array kGapAckBlockSize gap_ack_block_store gaps 0
        \<lparr>writer_before = out, writer_fixed_size = 16, writer_data = e\<rparr>)
      (store_array kDupTsnBlockSize (Store32 0) dups (length gaps * kGapAckBlockSize)) =
      Value \<lparr>writer_before = out, writer_fixed_size = 16, writer_data = take 16 e @ d\<rparr>"
    and "length d = 4 * length gaps + 4 * length dups"
    and "\<And>pre. length pre = 16 \<Longrightarrow> load_array kGapAckBlockSize gap_ack_block_load (length gaps) 0
        \<lparr>reader_fixed_size = 16, reader_data = pre @ d\<rparr> = Value gaps"
    and "\<And>pre. length pre = 16 \<Longrightarrow> load_array kDupTsnBlockSize (\<lambda>sub. Load32 sub 0) (length dups)
        (length gaps * kGapAckBlockSize) \<lparr>reader_fixed_size = 16, reader_data = pre @ d\<rparr> = Value dups"
proof -
  have "16 + 0 + length gaps * kGapAckBlockSize \<le> length e"
    using assms by (simp add: kGapAckBlockSize_def)
  from gap_ack_block_element.store_array_at [OF this] obtain g where
    g: "\<And>out. store_array kGapAckBlockSize gap_ack_block_store gaps 0
        \<lparr>writer_before = out, writer_fixed_size = 16, writer_data = e\<rparr> =
      Value \<lparr>writer_before = out, writer_fixed_size = 16, writer_data =
        take (16 + 0) e @ g @ drop (16 + 0 + length gaps * kGapAckBlockSize) e\<rparr>"
      "length g = length gaps * kGapAckBlockSize"
      "\<And>pre post. length pre = 16 + 0 \<Longrightarrow> load_array kGapAckBlockSize gap_ack_block_load (length gaps) 0
        \<lparr>reader_fixed_size = 16, reader_data = pre @ g @ post\<rparr> = Value (map (\<lambda>b. b) gaps)" by blast
  let ?e = "take (16 + 0) e @ g @ drop (16 + 0 + length gaps * kGapAckBlockSize) e"
  have "16 + length gaps * kGapAckBlockSize + length dups * kDupTsnBlockSize \<le> length ?e"
    using assms g(2) by (simp add: kGapAckBlockSize_def kDupTsnBlockSize_def)
  from dup_tsn_element.store_array_at [OF this] obtain t where
    t: "\<And>out. store_array kDupTsnBlockSize (Store32 0) dups (length gaps * kGapAckBlockSize)
        \<lparr>writer_before = out, writer_fixed_size = 16, writer_data = ?e\<rparr> =
      Value \<lparr>writer_before = out, writer_fixed_size = 16, writer_data =
        take (16 + length gaps * kGapAckBlockSize) ?e @ t @
        drop (16 + length gaps * kGapAckBlockSize + length dups * kDupTsnBlockSize) ?e\<rparr>"
      "length t = length dups * kDupTsnBlockSize"
      "\<And>pre post. length pre = 16 + length gaps * kGapAckBlockSize \<Longrightarrow>
        load_array kDupTsnBlockSize (\<lambda>sub. Load32 sub 0) (length dups) (length gaps * kGapAckBlockSize)
        \<lparr>reader_fixed_size = 16, reader_data = pre @ t @ post\<rparr> = Value (map (\<lambda>t. t) dups)" by blast
  show thesis
  proof (rule that [of "g @ t"])
    show "load_array kDupTsnBlockSize (\<lambda>sub. Load32 sub 0) (length dups) (length gaps * kGapAckBlockSize)
        \<lparr>reader_fixed_size = 16, reader_data = pre @ g @ t\<rparr> = Value dups" if "length pre = 16" for pre
      using t(3) [of "pre @ g" "[]"] g(2) that by simp
  qed (use g t(1,2) assms in \<open>simp_all add: kGapAckBlockSize_def kDupTsnBlockSize_def\<close>)
qed

lemma SackChunk_SerializeTo_eq:
  "SackChunk_SerializeTo c out =
    (let dups = sorted_list_of_set (sack_duplicate_tsns c) in
     obind (obind (store_array kGapAckBlockSize gap_ack_block_store (sack_gap_ack_blocks c) 0
         \<lparr>writer_before = out, writer_fixed_size = 16, writer_data = sack_blank c dups\<rparr>)
       (store_array kDupTsnBlockSize (Store32 0) dups (length (sack_gap_ack_blocks c) * kGapAckBlockSize)))
     (\<lambda>writer. Value (written writer)))"
  by (simp add: SackChunk_defs sack_blank_def obind_assoc codec_proof_simps Store16_def Store32_def
      Let_def mult.commute)

interpretation sack_codec: tlv_codec SackChunkConfig SackChunk_Parse SackChunk_SerializeTo
  SackChunk_ok "\<lambda>c. c"
proof (rule tlv_codecI, goal_cases)
  case (3 x)
  let ?gaps = "sack_gap_ack_blocks x" and ?dups = "sorted_list_of_set (sack_duplicate_tsns x)"
  let ?fixed = "take 16 (sack_blank x ?dups)"
  note blank = sack_blank_props [of x ?dups]
  have fin: "finite (sack_duplicate_tsns x)"
    by (rule finite)
  have ok: "length ?gaps + length ?dups < 16380"
    using 3 by (simp add: SackChunk_ok_def)
  obtain d where d: "\<And>out. obind (store_array kGapAckBlockSize gap_ack_block_store ?gaps 0
        \<lparr>writer_before = out, writer_fixed_size = 16, writer_data = sack_blank x ?dups\<rparr>)
      (store_array kDupTsnBlockSize (Store32 0) ?dups (length ?gaps * kGapAckBlockSize)) =
      Value \<lparr>writer_before = out, writer_fixed_size = 16, writer_data = ?fixed @ d\<rparr>"
    "length d = 4 * length ?gaps + 4 * length ?dups"
    "\<And>pre. length pre = 16 \<Longrightarrow> load_array kGapAckBlockSize gap_ack_block_load (length ?gaps) 0
        \<lparr>reader_fixed_size = 16, reader_data = pre @ d\<rparr> = Value ?gaps"
    "\<And>pre. length pre = 16 \<Longrightarrow> load_array kDupTsnBlockSize (\<lambda>sub. Load32 sub 0) (length ?dups)
        (length ?gaps * kGapAckBlockSize) \<lparr>reader_fixed_size = 16, reader_data = pre @ d\<rparr> = Value ?dups"
    using sack_arrays [OF blank(1)] by blast
  have "framed SackChunkConfig (?fixed @ d)"
    using blank(1,2) d(2) by (intro framed_copy) (simp_all add: SackChunkConfig_def)
  moreover have "SackChunk_Parse data = Value x"
    if "ParseTLV SackChunkConfig data = Value \<lparr>reader_fixed_size = 16, reader_data = ?fixed @ d\<rparr>" for data
    using that d(2-4) blank ok fin
    by (simp add: SackChunk_Parse_def codec_proof_simps unat_of_nat_word_eq Let_def
        kGapAckBlockSize_def kDupTsnBlockSize_def)
  ultimately show ?case
    using d(1,2) blank(1) ok fin
    by (intro exI [of _ "?fixed @ d"])
      (simp add: SackChunk_SerializeTo_eq SackChunkConfig_def written_def Let_def)
qed (simp_all add: SackChunk_Parse_returns SackChunkConfig_def codec_proof_simps)

end
