(* ===== verification/Parameters.thy ===== *)
theory Parameters
  imports Tlv
begin

text \<open>
  The parameters of \<open>net/dcsctp/packet/parameter\<close>: for each class its configuration, its fields,
  \<open>Parse\<close> and \<open>SerializeTo\<close>, and an interpretation of the codec contract, whose \<open>ok\<close> says when
  the sixteen-bit length field can hold the size of the object.
\<close>

section \<open>Heartbeat info\<close>

definition HeartbeatInfoParameterConfig :: tlv_config where
  "HeartbeatInfoParameterConfig =
     \<lparr>kType = 1, kTypeSizeInBytes = 2, kHeaderSize = 4, kVariableLengthAlignment = 1\<rparr>"

record HeartbeatInfoParameter =
  hbi_info :: bytes

definition HeartbeatInfoParameter_Parse :: "bytes \<Rightarrow> HeartbeatInfoParameter outcome" where
  "HeartbeatInfoParameter_Parse data =
     obind (ParseTLV HeartbeatInfoParameterConfig data) (\<lambda>reader.
     Value \<lparr>hbi_info = variable_data reader\<rparr>)"

definition HeartbeatInfoParameter_SerializeTo :: "HeartbeatInfoParameter \<Rightarrow> bytes \<Rightarrow> bytes outcome" where
  "HeartbeatInfoParameter_SerializeTo p out =
     obind (AllocateTLV HeartbeatInfoParameterConfig out (length (hbi_info p))) (\<lambda>writer.
     Value (written (CopyToVariableData (hbi_info p) writer)))"

interpretation heartbeat_info_codec: tlv_codec HeartbeatInfoParameterConfig
  HeartbeatInfoParameter_Parse HeartbeatInfoParameter_SerializeTo
  "\<lambda>p. length (hbi_info p) < 65532" "\<lambda>p. p"
  by (rule tlv_codecI)
    (simp_all add: HeartbeatInfoParameter_Parse_def HeartbeatInfoParameter_SerializeTo_def
      HeartbeatInfoParameterConfig_def codec_proof_simps)

section \<open>State cookie\<close>

definition StateCookieParameterConfig :: tlv_config where
  "StateCookieParameterConfig =
     \<lparr>kType = 7, kTypeSizeInBytes = 2, kHeaderSize = 4, kVariableLengthAlignment = 1\<rparr>"

record StateCookieParameter =
  scp_data :: bytes

definition StateCookieParameter_Parse :: "bytes \<Rightarrow> StateCookieParameter outcome" where
  "StateCookieParameter_Parse data =
     obind (ParseTLV StateCookieParameterConfig data) (\<lambda>reader.
     Value \<lparr>scp_data = variable_data reader\<rparr>)"

definition StateCookieParameter_SerializeTo :: "StateCookieParameter \<Rightarrow> bytes \<Rightarrow> bytes outcome" where
  "StateCookieParameter_SerializeTo p out =
     obind (AllocateTLV StateCookieParameterConfig out (length (scp_data p))) (\<lambda>writer.
     Value (written (CopyToVariableData (scp_data p) writer)))"

interpretation state_cookie_codec: tlv_codec StateCookieParameterConfig
  StateCookieParameter_Parse StateCookieParameter_SerializeTo
  "\<lambda>p. length (scp_data p) < 65532" "\<lambda>p. p"
  by (rule tlv_codecI)
    (simp_all add: StateCookieParameter_Parse_def StateCookieParameter_SerializeTo_def
      StateCookieParameterConfig_def codec_proof_simps)

section \<open>Supported extensions\<close>

definition SupportedExtensionsParameterConfig :: tlv_config where
  "SupportedExtensionsParameterConfig =
     \<lparr>kType = 0x8008, kTypeSizeInBytes = 2, kHeaderSize = 4, kVariableLengthAlignment = 1\<rparr>"

record SupportedExtensionsParameter =
  sep_chunk_types :: bytes

definition SupportedExtensionsParameter_Parse :: "bytes \<Rightarrow> SupportedExtensionsParameter outcome" where
  "SupportedExtensionsParameter_Parse data =
     obind (ParseTLV SupportedExtensionsParameterConfig data) (\<lambda>reader.
     Value \<lparr>sep_chunk_types = variable_data reader\<rparr>)"

definition SupportedExtensionsParameter_SerializeTo :: "SupportedExtensionsParameter \<Rightarrow> bytes \<Rightarrow> bytes outcome" where
  "SupportedExtensionsParameter_SerializeTo p out =
     obind (AllocateTLV SupportedExtensionsParameterConfig out (length (sep_chunk_types p))) (\<lambda>writer.
     Value (written (CopyToVariableData (sep_chunk_types p) writer)))"

interpretation supported_extensions_codec: tlv_codec SupportedExtensionsParameterConfig
  SupportedExtensionsParameter_Parse SupportedExtensionsParameter_SerializeTo
  "\<lambda>p. length (sep_chunk_types p) < 65532" "\<lambda>p. p"
  by (rule tlv_codecI)
    (simp_all add: SupportedExtensionsParameter_Parse_def SupportedExtensionsParameter_SerializeTo_def
      SupportedExtensionsParameterConfig_def codec_proof_simps)

definition SupportedExtensionsParameter_supports :: "SupportedExtensionsParameter \<Rightarrow> u8 \<Rightarrow> bool" where
  "SupportedExtensionsParameter_supports p chunk_type \<longleftrightarrow> chunk_type \<in> set (sep_chunk_types p)"

section \<open>Forward TSN supported\<close>

definition ForwardTsnSupportedParameterConfig :: tlv_config where
  "ForwardTsnSupportedParameterConfig =
     \<lparr>kType = 49152, kTypeSizeInBytes = 2, kHeaderSize = 4, kVariableLengthAlignment = 0\<rparr>"

datatype ForwardTsnSupportedParameter = ForwardTsnSupportedParameter

definition ForwardTsnSupportedParameter_Parse :: "bytes \<Rightarrow> ForwardTsnSupportedParameter outcome" where
  "ForwardTsnSupportedParameter_Parse data = obind (ParseTLV ForwardTsnSupportedParameterConfig data) (\<lambda>_. Value ForwardTsnSupportedParameter)"

fun ForwardTsnSupportedParameter_SerializeTo :: "ForwardTsnSupportedParameter \<Rightarrow> bytes \<Rightarrow> bytes outcome" where
  "ForwardTsnSupportedParameter_SerializeTo ForwardTsnSupportedParameter out =
     obind (AllocateTLV ForwardTsnSupportedParameterConfig out 0) (\<lambda>writer. Value (written writer))"

interpretation forward_tsn_supported_codec: tlv_codec ForwardTsnSupportedParameterConfig
  ForwardTsnSupportedParameter_Parse ForwardTsnSupportedParameter_SerializeTo
  "\<lambda>_. True" "\<lambda>c. c"
proof (rule tlv_codecI, goal_cases)
  case (3 x)
  then show ?case
    by (cases x) (simp add: ForwardTsnSupportedParameter_Parse_def ForwardTsnSupportedParameterConfig_def codec_proof_simps)
qed (simp_all add: ForwardTsnSupportedParameter_Parse_def ForwardTsnSupportedParameterConfig_def codec_proof_simps)

section \<open>Zero checksum acceptable\<close>

definition ZeroChecksumAlternateErrorDetectionMethod_None :: u32 where
  "ZeroChecksumAlternateErrorDetectionMethod_None = 0"

definition ZeroChecksumAcceptableChunkParameterConfig :: tlv_config where
  "ZeroChecksumAcceptableChunkParameterConfig =
     \<lparr>kType = 0x8001, kTypeSizeInBytes = 2, kHeaderSize = 8, kVariableLengthAlignment = 0\<rparr>"

record ZeroChecksumAcceptableChunkParameter =
  zca_error_detection_method :: u32

definition ZeroChecksumAcceptableChunkParameter_Parse :: "bytes \<Rightarrow> ZeroChecksumAcceptableChunkParameter outcome" where
  "ZeroChecksumAcceptableChunkParameter_Parse data =
     obind (ParseTLV ZeroChecksumAcceptableChunkParameterConfig data) (\<lambda>reader.
     if Load32 reader 4 = ZeroChecksumAlternateErrorDetectionMethod_None then Nullopt
     else Value \<lparr>zca_error_detection_method = Load32 reader 4\<rparr>)"

definition ZeroChecksumAcceptableChunkParameter_SerializeTo :: "ZeroChecksumAcceptableChunkParameter \<Rightarrow> bytes \<Rightarrow> bytes outcome" where
  "ZeroChecksumAcceptableChunkParameter_SerializeTo p out =
     obind (AllocateTLV ZeroChecksumAcceptableChunkParameterConfig out 0) (\<lambda>writer.
     Value (written (Store32 4 (zca_error_detection_method p) writer)))"

interpretation zero_checksum_codec: tlv_codec ZeroChecksumAcceptableChunkParameterConfig
  ZeroChecksumAcceptableChunkParameter_Parse ZeroChecksumAcceptableChunkParameter_SerializeTo
  "\<lambda>p. zca_error_detection_method p \<noteq> ZeroChecksumAlternateErrorDetectionMethod_None" "\<lambda>p. p"
  by (rule tlv_codecI)
    (simp_all add: ZeroChecksumAcceptableChunkParameter_Parse_def ZeroChecksumAcceptableChunkParameter_SerializeTo_def
      ZeroChecksumAcceptableChunkParameterConfig_def codec_proof_simps)

section \<open>Add incoming streams request\<close>

definition AddIncomingStreamsRequestParameterConfig :: tlv_config where
  "AddIncomingStreamsRequestParameterConfig =
     \<lparr>kType = 18, kTypeSizeInBytes = 2, kHeaderSize = 12, kVariableLengthAlignment = 0\<rparr>"

record AddIncomingStreamsRequestParameter =
  ain_request_sequence_number :: u32
  ain_nbr_of_new_streams :: u16

definition AddIncomingStreamsRequestParameter_Parse :: "bytes \<Rightarrow> AddIncomingStreamsRequestParameter outcome" where
  "AddIncomingStreamsRequestParameter_Parse data =
     obind (ParseTLV AddIncomingStreamsRequestParameterConfig data) (\<lambda>reader.
     Value \<lparr>ain_request_sequence_number = Load32 reader 4,
        ain_nbr_of_new_streams = Load16 reader 8\<rparr>)"

definition AddIncomingStreamsRequestParameter_SerializeTo :: "AddIncomingStreamsRequestParameter \<Rightarrow> bytes \<Rightarrow> bytes outcome" where
  "AddIncomingStreamsRequestParameter_SerializeTo p out =
     obind (AllocateTLV AddIncomingStreamsRequestParameterConfig out 0) (\<lambda>writer.
     Value (written (Store16 8 (ain_nbr_of_new_streams p) (Store32 4 (ain_request_sequence_number p) writer))))"

interpretation add_incoming_codec: tlv_codec AddIncomingStreamsRequestParameterConfig
  AddIncomingStreamsRequestParameter_Parse AddIncomingStreamsRequestParameter_SerializeTo
  "\<lambda>p. True" "\<lambda>p. p"
  by (rule tlv_codecI)
    (simp_all add: AddIncomingStreamsRequestParameter_Parse_def AddIncomingStreamsRequestParameter_SerializeTo_def
      AddIncomingStreamsRequestParameterConfig_def codec_proof_simps)

section \<open>Add outgoing streams request\<close>

definition AddOutgoingStreamsRequestParameterConfig :: tlv_config where
  "AddOutgoingStreamsRequestParameterConfig =
     \<lparr>kType = 17, kTypeSizeInBytes = 2, kHeaderSize = 12, kVariableLengthAlignment = 0\<rparr>"

record AddOutgoingStreamsRequestParameter =
  aout_request_sequence_number :: u32
  aout_nbr_of_new_streams :: u16

definition AddOutgoingStreamsRequestParameter_Parse :: "bytes \<Rightarrow> AddOutgoingStreamsRequestParameter outcome" where
  "AddOutgoingStreamsRequestParameter_Parse data =
     obind (ParseTLV AddOutgoingStreamsRequestParameterConfig data) (\<lambda>reader.
     Value \<lparr>aout_request_sequence_number = Load32 reader 4,
        aout_nbr_of_new_streams = Load16 reader 8\<rparr>)"

definition AddOutgoingStreamsRequestParameter_SerializeTo :: "AddOutgoingStreamsRequestParameter \<Rightarrow> bytes \<Rightarrow> bytes outcome" where
  "AddOutgoingStreamsRequestParameter_SerializeTo p out =
     obind (AllocateTLV AddOutgoingStreamsRequestParameterConfig out 0) (\<lambda>writer.
     Value (written (Store16 8 (aout_nbr_of_new_streams p) (Store32 4 (aout_request_sequence_number p) writer))))"

interpretation add_outgoing_codec: tlv_codec AddOutgoingStreamsRequestParameterConfig
  AddOutgoingStreamsRequestParameter_Parse AddOutgoingStreamsRequestParameter_SerializeTo
  "\<lambda>p. True" "\<lambda>p. p"
  by (rule tlv_codecI)
    (simp_all add: AddOutgoingStreamsRequestParameter_Parse_def AddOutgoingStreamsRequestParameter_SerializeTo_def
      AddOutgoingStreamsRequestParameterConfig_def codec_proof_simps)

section \<open>SSN/TSN reset request\<close>

definition SSNTSNResetRequestParameterConfig :: tlv_config where
  "SSNTSNResetRequestParameterConfig =
     \<lparr>kType = 15, kTypeSizeInBytes = 2, kHeaderSize = 8, kVariableLengthAlignment = 0\<rparr>"

record SSNTSNResetRequestParameter =
  str_request_sequence_number :: u32

definition SSNTSNResetRequestParameter_Parse :: "bytes \<Rightarrow> SSNTSNResetRequestParameter outcome" where
  "SSNTSNResetRequestParameter_Parse data =
     obind (ParseTLV SSNTSNResetRequestParameterConfig data) (\<lambda>reader.
     Value \<lparr>str_request_sequence_number = Load32 reader 4\<rparr>)"

definition SSNTSNResetRequestParameter_SerializeTo :: "SSNTSNResetRequestParameter \<Rightarrow> bytes \<Rightarrow> bytes outcome" where
  "SSNTSNResetRequestParameter_SerializeTo p out =
     obind (AllocateTLV SSNTSNResetRequestParameterConfig out 0) (\<lambda>writer.
     Value (written (Store32 4 (str_request_sequence_number p) writer)))"

interpretation ssn_tsn_reset_codec: tlv_codec SSNTSNResetRequestParameterConfig
  SSNTSNResetRequestParameter_Parse SSNTSNResetRequestParameter_SerializeTo
  "\<lambda>p. True" "\<lambda>p. p"
  by (rule tlv_codecI)
    (simp_all add: SSNTSNResetRequestParameter_Parse_def SSNTSNResetRequestParameter_SerializeTo_def
      SSNTSNResetRequestParameterConfig_def codec_proof_simps)

section \<open>Stream identifiers in a reset request\<close>

definition kStreamIdSize :: nat where
  "kStreamIdSize = 2"

interpretation stream_id_element: element_codec kStreamIdSize "Store16 0" "\<lambda>r. Load16 r 0" "\<lambda>x. x"
  by unfold_locales (simp_all add: codec_proof_simps kStreamIdSize_def)

section \<open>Incoming SSN reset request\<close>

definition IncomingSSNResetRequestParameterConfig :: tlv_config where
  "IncomingSSNResetRequestParameterConfig =
     \<lparr>kType = 14, kTypeSizeInBytes = 2, kHeaderSize = 8, kVariableLengthAlignment = 2\<rparr>"

record IncomingSSNResetRequestParameter =
  issn_request_sequence_number :: u32
  issn_stream_ids :: "u16 list"

definition IncomingSSNResetRequestParameter_Parse ::
  "bytes \<Rightarrow> IncomingSSNResetRequestParameter outcome" where
  "IncomingSSNResetRequestParameter_Parse data =
     obind (ParseTLV IncomingSSNResetRequestParameterConfig data) (\<lambda>reader.
     let stream_count = variable_data_size reader div kStreamIdSize in
     obind (load_array kStreamIdSize (\<lambda>sub. Load16 sub 0) stream_count 0 reader) (\<lambda>stream_ids.
     Value \<lparr>issn_request_sequence_number = Load32 reader 4, issn_stream_ids = stream_ids\<rparr>))"

definition IncomingSSNResetRequestParameter_SerializeTo ::
  "IncomingSSNResetRequestParameter \<Rightarrow> bytes \<Rightarrow> bytes outcome" where
  "IncomingSSNResetRequestParameter_SerializeTo p out =
     (let variable_size = length (issn_stream_ids p) * kStreamIdSize in
      obind (AllocateTLV IncomingSSNResetRequestParameterConfig out variable_size) (\<lambda>writer.
      let writer = Store32 4 (issn_request_sequence_number p) writer in
      obind (store_array kStreamIdSize (Store16 0) (issn_stream_ids p) 0 writer) (\<lambda>writer.
      Value (written writer))))"

lemmas IncomingSSNResetRequestParameter_defs =
  IncomingSSNResetRequestParameter_Parse_def IncomingSSNResetRequestParameter_SerializeTo_def
  IncomingSSNResetRequestParameterConfig_def kStreamIdSize_def

interpretation incoming_ssn_reset_codec: tlv_codec IncomingSSNResetRequestParameterConfig
  IncomingSSNResetRequestParameter_Parse IncomingSSNResetRequestParameter_SerializeTo
  "\<lambda>p. length (issn_stream_ids p) < 32764" "\<lambda>p. p"
proof (rule tlv_codecI, goal_cases)
  case (2 data)
  show ?case
    unfolding IncomingSSNResetRequestParameter_Parse_def Let_def
    by (intro ParseTLV_obind_returns obind_returns load_array_all_returns)
      (simp_all add: IncomingSSNResetRequestParameter_defs codec_proof_simps)
next
  case (3 x)
  let ?e = "StoreBigEndian32 4 (issn_request_sequence_number x)
      (tlv_blank IncomingSSNResetRequestParameterConfig (length (issn_stream_ids x) * kStreamIdSize))"
  obtain d where d: "\<And>out. store_array kStreamIdSize (Store16 0) (issn_stream_ids x) 0
        \<lparr>writer_before = out, writer_fixed_size = 8, writer_data = ?e\<rparr> =
      Value \<lparr>writer_before = out, writer_fixed_size = 8, writer_data = d\<rparr>"
    "length d = length ?e" "framed IncomingSSNResetRequestParameterConfig d"
    "\<And>i. i + 3 < 8 \<Longrightarrow> LoadBigEndian32 d i = LoadBigEndian32 ?e i"
    "load_array kStreamIdSize (\<lambda>sub. Load16 sub 0) (length (issn_stream_ids x)) 0
       \<lparr>reader_fixed_size = 8, reader_data = d\<rparr> = Value (issn_stream_ids x)"
    by (rule stream_id_element.framed_array [of IncomingSSNResetRequestParameterConfig ?e 8 "issn_stream_ids x"])
      (simp_all add: IncomingSSNResetRequestParameter_defs codec_proof_simps)
  with 3 show ?case
    by (intro exI [of _ d])
      (simp add: IncomingSSNResetRequestParameter_defs codec_proof_simps Store16_def Store32_def Let_def)
qed (simp add: IncomingSSNResetRequestParameter_defs codec_proof_simps)

section \<open>Outgoing SSN reset request\<close>

definition OutgoingSSNResetRequestParameterConfig :: tlv_config where
  "OutgoingSSNResetRequestParameterConfig =
     \<lparr>kType = 13, kTypeSizeInBytes = 2, kHeaderSize = 16, kVariableLengthAlignment = 2\<rparr>"

record OutgoingSSNResetRequestParameter =
  ossn_request_sequence_number :: u32
  ossn_response_sequence_number :: u32
  ossn_sender_last_assigned_tsn :: u32
  ossn_stream_ids :: "u16 list"

definition OutgoingSSNResetRequestParameter_Parse ::
  "bytes \<Rightarrow> OutgoingSSNResetRequestParameter outcome" where
  "OutgoingSSNResetRequestParameter_Parse data =
     obind (ParseTLV OutgoingSSNResetRequestParameterConfig data) (\<lambda>reader.
     let stream_count = variable_data_size reader div kStreamIdSize in
     obind (load_array kStreamIdSize (\<lambda>sub. Load16 sub 0) stream_count 0 reader) (\<lambda>stream_ids.
     Value \<lparr>ossn_request_sequence_number = Load32 reader 4, ossn_response_sequence_number = Load32 reader 8, ossn_sender_last_assigned_tsn = Load32 reader 12, ossn_stream_ids = stream_ids\<rparr>))"

definition OutgoingSSNResetRequestParameter_SerializeTo ::
  "OutgoingSSNResetRequestParameter \<Rightarrow> bytes \<Rightarrow> bytes outcome" where
  "OutgoingSSNResetRequestParameter_SerializeTo p out =
     (let variable_size = length (ossn_stream_ids p) * kStreamIdSize in
      obind (AllocateTLV OutgoingSSNResetRequestParameterConfig out variable_size) (\<lambda>writer.
      let writer = Store32 4 (ossn_request_sequence_number p) writer in
      let writer = Store32 8 (ossn_response_sequence_number p) writer in
      let writer = Store32 12 (ossn_sender_last_assigned_tsn p) writer in
      obind (store_array kStreamIdSize (Store16 0) (ossn_stream_ids p) 0 writer) (\<lambda>writer.
      Value (written writer))))"

lemmas OutgoingSSNResetRequestParameter_defs =
  OutgoingSSNResetRequestParameter_Parse_def OutgoingSSNResetRequestParameter_SerializeTo_def
  OutgoingSSNResetRequestParameterConfig_def kStreamIdSize_def

interpretation outgoing_ssn_reset_codec: tlv_codec OutgoingSSNResetRequestParameterConfig
  OutgoingSSNResetRequestParameter_Parse OutgoingSSNResetRequestParameter_SerializeTo
  "\<lambda>p. length (ossn_stream_ids p) < 32760" "\<lambda>p. p"
proof (rule tlv_codecI, goal_cases)
  case (2 data)
  show ?case
    unfolding OutgoingSSNResetRequestParameter_Parse_def Let_def
    by (intro ParseTLV_obind_returns obind_returns load_array_all_returns)
      (simp_all add: OutgoingSSNResetRequestParameter_defs codec_proof_simps)
next
  case (3 x)
  let ?e = "StoreBigEndian32 12 (ossn_sender_last_assigned_tsn x)
      (StoreBigEndian32 8 (ossn_response_sequence_number x)
      (StoreBigEndian32 4 (ossn_request_sequence_number x)
      (tlv_blank OutgoingSSNResetRequestParameterConfig (length (ossn_stream_ids x) * kStreamIdSize))))"
  obtain d where d: "\<And>out. store_array kStreamIdSize (Store16 0) (ossn_stream_ids x) 0
        \<lparr>writer_before = out, writer_fixed_size = 16, writer_data = ?e\<rparr> =
      Value \<lparr>writer_before = out, writer_fixed_size = 16, writer_data = d\<rparr>"
    "length d = length ?e" "framed OutgoingSSNResetRequestParameterConfig d"
    "\<And>i. i + 3 < 16 \<Longrightarrow> LoadBigEndian32 d i = LoadBigEndian32 ?e i"
    "load_array kStreamIdSize (\<lambda>sub. Load16 sub 0) (length (ossn_stream_ids x)) 0
       \<lparr>reader_fixed_size = 16, reader_data = d\<rparr> = Value (ossn_stream_ids x)"
    by (rule stream_id_element.framed_array [of OutgoingSSNResetRequestParameterConfig ?e 16 "ossn_stream_ids x"])
      (simp_all add: OutgoingSSNResetRequestParameter_defs codec_proof_simps)
  with 3 show ?case
    by (intro exI [of _ d])
      (simp add: OutgoingSSNResetRequestParameter_defs codec_proof_simps Store16_def Store32_def Let_def)
qed (simp add: OutgoingSSNResetRequestParameter_defs codec_proof_simps)

section \<open>Re-configuration response\<close>

definition ReconfigurationResponseParameterConfig :: tlv_config where
  "ReconfigurationResponseParameterConfig =
     \<lparr>kType = 16, kTypeSizeInBytes = 2, kHeaderSize = 12, kVariableLengthAlignment = 4\<rparr>"

datatype ReconfigurationResult =
    kSuccessNothingToDo
  | kSuccessPerformed
  | kDenied
  | kErrorWrongSSN
  | kErrorRequestAlreadyInProgress
  | kErrorBadSequenceNumber
  | kInProgress

fun ReconfigurationResult_value :: "ReconfigurationResult \<Rightarrow> u32" where
  "ReconfigurationResult_value kSuccessNothingToDo = 0"
| "ReconfigurationResult_value kSuccessPerformed = 1"
| "ReconfigurationResult_value kDenied = 2"
| "ReconfigurationResult_value kErrorWrongSSN = 3"
| "ReconfigurationResult_value kErrorRequestAlreadyInProgress = 4"
| "ReconfigurationResult_value kErrorBadSequenceNumber = 5"
| "ReconfigurationResult_value kInProgress = 6"

definition ReconfigurationResult_of :: "u32 \<Rightarrow> ReconfigurationResult outcome" where
  "ReconfigurationResult_of result_nbr =
     (if result_nbr = 0 then Value kSuccessNothingToDo
      else if result_nbr = 1 then Value kSuccessPerformed
      else if result_nbr = 2 then Value kDenied
      else if result_nbr = 3 then Value kErrorWrongSSN
      else if result_nbr = 4 then Value kErrorRequestAlreadyInProgress
      else if result_nbr = 5 then Value kErrorBadSequenceNumber
      else if result_nbr = 6 then Value kInProgress
      else Nullopt)"

lemma ReconfigurationResult_of_value [simp]:
  "ReconfigurationResult_of (ReconfigurationResult_value r) = Value r"
  by (cases r) (simp_all add: ReconfigurationResult_of_def)

lemma ReconfigurationResult_of_returns [simp]: "returns (ReconfigurationResult_of n)"
  by (simp add: ReconfigurationResult_of_def)

record ReconfigurationResponseParameter =
  rr_response_sequence_number :: u32
  rr_result :: ReconfigurationResult
  rr_sender_next_tsn :: "u32 option"
  rr_receiver_next_tsn :: "u32 option"

definition kNextTsnHeaderSize :: nat where
  "kNextTsnHeaderSize = 8"

definition ReconfigurationResponseParameter_Parse ::
  "bytes \<Rightarrow> ReconfigurationResponseParameter outcome" where
  "ReconfigurationResponseParameter_Parse data =
     obind (ParseTLV ReconfigurationResponseParameterConfig data) (\<lambda>reader.
     let response_sequence_number = Load32 reader 4; result_nbr = Load32 reader 8 in
     obind (ReconfigurationResult_of result_nbr) (\<lambda>result.
     if variable_data reader = [] then
       Value \<lparr>rr_response_sequence_number = response_sequence_number, rr_result = result,
              rr_sender_next_tsn = None, rr_receiver_next_tsn = None\<rparr>
     else if variable_data_size reader \<noteq> kNextTsnHeaderSize then Nullopt
     else obind (sub_reader reader kNextTsnHeaderSize 0) (\<lambda>sub.
       Value \<lparr>rr_response_sequence_number = response_sequence_number, rr_result = result,
              rr_sender_next_tsn = Some (Load32 sub 0), rr_receiver_next_tsn = Some (Load32 sub 4)\<rparr>)))"

definition ReconfigurationResponseParameter_SerializeTo ::
  "ReconfigurationResponseParameter \<Rightarrow> bytes \<Rightarrow> bytes outcome" where
  "ReconfigurationResponseParameter_SerializeTo p out =
     (let variable_size = (if rr_sender_next_tsn p \<noteq> None then kNextTsnHeaderSize else 0) in
      obind (AllocateTLV ReconfigurationResponseParameterConfig out variable_size) (\<lambda>writer.
      let writer = Store32 4 (rr_response_sequence_number p) writer;
          writer = Store32 8 (ReconfigurationResult_value (rr_result p)) writer in
      if rr_sender_next_tsn p \<noteq> None then
        obind (sub_writer kNextTsnHeaderSize 0
          (\<lambda>sub. Store32 4 (case rr_receiver_next_tsn p of Some tsn \<Rightarrow> tsn | None \<Rightarrow> 0)
            (Store32 0 (case rr_sender_next_tsn p of Some tsn \<Rightarrow> tsn | None \<Rightarrow> 0) sub)) writer)
          (\<lambda>writer. Value (written writer))
      else Value (written writer)))"

text \<open>
  The two optional numbers go together: the constructors set both or neither, and a lone one is
  not preserved by the wire format.
\<close>

definition ReconfigurationResponseParameter_ok :: "ReconfigurationResponseParameter \<Rightarrow> bool" where
  "ReconfigurationResponseParameter_ok p \<longleftrightarrow>
     (rr_sender_next_tsn p = None \<longleftrightarrow> rr_receiver_next_tsn p = None)"

lemmas ReconfigurationResponseParameter_defs =
  ReconfigurationResponseParameter_Parse_def ReconfigurationResponseParameter_SerializeTo_def
  ReconfigurationResponseParameterConfig_def ReconfigurationResponseParameter_ok_def
  kNextTsnHeaderSize_def

interpretation reconfiguration_response_codec: tlv_codec ReconfigurationResponseParameterConfig
  ReconfigurationResponseParameter_Parse ReconfigurationResponseParameter_SerializeTo
  ReconfigurationResponseParameter_ok "\<lambda>p. p"
proof (rule tlv_codecI, goal_cases)
  case (2 data)
  show ?case
    unfolding ReconfigurationResponseParameter_Parse_def Let_def
    by (intro ParseTLV_obind_returns obind_returns returns_if)
      (auto simp: ReconfigurationResponseParameter_defs codec_proof_simps sub_reader_def
        BoundedByteReader_def RTC_CHECK_def)
next
  case (3 x)
  then show ?case
    by (cases "rr_sender_next_tsn x"; cases "rr_receiver_next_tsn x")
      (simp_all add: ReconfigurationResponseParameter_defs codec_proof_simps Let_def Store32_def
        sub_writer_def sub_reader_def BoundedByteWriter_def BoundedByteReader_def)
qed (simp add: ReconfigurationResponseParameter_defs codec_proof_simps)

end
