(* ===== verification/Error_Causes.thy ===== *)
theory Error_Causes
  imports Tlv
begin

text \<open>
  The error causes of \<open>net/dcsctp/packet/error_cause\<close>, in the form of the parameters: configuration,
  fields, \<open>Parse\<close>, \<open>SerializeTo\<close>, and an interpretation of the codec contract.
\<close>

section \<open>Invalid stream identifier\<close>

definition InvalidStreamIdentifierCauseConfig :: tlv_config where
  "InvalidStreamIdentifierCauseConfig =
     \<lparr>kType = 1, kTypeSizeInBytes = 2, kHeaderSize = 8, kVariableLengthAlignment = 0\<rparr>"

record InvalidStreamIdentifierCause =
  isi_stream_id :: u16

definition InvalidStreamIdentifierCause_Parse :: "bytes \<Rightarrow> InvalidStreamIdentifierCause outcome" where
  "InvalidStreamIdentifierCause_Parse data =
     obind (ParseTLV InvalidStreamIdentifierCauseConfig data) (\<lambda>reader.
     Value \<lparr>isi_stream_id = Load16 reader 4\<rparr>)"

definition InvalidStreamIdentifierCause_SerializeTo :: "InvalidStreamIdentifierCause \<Rightarrow> bytes \<Rightarrow> bytes outcome" where
  "InvalidStreamIdentifierCause_SerializeTo p out =
     obind (AllocateTLV InvalidStreamIdentifierCauseConfig out 0) (\<lambda>writer.
     Value (written (Store16 4 (isi_stream_id p) writer)))"

interpretation invalid_stream_identifier_codec: tlv_codec InvalidStreamIdentifierCauseConfig
  InvalidStreamIdentifierCause_Parse InvalidStreamIdentifierCause_SerializeTo
  "\<lambda>p. True" "\<lambda>p. p"
  by (rule tlv_codecI)
    (simp_all add: InvalidStreamIdentifierCause_Parse_def InvalidStreamIdentifierCause_SerializeTo_def
      InvalidStreamIdentifierCauseConfig_def codec_proof_simps)

section \<open>Missing mandatory parameter\<close>

definition kMissingParameterSize :: nat where
  "kMissingParameterSize = 2"

interpretation missing_parameter_element:
  element_codec kMissingParameterSize "Store16 0" "\<lambda>r. Load16 r 0" "\<lambda>x. x"
  by unfold_locales (simp_all add: codec_proof_simps kMissingParameterSize_def)

definition MissingMandatoryParameterCauseConfig :: tlv_config where
  "MissingMandatoryParameterCauseConfig =
     \<lparr>kType = 2, kTypeSizeInBytes = 2, kHeaderSize = 8, kVariableLengthAlignment = 2\<rparr>"

record MissingMandatoryParameterCause =
  mmp_missing_parameter_types :: "u16 list"

definition MissingMandatoryParameterCause_Parse ::
  "bytes \<Rightarrow> MissingMandatoryParameterCause outcome" where
  "MissingMandatoryParameterCause_Parse data =
     obind (ParseTLV MissingMandatoryParameterCauseConfig data) (\<lambda>reader.
     let count = Load32 reader 4 in
     if unat count \<noteq> variable_data_size reader div kMissingParameterSize then Nullopt
     else obind (load_array kMissingParameterSize (\<lambda>sub. Load16 sub 0) (unat count) 0 reader)
       (\<lambda>missing_parameter_types.
       Value \<lparr>mmp_missing_parameter_types = missing_parameter_types\<rparr>))"

definition MissingMandatoryParameterCause_SerializeTo ::
  "MissingMandatoryParameterCause \<Rightarrow> bytes \<Rightarrow> bytes outcome" where
  "MissingMandatoryParameterCause_SerializeTo p out =
     (let variable_size = length (mmp_missing_parameter_types p) * kMissingParameterSize in
      obind (AllocateTLV MissingMandatoryParameterCauseConfig out variable_size) (\<lambda>writer.
      let writer = Store32 4 (of_nat (length (mmp_missing_parameter_types p))) writer in
      obind (store_array kMissingParameterSize (Store16 0) (mmp_missing_parameter_types p) 0 writer)
        (\<lambda>writer. Value (written writer))))"

lemmas MissingMandatoryParameterCause_defs =
  MissingMandatoryParameterCause_Parse_def MissingMandatoryParameterCause_SerializeTo_def
  MissingMandatoryParameterCauseConfig_def kMissingParameterSize_def

interpretation missing_mandatory_parameter_codec: tlv_codec MissingMandatoryParameterCauseConfig
  MissingMandatoryParameterCause_Parse MissingMandatoryParameterCause_SerializeTo
  "\<lambda>p. length (mmp_missing_parameter_types p) < 32764" "\<lambda>p. p"
proof (rule tlv_codecI, goal_cases)
  case (2 data)
  show ?case
    unfolding MissingMandatoryParameterCause_Parse_def Let_def
    by (intro ParseTLV_obind_returns obind_returns returns_if load_array_all_returns)
      (simp_all add: MissingMandatoryParameterCauseConfig_def codec_proof_simps)
next
  case (3 x)
  let ?ts = "mmp_missing_parameter_types x"
  let ?e = "StoreBigEndian32 4 (of_nat (length ?ts))
    (tlv_blank MissingMandatoryParameterCauseConfig (length ?ts * kMissingParameterSize))"
  have count: "unat (of_nat (length ?ts) :: u32) = length ?ts"
    using 3 by (simp add: unat_of_nat_word_eq)
  obtain d where "\<And>out. store_array kMissingParameterSize (Store16 0) ?ts 0
        \<lparr>writer_before = out, writer_fixed_size = 8, writer_data = ?e\<rparr> =
      Value \<lparr>writer_before = out, writer_fixed_size = 8, writer_data = d\<rparr>"
    "length d = length ?e" "framed MissingMandatoryParameterCauseConfig d"
    "\<And>i. i + 3 < 8 \<Longrightarrow> LoadBigEndian32 d i = LoadBigEndian32 ?e i"
    "load_array kMissingParameterSize (\<lambda>sub. Load16 sub 0) (length ?ts) 0
       \<lparr>reader_fixed_size = 8, reader_data = d\<rparr> = Value ?ts"
    by (rule missing_parameter_element.framed_array
        [of MissingMandatoryParameterCauseConfig ?e 8 ?ts])
      (simp_all add: MissingMandatoryParameterCause_defs codec_proof_simps)
  with 3 count show ?case
    by (intro exI [of _ d])
      (simp add: MissingMandatoryParameterCause_defs codec_proof_simps Store32_def Let_def)
qed (simp add: MissingMandatoryParameterCause_defs codec_proof_simps)

section \<open>Stale cookie\<close>

definition StaleCookieParameterConfig :: tlv_config where
  "StaleCookieParameterConfig =
     \<lparr>kType = 3, kTypeSizeInBytes = 2, kHeaderSize = 8, kVariableLengthAlignment = 0\<rparr>"

record StaleCookieErrorCause =
  sce_staleness_us :: u32

definition StaleCookieErrorCause_Parse :: "bytes \<Rightarrow> StaleCookieErrorCause outcome" where
  "StaleCookieErrorCause_Parse data =
     obind (ParseTLV StaleCookieParameterConfig data) (\<lambda>reader.
     Value \<lparr>sce_staleness_us = Load32 reader 4\<rparr>)"

definition StaleCookieErrorCause_SerializeTo :: "StaleCookieErrorCause \<Rightarrow> bytes \<Rightarrow> bytes outcome" where
  "StaleCookieErrorCause_SerializeTo p out =
     obind (AllocateTLV StaleCookieParameterConfig out 0) (\<lambda>writer.
     Value (written (Store32 4 (sce_staleness_us p) writer)))"

interpretation stale_cookie_codec: tlv_codec StaleCookieParameterConfig
  StaleCookieErrorCause_Parse StaleCookieErrorCause_SerializeTo
  "\<lambda>p. True" "\<lambda>p. p"
  by (rule tlv_codecI)
    (simp_all add: StaleCookieErrorCause_Parse_def StaleCookieErrorCause_SerializeTo_def
      StaleCookieParameterConfig_def codec_proof_simps)

definition StaleCookieErrorCause_staleness_us :: "StaleCookieErrorCause \<Rightarrow> u16" where
  "StaleCookieErrorCause_staleness_us p = ucast (sce_staleness_us p)"

section \<open>Out of resource\<close>

definition OutOfResourceParameterConfig :: tlv_config where
  "OutOfResourceParameterConfig =
     \<lparr>kType = 4, kTypeSizeInBytes = 2, kHeaderSize = 4, kVariableLengthAlignment = 0\<rparr>"

datatype OutOfResourceErrorCause = OutOfResourceErrorCause

definition OutOfResourceErrorCause_Parse :: "bytes \<Rightarrow> OutOfResourceErrorCause outcome" where
  "OutOfResourceErrorCause_Parse data = obind (ParseTLV OutOfResourceParameterConfig data) (\<lambda>_. Value OutOfResourceErrorCause)"

fun OutOfResourceErrorCause_SerializeTo :: "OutOfResourceErrorCause \<Rightarrow> bytes \<Rightarrow> bytes outcome" where
  "OutOfResourceErrorCause_SerializeTo OutOfResourceErrorCause out =
     obind (AllocateTLV OutOfResourceParameterConfig out 0) (\<lambda>writer. Value (written writer))"

interpretation out_of_resource_codec: tlv_codec OutOfResourceParameterConfig
  OutOfResourceErrorCause_Parse OutOfResourceErrorCause_SerializeTo
  "\<lambda>_. True" "\<lambda>c. c"
proof (rule tlv_codecI, goal_cases)
  case (3 x)
  then show ?case
    by (cases x) (simp add: OutOfResourceErrorCause_Parse_def OutOfResourceParameterConfig_def codec_proof_simps)
qed (simp_all add: OutOfResourceErrorCause_Parse_def OutOfResourceParameterConfig_def codec_proof_simps)

section \<open>Unresolvable address\<close>

definition UnresolvableAddressCauseConfig :: tlv_config where
  "UnresolvableAddressCauseConfig =
     \<lparr>kType = 5, kTypeSizeInBytes = 2, kHeaderSize = 4, kVariableLengthAlignment = 1\<rparr>"

record UnresolvableAddressCause =
  ua_unresolvable_address :: bytes

definition UnresolvableAddressCause_Parse :: "bytes \<Rightarrow> UnresolvableAddressCause outcome" where
  "UnresolvableAddressCause_Parse data =
     obind (ParseTLV UnresolvableAddressCauseConfig data) (\<lambda>reader.
     Value \<lparr>ua_unresolvable_address = variable_data reader\<rparr>)"

definition UnresolvableAddressCause_SerializeTo :: "UnresolvableAddressCause \<Rightarrow> bytes \<Rightarrow> bytes outcome" where
  "UnresolvableAddressCause_SerializeTo p out =
     obind (AllocateTLV UnresolvableAddressCauseConfig out (length (ua_unresolvable_address p))) (\<lambda>writer.
     Value (written (CopyToVariableData (ua_unresolvable_address p) writer)))"

interpretation unresolvable_address_codec: tlv_codec UnresolvableAddressCauseConfig
  UnresolvableAddressCause_Parse UnresolvableAddressCause_SerializeTo
  "\<lambda>p. length (ua_unresolvable_address p) < 65532" "\<lambda>p. p"
  by (rule tlv_codecI)
    (simp_all add: UnresolvableAddressCause_Parse_def UnresolvableAddressCause_SerializeTo_def
      UnresolvableAddressCauseConfig_def codec_proof_simps)

section \<open>Unrecognized chunk type\<close>

definition UnrecognizedChunkTypeCauseConfig :: tlv_config where
  "UnrecognizedChunkTypeCauseConfig =
     \<lparr>kType = 6, kTypeSizeInBytes = 2, kHeaderSize = 4, kVariableLengthAlignment = 1\<rparr>"

record UnrecognizedChunkTypeCause =
  uct_unrecognized_chunk :: bytes

definition UnrecognizedChunkTypeCause_Parse :: "bytes \<Rightarrow> UnrecognizedChunkTypeCause outcome" where
  "UnrecognizedChunkTypeCause_Parse data =
     obind (ParseTLV UnrecognizedChunkTypeCauseConfig data) (\<lambda>reader.
     Value \<lparr>uct_unrecognized_chunk = variable_data reader\<rparr>)"

definition UnrecognizedChunkTypeCause_SerializeTo :: "UnrecognizedChunkTypeCause \<Rightarrow> bytes \<Rightarrow> bytes outcome" where
  "UnrecognizedChunkTypeCause_SerializeTo p out =
     obind (AllocateTLV UnrecognizedChunkTypeCauseConfig out (length (uct_unrecognized_chunk p))) (\<lambda>writer.
     Value (written (CopyToVariableData (uct_unrecognized_chunk p) writer)))"

interpretation unrecognized_chunk_type_codec: tlv_codec UnrecognizedChunkTypeCauseConfig
  UnrecognizedChunkTypeCause_Parse UnrecognizedChunkTypeCause_SerializeTo
  "\<lambda>p. length (uct_unrecognized_chunk p) < 65532" "\<lambda>p. p"
  by (rule tlv_codecI)
    (simp_all add: UnrecognizedChunkTypeCause_Parse_def UnrecognizedChunkTypeCause_SerializeTo_def
      UnrecognizedChunkTypeCauseConfig_def codec_proof_simps)

section \<open>Invalid mandatory parameter\<close>

definition InvalidMandatoryParameterCauseConfig :: tlv_config where
  "InvalidMandatoryParameterCauseConfig =
     \<lparr>kType = 7, kTypeSizeInBytes = 2, kHeaderSize = 4, kVariableLengthAlignment = 0\<rparr>"

datatype InvalidMandatoryParameterCause = InvalidMandatoryParameterCause

definition InvalidMandatoryParameterCause_Parse :: "bytes \<Rightarrow> InvalidMandatoryParameterCause outcome" where
  "InvalidMandatoryParameterCause_Parse data = obind (ParseTLV InvalidMandatoryParameterCauseConfig data) (\<lambda>_. Value InvalidMandatoryParameterCause)"

fun InvalidMandatoryParameterCause_SerializeTo :: "InvalidMandatoryParameterCause \<Rightarrow> bytes \<Rightarrow> bytes outcome" where
  "InvalidMandatoryParameterCause_SerializeTo InvalidMandatoryParameterCause out =
     obind (AllocateTLV InvalidMandatoryParameterCauseConfig out 0) (\<lambda>writer. Value (written writer))"

interpretation invalid_mandatory_parameter_codec: tlv_codec InvalidMandatoryParameterCauseConfig
  InvalidMandatoryParameterCause_Parse InvalidMandatoryParameterCause_SerializeTo
  "\<lambda>_. True" "\<lambda>c. c"
proof (rule tlv_codecI, goal_cases)
  case (3 x)
  then show ?case
    by (cases x) (simp add: InvalidMandatoryParameterCause_Parse_def InvalidMandatoryParameterCauseConfig_def codec_proof_simps)
qed (simp_all add: InvalidMandatoryParameterCause_Parse_def InvalidMandatoryParameterCauseConfig_def codec_proof_simps)

section \<open>Unrecognized parameters\<close>

definition UnrecognizedParametersCauseConfig :: tlv_config where
  "UnrecognizedParametersCauseConfig =
     \<lparr>kType = 8, kTypeSizeInBytes = 2, kHeaderSize = 4, kVariableLengthAlignment = 1\<rparr>"

record UnrecognizedParametersCause =
  up_unrecognized_parameters :: bytes

definition UnrecognizedParametersCause_Parse :: "bytes \<Rightarrow> UnrecognizedParametersCause outcome" where
  "UnrecognizedParametersCause_Parse data =
     obind (ParseTLV UnrecognizedParametersCauseConfig data) (\<lambda>reader.
     Value \<lparr>up_unrecognized_parameters = variable_data reader\<rparr>)"

definition UnrecognizedParametersCause_SerializeTo :: "UnrecognizedParametersCause \<Rightarrow> bytes \<Rightarrow> bytes outcome" where
  "UnrecognizedParametersCause_SerializeTo p out =
     obind (AllocateTLV UnrecognizedParametersCauseConfig out (length (up_unrecognized_parameters p))) (\<lambda>writer.
     Value (written (CopyToVariableData (up_unrecognized_parameters p) writer)))"

interpretation unrecognized_parameters_codec: tlv_codec UnrecognizedParametersCauseConfig
  UnrecognizedParametersCause_Parse UnrecognizedParametersCause_SerializeTo
  "\<lambda>p. length (up_unrecognized_parameters p) < 65532" "\<lambda>p. p"
  by (rule tlv_codecI)
    (simp_all add: UnrecognizedParametersCause_Parse_def UnrecognizedParametersCause_SerializeTo_def
      UnrecognizedParametersCauseConfig_def codec_proof_simps)

section \<open>No user data\<close>

definition NoUserDataCauseConfig :: tlv_config where
  "NoUserDataCauseConfig =
     \<lparr>kType = 9, kTypeSizeInBytes = 2, kHeaderSize = 8, kVariableLengthAlignment = 0\<rparr>"

record NoUserDataCause =
  nud_tsn :: u32

definition NoUserDataCause_Parse :: "bytes \<Rightarrow> NoUserDataCause outcome" where
  "NoUserDataCause_Parse data =
     obind (ParseTLV NoUserDataCauseConfig data) (\<lambda>reader.
     Value \<lparr>nud_tsn = Load32 reader 4\<rparr>)"

definition NoUserDataCause_SerializeTo :: "NoUserDataCause \<Rightarrow> bytes \<Rightarrow> bytes outcome" where
  "NoUserDataCause_SerializeTo p out =
     obind (AllocateTLV NoUserDataCauseConfig out 0) (\<lambda>writer.
     Value (written (Store32 4 (nud_tsn p) writer)))"

interpretation no_user_data_codec: tlv_codec NoUserDataCauseConfig
  NoUserDataCause_Parse NoUserDataCause_SerializeTo
  "\<lambda>p. True" "\<lambda>p. p"
  by (rule tlv_codecI)
    (simp_all add: NoUserDataCause_Parse_def NoUserDataCause_SerializeTo_def
      NoUserDataCauseConfig_def codec_proof_simps)

section \<open>Cookie received while shutting down\<close>

definition CookieReceivedWhileShuttingDownCauseConfig :: tlv_config where
  "CookieReceivedWhileShuttingDownCauseConfig =
     \<lparr>kType = 10, kTypeSizeInBytes = 2, kHeaderSize = 4, kVariableLengthAlignment = 0\<rparr>"

datatype CookieReceivedWhileShuttingDownCause = CookieReceivedWhileShuttingDownCause

definition CookieReceivedWhileShuttingDownCause_Parse :: "bytes \<Rightarrow> CookieReceivedWhileShuttingDownCause outcome" where
  "CookieReceivedWhileShuttingDownCause_Parse data = obind (ParseTLV CookieReceivedWhileShuttingDownCauseConfig data) (\<lambda>_. Value CookieReceivedWhileShuttingDownCause)"

fun CookieReceivedWhileShuttingDownCause_SerializeTo :: "CookieReceivedWhileShuttingDownCause \<Rightarrow> bytes \<Rightarrow> bytes outcome" where
  "CookieReceivedWhileShuttingDownCause_SerializeTo CookieReceivedWhileShuttingDownCause out =
     obind (AllocateTLV CookieReceivedWhileShuttingDownCauseConfig out 0) (\<lambda>writer. Value (written writer))"

interpretation cookie_while_shutting_down_codec: tlv_codec CookieReceivedWhileShuttingDownCauseConfig
  CookieReceivedWhileShuttingDownCause_Parse CookieReceivedWhileShuttingDownCause_SerializeTo
  "\<lambda>_. True" "\<lambda>c. c"
proof (rule tlv_codecI, goal_cases)
  case (3 x)
  then show ?case
    by (cases x) (simp add: CookieReceivedWhileShuttingDownCause_Parse_def CookieReceivedWhileShuttingDownCauseConfig_def codec_proof_simps)
qed (simp_all add: CookieReceivedWhileShuttingDownCause_Parse_def CookieReceivedWhileShuttingDownCauseConfig_def codec_proof_simps)

section \<open>Restart of an association with new addresses\<close>

definition RestartOfAnAssociationWithNewAddressesCauseConfig :: tlv_config where
  "RestartOfAnAssociationWithNewAddressesCauseConfig =
     \<lparr>kType = 11, kTypeSizeInBytes = 2, kHeaderSize = 4, kVariableLengthAlignment = 1\<rparr>"

record RestartOfAnAssociationWithNewAddressesCause =
  roa_new_addresses :: bytes

definition RestartOfAnAssociationWithNewAddressesCause_Parse :: "bytes \<Rightarrow> RestartOfAnAssociationWithNewAddressesCause outcome" where
  "RestartOfAnAssociationWithNewAddressesCause_Parse data =
     obind (ParseTLV RestartOfAnAssociationWithNewAddressesCauseConfig data) (\<lambda>reader.
     Value \<lparr>roa_new_addresses = variable_data reader\<rparr>)"

definition RestartOfAnAssociationWithNewAddressesCause_SerializeTo :: "RestartOfAnAssociationWithNewAddressesCause \<Rightarrow> bytes \<Rightarrow> bytes outcome" where
  "RestartOfAnAssociationWithNewAddressesCause_SerializeTo p out =
     obind (AllocateTLV RestartOfAnAssociationWithNewAddressesCauseConfig out (length (roa_new_addresses p))) (\<lambda>writer.
     Value (written (CopyToVariableData (roa_new_addresses p) writer)))"

interpretation restart_codec: tlv_codec RestartOfAnAssociationWithNewAddressesCauseConfig
  RestartOfAnAssociationWithNewAddressesCause_Parse RestartOfAnAssociationWithNewAddressesCause_SerializeTo
  "\<lambda>p. length (roa_new_addresses p) < 65532" "\<lambda>p. p"
  by (rule tlv_codecI)
    (simp_all add: RestartOfAnAssociationWithNewAddressesCause_Parse_def RestartOfAnAssociationWithNewAddressesCause_SerializeTo_def
      RestartOfAnAssociationWithNewAddressesCauseConfig_def codec_proof_simps)

section \<open>User initiated abort\<close>

definition UserInitiatedAbortCauseConfig :: tlv_config where
  "UserInitiatedAbortCauseConfig =
     \<lparr>kType = 12, kTypeSizeInBytes = 2, kHeaderSize = 4, kVariableLengthAlignment = 1\<rparr>"

record UserInitiatedAbortCause =
  uia_upper_layer_abort_reason :: bytes

definition UserInitiatedAbortCause_Parse :: "bytes \<Rightarrow> UserInitiatedAbortCause outcome" where
  "UserInitiatedAbortCause_Parse data =
     obind (ParseTLV UserInitiatedAbortCauseConfig data) (\<lambda>reader.
     Value \<lparr>uia_upper_layer_abort_reason = variable_data reader\<rparr>)"

definition UserInitiatedAbortCause_SerializeTo :: "UserInitiatedAbortCause \<Rightarrow> bytes \<Rightarrow> bytes outcome" where
  "UserInitiatedAbortCause_SerializeTo p out =
     obind (AllocateTLV UserInitiatedAbortCauseConfig out (length (uia_upper_layer_abort_reason p))) (\<lambda>writer.
     Value (written (CopyToVariableData (uia_upper_layer_abort_reason p) writer)))"

interpretation user_initiated_abort_codec: tlv_codec UserInitiatedAbortCauseConfig
  UserInitiatedAbortCause_Parse UserInitiatedAbortCause_SerializeTo
  "\<lambda>p. length (uia_upper_layer_abort_reason p) < 65532" "\<lambda>p. p"
  by (rule tlv_codecI)
    (simp_all add: UserInitiatedAbortCause_Parse_def UserInitiatedAbortCause_SerializeTo_def
      UserInitiatedAbortCauseConfig_def codec_proof_simps)

section \<open>Protocol violation\<close>

definition ProtocolViolationCauseConfig :: tlv_config where
  "ProtocolViolationCauseConfig =
     \<lparr>kType = 13, kTypeSizeInBytes = 2, kHeaderSize = 4, kVariableLengthAlignment = 1\<rparr>"

record ProtocolViolationCause =
  pv_additional_information :: bytes

definition ProtocolViolationCause_Parse :: "bytes \<Rightarrow> ProtocolViolationCause outcome" where
  "ProtocolViolationCause_Parse data =
     obind (ParseTLV ProtocolViolationCauseConfig data) (\<lambda>reader.
     Value \<lparr>pv_additional_information = variable_data reader\<rparr>)"

definition ProtocolViolationCause_SerializeTo :: "ProtocolViolationCause \<Rightarrow> bytes \<Rightarrow> bytes outcome" where
  "ProtocolViolationCause_SerializeTo p out =
     obind (AllocateTLV ProtocolViolationCauseConfig out (length (pv_additional_information p))) (\<lambda>writer.
     Value (written (CopyToVariableData (pv_additional_information p) writer)))"

interpretation protocol_violation_codec: tlv_codec ProtocolViolationCauseConfig
  ProtocolViolationCause_Parse ProtocolViolationCause_SerializeTo
  "\<lambda>p. length (pv_additional_information p) < 65532" "\<lambda>p. p"
  by (rule tlv_codecI)
    (simp_all add: ProtocolViolationCause_Parse_def ProtocolViolationCause_SerializeTo_def
      ProtocolViolationCauseConfig_def codec_proof_simps)

end
