(* ===== verification/Parameter_List.thy ===== *)
theory Parameter_List
  imports Parameters Error_Causes
begin

text \<open>
  The container of \<open>net/dcsctp/packet/parameter/parameter.{h,cc}\<close>: the virtual \<open>SerializeTo\<close> of
  the classes derived from \<open>Parameter\<close>, the builder, and the loops of \<open>Parse\<close> and \<open>descriptors\<close>.
  The loops carry fuel and run out of it as \<open>Diverges\<close>; one unit per byte and one for the final
  test is enough, and a loop that exceeds that amount exceeds every amount.
\<close>

section \<open>The classes derived from Parameter\<close>

datatype Parameter =
    P_HeartbeatInfo HeartbeatInfoParameter
  | P_StateCookie StateCookieParameter
  | P_SupportedExtensions SupportedExtensionsParameter
  | P_ForwardTsnSupported ForwardTsnSupportedParameter
  | P_ZeroChecksumAcceptable ZeroChecksumAcceptableChunkParameter
  | P_AddIncomingStreams AddIncomingStreamsRequestParameter
  | P_AddOutgoingStreams AddOutgoingStreamsRequestParameter
  | P_SSNTSNReset SSNTSNResetRequestParameter
  | P_IncomingSSNReset IncomingSSNResetRequestParameter
  | P_OutgoingSSNReset OutgoingSSNResetRequestParameter
  | P_ReconfigurationResponse ReconfigurationResponseParameter
  | C_InvalidStreamIdentifier InvalidStreamIdentifierCause
  | C_MissingMandatoryParameter MissingMandatoryParameterCause
  | C_StaleCookie StaleCookieErrorCause
  | C_OutOfResource OutOfResourceErrorCause
  | C_UnresolvableAddress UnresolvableAddressCause
  | C_UnrecognizedChunkType UnrecognizedChunkTypeCause
  | C_InvalidMandatoryParameter InvalidMandatoryParameterCause
  | C_UnrecognizedParameters UnrecognizedParametersCause
  | C_NoUserData NoUserDataCause
  | C_CookieReceivedWhileShuttingDown CookieReceivedWhileShuttingDownCause
  | C_RestartOfAnAssociation RestartOfAnAssociationWithNewAddressesCause
  | C_UserInitiatedAbort UserInitiatedAbortCause
  | C_ProtocolViolation ProtocolViolationCause

fun Parameter_SerializeTo :: "Parameter \<Rightarrow> bytes \<Rightarrow> bytes outcome" where
  "Parameter_SerializeTo (P_HeartbeatInfo p) out = HeartbeatInfoParameter_SerializeTo p out"
| "Parameter_SerializeTo (P_StateCookie p) out = StateCookieParameter_SerializeTo p out"
| "Parameter_SerializeTo (P_SupportedExtensions p) out = SupportedExtensionsParameter_SerializeTo p out"
| "Parameter_SerializeTo (P_ForwardTsnSupported p) out = ForwardTsnSupportedParameter_SerializeTo p out"
| "Parameter_SerializeTo (P_ZeroChecksumAcceptable p) out = ZeroChecksumAcceptableChunkParameter_SerializeTo p out"
| "Parameter_SerializeTo (P_AddIncomingStreams p) out = AddIncomingStreamsRequestParameter_SerializeTo p out"
| "Parameter_SerializeTo (P_AddOutgoingStreams p) out = AddOutgoingStreamsRequestParameter_SerializeTo p out"
| "Parameter_SerializeTo (P_SSNTSNReset p) out = SSNTSNResetRequestParameter_SerializeTo p out"
| "Parameter_SerializeTo (P_IncomingSSNReset p) out = IncomingSSNResetRequestParameter_SerializeTo p out"
| "Parameter_SerializeTo (P_OutgoingSSNReset p) out = OutgoingSSNResetRequestParameter_SerializeTo p out"
| "Parameter_SerializeTo (P_ReconfigurationResponse p) out = ReconfigurationResponseParameter_SerializeTo p out"
| "Parameter_SerializeTo (C_InvalidStreamIdentifier p) out = InvalidStreamIdentifierCause_SerializeTo p out"
| "Parameter_SerializeTo (C_MissingMandatoryParameter p) out = MissingMandatoryParameterCause_SerializeTo p out"
| "Parameter_SerializeTo (C_StaleCookie p) out = StaleCookieErrorCause_SerializeTo p out"
| "Parameter_SerializeTo (C_OutOfResource p) out = OutOfResourceErrorCause_SerializeTo p out"
| "Parameter_SerializeTo (C_UnresolvableAddress p) out = UnresolvableAddressCause_SerializeTo p out"
| "Parameter_SerializeTo (C_UnrecognizedChunkType p) out = UnrecognizedChunkTypeCause_SerializeTo p out"
| "Parameter_SerializeTo (C_InvalidMandatoryParameter p) out = InvalidMandatoryParameterCause_SerializeTo p out"
| "Parameter_SerializeTo (C_UnrecognizedParameters p) out = UnrecognizedParametersCause_SerializeTo p out"
| "Parameter_SerializeTo (C_NoUserData p) out = NoUserDataCause_SerializeTo p out"
| "Parameter_SerializeTo (C_CookieReceivedWhileShuttingDown p) out = CookieReceivedWhileShuttingDownCause_SerializeTo p out"
| "Parameter_SerializeTo (C_RestartOfAnAssociation p) out = RestartOfAnAssociationWithNewAddressesCause_SerializeTo p out"
| "Parameter_SerializeTo (C_UserInitiatedAbort p) out = UserInitiatedAbortCause_SerializeTo p out"
| "Parameter_SerializeTo (C_ProtocolViolation p) out = ProtocolViolationCause_SerializeTo p out"

fun Parameter_config :: "Parameter \<Rightarrow> tlv_config" where
  "Parameter_config (P_HeartbeatInfo p) = HeartbeatInfoParameterConfig"
| "Parameter_config (P_StateCookie p) = StateCookieParameterConfig"
| "Parameter_config (P_SupportedExtensions p) = SupportedExtensionsParameterConfig"
| "Parameter_config (P_ForwardTsnSupported p) = ForwardTsnSupportedParameterConfig"
| "Parameter_config (P_ZeroChecksumAcceptable p) = ZeroChecksumAcceptableChunkParameterConfig"
| "Parameter_config (P_AddIncomingStreams p) = AddIncomingStreamsRequestParameterConfig"
| "Parameter_config (P_AddOutgoingStreams p) = AddOutgoingStreamsRequestParameterConfig"
| "Parameter_config (P_SSNTSNReset p) = SSNTSNResetRequestParameterConfig"
| "Parameter_config (P_IncomingSSNReset p) = IncomingSSNResetRequestParameterConfig"
| "Parameter_config (P_OutgoingSSNReset p) = OutgoingSSNResetRequestParameterConfig"
| "Parameter_config (P_ReconfigurationResponse p) = ReconfigurationResponseParameterConfig"
| "Parameter_config (C_InvalidStreamIdentifier p) = InvalidStreamIdentifierCauseConfig"
| "Parameter_config (C_MissingMandatoryParameter p) = MissingMandatoryParameterCauseConfig"
| "Parameter_config (C_StaleCookie p) = StaleCookieParameterConfig"
| "Parameter_config (C_OutOfResource p) = OutOfResourceParameterConfig"
| "Parameter_config (C_UnresolvableAddress p) = UnresolvableAddressCauseConfig"
| "Parameter_config (C_UnrecognizedChunkType p) = UnrecognizedChunkTypeCauseConfig"
| "Parameter_config (C_InvalidMandatoryParameter p) = InvalidMandatoryParameterCauseConfig"
| "Parameter_config (C_UnrecognizedParameters p) = UnrecognizedParametersCauseConfig"
| "Parameter_config (C_NoUserData p) = NoUserDataCauseConfig"
| "Parameter_config (C_CookieReceivedWhileShuttingDown p) = CookieReceivedWhileShuttingDownCauseConfig"
| "Parameter_config (C_RestartOfAnAssociation p) = RestartOfAnAssociationWithNewAddressesCauseConfig"
| "Parameter_config (C_UserInitiatedAbort p) = UserInitiatedAbortCauseConfig"
| "Parameter_config (C_ProtocolViolation p) = ProtocolViolationCauseConfig"

text \<open>The size of the object fits its length field, and the object is one its constructor makes.\<close>

fun Parameter_ok :: "Parameter \<Rightarrow> bool" where
  "Parameter_ok (P_HeartbeatInfo p) \<longleftrightarrow> length (hbi_info p) < 65532"
| "Parameter_ok (P_StateCookie p) \<longleftrightarrow> length (scp_data p) < 65532"
| "Parameter_ok (P_SupportedExtensions p) \<longleftrightarrow> length (sep_chunk_types p) < 65532"
| "Parameter_ok (P_ForwardTsnSupported p) \<longleftrightarrow> True"
| "Parameter_ok (P_ZeroChecksumAcceptable p) \<longleftrightarrow> zca_error_detection_method p \<noteq> ZeroChecksumAlternateErrorDetectionMethod_None"
| "Parameter_ok (P_AddIncomingStreams p) \<longleftrightarrow> True"
| "Parameter_ok (P_AddOutgoingStreams p) \<longleftrightarrow> True"
| "Parameter_ok (P_SSNTSNReset p) \<longleftrightarrow> True"
| "Parameter_ok (P_IncomingSSNReset p) \<longleftrightarrow> length (issn_stream_ids p) < 32764"
| "Parameter_ok (P_OutgoingSSNReset p) \<longleftrightarrow> length (ossn_stream_ids p) < 32760"
| "Parameter_ok (P_ReconfigurationResponse p) \<longleftrightarrow> ReconfigurationResponseParameter_ok p"
| "Parameter_ok (C_InvalidStreamIdentifier p) \<longleftrightarrow> True"
| "Parameter_ok (C_MissingMandatoryParameter p) \<longleftrightarrow> length (mmp_missing_parameter_types p) < 32764"
| "Parameter_ok (C_StaleCookie p) \<longleftrightarrow> True"
| "Parameter_ok (C_OutOfResource p) \<longleftrightarrow> True"
| "Parameter_ok (C_UnresolvableAddress p) \<longleftrightarrow> length (ua_unresolvable_address p) < 65532"
| "Parameter_ok (C_UnrecognizedChunkType p) \<longleftrightarrow> length (uct_unrecognized_chunk p) < 65532"
| "Parameter_ok (C_InvalidMandatoryParameter p) \<longleftrightarrow> True"
| "Parameter_ok (C_UnrecognizedParameters p) \<longleftrightarrow> length (up_unrecognized_parameters p) < 65532"
| "Parameter_ok (C_NoUserData p) \<longleftrightarrow> True"
| "Parameter_ok (C_CookieReceivedWhileShuttingDown p) \<longleftrightarrow> True"
| "Parameter_ok (C_RestartOfAnAssociation p) \<longleftrightarrow> length (roa_new_addresses p) < 65532"
| "Parameter_ok (C_UserInitiatedAbort p) \<longleftrightarrow> length (uia_upper_layer_abort_reason p) < 65532"
| "Parameter_ok (C_ProtocolViolation p) \<longleftrightarrow> length (pv_additional_information p) < 65532"

lemmas Parameter_codecs_serialize =
  heartbeat_info_codec.serialize_exists
  state_cookie_codec.serialize_exists
  supported_extensions_codec.serialize_exists
  forward_tsn_supported_codec.serialize_exists
  zero_checksum_codec.serialize_exists
  add_incoming_codec.serialize_exists
  add_outgoing_codec.serialize_exists
  ssn_tsn_reset_codec.serialize_exists
  incoming_ssn_reset_codec.serialize_exists
  outgoing_ssn_reset_codec.serialize_exists
  reconfiguration_response_codec.serialize_exists
  invalid_stream_identifier_codec.serialize_exists
  missing_mandatory_parameter_codec.serialize_exists
  stale_cookie_codec.serialize_exists
  out_of_resource_codec.serialize_exists
  unresolvable_address_codec.serialize_exists
  unrecognized_chunk_type_codec.serialize_exists
  invalid_mandatory_parameter_codec.serialize_exists
  unrecognized_parameters_codec.serialize_exists
  no_user_data_codec.serialize_exists
  cookie_while_shutting_down_codec.serialize_exists
  restart_codec.serialize_exists
  user_initiated_abort_codec.serialize_exists
  protocol_violation_codec.serialize_exists

lemma Parameter_serialize_framed:
  "Parameter_ok p \<Longrightarrow>
   \<exists>d. (\<forall>out. Parameter_SerializeTo p out = Value (out @ d)) \<and> framed (Parameter_config p) d \<and>
       length d < 65536"
  by (cases p) (simp_all add: Parameter_codecs_serialize)

lemma Parameter_config_two_bytes [simp]: "kTypeSizeInBytes (Parameter_config p) = 2"
  by (cases p)
    (simp_all add: HeartbeatInfoParameterConfig_def
      StateCookieParameterConfig_def
      SupportedExtensionsParameterConfig_def
      ForwardTsnSupportedParameterConfig_def
      ZeroChecksumAcceptableChunkParameterConfig_def
      AddIncomingStreamsRequestParameterConfig_def
      AddOutgoingStreamsRequestParameterConfig_def
      SSNTSNResetRequestParameterConfig_def
      IncomingSSNResetRequestParameterConfig_def
      OutgoingSSNResetRequestParameterConfig_def
      ReconfigurationResponseParameterConfig_def
      InvalidStreamIdentifierCauseConfig_def
      MissingMandatoryParameterCauseConfig_def
      StaleCookieParameterConfig_def
      OutOfResourceParameterConfig_def
      UnresolvableAddressCauseConfig_def
      UnrecognizedChunkTypeCauseConfig_def
      InvalidMandatoryParameterCauseConfig_def
      UnrecognizedParametersCauseConfig_def
      NoUserDataCauseConfig_def
      CookieReceivedWhileShuttingDownCauseConfig_def
      RestartOfAnAssociationWithNewAddressesCauseConfig_def
      UserInitiatedAbortCauseConfig_def
      ProtocolViolationCauseConfig_def)

section \<open>The container\<close>

definition kParameterHeaderSize :: nat where
  "kParameterHeaderSize = 4"

record Parameters =
  pars_data :: bytes

record ParameterDescriptor =
  pd_type :: u16
  pd_data :: bytes

definition Builder_Add :: "Parameter \<Rightarrow> bytes \<Rightarrow> bytes outcome" where
  "Builder_Add p data =
     (let data = (if length data mod 4 \<noteq> 0
                  then data @ replicate (RoundUpTo4 (length data) - length data) 0 else data)
      in Parameter_SerializeTo p data)"

fun Builder_Add_all :: "Parameter list \<Rightarrow> bytes \<Rightarrow> bytes outcome" where
  "Builder_Add_all [] data = Value data"
| "Builder_Add_all (p # ps) data = obind (Builder_Add p data) (Builder_Add_all ps)"

definition Builder_Build :: "bytes \<Rightarrow> Parameters" where
  "Builder_Build data = \<lparr>pars_data = data\<rparr>"

fun descriptors_loop :: "nat \<Rightarrow> bytes \<Rightarrow> ParameterDescriptor list \<Rightarrow> ParameterDescriptor list outcome" where
  "descriptors_loop 0 span result = Diverges"
| "descriptors_loop (Suc fuel) span result =
     (if span = [] then Value result
      else obind (BoundedByteReader kParameterHeaderSize span) (\<lambda>header.
        let type = Load16 header 0;
            len = Load16 header 2;
            result = result @ [\<lparr>pd_type = type, pd_data = subview span 0 (unat len)\<rparr>];
            length_with_padding = unat (RoundUpTo4_u16 len)
        in if length_with_padding > length span then Value result
           else descriptors_loop fuel (subview_from span length_with_padding) result))"

definition Parameters_descriptors :: "Parameters \<Rightarrow> ParameterDescriptor list outcome" where
  "Parameters_descriptors ps = descriptors_loop (Suc (length (pars_data ps))) (pars_data ps) []"

fun Parameters_Parse_loop :: "nat \<Rightarrow> bytes \<Rightarrow> unit outcome" where
  "Parameters_Parse_loop 0 span = Diverges"
| "Parameters_Parse_loop (Suc fuel) span =
     (if span = [] then Value ()
      else if length span < kParameterHeaderSize then Nullopt
      else obind (BoundedByteReader kParameterHeaderSize span) (\<lambda>header.
        let len = Load16 header 2 in
        if unat len < kParameterHeaderSize \<or> unat len > length span then Nullopt
        else let length_with_padding = unat (RoundUpTo4_u16 len) in
          if length_with_padding > length span then Value ()
          else Parameters_Parse_loop fuel (subview_from span length_with_padding)))"

definition Parameters_Parse :: "bytes \<Rightarrow> Parameters outcome" where
  "Parameters_Parse data =
     obind (Parameters_Parse_loop (Suc (length data)) data) (\<lambda>_. Value \<lparr>pars_data = data\<rparr>)"

fun get_first :: "nat \<Rightarrow> (bytes \<Rightarrow> 'p outcome) \<Rightarrow> ParameterDescriptor list \<Rightarrow> 'p outcome" where
  "get_first type parse [] = Nullopt"
| "get_first type parse (p # ps) =
     (if unat (pd_type p) = type then parse (pd_data p) else get_first type parse ps)"

definition Parameters_get :: "nat \<Rightarrow> (bytes \<Rightarrow> 'p outcome) \<Rightarrow> Parameters \<Rightarrow> 'p outcome" where
  "Parameters_get type parse ps = obind (Parameters_descriptors ps) (get_first type parse)"

section \<open>The loops end\<close>

text \<open>More fuel never changes a result that was reached.\<close>

lemma Parameters_Parse_loop_mono:
  "Parameters_Parse_loop n span \<noteq> Diverges \<Longrightarrow> n \<le> m \<Longrightarrow>
   Parameters_Parse_loop m span = Parameters_Parse_loop n span"
proof (induction n arbitrary: m span)
  case (Suc n)
  from Suc.prems(2) obtain m' where m: "m = Suc m'" "n \<le> m'" by (cases m) auto
  show ?case
    using Suc.prems(1) Suc.IH [OF _ m(2)]
    by (auto simp: m Let_def BoundedByteReader_def RTC_CHECK_def split: if_splits)
qed simp

lemma descriptors_loop_mono:
  "descriptors_loop n span acc \<noteq> Diverges \<Longrightarrow> n \<le> m \<Longrightarrow>
   descriptors_loop m span acc = descriptors_loop n span acc"
proof (induction n arbitrary: m span acc)
  case (Suc n)
  from Suc.prems(2) obtain m' where m: "m = Suc m'" "n \<le> m'" by (cases m) auto
  show ?case
    using Suc.prems(1) Suc.IH [OF _ m(2)]
    by (auto simp: m Let_def BoundedByteReader_def RTC_CHECK_def split: if_splits)
qed simp

text \<open>A length field that rounds to zero leaves the span as it is.\<close>

lemma Parameters_Parse_loop_stuck:
  assumes "65532 < unat (LoadBigEndian16 span 2)" and "unat (LoadBigEndian16 span 2) \<le> length span"
  shows "Parameters_Parse_loop n span = Diverges"
proof (induction n)
  case (Suc n)
  with assms show ?case
    by (auto simp: kParameterHeaderSize_def BoundedByteReader_def Load16_def Let_def
        RoundUpTo4_u16_wraps)
qed simp

lemma Parameters_Parse_loop_returns:
  assumes "length span < 65533" and "length span < n"
  shows "returns (Parameters_Parse_loop n span)"
  using assms
proof (induction n arbitrary: span)
  case (Suc n)
  let ?len = "LoadBigEndian16 span 2"
  have "0 < unat (RoundUpTo4_u16 ?len)" if "4 \<le> unat ?len" "unat ?len \<le> length span"
    using that Suc.prems RoundUpTo4_u16_small [of ?len]
    by (simp add: order.strict_trans2 [OF _ RoundUpTo4_ge])
  then show ?case
    using Suc.prems Suc.IH [of "drop (unat (RoundUpTo4_u16 ?len)) span"]
    by (auto simp: kParameterHeaderSize_def BoundedByteReader_def Load16_def Let_def)
qed simp

text \<open>The fuel of \<open>Parse\<close> decides termination: out of fuel means that no fuel is enough.\<close>

lemma Parameters_Parse_loop_exact:
  "Parameters_Parse_loop (Suc (length span)) span = Diverges \<Longrightarrow> Parameters_Parse_loop n span = Diverges"
proof (induction "length span" arbitrary: span n rule: less_induct)
  case less
  let ?len = "LoadBigEndian16 span 2" and ?skip = "unat (RoundUpTo4_u16 (LoadBigEndian16 span 2))"
  from less.prems have span: "4 \<le> length span" "4 \<le> unat ?len" "unat ?len \<le> length span"
      "?skip \<le> length span" "Parameters_Parse_loop (length span) (drop ?skip span) = Diverges"
    by (auto simp: kParameterHeaderSize_def BoundedByteReader_def Load16_def Let_def split: if_splits)
  show ?case
  proof (cases "65532 < unat ?len")
    case True
    with span show ?thesis by (simp add: Parameters_Parse_loop_stuck)
  next
    case False
    then have skip: "0 < ?skip"
      using RoundUpTo4_u16_small [of ?len] span(2) by (simp add: order.strict_trans2 [OF _ RoundUpTo4_ge])
    then have "Parameters_Parse_loop (Suc (length (drop ?skip span))) (drop ?skip span) = Diverges"
      using span Parameters_Parse_loop_mono [of "Suc (length (drop ?skip span))" "drop ?skip span"
          "length span"] by fastforce
    then have "Parameters_Parse_loop k (drop ?skip span) = Diverges" for k
      using less.hyps [of "drop ?skip span"] skip span by simp
    then show ?thesis
      using span by (cases n)
        (auto simp: kParameterHeaderSize_def BoundedByteReader_def Load16_def Let_def)
  qed
qed

text \<open>
  What \<open>Parse\<close> has accepted is walked by \<open>descriptors\<close> without a failing check, in as many rounds.
\<close>

lemma descriptors_loop_accepted:
  "Parameters_Parse_loop n span = Value () \<Longrightarrow> \<exists>ds. descriptors_loop n span acc = Value ds"
proof (induction n arbitrary: span acc)
  case (Suc n)
  then show ?case
    by (auto simp: kParameterHeaderSize_def BoundedByteReader_def Load16_def Let_def split: if_splits)
qed simp

section \<open>What the builder lays out\<close>

definition pad4 :: "bytes \<Rightarrow> bytes" where
  "pad4 d = d @ replicate (RoundUpTo4 (length d) - length d) 0"

lemma length_pad4 [simp]: "length (pad4 d) = RoundUpTo4 (length d)"
  by (simp add: pad4_def)

lemma pad4_aligned: "length d mod 4 = 0 \<Longrightarrow> pad4 d = d"
  by (simp add: pad4_def RoundUpTo4_id)

text \<open>Consecutive parameters, each padded except the last one.\<close>

fun layout :: "bytes list \<Rightarrow> bytes" where
  "layout [] = []"
| "layout [d] = d"
| "layout (d # e # ds) = pad4 d @ layout (e # ds)"

definition parameter_bytes :: "Parameter \<Rightarrow> bytes" where
  "parameter_bytes p = (case Parameter_SerializeTo p [] of Value d \<Rightarrow> d | _ \<Rightarrow> [])"

definition parameter_framed :: "bytes \<Rightarrow> bool" where
  "parameter_framed d \<longleftrightarrow> 4 \<le> length d \<and> length d < 65533 \<and> LoadBigEndian16 d 2 = of_nat (length d)"

lemma parameter_bytes_props:
  assumes "Parameter_ok p"
  shows "Parameter_SerializeTo p out = Value (out @ parameter_bytes p)"
    and "framed (Parameter_config p) (parameter_bytes p)" and "length (parameter_bytes p) < 65536"
  using Parameter_serialize_framed [OF assms] by (auto simp: parameter_bytes_def)

lemma Builder_Add_eq:
  "Parameter_ok p \<Longrightarrow> Builder_Add p data = Value (pad4 data @ parameter_bytes p)"
  by (simp add: Builder_Add_def Let_def parameter_bytes_props(1) pad4_def pad4_aligned RoundUpTo4_id)

lemma Builder_Add_all_from:
  "list_all Parameter_ok ps \<Longrightarrow>
   Builder_Add_all ps data = Value (if ps = [] then data else pad4 data @ layout (map parameter_bytes ps))"
proof (induction ps arbitrary: data)
  case (Cons p ps)
  have "pad4 (pad4 data @ d) = pad4 data @ pad4 d" for d :: bytes
    by (simp add: pad4_def [of "pad4 data @ d"] pad4_def [of d] RoundUpTo4_add_aligned)
  with Cons.prems Cons.IH [of "pad4 data @ parameter_bytes p"] show ?case
    by (cases ps) (simp_all add: Builder_Add_eq)
qed simp

lemma Builder_Add_all_layout:
  "list_all Parameter_ok ps \<Longrightarrow> Builder_Add_all ps [] = Value (layout (map parameter_bytes ps))"
  by (simp add: Builder_Add_all_from pad4_def)

lemma layout_Cons_length: "length d \<le> length (layout (d # ds))"
  by (cases ds) (simp_all add: trans_le_add1)

lemma layout_member_length: "d \<in> set ds \<Longrightarrow> length d \<le> length (layout ds)"
  by (induction ds rule: layout.induct) (auto intro: trans_le_add1 trans_le_add2)

lemma parameter_framed_bytes:
  "Parameter_ok p \<Longrightarrow> length (parameter_bytes p) < 65533 \<Longrightarrow> parameter_framed (parameter_bytes p)"
  using parameter_bytes_props(2) [of p] by (auto simp: parameter_framed_def framed_def)

section \<open>The loops on a layout\<close>

definition descriptor_of :: "bytes \<Rightarrow> ParameterDescriptor" where
  "descriptor_of d = \<lparr>pd_type = LoadBigEndian16 d 0, pd_data = d\<rparr>"

text \<open>One round of either loop, at the start of a layout.\<close>

lemma layout_head:
  assumes "parameter_framed d"
  shows "layout (d # ds) \<noteq> []" and "4 \<le> length (layout (d # ds))"
    and "unat (LoadBigEndian16 (layout (d # ds)) 2) = length d"
    and "LoadBigEndian16 (layout (d # ds)) 0 = LoadBigEndian16 d 0"
    and "take (length d) (layout (d # ds)) = d"
    and "unat (RoundUpTo4_u16 (LoadBigEndian16 (layout (d # ds)) 2)) = RoundUpTo4 (length d)"
proof -
  obtain e where e: "layout (d # ds) = d @ e"
    by (cases ds) (simp_all add: pad4_def)
  have d: "4 \<le> length d" "length d < 65533" "LoadBigEndian16 d 2 = of_nat (length d)"
    using assms by (simp_all add: parameter_framed_def)
  from d(1) e show "layout (d # ds) \<noteq> []" "4 \<le> length (layout (d # ds))"
    "LoadBigEndian16 (layout (d # ds)) 0 = LoadBigEndian16 d 0" "take (length d) (layout (d # ds)) = d"
    by (auto simp: loads_append)
  from d e show len: "unat (LoadBigEndian16 (layout (d # ds)) 2) = length d"
    by (simp add: loads_append unat_of_nat_word_eq)
  from d len show "unat (RoundUpTo4_u16 (LoadBigEndian16 (layout (d # ds)) 2)) = RoundUpTo4 (length d)"
    by (simp add: RoundUpTo4_u16_small)
qed

lemma layout_rest:
  "RoundUpTo4 (length d) \<le> length (layout (d # ds)) \<Longrightarrow>
   drop (RoundUpTo4 (length d)) (layout (d # ds)) = layout ds"
  "\<not> RoundUpTo4 (length d) \<le> length (layout (d # ds)) \<Longrightarrow> ds = []"
  by (cases ds; simp)+

lemma layout_fuel: "list_all parameter_framed ds \<Longrightarrow> length ds \<le> length (layout ds)"
proof (induction ds rule: layout.induct)
  case (3 d e ds)
  then show ?case
    using RoundUpTo4_ge [of "length d"] by (simp add: parameter_framed_def del: RoundUpTo4_ge)
qed (auto simp: parameter_framed_def)

lemma Parameters_Parse_loop_layout:
  "list_all parameter_framed ds \<Longrightarrow> length ds < n \<Longrightarrow> Parameters_Parse_loop n (layout ds) = Value ()"
proof (induction ds arbitrary: n)
  case Nil
  then show ?case by (cases n) simp_all
next
  case (Cons d ds)
  from Cons.prems obtain m where m: "n = Suc m" "length ds < m" by (cases n) auto
  from Cons.prems have "parameter_framed d" by simp
  note head = layout_head [OF this, of ds]
  with Cons m show ?case
    using layout_Cons_length [of d ds] \<open>parameter_framed d\<close>
    by (cases "RoundUpTo4 (length d) \<le> length (layout (d # ds))")
      (simp_all add: kParameterHeaderSize_def BoundedByteReader_def Load16_def Let_def
        layout_rest(1) parameter_framed_def)
qed

lemma descriptors_loop_layout:
  "list_all parameter_framed ds \<Longrightarrow> length ds < n \<Longrightarrow>
   descriptors_loop n (layout ds) acc = Value (acc @ map descriptor_of ds)"
proof (induction ds arbitrary: n acc)
  case Nil
  then show ?case by (cases n) simp_all
next
  case (Cons d ds)
  from Cons.prems obtain m where m: "n = Suc m" "length ds < m" by (cases n) auto
  from Cons.prems have "parameter_framed d" by simp
  note head = layout_head [OF this, of ds]
  with Cons m show ?case
    using layout_rest [of d ds]
    by (cases "RoundUpTo4 (length d) \<le> length (layout (d # ds))")
      (simp_all add: kParameterHeaderSize_def BoundedByteReader_def Load16_def Let_def
        descriptor_of_def)
qed

lemma built_parameters:
  assumes "list_all Parameter_ok ps" and "Builder_Add_all ps [] = Value data" and "length data < 65533"
  shows "Parameters_Parse data = Value (Builder_Build data)"
    and "Parameters_descriptors (Builder_Build data) =
      Value (map (\<lambda>p. descriptor_of (parameter_bytes p)) ps)"
proof -
  have data: "data = layout (map parameter_bytes ps)"
    using assms(1,2) by (simp add: Builder_Add_all_layout)
  have framed: "list_all parameter_framed (map parameter_bytes ps)"
    using assms(1,3) order.strict_trans1 [OF layout_member_length, of _ "map parameter_bytes ps" 65533]
    by (simp add: data list_all_iff parameter_framed_bytes)
  show "Parameters_Parse data = Value (Builder_Build data)"
    using Parameters_Parse_loop_layout [OF framed] layout_fuel [OF framed]
    by (simp add: Parameters_Parse_def data Builder_Build_def del: Parameters_Parse_loop.simps)
  show "Parameters_descriptors (Builder_Build data) =
      Value (map (\<lambda>p. descriptor_of (parameter_bytes p)) ps)"
    using descriptors_loop_layout [OF framed, of _ "[]"] layout_fuel [OF framed]
    by (simp add: Parameters_descriptors_def data Builder_Build_def o_def del: descriptors_loop.simps)
qed

section \<open>Looking a parameter up\<close>

definition Parameter_type :: "Parameter \<Rightarrow> nat" where
  "Parameter_type p = kType (Parameter_config p)"

lemma descriptor_of_type:
  assumes "Parameter_ok p"
  shows "unat (pd_type (descriptor_of (parameter_bytes p))) = Parameter_type p"
  using parameter_bytes_props(2) [OF assms]
  by (simp add: framed_def tlv_type_field_def descriptor_of_def Parameter_type_def)

text \<open>
  The contract of a class derived from \<open>Parameter\<close>: it is a codec with a two-byte type, and
  its objects serialize through the virtual function. \<open>get\<close> then returns the first one.
\<close>

locale parameter_class = tlv_codec cfg parse serialize ok wire
  for cfg :: tlv_config and parse :: "bytes \<Rightarrow> 'a outcome"
    and serialize :: "'a \<Rightarrow> bytes \<Rightarrow> bytes outcome" and ok :: "'a \<Rightarrow> bool" and wire :: "'a \<Rightarrow> 'a" +
  fixes upcast :: "'a \<Rightarrow> Parameter"
  assumes upcast_serialize: "Parameter_SerializeTo (upcast x) out = serialize x out"
    and upcast_ok: "Parameter_ok (upcast x) \<longleftrightarrow> ok x"
    and upcast_config: "Parameter_config (upcast x) = cfg"
begin

lemma parse_parameter_bytes:
  assumes "ok x"
  shows "parse (parameter_bytes (upcast x)) = Value (wire x)"
  using assms by (rule serializeE) (simp add: parameter_bytes_def upcast_serialize)

lemma get_first_descriptor:
  assumes "list_all Parameter_ok ps"
  shows "find (\<lambda>p. Parameter_type p = kType cfg) ps = Some (upcast x) \<Longrightarrow>
      get_first (kType cfg) parse (map (\<lambda>p. descriptor_of (parameter_bytes p)) ps) = Value (wire x)"
    and "find (\<lambda>p. Parameter_type p = kType cfg) ps = None \<Longrightarrow>
      get_first (kType cfg) parse (map (\<lambda>p. descriptor_of (parameter_bytes p)) ps) = Nullopt"
  using assms
  by (induction ps)
    (auto simp: descriptor_of_type parse_parameter_bytes upcast_ok split: if_splits,
     simp add: descriptor_of_def parse_parameter_bytes upcast_ok)

lemma get_built:
  assumes "list_all Parameter_ok ps" and "Builder_Add_all ps [] = Value data" and "length data < 65533"
  shows "find (\<lambda>p. Parameter_type p = kType cfg) ps = Some (upcast x) \<Longrightarrow>
      Parameters_get (kType cfg) parse (Builder_Build data) = Value (wire x)"
    and "find (\<lambda>p. Parameter_type p = kType cfg) ps = None \<Longrightarrow>
      Parameters_get (kType cfg) parse (Builder_Build data) = Nullopt"
  using get_first_descriptor [OF assms(1)]
  by (simp_all add: Parameters_get_def built_parameters(2) [OF assms])

end

interpretation heartbeat_info: parameter_class HeartbeatInfoParameterConfig
  HeartbeatInfoParameter_Parse HeartbeatInfoParameter_SerializeTo
  "\<lambda>p. length (hbi_info p) < 65532" "\<lambda>p. p" P_HeartbeatInfo
  by unfold_locales (simp_all add: HeartbeatInfoParameterConfig_def)

interpretation state_cookie: parameter_class StateCookieParameterConfig
  StateCookieParameter_Parse StateCookieParameter_SerializeTo
  "\<lambda>p. length (scp_data p) < 65532" "\<lambda>p. p" P_StateCookie
  by unfold_locales (simp_all add: StateCookieParameterConfig_def)

interpretation supported_extensions: parameter_class SupportedExtensionsParameterConfig
  SupportedExtensionsParameter_Parse SupportedExtensionsParameter_SerializeTo
  "\<lambda>p. length (sep_chunk_types p) < 65532" "\<lambda>p. p" P_SupportedExtensions
  by unfold_locales (simp_all add: SupportedExtensionsParameterConfig_def)

interpretation forward_tsn_supported: parameter_class ForwardTsnSupportedParameterConfig
  ForwardTsnSupportedParameter_Parse ForwardTsnSupportedParameter_SerializeTo
  "\<lambda>_. True" "\<lambda>p. p" P_ForwardTsnSupported
  by unfold_locales (simp_all add: ForwardTsnSupportedParameterConfig_def)

interpretation zero_checksum: parameter_class ZeroChecksumAcceptableChunkParameterConfig
  ZeroChecksumAcceptableChunkParameter_Parse ZeroChecksumAcceptableChunkParameter_SerializeTo
  "\<lambda>p. zca_error_detection_method p \<noteq> ZeroChecksumAlternateErrorDetectionMethod_None" "\<lambda>p. p" P_ZeroChecksumAcceptable
  by unfold_locales (simp_all add: ZeroChecksumAcceptableChunkParameterConfig_def)

interpretation add_incoming: parameter_class AddIncomingStreamsRequestParameterConfig
  AddIncomingStreamsRequestParameter_Parse AddIncomingStreamsRequestParameter_SerializeTo
  "\<lambda>_. True" "\<lambda>p. p" P_AddIncomingStreams
  by unfold_locales (simp_all add: AddIncomingStreamsRequestParameterConfig_def)

interpretation add_outgoing: parameter_class AddOutgoingStreamsRequestParameterConfig
  AddOutgoingStreamsRequestParameter_Parse AddOutgoingStreamsRequestParameter_SerializeTo
  "\<lambda>_. True" "\<lambda>p. p" P_AddOutgoingStreams
  by unfold_locales (simp_all add: AddOutgoingStreamsRequestParameterConfig_def)

interpretation ssn_tsn_reset: parameter_class SSNTSNResetRequestParameterConfig
  SSNTSNResetRequestParameter_Parse SSNTSNResetRequestParameter_SerializeTo
  "\<lambda>_. True" "\<lambda>p. p" P_SSNTSNReset
  by unfold_locales (simp_all add: SSNTSNResetRequestParameterConfig_def)

interpretation incoming_ssn_reset: parameter_class IncomingSSNResetRequestParameterConfig
  IncomingSSNResetRequestParameter_Parse IncomingSSNResetRequestParameter_SerializeTo
  "\<lambda>p. length (issn_stream_ids p) < 32764" "\<lambda>p. p" P_IncomingSSNReset
  by unfold_locales (simp_all add: IncomingSSNResetRequestParameterConfig_def)

interpretation outgoing_ssn_reset: parameter_class OutgoingSSNResetRequestParameterConfig
  OutgoingSSNResetRequestParameter_Parse OutgoingSSNResetRequestParameter_SerializeTo
  "\<lambda>p. length (ossn_stream_ids p) < 32760" "\<lambda>p. p" P_OutgoingSSNReset
  by unfold_locales (simp_all add: OutgoingSSNResetRequestParameterConfig_def)

interpretation reconfiguration_response: parameter_class ReconfigurationResponseParameterConfig
  ReconfigurationResponseParameter_Parse ReconfigurationResponseParameter_SerializeTo
  ReconfigurationResponseParameter_ok "\<lambda>p. p" P_ReconfigurationResponse
  by unfold_locales (simp_all add: ReconfigurationResponseParameterConfig_def)

interpretation invalid_stream_identifier: parameter_class InvalidStreamIdentifierCauseConfig
  InvalidStreamIdentifierCause_Parse InvalidStreamIdentifierCause_SerializeTo
  "\<lambda>_. True" "\<lambda>p. p" C_InvalidStreamIdentifier
  by unfold_locales (simp_all add: InvalidStreamIdentifierCauseConfig_def)

interpretation missing_mandatory_parameter: parameter_class MissingMandatoryParameterCauseConfig
  MissingMandatoryParameterCause_Parse MissingMandatoryParameterCause_SerializeTo
  "\<lambda>p. length (mmp_missing_parameter_types p) < 32764" "\<lambda>p. p" C_MissingMandatoryParameter
  by unfold_locales (simp_all add: MissingMandatoryParameterCauseConfig_def)

interpretation stale_cookie: parameter_class StaleCookieParameterConfig
  StaleCookieErrorCause_Parse StaleCookieErrorCause_SerializeTo
  "\<lambda>_. True" "\<lambda>p. p" C_StaleCookie
  by unfold_locales (simp_all add: StaleCookieParameterConfig_def)

interpretation out_of_resource: parameter_class OutOfResourceParameterConfig
  OutOfResourceErrorCause_Parse OutOfResourceErrorCause_SerializeTo
  "\<lambda>_. True" "\<lambda>p. p" C_OutOfResource
  by unfold_locales (simp_all add: OutOfResourceParameterConfig_def)

interpretation unresolvable_address: parameter_class UnresolvableAddressCauseConfig
  UnresolvableAddressCause_Parse UnresolvableAddressCause_SerializeTo
  "\<lambda>p. length (ua_unresolvable_address p) < 65532" "\<lambda>p. p" C_UnresolvableAddress
  by unfold_locales (simp_all add: UnresolvableAddressCauseConfig_def)

interpretation unrecognized_chunk_type: parameter_class UnrecognizedChunkTypeCauseConfig
  UnrecognizedChunkTypeCause_Parse UnrecognizedChunkTypeCause_SerializeTo
  "\<lambda>p. length (uct_unrecognized_chunk p) < 65532" "\<lambda>p. p" C_UnrecognizedChunkType
  by unfold_locales (simp_all add: UnrecognizedChunkTypeCauseConfig_def)

interpretation invalid_mandatory_parameter: parameter_class InvalidMandatoryParameterCauseConfig
  InvalidMandatoryParameterCause_Parse InvalidMandatoryParameterCause_SerializeTo
  "\<lambda>_. True" "\<lambda>p. p" C_InvalidMandatoryParameter
  by unfold_locales (simp_all add: InvalidMandatoryParameterCauseConfig_def)

interpretation unrecognized_parameters: parameter_class UnrecognizedParametersCauseConfig
  UnrecognizedParametersCause_Parse UnrecognizedParametersCause_SerializeTo
  "\<lambda>p. length (up_unrecognized_parameters p) < 65532" "\<lambda>p. p" C_UnrecognizedParameters
  by unfold_locales (simp_all add: UnrecognizedParametersCauseConfig_def)

interpretation no_user_data: parameter_class NoUserDataCauseConfig
  NoUserDataCause_Parse NoUserDataCause_SerializeTo
  "\<lambda>_. True" "\<lambda>p. p" C_NoUserData
  by unfold_locales (simp_all add: NoUserDataCauseConfig_def)

interpretation cookie_while_shutting_down: parameter_class CookieReceivedWhileShuttingDownCauseConfig
  CookieReceivedWhileShuttingDownCause_Parse CookieReceivedWhileShuttingDownCause_SerializeTo
  "\<lambda>_. True" "\<lambda>p. p" C_CookieReceivedWhileShuttingDown
  by unfold_locales (simp_all add: CookieReceivedWhileShuttingDownCauseConfig_def)

interpretation restart: parameter_class RestartOfAnAssociationWithNewAddressesCauseConfig
  RestartOfAnAssociationWithNewAddressesCause_Parse RestartOfAnAssociationWithNewAddressesCause_SerializeTo
  "\<lambda>p. length (roa_new_addresses p) < 65532" "\<lambda>p. p" C_RestartOfAnAssociation
  by unfold_locales (simp_all add: RestartOfAnAssociationWithNewAddressesCauseConfig_def)

interpretation user_initiated_abort: parameter_class UserInitiatedAbortCauseConfig
  UserInitiatedAbortCause_Parse UserInitiatedAbortCause_SerializeTo
  "\<lambda>p. length (uia_upper_layer_abort_reason p) < 65532" "\<lambda>p. p" C_UserInitiatedAbort
  by unfold_locales (simp_all add: UserInitiatedAbortCauseConfig_def)

interpretation protocol_violation: parameter_class ProtocolViolationCauseConfig
  ProtocolViolationCause_Parse ProtocolViolationCause_SerializeTo
  "\<lambda>p. length (pv_additional_information p) < 65532" "\<lambda>p. p" C_ProtocolViolation
  by unfold_locales (simp_all add: ProtocolViolationCauseConfig_def)

section \<open>Properties\<close>

text \<open>
  C23. A list written by \<open>Parameters::Builder\<close> reads back: \<open>Parse\<close> accepts the bytes unchanged, and
  \<open>descriptors\<close> lists the parameters in the order in which they were added, each with its type and
  its own bytes without padding, for every list whose encoding is shorter than 65533 bytes.
\<close>

theorem parameters_round_trip:
  assumes "list_all Parameter_ok ps" and "Builder_Add_all ps [] = Value data" and "length data < 65533"
  shows "Parameters_Parse data = Value (Builder_Build data) \<and>
    (\<exists>ds. Parameters_descriptors (Builder_Build data) = Value ds \<and>
      map (\<lambda>d. unat (pd_type d)) ds = map Parameter_type ps \<and>
      map (\<lambda>d. Value (pd_data d)) ds = map (\<lambda>p. Parameter_SerializeTo p []) ps)"
proof -
  have "map (\<lambda>p. Value (parameter_bytes p)) ps = map (\<lambda>p. Parameter_SerializeTo p []) ps"
    using assms(1) by (auto simp: list_all_iff parameter_bytes_props(1))
  with assms(1) show ?thesis
    by (auto simp: built_parameters [OF assms] o_def descriptor_of_type list_all_iff)
      (simp add: descriptor_of_def)
qed

definition sample_parameters :: "Parameter list" where
  "sample_parameters =
     [P_StateCookie \<lparr>scp_data = [64, 192]\<rparr>,
      P_SSNTSNReset \<lparr>str_request_sequence_number = 7\<rparr>,
      P_HeartbeatInfo \<lparr>hbi_info = [1, 2, 3]\<rparr>]"

definition sample_parameters_data :: bytes where
  "sample_parameters_data =
     [0, 7, 0, 6, 64, 192, 0, 0, 0, 15, 0, 8, 0, 0, 0, 7, 0, 1, 0, 7, 1, 2, 3]"

lemma sample_parameters_added: "Builder_Add_all sample_parameters [] = Value sample_parameters_data"
  by code_simp

lemma sample_parameters_built:
  "list_all Parameter_ok sample_parameters"
  "Builder_Add_all sample_parameters [] = Value sample_parameters_data"
  "length sample_parameters_data < 65533"
  using sample_parameters_added
  by (simp_all add: sample_parameters_def sample_parameters_data_def del: Builder_Add_all.simps)

theorem parameters_round_trip_witness:
  "list_all Parameter_ok sample_parameters \<and>
   Builder_Add_all sample_parameters [] = Value sample_parameters_data \<and>
   Parameters_Parse sample_parameters_data = Value (Builder_Build sample_parameters_data)"
  using parameters_round_trip [OF sample_parameters_built] sample_parameters_built by simp

text \<open>\<open>get\<close> of the class of the parameter returns the parameter.\<close>

fun Parameter_found :: "Parameter \<Rightarrow> Parameters \<Rightarrow> bool" where
  "Parameter_found (P_HeartbeatInfo p) ps \<longleftrightarrow> Parameters_get (kType HeartbeatInfoParameterConfig) HeartbeatInfoParameter_Parse ps = Value p"
| "Parameter_found (P_StateCookie p) ps \<longleftrightarrow> Parameters_get (kType StateCookieParameterConfig) StateCookieParameter_Parse ps = Value p"
| "Parameter_found (P_SupportedExtensions p) ps \<longleftrightarrow> Parameters_get (kType SupportedExtensionsParameterConfig) SupportedExtensionsParameter_Parse ps = Value p"
| "Parameter_found (P_ForwardTsnSupported p) ps \<longleftrightarrow> Parameters_get (kType ForwardTsnSupportedParameterConfig) ForwardTsnSupportedParameter_Parse ps = Value p"
| "Parameter_found (P_ZeroChecksumAcceptable p) ps \<longleftrightarrow> Parameters_get (kType ZeroChecksumAcceptableChunkParameterConfig) ZeroChecksumAcceptableChunkParameter_Parse ps = Value p"
| "Parameter_found (P_AddIncomingStreams p) ps \<longleftrightarrow> Parameters_get (kType AddIncomingStreamsRequestParameterConfig) AddIncomingStreamsRequestParameter_Parse ps = Value p"
| "Parameter_found (P_AddOutgoingStreams p) ps \<longleftrightarrow> Parameters_get (kType AddOutgoingStreamsRequestParameterConfig) AddOutgoingStreamsRequestParameter_Parse ps = Value p"
| "Parameter_found (P_SSNTSNReset p) ps \<longleftrightarrow> Parameters_get (kType SSNTSNResetRequestParameterConfig) SSNTSNResetRequestParameter_Parse ps = Value p"
| "Parameter_found (P_IncomingSSNReset p) ps \<longleftrightarrow> Parameters_get (kType IncomingSSNResetRequestParameterConfig) IncomingSSNResetRequestParameter_Parse ps = Value p"
| "Parameter_found (P_OutgoingSSNReset p) ps \<longleftrightarrow> Parameters_get (kType OutgoingSSNResetRequestParameterConfig) OutgoingSSNResetRequestParameter_Parse ps = Value p"
| "Parameter_found (P_ReconfigurationResponse p) ps \<longleftrightarrow> Parameters_get (kType ReconfigurationResponseParameterConfig) ReconfigurationResponseParameter_Parse ps = Value p"
| "Parameter_found (C_InvalidStreamIdentifier p) ps \<longleftrightarrow> Parameters_get (kType InvalidStreamIdentifierCauseConfig) InvalidStreamIdentifierCause_Parse ps = Value p"
| "Parameter_found (C_MissingMandatoryParameter p) ps \<longleftrightarrow> Parameters_get (kType MissingMandatoryParameterCauseConfig) MissingMandatoryParameterCause_Parse ps = Value p"
| "Parameter_found (C_StaleCookie p) ps \<longleftrightarrow> Parameters_get (kType StaleCookieParameterConfig) StaleCookieErrorCause_Parse ps = Value p"
| "Parameter_found (C_OutOfResource p) ps \<longleftrightarrow> Parameters_get (kType OutOfResourceParameterConfig) OutOfResourceErrorCause_Parse ps = Value p"
| "Parameter_found (C_UnresolvableAddress p) ps \<longleftrightarrow> Parameters_get (kType UnresolvableAddressCauseConfig) UnresolvableAddressCause_Parse ps = Value p"
| "Parameter_found (C_UnrecognizedChunkType p) ps \<longleftrightarrow> Parameters_get (kType UnrecognizedChunkTypeCauseConfig) UnrecognizedChunkTypeCause_Parse ps = Value p"
| "Parameter_found (C_InvalidMandatoryParameter p) ps \<longleftrightarrow> Parameters_get (kType InvalidMandatoryParameterCauseConfig) InvalidMandatoryParameterCause_Parse ps = Value p"
| "Parameter_found (C_UnrecognizedParameters p) ps \<longleftrightarrow> Parameters_get (kType UnrecognizedParametersCauseConfig) UnrecognizedParametersCause_Parse ps = Value p"
| "Parameter_found (C_NoUserData p) ps \<longleftrightarrow> Parameters_get (kType NoUserDataCauseConfig) NoUserDataCause_Parse ps = Value p"
| "Parameter_found (C_CookieReceivedWhileShuttingDown p) ps \<longleftrightarrow> Parameters_get (kType CookieReceivedWhileShuttingDownCauseConfig) CookieReceivedWhileShuttingDownCause_Parse ps = Value p"
| "Parameter_found (C_RestartOfAnAssociation p) ps \<longleftrightarrow> Parameters_get (kType RestartOfAnAssociationWithNewAddressesCauseConfig) RestartOfAnAssociationWithNewAddressesCause_Parse ps = Value p"
| "Parameter_found (C_UserInitiatedAbort p) ps \<longleftrightarrow> Parameters_get (kType UserInitiatedAbortCauseConfig) UserInitiatedAbortCause_Parse ps = Value p"
| "Parameter_found (C_ProtocolViolation p) ps \<longleftrightarrow> Parameters_get (kType ProtocolViolationCauseConfig) ProtocolViolationCause_Parse ps = Value p"

lemmas get_built_classes =
  heartbeat_info.get_built(1)
  state_cookie.get_built(1)
  supported_extensions.get_built(1)
  forward_tsn_supported.get_built(1)
  zero_checksum.get_built(1)
  add_incoming.get_built(1)
  add_outgoing.get_built(1)
  ssn_tsn_reset.get_built(1)
  incoming_ssn_reset.get_built(1)
  outgoing_ssn_reset.get_built(1)
  reconfiguration_response.get_built(1)
  invalid_stream_identifier.get_built(1)
  missing_mandatory_parameter.get_built(1)
  stale_cookie.get_built(1)
  out_of_resource.get_built(1)
  unresolvable_address.get_built(1)
  unrecognized_chunk_type.get_built(1)
  invalid_mandatory_parameter.get_built(1)
  unrecognized_parameters.get_built(1)
  no_user_data.get_built(1)
  cookie_while_shutting_down.get_built(1)
  restart.get_built(1)
  user_initiated_abort.get_built(1)
  protocol_violation.get_built(1)

text \<open>
  C24. \<open>Parameters::get<P>()\<close> finds what the builder added: for each of the twenty-four parameter and
  error cause classes, it returns the first parameter of the list whose type is that of the class,
  with all its fields.
\<close>

theorem parameters_get_first:
  assumes "list_all Parameter_ok ps" and "Builder_Add_all ps [] = Value data" and "length data < 65533"
    and "find (\<lambda>q. Parameter_type q = Parameter_type p) ps = Some p"
  shows "Parameter_found p (Builder_Build data)"
  using assms(4)
  by (cases p) (simp_all add: Parameter_type_def get_built_classes [OF assms(1-3)])

theorem parameters_get_first_witness:
  "Parameters_get 15 SSNTSNResetRequestParameter_Parse (Builder_Build sample_parameters_data) =
     Value \<lparr>str_request_sequence_number = 7\<rparr>"
proof -
  have "find (\<lambda>q. Parameter_type q = Parameter_type (P_SSNTSNReset \<lparr>str_request_sequence_number = 7\<rparr>))
      sample_parameters = Some (P_SSNTSNReset \<lparr>str_request_sequence_number = 7\<rparr>)"
    by (simp add: sample_parameters_def Parameter_type_def SSNTSNResetRequestParameterConfig_def
        StateCookieParameterConfig_def)
  from parameters_get_first [OF sample_parameters_built this] show ?thesis
    by (simp add: SSNTSNResetRequestParameterConfig_def)
qed

text \<open>
  C25. On every input shorter than 65533 bytes, which includes the variable part of every chunk,
  \<open>Parameters::Parse\<close> returns: its loop ends and no bounds check fails. What it accepts it keeps
  unchanged, and the loop of \<open>descriptors\<close> over accepted bytes ends without a failing check.
\<close>

theorem Parameters_Parse_safe:
  assumes "length data < 65533"
  shows "returns (Parameters_Parse data) \<and>
    (\<forall>ps. Parameters_Parse data = Value ps \<longrightarrow>
      pars_data ps = data \<and> (\<exists>ds. Parameters_descriptors ps = Value ds))"
proof -
  have "\<exists>ds. descriptors_loop (Suc (length data)) data [] = Value ds"
    if "Parameters_Parse_loop (Suc (length data)) data = Value ()"
    by (rule descriptors_loop_accepted [OF that])
  then show ?thesis
    using Parameters_Parse_loop_returns [OF assms, of "Suc (length data)"]
    by (auto simp: Parameters_Parse_def Parameters_descriptors_def returns_obind_iff obind_Value_iff
        simp del: Parameters_Parse_loop.simps descriptors_loop.simps)
qed

theorem Parameters_Parse_safe_witness:
  "length [0, 1, 0, 4 :: u8] < 65533 \<and> returns (Parameters_Parse [0, 1, 0, 4])"
  using Parameters_Parse_safe [of "[0, 1, 0, 4]"] by simp

text \<open>
  C26. The loop of \<open>Parameters::Parse\<close> never ends on an input that starts with a length field of
  65533 to 65535 and is at least that long: the sixteen-bit rounding of the length gives 0, and the
  span never gets shorter. No amount of fuel is enough, and \<open>Parse\<close> itself diverges.
\<close>

theorem Parameters_Parse_diverges:
  assumes "65533 \<le> unat (LoadBigEndian16 data 2)" and "unat (LoadBigEndian16 data 2) \<le> length data"
  shows "Parameters_Parse_loop fuel data = Diverges \<and> Parameters_Parse data = Diverges"
proof -
  have "Parameters_Parse_loop n data = Diverges" for n
    using Parameters_Parse_loop_stuck [of data n] assms by simp
  then show ?thesis by (simp add: Parameters_Parse_def del: Parameters_Parse_loop.simps)
qed

theorem Parameters_Parse_diverges_witness:
  "Parameters_Parse ([0, 1, 0xff, 0xff] @ replicate 65531 0) = Diverges"
  using Parameters_Parse_diverges [of "[0, 1, 0xff, 0xff] @ replicate 65531 0"]
  by (simp add: LoadBigEndian16_def)

end
