(* ===== verification/Control_Chunks.thy ===== *)
theory Control_Chunks
  imports Parameter_List
begin

text \<open>
  The chunks of \<open>net/dcsctp/packet/chunk\<close> that set up, supervise and tear down an association.
  INIT, INIT-ACK, HEARTBEAT, HEARTBEAT-ACK, ABORT, ERROR and RE-CONFIG carry a parameter list,
  which their parsers validate; their \<open>ok\<close> asks for a list that \<open>Parameters::Parse\<close> accepts, which
  every list from the builder is.
\<close>

section \<open>Parameter lists inside a chunk\<close>

definition Parameters_ok :: "nat \<Rightarrow> Parameters \<Rightarrow> bool" where
  "Parameters_ok limit ps \<longleftrightarrow> length (pars_data ps) < limit \<and> Parameters_Parse (pars_data ps) = Value ps"

text \<open>The variable part of a chunk is at most 65531 bytes long, so the validation loop ends.\<close>

lemma Parameters_Parse_returns:
  "length data < 65533 \<Longrightarrow> returns (Parameters_Parse data)"
  by (simp add: Parameters_Parse_def returns_obind_iff Parameters_Parse_loop_returns
      del: Parameters_Parse_loop.simps)

section \<open>INIT\<close>

definition InitChunkConfig :: tlv_config where
  "InitChunkConfig =
     \<lparr>kType = 1, kTypeSizeInBytes = 1, kHeaderSize = 20, kVariableLengthAlignment = 1\<rparr>"

record InitChunk =
  init_initiate_tag :: u32
  init_a_rwnd :: u32
  init_nbr_outbound_streams :: u16
  init_nbr_inbound_streams :: u16
  init_initial_tsn :: u32
  init_parameters :: Parameters

definition InitChunk_Parse :: "bytes \<Rightarrow> InitChunk outcome" where
  "InitChunk_Parse data =
     obind (ParseTLV InitChunkConfig data) (\<lambda>reader.
     let initiate_tag = Load32 reader 4 in
     let a_rwnd = Load32 reader 8 in
     let nbr_outbound_streams = Load16 reader 12 in
     let nbr_inbound_streams = Load16 reader 14 in
     let initial_tsn = Load32 reader 16 in
     obind (Parameters_Parse (variable_data reader)) (\<lambda>parameters.
     Value \<lparr>init_initiate_tag = initiate_tag, init_a_rwnd = a_rwnd, init_nbr_outbound_streams = nbr_outbound_streams, init_nbr_inbound_streams = nbr_inbound_streams, init_initial_tsn = initial_tsn, init_parameters = parameters\<rparr>))"

definition InitChunk_SerializeTo :: "InitChunk \<Rightarrow> bytes \<Rightarrow> bytes outcome" where
  "InitChunk_SerializeTo c out =
     (let parameters = pars_data (init_parameters c) in
     obind (AllocateTLV InitChunkConfig out (length parameters)) (\<lambda>writer.
     let writer = Store32 4 (init_initiate_tag c) writer in
     let writer = Store32 8 (init_a_rwnd c) writer in
     let writer = Store16 12 (init_nbr_outbound_streams c) writer in
     let writer = Store16 14 (init_nbr_inbound_streams c) writer in
     let writer = Store32 16 (init_initial_tsn c) writer in
     Value (written (CopyToVariableData parameters writer))))"

lemmas InitChunk_defs =
  InitChunk_Parse_def InitChunk_SerializeTo_def InitChunkConfig_def

interpretation init_codec: tlv_codec InitChunkConfig InitChunk_Parse InitChunk_SerializeTo
  "\<lambda>c. Parameters_ok 65516 (init_parameters c)" "\<lambda>c. c"
proof (rule tlv_codecI, goal_cases)
  case (2 data)
  show ?case
    unfolding InitChunk_Parse_def Let_def
    by (intro ParseTLV_obind_returns obind_returns Parameters_Parse_returns returns_intros_basic)
      (simp_all add: InitChunkConfig_def codec_proof_simps)
qed (simp_all add: InitChunk_defs codec_proof_simps Parameters_ok_def Let_def)

section \<open>INIT-ACK\<close>

definition InitAckChunkConfig :: tlv_config where
  "InitAckChunkConfig =
     \<lparr>kType = 2, kTypeSizeInBytes = 1, kHeaderSize = 20, kVariableLengthAlignment = 1\<rparr>"

record InitAckChunk =
  initack_initiate_tag :: u32
  initack_a_rwnd :: u32
  initack_nbr_outbound_streams :: u16
  initack_nbr_inbound_streams :: u16
  initack_initial_tsn :: u32
  initack_parameters :: Parameters

definition InitAckChunk_Parse :: "bytes \<Rightarrow> InitAckChunk outcome" where
  "InitAckChunk_Parse data =
     obind (ParseTLV InitAckChunkConfig data) (\<lambda>reader.
     let initiate_tag = Load32 reader 4 in
     let a_rwnd = Load32 reader 8 in
     let nbr_outbound_streams = Load16 reader 12 in
     let nbr_inbound_streams = Load16 reader 14 in
     let initial_tsn = Load32 reader 16 in
     obind (Parameters_Parse (variable_data reader)) (\<lambda>parameters.
     Value \<lparr>initack_initiate_tag = initiate_tag, initack_a_rwnd = a_rwnd, initack_nbr_outbound_streams = nbr_outbound_streams, initack_nbr_inbound_streams = nbr_inbound_streams, initack_initial_tsn = initial_tsn, initack_parameters = parameters\<rparr>))"

definition InitAckChunk_SerializeTo :: "InitAckChunk \<Rightarrow> bytes \<Rightarrow> bytes outcome" where
  "InitAckChunk_SerializeTo c out =
     (let parameters = pars_data (initack_parameters c) in
     obind (AllocateTLV InitAckChunkConfig out (length parameters)) (\<lambda>writer.
     let writer = Store32 4 (initack_initiate_tag c) writer in
     let writer = Store32 8 (initack_a_rwnd c) writer in
     let writer = Store16 12 (initack_nbr_outbound_streams c) writer in
     let writer = Store16 14 (initack_nbr_inbound_streams c) writer in
     let writer = Store32 16 (initack_initial_tsn c) writer in
     Value (written (CopyToVariableData parameters writer))))"

lemmas InitAckChunk_defs =
  InitAckChunk_Parse_def InitAckChunk_SerializeTo_def InitAckChunkConfig_def

interpretation init_ack_codec: tlv_codec InitAckChunkConfig InitAckChunk_Parse InitAckChunk_SerializeTo
  "\<lambda>c. Parameters_ok 65516 (initack_parameters c)" "\<lambda>c. c"
proof (rule tlv_codecI, goal_cases)
  case (2 data)
  show ?case
    unfolding InitAckChunk_Parse_def Let_def
    by (intro ParseTLV_obind_returns obind_returns Parameters_Parse_returns returns_intros_basic)
      (simp_all add: InitAckChunkConfig_def codec_proof_simps)
qed (simp_all add: InitAckChunk_defs codec_proof_simps Parameters_ok_def Let_def)

section \<open>HEARTBEAT\<close>

definition HeartbeatRequestChunkConfig :: tlv_config where
  "HeartbeatRequestChunkConfig =
     \<lparr>kType = 4, kTypeSizeInBytes = 1, kHeaderSize = 4, kVariableLengthAlignment = 1\<rparr>"

record HeartbeatRequestChunk =
  hbr_parameters :: Parameters

definition HeartbeatRequestChunk_Parse :: "bytes \<Rightarrow> HeartbeatRequestChunk outcome" where
  "HeartbeatRequestChunk_Parse data =
     obind (ParseTLV HeartbeatRequestChunkConfig data) (\<lambda>reader.
     obind (Parameters_Parse (variable_data reader)) (\<lambda>parameters.
     Value \<lparr>hbr_parameters = parameters\<rparr>))"

definition HeartbeatRequestChunk_SerializeTo :: "HeartbeatRequestChunk \<Rightarrow> bytes \<Rightarrow> bytes outcome" where
  "HeartbeatRequestChunk_SerializeTo c out =
     (let parameters = pars_data (hbr_parameters c) in
     obind (AllocateTLV HeartbeatRequestChunkConfig out (length parameters)) (\<lambda>writer.
     Value (written (CopyToVariableData parameters writer))))"

lemmas HeartbeatRequestChunk_defs =
  HeartbeatRequestChunk_Parse_def HeartbeatRequestChunk_SerializeTo_def HeartbeatRequestChunkConfig_def

interpretation heartbeat_request_codec: tlv_codec HeartbeatRequestChunkConfig HeartbeatRequestChunk_Parse HeartbeatRequestChunk_SerializeTo
  "\<lambda>c. Parameters_ok 65532 (hbr_parameters c)" "\<lambda>c. c"
proof (rule tlv_codecI, goal_cases)
  case (2 data)
  show ?case
    unfolding HeartbeatRequestChunk_Parse_def Let_def
    by (intro ParseTLV_obind_returns obind_returns Parameters_Parse_returns returns_intros_basic)
      (simp_all add: HeartbeatRequestChunkConfig_def codec_proof_simps)
qed (simp_all add: HeartbeatRequestChunk_defs codec_proof_simps Parameters_ok_def Let_def)

section \<open>HEARTBEAT-ACK\<close>

definition HeartbeatAckChunkConfig :: tlv_config where
  "HeartbeatAckChunkConfig =
     \<lparr>kType = 5, kTypeSizeInBytes = 1, kHeaderSize = 4, kVariableLengthAlignment = 1\<rparr>"

record HeartbeatAckChunk =
  hba_parameters :: Parameters

definition HeartbeatAckChunk_Parse :: "bytes \<Rightarrow> HeartbeatAckChunk outcome" where
  "HeartbeatAckChunk_Parse data =
     obind (ParseTLV HeartbeatAckChunkConfig data) (\<lambda>reader.
     obind (Parameters_Parse (variable_data reader)) (\<lambda>parameters.
     Value \<lparr>hba_parameters = parameters\<rparr>))"

definition HeartbeatAckChunk_SerializeTo :: "HeartbeatAckChunk \<Rightarrow> bytes \<Rightarrow> bytes outcome" where
  "HeartbeatAckChunk_SerializeTo c out =
     (let parameters = pars_data (hba_parameters c) in
     obind (AllocateTLV HeartbeatAckChunkConfig out (length parameters)) (\<lambda>writer.
     Value (written (CopyToVariableData parameters writer))))"

lemmas HeartbeatAckChunk_defs =
  HeartbeatAckChunk_Parse_def HeartbeatAckChunk_SerializeTo_def HeartbeatAckChunkConfig_def

interpretation heartbeat_ack_codec: tlv_codec HeartbeatAckChunkConfig HeartbeatAckChunk_Parse HeartbeatAckChunk_SerializeTo
  "\<lambda>c. Parameters_ok 65532 (hba_parameters c)" "\<lambda>c. c"
proof (rule tlv_codecI, goal_cases)
  case (2 data)
  show ?case
    unfolding HeartbeatAckChunk_Parse_def Let_def
    by (intro ParseTLV_obind_returns obind_returns Parameters_Parse_returns returns_intros_basic)
      (simp_all add: HeartbeatAckChunkConfig_def codec_proof_simps)
qed (simp_all add: HeartbeatAckChunk_defs codec_proof_simps Parameters_ok_def Let_def)

section \<open>ERROR\<close>

definition ErrorChunkConfig :: tlv_config where
  "ErrorChunkConfig =
     \<lparr>kType = 9, kTypeSizeInBytes = 1, kHeaderSize = 4, kVariableLengthAlignment = 4\<rparr>"

record ErrorChunk =
  err_error_causes :: Parameters

definition ErrorChunk_Parse :: "bytes \<Rightarrow> ErrorChunk outcome" where
  "ErrorChunk_Parse data =
     obind (ParseTLV ErrorChunkConfig data) (\<lambda>reader.
     obind (Parameters_Parse (variable_data reader)) (\<lambda>parameters.
     Value \<lparr>err_error_causes = parameters\<rparr>))"

definition ErrorChunk_SerializeTo :: "ErrorChunk \<Rightarrow> bytes \<Rightarrow> bytes outcome" where
  "ErrorChunk_SerializeTo c out =
     (let parameters = pars_data (err_error_causes c) in
     obind (AllocateTLV ErrorChunkConfig out (length parameters)) (\<lambda>writer.
     Value (written (CopyToVariableData parameters writer))))"

lemmas ErrorChunk_defs =
  ErrorChunk_Parse_def ErrorChunk_SerializeTo_def ErrorChunkConfig_def

interpretation error_codec: tlv_codec ErrorChunkConfig ErrorChunk_Parse ErrorChunk_SerializeTo
  "\<lambda>c. Parameters_ok 65532 (err_error_causes c) \<and> length (pars_data (err_error_causes c)) mod 4 = 0" "\<lambda>c. c"
proof (rule tlv_codecI, goal_cases)
  case (2 data)
  show ?case
    unfolding ErrorChunk_Parse_def Let_def
    by (intro ParseTLV_obind_returns obind_returns Parameters_Parse_returns returns_intros_basic)
      (simp_all add: ErrorChunkConfig_def codec_proof_simps)
qed (simp_all add: ErrorChunk_defs codec_proof_simps Parameters_ok_def Let_def mod_0_imp_dvd)

section \<open>RE-CONFIG\<close>

definition ReConfigChunkConfig :: tlv_config where
  "ReConfigChunkConfig =
     \<lparr>kType = 130, kTypeSizeInBytes = 1, kHeaderSize = 4, kVariableLengthAlignment = 1\<rparr>"

record ReConfigChunk =
  rcf_parameters :: Parameters

definition ReConfigChunk_Parse :: "bytes \<Rightarrow> ReConfigChunk outcome" where
  "ReConfigChunk_Parse data =
     obind (ParseTLV ReConfigChunkConfig data) (\<lambda>reader.
     obind (Parameters_Parse (variable_data reader)) (\<lambda>parameters.
     Value \<lparr>rcf_parameters = parameters\<rparr>))"

definition ReConfigChunk_SerializeTo :: "ReConfigChunk \<Rightarrow> bytes \<Rightarrow> bytes outcome" where
  "ReConfigChunk_SerializeTo c out =
     (let parameters = pars_data (rcf_parameters c) in
     obind (AllocateTLV ReConfigChunkConfig out (length parameters)) (\<lambda>writer.
     Value (written (CopyToVariableData parameters writer))))"

lemmas ReConfigChunk_defs =
  ReConfigChunk_Parse_def ReConfigChunk_SerializeTo_def ReConfigChunkConfig_def

interpretation reconfig_codec: tlv_codec ReConfigChunkConfig ReConfigChunk_Parse ReConfigChunk_SerializeTo
  "\<lambda>c. Parameters_ok 65532 (rcf_parameters c)" "\<lambda>c. c"
proof (rule tlv_codecI, goal_cases)
  case (2 data)
  show ?case
    unfolding ReConfigChunk_Parse_def Let_def
    by (intro ParseTLV_obind_returns obind_returns Parameters_Parse_returns returns_intros_basic)
      (simp_all add: ReConfigChunkConfig_def codec_proof_simps)
qed (simp_all add: ReConfigChunk_defs codec_proof_simps Parameters_ok_def Let_def)

section \<open>ABORT\<close>

definition kFlagsBitT :: nat where
  "kFlagsBitT = 0"

definition AbortChunkConfig :: tlv_config where
  "AbortChunkConfig =
     \<lparr>kType = 6, kTypeSizeInBytes = 1, kHeaderSize = 4, kVariableLengthAlignment = 1\<rparr>"

record AbortChunk =
  abort_filled_in_verification_tag :: bool
  abort_error_causes :: Parameters

definition AbortChunk_Parse :: "bytes \<Rightarrow> AbortChunk outcome" where
  "AbortChunk_Parse data =
     obind (ParseTLV AbortChunkConfig data) (\<lambda>reader.
     obind (Parameters_Parse (variable_data reader)) (\<lambda>error_causes.
     let flags = Load8 reader 1;
         filled_in_verification_tag = (flags AND push_bit kFlagsBitT 1 = 0)
     in Value \<lparr>abort_filled_in_verification_tag = filled_in_verification_tag,
               abort_error_causes = error_causes\<rparr>))"

definition AbortChunk_SerializeTo :: "AbortChunk \<Rightarrow> bytes \<Rightarrow> bytes outcome" where
  "AbortChunk_SerializeTo c out =
     (let error_causes = pars_data (abort_error_causes c) in
      obind (AllocateTLV AbortChunkConfig out (length error_causes)) (\<lambda>writer.
      let writer = Store8 1 (if abort_filled_in_verification_tag c then 0 else push_bit kFlagsBitT 1) writer
      in Value (written (CopyToVariableData error_causes writer))))"

lemmas AbortChunk_defs =
  AbortChunk_Parse_def AbortChunk_SerializeTo_def AbortChunkConfig_def kFlagsBitT_def

interpretation abort_codec: tlv_codec AbortChunkConfig AbortChunk_Parse AbortChunk_SerializeTo
  "\<lambda>c. Parameters_ok 65532 (abort_error_causes c)" "\<lambda>c. c"
proof (rule tlv_codecI, goal_cases)
  case (2 data)
  show ?case
    unfolding AbortChunk_Parse_def Let_def
    by (intro ParseTLV_obind_returns obind_returns Parameters_Parse_returns returns_intros_basic)
      (simp_all add: AbortChunkConfig_def codec_proof_simps)
qed (simp_all add: AbortChunk_defs codec_proof_simps Parameters_ok_def Let_def)

section \<open>COOKIE-ECHO\<close>

definition CookieEchoChunkConfig :: tlv_config where
  "CookieEchoChunkConfig =
     \<lparr>kType = 10, kTypeSizeInBytes = 1, kHeaderSize = 4, kVariableLengthAlignment = 1\<rparr>"

record CookieEchoChunk =
  ce_cookie :: bytes

definition CookieEchoChunk_Parse :: "bytes \<Rightarrow> CookieEchoChunk outcome" where
  "CookieEchoChunk_Parse data =
     obind (ParseTLV CookieEchoChunkConfig data) (\<lambda>reader.
     Value \<lparr>ce_cookie = variable_data reader\<rparr>)"

definition CookieEchoChunk_SerializeTo :: "CookieEchoChunk \<Rightarrow> bytes \<Rightarrow> bytes outcome" where
  "CookieEchoChunk_SerializeTo p out =
     obind (AllocateTLV CookieEchoChunkConfig out (length (ce_cookie p))) (\<lambda>writer.
     Value (written (CopyToVariableData (ce_cookie p) writer)))"

interpretation cookie_echo_codec: tlv_codec CookieEchoChunkConfig
  CookieEchoChunk_Parse CookieEchoChunk_SerializeTo
  "\<lambda>p. length (ce_cookie p) < 65532" "\<lambda>p. p"
  by (rule tlv_codecI)
    (simp_all add: CookieEchoChunk_Parse_def CookieEchoChunk_SerializeTo_def
      CookieEchoChunkConfig_def codec_proof_simps)

section \<open>COOKIE-ACK\<close>

definition CookieAckChunkConfig :: tlv_config where
  "CookieAckChunkConfig =
     \<lparr>kType = 11, kTypeSizeInBytes = 1, kHeaderSize = 4, kVariableLengthAlignment = 0\<rparr>"

datatype CookieAckChunk = CookieAckChunk

definition CookieAckChunk_Parse :: "bytes \<Rightarrow> CookieAckChunk outcome" where
  "CookieAckChunk_Parse data = obind (ParseTLV CookieAckChunkConfig data) (\<lambda>_. Value CookieAckChunk)"

fun CookieAckChunk_SerializeTo :: "CookieAckChunk \<Rightarrow> bytes \<Rightarrow> bytes outcome" where
  "CookieAckChunk_SerializeTo CookieAckChunk out =
     obind (AllocateTLV CookieAckChunkConfig out 0) (\<lambda>writer. Value (written writer))"

interpretation cookie_ack_codec: tlv_codec CookieAckChunkConfig
  CookieAckChunk_Parse CookieAckChunk_SerializeTo
  "\<lambda>_. True" "\<lambda>c. c"
proof (rule tlv_codecI, goal_cases)
  case (3 x)
  then show ?case
    by (cases x) (simp add: CookieAckChunk_Parse_def CookieAckChunkConfig_def codec_proof_simps)
qed (simp_all add: CookieAckChunk_Parse_def CookieAckChunkConfig_def codec_proof_simps)

section \<open>SHUTDOWN\<close>

definition ShutdownChunkConfig :: tlv_config where
  "ShutdownChunkConfig =
     \<lparr>kType = 7, kTypeSizeInBytes = 1, kHeaderSize = 8, kVariableLengthAlignment = 0\<rparr>"

record ShutdownChunk =
  shut_cumulative_tsn_ack :: u32

definition ShutdownChunk_Parse :: "bytes \<Rightarrow> ShutdownChunk outcome" where
  "ShutdownChunk_Parse data =
     obind (ParseTLV ShutdownChunkConfig data) (\<lambda>reader.
     Value \<lparr>shut_cumulative_tsn_ack = Load32 reader 4\<rparr>)"

definition ShutdownChunk_SerializeTo :: "ShutdownChunk \<Rightarrow> bytes \<Rightarrow> bytes outcome" where
  "ShutdownChunk_SerializeTo p out =
     obind (AllocateTLV ShutdownChunkConfig out 0) (\<lambda>writer.
     Value (written (Store32 4 (shut_cumulative_tsn_ack p) writer)))"

interpretation shutdown_codec: tlv_codec ShutdownChunkConfig
  ShutdownChunk_Parse ShutdownChunk_SerializeTo
  "\<lambda>p. True" "\<lambda>p. p"
  by (rule tlv_codecI)
    (simp_all add: ShutdownChunk_Parse_def ShutdownChunk_SerializeTo_def
      ShutdownChunkConfig_def codec_proof_simps)

section \<open>SHUTDOWN-ACK\<close>

definition ShutdownAckChunkConfig :: tlv_config where
  "ShutdownAckChunkConfig =
     \<lparr>kType = 8, kTypeSizeInBytes = 1, kHeaderSize = 4, kVariableLengthAlignment = 0\<rparr>"

datatype ShutdownAckChunk = ShutdownAckChunk

definition ShutdownAckChunk_Parse :: "bytes \<Rightarrow> ShutdownAckChunk outcome" where
  "ShutdownAckChunk_Parse data = obind (ParseTLV ShutdownAckChunkConfig data) (\<lambda>_. Value ShutdownAckChunk)"

fun ShutdownAckChunk_SerializeTo :: "ShutdownAckChunk \<Rightarrow> bytes \<Rightarrow> bytes outcome" where
  "ShutdownAckChunk_SerializeTo ShutdownAckChunk out =
     obind (AllocateTLV ShutdownAckChunkConfig out 0) (\<lambda>writer. Value (written writer))"

interpretation shutdown_ack_codec: tlv_codec ShutdownAckChunkConfig
  ShutdownAckChunk_Parse ShutdownAckChunk_SerializeTo
  "\<lambda>_. True" "\<lambda>c. c"
proof (rule tlv_codecI, goal_cases)
  case (3 x)
  then show ?case
    by (cases x) (simp add: ShutdownAckChunk_Parse_def ShutdownAckChunkConfig_def codec_proof_simps)
qed (simp_all add: ShutdownAckChunk_Parse_def ShutdownAckChunkConfig_def codec_proof_simps)

section \<open>SHUTDOWN-COMPLETE\<close>

definition ShutdownCompleteChunkConfig :: tlv_config where
  "ShutdownCompleteChunkConfig =
     \<lparr>kType = 14, kTypeSizeInBytes = 1, kHeaderSize = 4, kVariableLengthAlignment = 0\<rparr>"

record ShutdownCompleteChunk =
  shutc_tag_reflected :: bool

definition ShutdownCompleteChunk_Parse :: "bytes \<Rightarrow> ShutdownCompleteChunk outcome" where
  "ShutdownCompleteChunk_Parse data =
     obind (ParseTLV ShutdownCompleteChunkConfig data) (\<lambda>reader.
     let flags = Load8 reader 1;
         tag_reflected = (flags AND push_bit kFlagsBitT 1 \<noteq> 0)
     in Value \<lparr>shutc_tag_reflected = tag_reflected\<rparr>)"

definition ShutdownCompleteChunk_SerializeTo :: "ShutdownCompleteChunk \<Rightarrow> bytes \<Rightarrow> bytes outcome" where
  "ShutdownCompleteChunk_SerializeTo c out =
     obind (AllocateTLV ShutdownCompleteChunkConfig out 0) (\<lambda>writer.
     Value (written (Store8 1 (if shutc_tag_reflected c then push_bit kFlagsBitT 1 else 0) writer)))"

interpretation shutdown_complete_codec: tlv_codec ShutdownCompleteChunkConfig
  ShutdownCompleteChunk_Parse ShutdownCompleteChunk_SerializeTo "\<lambda>_. True" "\<lambda>c. c"
  by (rule tlv_codecI)
    (simp_all add: ShutdownCompleteChunk_Parse_def ShutdownCompleteChunk_SerializeTo_def
      ShutdownCompleteChunkConfig_def kFlagsBitT_def codec_proof_simps Let_def)

end
