(* ===== verification/Chunks.thy ===== *)
theory Chunks
  imports Data_Chunks Control_Chunks
begin

text \<open>
  The classes derived from \<open>Chunk\<close>, with the virtual \<open>SerializeTo\<close>, and the contract that the
  packet layer relies on for all of them.
\<close>

datatype Chunk =
    Ch_Data AnyDataChunk
  | Ch_Init InitChunk
  | Ch_InitAck InitAckChunk
  | Ch_Sack SackChunk
  | Ch_HeartbeatRequest HeartbeatRequestChunk
  | Ch_HeartbeatAck HeartbeatAckChunk
  | Ch_Abort AbortChunk
  | Ch_Shutdown ShutdownChunk
  | Ch_ShutdownAck ShutdownAckChunk
  | Ch_Error ErrorChunk
  | Ch_CookieEcho CookieEchoChunk
  | Ch_CookieAck CookieAckChunk
  | Ch_ShutdownComplete ShutdownCompleteChunk
  | Ch_IData AnyDataChunk
  | Ch_ReConfig ReConfigChunk
  | Ch_ForwardTsn AnyForwardTsnChunk
  | Ch_IForwardTsn AnyForwardTsnChunk

fun Chunk_SerializeTo :: "Chunk \<Rightarrow> bytes \<Rightarrow> bytes outcome" where
  "Chunk_SerializeTo (Ch_Data c) out = DataChunk_SerializeTo c out"
| "Chunk_SerializeTo (Ch_Init c) out = InitChunk_SerializeTo c out"
| "Chunk_SerializeTo (Ch_InitAck c) out = InitAckChunk_SerializeTo c out"
| "Chunk_SerializeTo (Ch_Sack c) out = SackChunk_SerializeTo c out"
| "Chunk_SerializeTo (Ch_HeartbeatRequest c) out = HeartbeatRequestChunk_SerializeTo c out"
| "Chunk_SerializeTo (Ch_HeartbeatAck c) out = HeartbeatAckChunk_SerializeTo c out"
| "Chunk_SerializeTo (Ch_Abort c) out = AbortChunk_SerializeTo c out"
| "Chunk_SerializeTo (Ch_Shutdown c) out = ShutdownChunk_SerializeTo c out"
| "Chunk_SerializeTo (Ch_ShutdownAck c) out = ShutdownAckChunk_SerializeTo c out"
| "Chunk_SerializeTo (Ch_Error c) out = ErrorChunk_SerializeTo c out"
| "Chunk_SerializeTo (Ch_CookieEcho c) out = CookieEchoChunk_SerializeTo c out"
| "Chunk_SerializeTo (Ch_CookieAck c) out = CookieAckChunk_SerializeTo c out"
| "Chunk_SerializeTo (Ch_ShutdownComplete c) out = ShutdownCompleteChunk_SerializeTo c out"
| "Chunk_SerializeTo (Ch_IData c) out = IDataChunk_SerializeTo c out"
| "Chunk_SerializeTo (Ch_ReConfig c) out = ReConfigChunk_SerializeTo c out"
| "Chunk_SerializeTo (Ch_ForwardTsn c) out = ForwardTsnChunk_SerializeTo c out"
| "Chunk_SerializeTo (Ch_IForwardTsn c) out = IForwardTsnChunk_SerializeTo c out"

fun Chunk_config :: "Chunk \<Rightarrow> tlv_config" where
  "Chunk_config (Ch_Data c) = DataChunkConfig"
| "Chunk_config (Ch_Init c) = InitChunkConfig"
| "Chunk_config (Ch_InitAck c) = InitAckChunkConfig"
| "Chunk_config (Ch_Sack c) = SackChunkConfig"
| "Chunk_config (Ch_HeartbeatRequest c) = HeartbeatRequestChunkConfig"
| "Chunk_config (Ch_HeartbeatAck c) = HeartbeatAckChunkConfig"
| "Chunk_config (Ch_Abort c) = AbortChunkConfig"
| "Chunk_config (Ch_Shutdown c) = ShutdownChunkConfig"
| "Chunk_config (Ch_ShutdownAck c) = ShutdownAckChunkConfig"
| "Chunk_config (Ch_Error c) = ErrorChunkConfig"
| "Chunk_config (Ch_CookieEcho c) = CookieEchoChunkConfig"
| "Chunk_config (Ch_CookieAck c) = CookieAckChunkConfig"
| "Chunk_config (Ch_ShutdownComplete c) = ShutdownCompleteChunkConfig"
| "Chunk_config (Ch_IData c) = IDataChunkConfig"
| "Chunk_config (Ch_ReConfig c) = ReConfigChunkConfig"
| "Chunk_config (Ch_ForwardTsn c) = ForwardTsnChunkConfig"
| "Chunk_config (Ch_IForwardTsn c) = IForwardTsnChunkConfig"

text \<open>The chunk fits its sixteen-bit length field and holds a parameter list that validates.\<close>

fun Chunk_ok :: "Chunk \<Rightarrow> bool" where
  "Chunk_ok (Ch_Data c) \<longleftrightarrow> length (data_payload (adc_data c)) < 65520"
| "Chunk_ok (Ch_Init c) \<longleftrightarrow> Parameters_ok 65516 (init_parameters c)"
| "Chunk_ok (Ch_InitAck c) \<longleftrightarrow> Parameters_ok 65516 (initack_parameters c)"
| "Chunk_ok (Ch_Sack c) \<longleftrightarrow> SackChunk_ok c"
| "Chunk_ok (Ch_HeartbeatRequest c) \<longleftrightarrow> Parameters_ok 65532 (hbr_parameters c)"
| "Chunk_ok (Ch_HeartbeatAck c) \<longleftrightarrow> Parameters_ok 65532 (hba_parameters c)"
| "Chunk_ok (Ch_Abort c) \<longleftrightarrow> Parameters_ok 65532 (abort_error_causes c)"
| "Chunk_ok (Ch_Shutdown c) \<longleftrightarrow> True"
| "Chunk_ok (Ch_ShutdownAck c) \<longleftrightarrow> True"
| "Chunk_ok (Ch_Error c) \<longleftrightarrow> Parameters_ok 65532 (err_error_causes c) \<and>
     length (pars_data (err_error_causes c)) mod 4 = 0"
| "Chunk_ok (Ch_CookieEcho c) \<longleftrightarrow> length (ce_cookie c) < 65532"
| "Chunk_ok (Ch_CookieAck c) \<longleftrightarrow> True"
| "Chunk_ok (Ch_ShutdownComplete c) \<longleftrightarrow> True"
| "Chunk_ok (Ch_IData c) \<longleftrightarrow> length (data_payload (adc_data c)) < 65516"
| "Chunk_ok (Ch_ReConfig c) \<longleftrightarrow> Parameters_ok 65532 (rcf_parameters c)"
| "Chunk_ok (Ch_ForwardTsn c) \<longleftrightarrow> length (aft_skipped_streams c) < 16382"
| "Chunk_ok (Ch_IForwardTsn c) \<longleftrightarrow> length (aft_skipped_streams c) < 8191"

text \<open>The class of the chunk parses the bytes to what the wire format keeps of the chunk.\<close>

fun Chunk_parses_back :: "Chunk \<Rightarrow> bytes \<Rightarrow> bool" where
  "Chunk_parses_back (Ch_Data c) d \<longleftrightarrow> DataChunk_Parse d = Value (DataChunk_wire c)"
| "Chunk_parses_back (Ch_Init c) d \<longleftrightarrow> InitChunk_Parse d = Value c"
| "Chunk_parses_back (Ch_InitAck c) d \<longleftrightarrow> InitAckChunk_Parse d = Value c"
| "Chunk_parses_back (Ch_Sack c) d \<longleftrightarrow> SackChunk_Parse d = Value c"
| "Chunk_parses_back (Ch_HeartbeatRequest c) d \<longleftrightarrow> HeartbeatRequestChunk_Parse d = Value c"
| "Chunk_parses_back (Ch_HeartbeatAck c) d \<longleftrightarrow> HeartbeatAckChunk_Parse d = Value c"
| "Chunk_parses_back (Ch_Abort c) d \<longleftrightarrow> AbortChunk_Parse d = Value c"
| "Chunk_parses_back (Ch_Shutdown c) d \<longleftrightarrow> ShutdownChunk_Parse d = Value c"
| "Chunk_parses_back (Ch_ShutdownAck c) d \<longleftrightarrow> ShutdownAckChunk_Parse d = Value c"
| "Chunk_parses_back (Ch_Error c) d \<longleftrightarrow> ErrorChunk_Parse d = Value c"
| "Chunk_parses_back (Ch_CookieEcho c) d \<longleftrightarrow> CookieEchoChunk_Parse d = Value c"
| "Chunk_parses_back (Ch_CookieAck c) d \<longleftrightarrow> CookieAckChunk_Parse d = Value c"
| "Chunk_parses_back (Ch_ShutdownComplete c) d \<longleftrightarrow> ShutdownCompleteChunk_Parse d = Value c"
| "Chunk_parses_back (Ch_IData c) d \<longleftrightarrow> IDataChunk_Parse d = Value (IDataChunk_wire c)"
| "Chunk_parses_back (Ch_ReConfig c) d \<longleftrightarrow> ReConfigChunk_Parse d = Value c"
| "Chunk_parses_back (Ch_ForwardTsn c) d \<longleftrightarrow> ForwardTsnChunk_Parse d = Value (ForwardTsnChunk_wire c)"
| "Chunk_parses_back (Ch_IForwardTsn c) d \<longleftrightarrow> IForwardTsnChunk_Parse d = Value (IForwardTsnChunk_wire c)"

lemmas Chunk_codecs_serialize =
  data_chunk_codec.serialize_framed
  init_codec.serialize_framed
  init_ack_codec.serialize_framed
  sack_codec.serialize_framed
  heartbeat_request_codec.serialize_framed
  heartbeat_ack_codec.serialize_framed
  abort_codec.serialize_framed
  shutdown_codec.serialize_framed
  shutdown_ack_codec.serialize_framed
  error_codec.serialize_framed
  cookie_echo_codec.serialize_framed
  cookie_ack_codec.serialize_framed
  shutdown_complete_codec.serialize_framed
  idata_chunk_codec.serialize_framed
  reconfig_codec.serialize_framed
  forward_tsn_codec.serialize_framed
  iforward_tsn_codec.serialize_framed

lemmas Chunk_codecs_config =
  data_chunk_codec.config_ok
  init_codec.config_ok
  init_ack_codec.config_ok
  sack_codec.config_ok
  heartbeat_request_codec.config_ok
  heartbeat_ack_codec.config_ok
  abort_codec.config_ok
  shutdown_codec.config_ok
  shutdown_ack_codec.config_ok
  error_codec.config_ok
  cookie_echo_codec.config_ok
  cookie_ack_codec.config_ok
  shutdown_complete_codec.config_ok
  idata_chunk_codec.config_ok
  reconfig_codec.config_ok
  forward_tsn_codec.config_ok
  iforward_tsn_codec.config_ok

lemmas Chunk_codecs_returns =
  data_chunk_codec.parse_returns
  init_codec.parse_returns
  init_ack_codec.parse_returns
  sack_codec.parse_returns
  heartbeat_request_codec.parse_returns
  heartbeat_ack_codec.parse_returns
  abort_codec.parse_returns
  shutdown_codec.parse_returns
  shutdown_ack_codec.parse_returns
  error_codec.parse_returns
  cookie_echo_codec.parse_returns
  cookie_ack_codec.parse_returns
  shutdown_complete_codec.parse_returns
  idata_chunk_codec.parse_returns
  reconfig_codec.parse_returns
  forward_tsn_codec.parse_returns
  iforward_tsn_codec.parse_returns

lemmas Chunk_config_defs =
  DataChunkConfig_def
  InitChunkConfig_def
  InitAckChunkConfig_def
  SackChunkConfig_def
  HeartbeatRequestChunkConfig_def
  HeartbeatAckChunkConfig_def
  AbortChunkConfig_def
  ShutdownChunkConfig_def
  ShutdownAckChunkConfig_def
  ErrorChunkConfig_def
  CookieEchoChunkConfig_def
  CookieAckChunkConfig_def
  ShutdownCompleteChunkConfig_def
  IDataChunkConfig_def
  ReConfigChunkConfig_def
  ForwardTsnChunkConfig_def
  IForwardTsnChunkConfig_def

lemma Chunk_config_ok: "tlv_config_ok (Chunk_config c)"
  by (cases c) (simp_all add: Chunk_codecs_config)

lemma Chunk_config_one_byte: "kTypeSizeInBytes (Chunk_config c) = 1"
  by (cases c) (simp_all add: Chunk_config_defs)

lemma Chunk_serialize_framed:
  "Chunk_ok c \<Longrightarrow>
   \<exists>d. (\<forall>out. Chunk_SerializeTo c out = Value (out @ d)) \<and> framed (Chunk_config c) d \<and>
       length d < 65536 \<and>
       (kVariableLengthAlignment (Chunk_config c) = 0 \<longrightarrow> length d = kHeaderSize (Chunk_config c)) \<and>
       (\<forall>pad. padding_ok (Chunk_config c) pad \<longrightarrow> Chunk_parses_back c (d @ pad))"
  by (cases c, simp_all only: Chunk_ok.simps Chunk_SerializeTo.simps Chunk_config.simps
      Chunk_parses_back.simps) (rule Chunk_codecs_serialize, (assumption | rule TrueI))+

text \<open>The bytes of a chunk, and what a packet keeps of them after padding.\<close>

definition chunk_bytes :: "Chunk \<Rightarrow> bytes" where
  "chunk_bytes c = (case Chunk_SerializeTo c [] of Value d \<Rightarrow> d | _ \<Rightarrow> [])"

lemma chunk_bytes_props:
  assumes "Chunk_ok c"
  shows "Chunk_SerializeTo c out = Value (out @ chunk_bytes c)"
    and "framed (Chunk_config c) (chunk_bytes c)" and "length (chunk_bytes c) < 65536"
    and "Chunk_parses_back c (pad4 (chunk_bytes c))"
proof -
  from Chunk_serialize_framed [OF assms] obtain d
    where d: "\<forall>out. Chunk_SerializeTo c out = Value (out @ d)" "framed (Chunk_config c) d"
      "length d < 65536"
      "kVariableLengthAlignment (Chunk_config c) = 0 \<longrightarrow> length d = kHeaderSize (Chunk_config c)"
      "\<forall>pad. padding_ok (Chunk_config c) pad \<longrightarrow> Chunk_parses_back c (d @ pad)"
    by (elim exE conjE)
  have bytes: "chunk_bytes c = d"
    using d(1) by (simp add: chunk_bytes_def)
  have "RoundUpTo4 (length d) - length d \<le> 3"
    using RoundUpTo4_less [of "length d"] by linarith
  moreover have "kHeaderSize (Chunk_config c) mod 4 = 0"
    using Chunk_config_ok [of c] by (simp add: tlv_config_ok_def)
  ultimately have "padding_ok (Chunk_config c) (replicate (RoundUpTo4 (length d) - length d) 0)"
    using d(4) by (simp add: padding_ok_def RoundUpTo4_id)
  then show "Chunk_parses_back c (pad4 (chunk_bytes c))"
    unfolding bytes pad4_def using d(5) by blast
  show "Chunk_SerializeTo c out = Value (out @ chunk_bytes c)"
    "framed (Chunk_config c) (chunk_bytes c)" "length (chunk_bytes c) < 65536"
    unfolding bytes using d(1-3) by blast+
qed

section \<open>Properties\<close>



text \<open>
  C21. No sequence of bytes makes a chunk parser abort the process or run forever: each of the
  seventeen \<open>Parse\<close> functions returns, with a chunk or with \<open>std::nullopt\<close>.
\<close>

theorem chunk_parsers_safe:
  "returns (DataChunk_Parse d) \<and> returns (InitChunk_Parse d) \<and> returns (InitAckChunk_Parse d) \<and>
   returns (SackChunk_Parse d) \<and> returns (HeartbeatRequestChunk_Parse d) \<and>
   returns (HeartbeatAckChunk_Parse d) \<and> returns (AbortChunk_Parse d) \<and>
   returns (ShutdownChunk_Parse d) \<and> returns (ShutdownAckChunk_Parse d) \<and>
   returns (ErrorChunk_Parse d) \<and> returns (CookieEchoChunk_Parse d) \<and>
   returns (CookieAckChunk_Parse d) \<and> returns (ShutdownCompleteChunk_Parse d) \<and>
   returns (IDataChunk_Parse d) \<and> returns (ReConfigChunk_Parse d) \<and>
   returns (ForwardTsnChunk_Parse d) \<and> returns (IForwardTsnChunk_Parse d)"
  by (simp add: Chunk_codecs_returns)

text \<open>
  C22. The ERROR chunk does not survive a round trip when its last error cause has a length that is
  not a multiple of four: the parser demands an aligned length of the chunk, which the serializer
  of the same class does not produce. The parser rejects the chunk that the serializer has made.
\<close>

theorem error_chunk_unaligned_rejected:
  assumes "Parameters_ok 65532 (err_error_causes c)" and "length (pars_data (err_error_causes c)) mod 4 \<noteq> 0"
  shows "\<exists>d. ErrorChunk_SerializeTo c [] = Value d \<and> ErrorChunk_Parse d = Nullopt \<and>
    ErrorChunk_Parse (pad4 d) = Nullopt"
proof -
  let ?p = "pars_data (err_error_causes c)"
  let ?d = "take 4 (tlv_blank ErrorChunkConfig (length ?p)) @ ?p"
  have cfg: "tlv_config_ok ErrorChunkConfig" by (rule error_codec.config_ok)
  have framed: "framed ErrorChunkConfig ?d"
    by (rule framed_copy) (simp_all add: framed_tlv_blank [OF cfg], simp_all add: ErrorChunkConfig_def)
  have len: "length ?d < 65536" "length ?d = 4 + length ?p"
    using assms(1) by (simp_all add: Parameters_ok_def ErrorChunkConfig_def)
  have "\<not> 4 dvd length ?d" using assms(2) len(2) by presburger
  then have "ParseTLV ErrorChunkConfig (?d @ pad) = Nullopt" for pad
    by (intro ParseTLV_unaligned cfg framed len(1)) (simp_all add: ErrorChunkConfig_def)
  then have "ErrorChunk_Parse (?d @ pad) = Nullopt" for pad
    by (simp add: ErrorChunk_Parse_def)
  from this [of "[]"] this have "ErrorChunk_Parse ?d = Nullopt" "ErrorChunk_Parse (pad4 ?d) = Nullopt"
    unfolding pad4_def by simp_all
  moreover have "ErrorChunk_SerializeTo c [] = Value ?d"
    using assms(2) by (simp add: ErrorChunk_SerializeTo_def Let_def AllocateTLV_eq [OF cfg]
        CopyToVariableData_def written_def) (simp add: ErrorChunkConfig_def)
  ultimately show ?thesis by blast
qed

theorem error_chunk_unaligned_rejected_witness:
  "\<exists>d. ErrorChunk_SerializeTo \<lparr>err_error_causes = \<lparr>pars_data = [0, 12, 0, 5, 33]\<rparr>\<rparr> [] = Value d \<and>
     ErrorChunk_Parse d = Nullopt"
proof -
  have "Parameters_Parse [0, 12, 0, 5, 33] = Value \<lparr>pars_data = [0, 12, 0, 5, 33]\<rparr>"
    by code_simp
  then show ?thesis
    using error_chunk_unaligned_rejected [of "\<lparr>err_error_causes = \<lparr>pars_data = [0, 12, 0, 5, 33]\<rparr>\<rparr>"]
    by (auto simp: Parameters_ok_def)
qed

end
