(* ===== verification/Dcsctp_Options.thy ===== *)
theory Dcsctp_Options
  imports Parameters
begin

text \<open>
  The configuration of a socket, \<open>net/dcsctp/public/dcsctp_options.h\<close>, with the defaults of its
  member initialisers. Durations are in milliseconds.
\<close>

definition kMaxSafeMTUSize :: nat where
  "kMaxSafeMTUSize = 1191"

record DcSctpOptions =
  opts_local_port :: int
  opts_remote_port :: int
  opts_announced_maximum_incoming_streams :: u16
  opts_announced_maximum_outgoing_streams :: u16
  opts_mtu :: nat
  opts_max_message_size :: nat
  opts_default_stream_priority :: u16
  opts_max_receiver_window_buffer_size :: nat
  opts_enable_receive_pull_mode :: bool
  opts_max_send_buffer_size :: nat
  opts_per_stream_send_queue_limit :: nat
  opts_total_buffered_amount_low_threshold :: nat
  opts_rtt_max :: int
  opts_rto_initial :: int
  opts_rto_max :: int
  opts_rto_min :: int
  opts_t1_init_timeout :: int
  opts_t1_cookie_timeout :: int
  opts_t2_shutdown_timeout :: int
  opts_max_timer_backoff_duration :: "int option"
  opts_heartbeat_interval :: int
  opts_delayed_ack_max_timeout :: int
  opts_min_rtt_variance :: int
  opts_cwnd_mtus_initial :: nat
  opts_cwnd_mtus_min :: nat
  opts_avoid_fragmentation_cwnd_mtus :: nat
  opts_immediate_sack_under_cwnd_mtus :: nat
  opts_max_burst :: int
  opts_max_retransmissions :: "int option"
  opts_max_init_retransmits :: "int option"
  opts_enable_partial_reliability :: bool
  opts_enable_message_interleaving :: bool
  opts_heartbeat_interval_include_rtt :: bool
  opts_disable_checksum_verification :: bool
  opts_zero_checksum_alternate_error_detection_method :: u32

definition DcSctpOptions_default :: DcSctpOptions where
  "DcSctpOptions_default =
     \<lparr>opts_local_port = 5000,
      opts_remote_port = 5000,
      opts_announced_maximum_incoming_streams = 65535,
      opts_announced_maximum_outgoing_streams = 65535,
      opts_mtu = kMaxSafeMTUSize,
      opts_max_message_size = 256 * 1024,
      opts_default_stream_priority = 256,
      opts_max_receiver_window_buffer_size = 5 * 1024 * 1024,
      opts_enable_receive_pull_mode = False,
      opts_max_send_buffer_size = 2000000,
      opts_per_stream_send_queue_limit = 2000000,
      opts_total_buffered_amount_low_threshold = 1800000,
      opts_rtt_max = 60000,
      opts_rto_initial = 500,
      opts_rto_max = 60000,
      opts_rto_min = 400,
      opts_t1_init_timeout = 1000,
      opts_t1_cookie_timeout = 1000,
      opts_t2_shutdown_timeout = 1000,
      opts_max_timer_backoff_duration = None,
      opts_heartbeat_interval = 30000,
      opts_delayed_ack_max_timeout = 200,
      opts_min_rtt_variance = 220,
      opts_cwnd_mtus_initial = 10,
      opts_cwnd_mtus_min = 4,
      opts_avoid_fragmentation_cwnd_mtus = 6,
      opts_immediate_sack_under_cwnd_mtus = 10,
      opts_max_burst = 4,
      opts_max_retransmissions = Some 10,
      opts_max_init_retransmits = Some 8,
      opts_enable_partial_reliability = True,
      opts_enable_message_interleaving = False,
      opts_heartbeat_interval_include_rtt = True,
      opts_disable_checksum_verification = False,
      opts_zero_checksum_alternate_error_detection_method = ZeroChecksumAlternateErrorDetectionMethod_None\<rparr>"

end
