(* ===== verification/Sctp_Packet.thy ===== *)
theory Sctp_Packet
  imports Chunks Dcsctp_Options
begin

text \<open>
  Packets, \<open>net/dcsctp/packet/sctp_packet.{h,cc}\<close> and \<open>crc32c.cc\<close>: the builder that puts chunks
  behind a common header, and the parser that verifies the checksum and cuts a received packet
  into chunks. \<open>crc32c_value\<close> of the third-party crc32c library is an argument of the
  definitions; no theorem needs anything of it.
\<close>

section \<open>Checksum\<close>

definition GenerateCrc32C :: "(bytes \<Rightarrow> u32) \<Rightarrow> bytes \<Rightarrow> u32" where
  "GenerateCrc32C crc32c_value data =
     (let crc32c = crc32c_value data;
          byte0 = ucast crc32c :: u8;
          byte1 = ucast (drop_bit 8 crc32c) :: u8;
          byte2 = ucast (drop_bit 16 crc32c) :: u8;
          byte3 = ucast (drop_bit 24 crc32c) :: u8
      in push_bit 24 (ucast byte0) OR push_bit 16 (ucast byte1) OR push_bit 8 (ucast byte2) OR
         ucast byte3)"

section \<open>Packets\<close>

definition kMaxUdpPacketSize :: nat where
  "kMaxUdpPacketSize = 65535"

definition kChunkTlvHeaderSize :: nat where
  "kChunkTlvHeaderSize = 4"

definition kSctpHeaderSize :: nat where
  "kSctpHeaderSize = 12"

record CommonHeader =
  ch_source_port :: u16
  ch_destination_port :: u16
  ch_verification_tag :: u32
  ch_checksum :: u32

record ChunkDescriptor =
  cd_type :: u8
  cd_flags :: u8
  cd_data :: bytes

record SctpPacket =
  pkt_common_header :: CommonHeader
  pkt_data :: bytes
  pkt_descriptors :: "ChunkDescriptor list"

section \<open>Builder\<close>

record SctpPacket_Builder =
  b_verification_tag :: u32
  b_source_port :: u16
  b_dest_port :: u16
  b_max_packet_size :: nat
  b_out :: bytes

definition SctpPacket_Builder_make :: "u32 \<Rightarrow> DcSctpOptions \<Rightarrow> SctpPacket_Builder" where
  "SctpPacket_Builder_make verification_tag options =
     \<lparr>b_verification_tag = verification_tag,
      b_source_port = word_of_int (opts_local_port options),
      b_dest_port = word_of_int (opts_remote_port options),
      b_max_packet_size = RoundDownTo4 (opts_mtu options),
      b_out = []\<rparr>"

definition SctpPacket_Builder_Add :: "Chunk \<Rightarrow> SctpPacket_Builder \<Rightarrow> SctpPacket_Builder outcome" where
  "SctpPacket_Builder_Add chunk b =
     obind
       (if b_out b = [] then
          obind (BoundedByteWriter [] kSctpHeaderSize (replicate kSctpHeaderSize 0)) (\<lambda>buffer.
          let buffer = Store16 0 (b_source_port b) buffer;
              buffer = Store16 2 (b_dest_port b) buffer;
              buffer = Store32 4 (b_verification_tag b) buffer
          in Value (written buffer))
        else Value (b_out b)) (\<lambda>out.
     obind (Chunk_SerializeTo chunk out) (\<lambda>out.
     Value (b\<lparr>b_out := (if length out mod 4 \<noteq> 0
                       then out @ replicate (RoundUpTo4 (length out) - length out) 0 else out)\<rparr>)))"

text \<open>The subtraction is one of \<open>size_t\<close>.\<close>

definition SctpPacket_Builder_bytes_remaining :: "SctpPacket_Builder \<Rightarrow> nat" where
  "SctpPacket_Builder_bytes_remaining b =
     (if b_out b = [] then nat ((int (b_max_packet_size b) - int kSctpHeaderSize) mod 2 ^ 64)
      else if length (b_out b) > b_max_packet_size b then 0
      else b_max_packet_size b - length (b_out b))"

definition SctpPacket_Builder_Build ::
  "(bytes \<Rightarrow> u32) \<Rightarrow> bool \<Rightarrow> SctpPacket_Builder \<Rightarrow> (bytes \<times> SctpPacket_Builder) outcome" where
  "SctpPacket_Builder_Build crc32c_value write_checksum b =
     (let out = b_out b; b = b\<lparr>b_out := []\<rparr> in
      if out \<noteq> [] \<and> write_checksum then
        obind (BoundedByteWriter [] kSctpHeaderSize out) (\<lambda>writer.
        Value (written (Store32 8 (GenerateCrc32C crc32c_value out) writer), b))
      else Value (out, b))"

fun SctpPacket_Builder_Add_all :: "Chunk list \<Rightarrow> SctpPacket_Builder \<Rightarrow> SctpPacket_Builder outcome" where
  "SctpPacket_Builder_Add_all [] b = Value b"
| "SctpPacket_Builder_Add_all (c # cs) b =
     obind (SctpPacket_Builder_Add c b) (SctpPacket_Builder_Add_all cs)"

section \<open>Parser\<close>

function parse_descriptors :: "bytes \<Rightarrow> ChunkDescriptor list \<Rightarrow> ChunkDescriptor list outcome" where
  "parse_descriptors descriptor_data descriptors =
     (if descriptor_data = [] then Value descriptors
      else if length descriptor_data < kChunkTlvHeaderSize then Nullopt
      else obind (BoundedByteReader kChunkTlvHeaderSize descriptor_data) (\<lambda>chunk_header.
        let type = Load8 chunk_header 0;
            flags = Load8 chunk_header 1;
            len = Load16 chunk_header 2;
            padded_length = unat (RoundUpTo4_u16 len)
        in if padded_length > length descriptor_data then Nullopt
           else if padded_length < kChunkTlvHeaderSize then Nullopt
           else parse_descriptors (subview_from descriptor_data padded_length)
             (descriptors @ [\<lparr>cd_type = type, cd_flags = flags,
                              cd_data = subview descriptor_data 0 padded_length\<rparr>])))"
  by pat_completeness auto
termination
  by (relation "measure (\<lambda>(d, _). length d)") (auto simp: kChunkTlvHeaderSize_def)

declare parse_descriptors.simps [simp del]

definition verify_checksum ::
  "(bytes \<Rightarrow> u32) \<Rightarrow> DcSctpOptions \<Rightarrow> u32 \<Rightarrow> bytes \<Rightarrow> bytes outcome" where
  "verify_checksum crc32c_value options checksum data_copy =
     (if opts_disable_checksum_verification options \<or>
         (opts_zero_checksum_alternate_error_detection_method options \<noteq>
            ZeroChecksumAlternateErrorDetectionMethod_None \<and> checksum = 0)
      then Value data_copy
      else
        obind (BoundedByteWriter [] kSctpHeaderSize data_copy) (\<lambda>writer.
        let data_copy = written (Store32 8 0 writer);
            calculated_checksum = GenerateCrc32C crc32c_value data_copy
        in if calculated_checksum \<noteq> checksum then Nullopt
           else obind (BoundedByteWriter [] kSctpHeaderSize data_copy) (\<lambda>writer.
             Value (written (Store32 8 checksum writer)))))"

definition SctpPacket_Parse ::
  "(bytes \<Rightarrow> u32) \<Rightarrow> bytes \<Rightarrow> DcSctpOptions \<Rightarrow> SctpPacket outcome" where
  "SctpPacket_Parse crc32c_value data options =
     (if length data < kSctpHeaderSize + kChunkTlvHeaderSize \<or> length data > kMaxUdpPacketSize
      then Nullopt
      else obind (BoundedByteReader kSctpHeaderSize data) (\<lambda>reader.
        let common_header =
          \<lparr>ch_source_port = Load16 reader 0, ch_destination_port = Load16 reader 2,
           ch_verification_tag = Load32 reader 4, ch_checksum = Load32 reader 8\<rparr>
        in obind (verify_checksum crc32c_value options (ch_checksum common_header) data) (\<lambda>data_copy.
           obind (parse_descriptors (subview_from data_copy kSctpHeaderSize) []) (\<lambda>descriptors.
           Value \<lparr>pkt_common_header = common_header, pkt_data = data_copy,
                  pkt_descriptors = descriptors\<rparr>))))"

section \<open>The parser never fails a check and always ends\<close>

lemma verify_checksum_eq:
  "length d \<ge> 12 \<Longrightarrow> verify_checksum crc options checksum d =
     (if opts_disable_checksum_verification options \<or>
         (opts_zero_checksum_alternate_error_detection_method options \<noteq>
            ZeroChecksumAlternateErrorDetectionMethod_None \<and> checksum = 0)
      then Value d
      else if GenerateCrc32C crc (StoreBigEndian32 8 0 d) \<noteq> checksum then Nullopt
      else Value (StoreBigEndian32 8 checksum d))"
  by (auto simp: verify_checksum_def BoundedByteWriter_def kSctpHeaderSize_def Store32_def
      written_def Let_def store_store32)

lemma parse_descriptors_returns: "returns (parse_descriptors d acc)"
proof (induction d acc rule: parse_descriptors.induct)
  case (1 d acc)
  then show ?case
    by (subst parse_descriptors.simps)
      (auto simp: returns_obind_iff BoundedByteReader_def RTC_CHECK_def Let_def)
qed

lemma SctpPacket_Parse_returns: "returns (SctpPacket_Parse crc data options)"
  by (auto simp: SctpPacket_Parse_def kSctpHeaderSize_def kChunkTlvHeaderSize_def
      BoundedByteReader_def verify_checksum_eq Let_def returns_obind_iff parse_descriptors_returns)

section \<open>Descriptors tile the packet\<close>

definition descriptor_ok :: "ChunkDescriptor \<Rightarrow> bool" where
  "descriptor_ok cd \<longleftrightarrow>
     4 \<le> length (cd_data cd) \<and> length (cd_data cd) mod 4 = 0 \<and>
     cd_type cd = LoadBigEndian8 (cd_data cd) 0 \<and> cd_flags cd = LoadBigEndian8 (cd_data cd) 1"

lemma unat_RoundUpTo4_u16_mod [simp]: "unat (RoundUpTo4_u16 w) mod 4 = 0"
  by (cases "unat w \<le> 65532") (simp_all add: RoundUpTo4_u16_small RoundUpTo4_u16_wraps)

text \<open>One round of the loop.\<close>

lemma parse_descriptors_step:
  assumes "d \<noteq> []"
  shows "parse_descriptors d acc =
    (let n = unat (RoundUpTo4_u16 (LoadBigEndian16 d 2)) in
     if length d < 4 \<or> n < 4 \<or> n > length d then Nullopt
     else parse_descriptors (drop n d)
       (acc @ [\<lparr>cd_type = LoadBigEndian8 d 0, cd_flags = LoadBigEndian8 d 1, cd_data = take n d\<rparr>]))"
  using assms
  by (subst parse_descriptors.simps)
    (simp add: kChunkTlvHeaderSize_def BoundedByteReader_def Load8_def Load16_def Let_def)

lemma parse_descriptors_Nil [simp]: "parse_descriptors [] acc = Value acc"
  by (simp add: parse_descriptors.simps)

lemma parse_descriptors_tile:
  "parse_descriptors d acc = Value ds \<Longrightarrow>
   \<exists>new. ds = acc @ new \<and> concat (map cd_data new) = d \<and> list_all descriptor_ok new"
proof (induction "length d" arbitrary: d acc rule: less_induct)
  case less
  show ?case
  proof (cases "d = []")
    case True
    with less.prems show ?thesis by simp
  next
    case False
    define n where "n = unat (RoundUpTo4_u16 (LoadBigEndian16 d 2))"
    define cd where "cd = \<lparr>cd_type = LoadBigEndian8 d 0, cd_flags = LoadBigEndian8 d 1, cd_data = take n d\<rparr>"
    have n: "4 \<le> n" "n \<le> length d" and rest: "parse_descriptors (drop n d) (acc @ [cd]) = Value ds"
      using False less.prems
      by (auto simp: parse_descriptors_step Let_def n_def cd_def not_less split: if_splits)
    obtain new where "ds = (acc @ [cd]) @ new" "concat (map cd_data new) = drop n d"
        "list_all descriptor_ok new"
      using less.hyps [OF _ rest] n False by auto
    moreover have "descriptor_ok cd"
      using n by (simp add: descriptor_ok_def cd_def loads_take) (simp add: n_def)
    ultimately show ?thesis
      by (intro exI [of _ "cd # new"]) (simp add: cd_def)
  qed
qed

section \<open>What the builder lays out\<close>

definition packet_header :: "SctpPacket_Builder \<Rightarrow> bytes" where
  "packet_header b =
     StoreBigEndian32 4 (b_verification_tag b)
       (StoreBigEndian16 2 (b_dest_port b) (StoreBigEndian16 0 (b_source_port b) (replicate 12 0)))"

definition packet_body :: "Chunk list \<Rightarrow> bytes" where
  "packet_body cs = concat (map (\<lambda>c. pad4 (chunk_bytes c)) cs)"

lemma length_packet_header [simp]: "length (packet_header b) = 12"
  by (simp add: packet_header_def)

lemma packet_header_fields:
  "LoadBigEndian16 (packet_header b) 0 = b_source_port b"
  "LoadBigEndian16 (packet_header b) 2 = b_dest_port b"
  "LoadBigEndian32 (packet_header b) 4 = b_verification_tag b"
  "LoadBigEndian32 (packet_header b) 8 = 0"
proof -
  have "LoadBigEndian32 (replicate 12 0) 8 = 0"
    by (simp add: LoadBigEndian32_def)
  then show "LoadBigEndian32 (packet_header b) 8 = 0"
    by (simp add: packet_header_def codec_simps)
qed (simp_all add: packet_header_def codec_simps)

text \<open>The length of the output is a multiple of four whenever a chunk is added.\<close>

definition builder_ok :: "SctpPacket_Builder \<Rightarrow> bool" where
  "builder_ok b \<longleftrightarrow> IsDivisibleBy4 (length (b_out b)) \<and> (b_out b = [] \<or> 12 \<le> length (b_out b))"

lemma SctpPacket_Builder_Add_eq:
  assumes "Chunk_ok c" and "builder_ok b"
  shows "SctpPacket_Builder_Add c b =
    Value (b\<lparr>b_out := (if b_out b = [] then packet_header b else b_out b) @ pad4 (chunk_bytes c)\<rparr>)"
proof -
  have aligned: "RoundUpTo4 (n + length (chunk_bytes c)) = n + RoundUpTo4 (length (chunk_bytes c))"
    if "n mod 4 = 0" for n
    using RoundUpTo4_add_aligned [of n] RoundUpTo4_id [OF that] by simp
  have pad: "(if length (out @ chunk_bytes c) mod 4 \<noteq> 0 then (out @ chunk_bytes c) @
        replicate (RoundUpTo4 (length (out @ chunk_bytes c)) - length (out @ chunk_bytes c)) 0
      else out @ chunk_bytes c) = out @ pad4 (chunk_bytes c)" if "length out mod 4 = 0" for out
    using aligned [OF that] RoundUpTo4_id [of "length out + length (chunk_bytes c)"]
    by (auto simp: pad4_def)
  show ?thesis
    using assms pad [of "packet_header b"] pad [of "b_out b"]
    by (auto simp: SctpPacket_Builder_Add_def chunk_bytes_props(1) BoundedByteWriter_def
        kSctpHeaderSize_def written_def packet_header_def builder_ok_def IsDivisibleBy4_eq
        Store16_def Store32_def Let_def)
qed

lemma mod_add_aligned: "(m :: nat) mod 4 = 0 \<Longrightarrow> n mod 4 = 0 \<Longrightarrow> (m + n) mod 4 = 0"
  by presburger

lemma SctpPacket_Builder_Add_ok:
  assumes "Chunk_ok c" and "builder_ok b" and "SctpPacket_Builder_Add c b = Value b'"
  shows "builder_ok b'" and "b_out b' \<noteq> []" and "packet_header b' = packet_header b"
proof -
  have b': "b' = b\<lparr>b_out := (if b_out b = [] then packet_header b else b_out b) @ pad4 (chunk_bytes c)\<rparr>"
    using assms SctpPacket_Builder_Add_eq by simp
  have "length (if b_out b = [] then packet_header b else b_out b) mod 4 = 0"
    and "12 \<le> length (if b_out b = [] then packet_header b else b_out b)"
    using assms(2) by (auto simp: builder_ok_def IsDivisibleBy4_eq)
  then show "builder_ok b'" and "b_out b' \<noteq> []"
    by (auto simp: b' builder_ok_def IsDivisibleBy4_eq mod_add_aligned)
  show "packet_header b' = packet_header b"
    by (simp add: b' packet_header_def)
qed

lemma SctpPacket_Builder_Add_all_from:
  "list_all Chunk_ok cs \<Longrightarrow> builder_ok b \<Longrightarrow> b_out b \<noteq> [] \<Longrightarrow>
   SctpPacket_Builder_Add_all cs b = Value (b\<lparr>b_out := b_out b @ packet_body cs\<rparr>)"
proof (induction cs arbitrary: b)
  case (Cons c cs)
  then have add: "SctpPacket_Builder_Add c b = Value (b\<lparr>b_out := b_out b @ pad4 (chunk_bytes c)\<rparr>)"
    by (simp add: SctpPacket_Builder_Add_eq)
  from Cons SctpPacket_Builder_Add_ok [OF _ Cons.prems(2) add]
  show ?case by (simp add: add packet_body_def)
qed (simp add: packet_body_def)

lemma SctpPacket_Builder_Add_all_eq:
  assumes "list_all Chunk_ok cs" and "cs \<noteq> []" and "b_out b = []"
  shows "SctpPacket_Builder_Add_all cs b = Value (b\<lparr>b_out := packet_header b @ packet_body cs\<rparr>)"
proof -
  obtain c cs' where cs: "cs = c # cs'" using assms(2) by (cases cs) auto
  have b: "builder_ok b" using assms(3) by (simp add: builder_ok_def IsDivisibleBy4_eq)
  have add: "SctpPacket_Builder_Add c b = Value (b\<lparr>b_out := packet_header b @ pad4 (chunk_bytes c)\<rparr>)"
    using assms b by (simp add: SctpPacket_Builder_Add_eq cs)
  show ?thesis
    using assms SctpPacket_Builder_Add_ok [OF _ b add] SctpPacket_Builder_Add_all_from [of cs']
    by (simp add: cs add packet_body_def)
qed

definition chunk_descriptor :: "Chunk \<Rightarrow> ChunkDescriptor" where
  "chunk_descriptor c =
     \<lparr>cd_type = LoadBigEndian8 (chunk_bytes c) 0, cd_flags = LoadBigEndian8 (chunk_bytes c) 1,
      cd_data = pad4 (chunk_bytes c)\<rparr>"

lemma parse_descriptors_body:
  "list_all Chunk_ok cs \<Longrightarrow> length (packet_body cs) < 65533 \<Longrightarrow>
   parse_descriptors (packet_body cs) acc = Value (acc @ map chunk_descriptor cs)"
proof (induction cs arbitrary: acc)
  case Nil
  then show ?case by (simp add: packet_body_def)
next
  case (Cons c cs)
  let ?d = "chunk_bytes c"
  have framed: "framed (Chunk_config c) ?d"
    using Cons.prems(1) by (simp add: chunk_bytes_props)
  have body: "packet_body (c # cs) = pad4 ?d @ packet_body cs"
    by (simp add: packet_body_def)
  have "RoundUpTo4 (length ?d) \<le> length (packet_body (c # cs))"
    by (simp add: body)
  then have len: "length ?d \<le> 65532"
    using Cons.prems(2) RoundUpTo4_ge [of "length ?d"] by linarith
  have four: "4 \<le> length ?d" "?d \<noteq> []"
    using framed by (auto simp: framed_def)
  have "unat (LoadBigEndian16 (packet_body (c # cs)) 2) = length ?d"
    using framed four len
    by (simp add: body pad4_def loads_append framed_def unat_of_nat_word_eq)
  then have "unat (RoundUpTo4_u16 (LoadBigEndian16 (packet_body (c # cs)) 2)) = RoundUpTo4 (length ?d)"
    using len by (simp add: RoundUpTo4_u16_small)
  moreover have "4 \<le> RoundUpTo4 (length ?d)"
    using four(1) RoundUpTo4_ge [of "length ?d"] by linarith
  moreover have "packet_body (c # cs) \<noteq> []"
    using four(2) by (simp add: body pad4_def)
  moreover have "LoadBigEndian8 (packet_body (c # cs)) 0 = LoadBigEndian8 ?d 0"
    "LoadBigEndian8 (packet_body (c # cs)) 1 = LoadBigEndian8 ?d 1"
    using four by (simp_all add: body pad4_def loads_append)
  ultimately show ?case
    using Cons by (simp add: parse_descriptors_step body chunk_descriptor_def)
qed

lemma chunk_descriptor_type:
  assumes "Chunk_ok c"
  shows "unat (cd_type (chunk_descriptor c)) = kType (Chunk_config c)"
  using chunk_bytes_props(2) [OF assms]
  by (simp add: framed_def tlv_type_field_def chunk_descriptor_def Chunk_config_one_byte)

section \<open>Packet round trip\<close>

text \<open>The receiver accepts what \<open>Build\<close> makes of the checksum field.\<close>

definition checksum_accepted :: "bool \<Rightarrow> DcSctpOptions \<Rightarrow> bool" where
  "checksum_accepted write_checksum options \<longleftrightarrow>
     write_checksum \<or> opts_disable_checksum_verification options \<or>
     opts_zero_checksum_alternate_error_detection_method options \<noteq>
       ZeroChecksumAlternateErrorDetectionMethod_None"

lemma packet_header_prefix:
  "LoadBigEndian16 (packet_header b @ d) 0 = b_source_port b"
  "LoadBigEndian16 (packet_header b @ d) 2 = b_dest_port b"
  "LoadBigEndian32 (packet_header b @ d) 4 = b_verification_tag b"
  "LoadBigEndian32 (packet_header b @ d) 8 = 0"
  by (simp_all add: loads_append packet_header_fields)

lemma store_checksum_zero:
  "StoreBigEndian32 8 0 (StoreBigEndian32 8 crc (packet_header b @ d)) = packet_header b @ d"
proof -
  have "StoreBigEndian32 8 0 (packet_header b @ d) = packet_header b @ d"
    using store_load32 [of 8 "packet_header b @ d"] by (simp add: packet_header_prefix)
  then show ?thesis by (simp add: store_store32)
qed

definition sent_packet :: "(bytes \<Rightarrow> u32) \<Rightarrow> bool \<Rightarrow> SctpPacket_Builder \<Rightarrow> Chunk list \<Rightarrow> bytes" where
  "sent_packet crc write_checksum b cs =
     (let d = packet_header b @ packet_body cs in
      if write_checksum then StoreBigEndian32 8 (GenerateCrc32C crc d) d else d)"

lemma sent_packet_fields:
  "length (sent_packet crc write_checksum b cs) = 12 + length (packet_body cs)"
  "LoadBigEndian16 (sent_packet crc write_checksum b cs) 0 = b_source_port b"
  "LoadBigEndian16 (sent_packet crc write_checksum b cs) 2 = b_dest_port b"
  "LoadBigEndian32 (sent_packet crc write_checksum b cs) 4 = b_verification_tag b"
  "drop 12 (sent_packet crc write_checksum b cs) = packet_body cs"
  by (simp_all add: sent_packet_def Let_def codec_simps packet_header_prefix packet_header_fields)

lemma verify_sent_packet:
  assumes "checksum_accepted write_checksum options"
  shows "verify_checksum crc options (LoadBigEndian32 (sent_packet crc write_checksum b cs) 8)
      (sent_packet crc write_checksum b cs) = Value (sent_packet crc write_checksum b cs)"
  using assms
  by (auto simp: sent_packet_def Let_def verify_checksum_eq store_checksum_zero load_store_same
      store_store32 checksum_accepted_def packet_header_prefix)

lemma SctpPacket_Builder_Build_eq:
  assumes "list_all Chunk_ok cs" and "cs \<noteq> []" and "b_out b = []"
    and "SctpPacket_Builder_Add_all cs b = Value b'"
  shows "SctpPacket_Builder_Build crc write_checksum b' = Value (sent_packet crc write_checksum b cs, b)"
proof -
  have "packet_header b \<noteq> []"
    using length_packet_header [of b] by (metis list.size(3) zero_neq_numeral)
  then show ?thesis
    using assms(4) SctpPacket_Builder_Add_all_eq [OF assms(1-3)] assms(3)
    by (auto simp: SctpPacket_Builder_Build_def sent_packet_def BoundedByteWriter_def
        kSctpHeaderSize_def written_def Store32_def Let_def)
qed

lemma SctpPacket_Parse_sent:
  assumes "list_all Chunk_ok cs" and "cs \<noteq> []" and "checksum_accepted write_checksum options"
    and "length (sent_packet crc write_checksum b cs) \<le> 65535"
  shows "SctpPacket_Parse crc (sent_packet crc write_checksum b cs) options = Value
     \<lparr>pkt_common_header =
        \<lparr>ch_source_port = b_source_port b, ch_destination_port = b_dest_port b,
         ch_verification_tag = b_verification_tag b,
         ch_checksum = LoadBigEndian32 (sent_packet crc write_checksum b cs) 8\<rparr>,
      pkt_data = sent_packet crc write_checksum b cs,
      pkt_descriptors = map chunk_descriptor cs\<rparr>"
proof -
  have body: "length (packet_body cs) < 65533"
    using assms(4) by (simp add: sent_packet_fields)
  obtain c cs' where cs: "cs = c # cs'" using assms(2) by (cases cs) auto
  then have "4 \<le> length (chunk_bytes c)"
    using assms(1) chunk_bytes_props(2) [of c] by (auto simp: framed_def)
  then have "4 \<le> length (packet_body cs)"
    using RoundUpTo4_ge [of "length (chunk_bytes c)"]
    by (simp add: cs packet_body_def del: RoundUpTo4_ge)
  with assms(4) body show ?thesis
    by (simp add: SctpPacket_Parse_def kSctpHeaderSize_def kChunkTlvHeaderSize_def
        kMaxUdpPacketSize_def BoundedByteReader_def Load16_def Load32_def sent_packet_fields Let_def
        verify_sent_packet [OF assms(3)] parse_descriptors_body [OF assms(1) body])
qed

section \<open>A sample packet\<close>

definition sample_chunks :: "Chunk list" where
  "sample_chunks = [Ch_CookieAck CookieAckChunk, Ch_Shutdown \<lparr>shut_cumulative_tsn_ack = 5\<rparr>]"

definition sample_crc :: "bytes \<Rightarrow> u32" where
  "sample_crc d = of_nat (length d)"

definition sample_builder :: SctpPacket_Builder where
  "sample_builder = SctpPacket_Builder_make 42 DcSctpOptions_default"

definition sample_packet :: bytes where
  "sample_packet = sent_packet sample_crc True sample_builder sample_chunks"

lemma sample_chunks_ok: "list_all Chunk_ok sample_chunks" "sample_chunks \<noteq> []"
  by (simp_all add: sample_chunks_def)

lemma sample_packet_length: "length sample_packet = 24"
proof -
  have "packet_body sample_chunks = [11, 0, 0, 4, 7, 0, 0, 8, 0, 0, 0, 5]"
    by code_simp
  then show ?thesis by (simp add: sample_packet_def sent_packet_fields(1))
qed

lemma sample_packet_built:
  obtains b where "SctpPacket_Builder_Add_all sample_chunks sample_builder = Value b"
    and "SctpPacket_Builder_Build sample_crc True b = Value (sample_packet, sample_builder)"
proof -
  have out: "b_out sample_builder = []" by (simp add: sample_builder_def SctpPacket_Builder_make_def)
  obtain b where b: "SctpPacket_Builder_Add_all sample_chunks sample_builder = Value b"
    using SctpPacket_Builder_Add_all_eq [OF sample_chunks_ok out] by blast
  show thesis
    by (rule that [OF b])
      (simp add: sample_packet_def SctpPacket_Builder_Build_eq [OF sample_chunks_ok out b])
qed

lemma sample_packet_parsed:
  obtains p where "SctpPacket_Parse sample_crc sample_packet DcSctpOptions_default = Value p"
  using SctpPacket_Parse_sent [OF sample_chunks_ok, of True DcSctpOptions_default sample_crc sample_builder]
    sample_packet_length
  by (auto simp: sample_packet_def checksum_accepted_def)

section \<open>Properties\<close>

text \<open>
  C2. A packet survives the network: chunks added to a builder, built with or without a checksum,
  and parsed by a receiver whose options accept that checksum field, give a packet with the
  builder's ports and verification tag and one descriptor per chunk, in order, with the type of the
  chunk and with bytes that the parser of its class turns back into the chunk. The checksum function
  is arbitrary; the packet has to fit into 65535 bytes.
\<close>

theorem packet_round_trip:
  assumes "list_all Chunk_ok cs" and "cs \<noteq> []"
    and "SctpPacket_Builder_Add_all cs (SctpPacket_Builder_make tag sender) = Value b"
    and "SctpPacket_Builder_Build crc write_checksum b = Value (data, b')"
    and "length data \<le> 65535" and "checksum_accepted write_checksum receiver"
  shows "b' = SctpPacket_Builder_make tag sender \<and>
    (\<exists>p. SctpPacket_Parse crc data receiver = Value p \<and> pkt_data p = data \<and>
      ch_source_port (pkt_common_header p) = word_of_int (opts_local_port sender) \<and>
      ch_destination_port (pkt_common_header p) = word_of_int (opts_remote_port sender) \<and>
      ch_verification_tag (pkt_common_header p) = tag \<and>
      list_all2 (\<lambda>c d. unat (cd_type d) = kType (Chunk_config c) \<and> Chunk_parses_back c (cd_data d))
        cs (pkt_descriptors p))"
proof -
  let ?b = "SctpPacket_Builder_make tag sender"
  have out: "b_out ?b = []" by (simp add: SctpPacket_Builder_make_def)
  have data: "data = sent_packet crc write_checksum ?b cs" and b': "b' = ?b"
    using assms(4) SctpPacket_Builder_Build_eq [OF assms(1,2) out assms(3)] by auto
  have "list_all2 (\<lambda>c d. unat (cd_type d) = kType (Chunk_config c) \<and> Chunk_parses_back c (cd_data d))
      cs (map chunk_descriptor cs)"
    using assms(1) chunk_descriptor_type chunk_bytes_props(4)
    by (auto simp: list_all2_conv_all_nth list_all_length chunk_descriptor_def)
  then show ?thesis
    using SctpPacket_Parse_sent [OF assms(1,2,6), of crc ?b] assms(5)
    by (simp add: data b') (simp add: SctpPacket_Builder_make_def)
qed

theorem packet_round_trip_witness:
  "\<exists>p. SctpPacket_Parse sample_crc sample_packet DcSctpOptions_default = Value p \<and>
     ch_verification_tag (pkt_common_header p) = 42 \<and>
     list_all2 (\<lambda>c d. unat (cd_type d) = kType (Chunk_config c) \<and> Chunk_parses_back c (cd_data d))
       sample_chunks (pkt_descriptors p)"
proof -
  obtain b where b: "SctpPacket_Builder_Add_all sample_chunks sample_builder = Value b"
    "SctpPacket_Builder_Build sample_crc True b = Value (sample_packet, sample_builder)"
    by (rule sample_packet_built)
  show ?thesis
    using packet_round_trip [OF sample_chunks_ok b [unfolded sample_builder_def], of DcSctpOptions_default]
    by (auto simp: sample_packet_length checksum_accepted_def)
qed

text \<open>
  C18. No packet from the network can abort the process or keep the parser busy forever, whatever
  its bytes, the options and the checksum function: \<open>SctpPacket::Parse\<close> always returns.
\<close>

theorem packet_parser_safe:
  "returns (SctpPacket_Parse crc data options)"
  by (rule SctpPacket_Parse_returns)

text \<open>
  C19. What \<open>SctpPacket::Parse\<close> accepts is between 16 and 65535 bytes long and is held unchanged; the
  descriptors are consecutive, together cover everything behind the common header, and each is at
  least four bytes long, aligned to four bytes, and names the type and flags in its own first bytes.
\<close>

theorem packet_descriptors_tile:
  assumes "SctpPacket_Parse crc data options = Value p"
  shows "16 \<le> length data \<and> length data \<le> 65535 \<and> pkt_data p = data \<and>
    concat (map cd_data (pkt_descriptors p)) = drop 12 data \<and>
    list_all descriptor_ok (pkt_descriptors p)"
proof -
  have len: "16 \<le> length data" "length data \<le> 65535"
    using assms by (auto simp: SctpPacket_Parse_def kSctpHeaderSize_def kChunkTlvHeaderSize_def
        kMaxUdpPacketSize_def split: if_splits)
  have "verify_checksum crc options (LoadBigEndian32 data 8) data = Value d \<Longrightarrow> d = data" for d
    using len(1) by (auto simp: verify_checksum_eq store_load32 split: if_splits)
  then have "pkt_data p = data" "parse_descriptors (drop 12 data) [] = Value (pkt_descriptors p)"
    using assms len
    by (auto simp: SctpPacket_Parse_def kSctpHeaderSize_def kChunkTlvHeaderSize_def
        kMaxUdpPacketSize_def BoundedByteReader_def Load32_def Let_def obind_Value_iff)
  with len show ?thesis
    using parse_descriptors_tile [of "drop 12 data" "[]"] by auto
qed

theorem packet_descriptors_tile_witness:
  "\<exists>p. SctpPacket_Parse sample_crc sample_packet DcSctpOptions_default = Value p \<and>
     concat (map cd_data (pkt_descriptors p)) = drop 12 sample_packet"
  using sample_packet_parsed packet_descriptors_tile by metis

text \<open>
  C20. A packet with a wrong checksum is rejected: unless checksum verification is disabled or the
  receiver has negotiated zero checksums and the field is zero, an accepted packet carries the
  byte-swapped CRC32c of the packet with the checksum field set to zero.
\<close>

theorem packet_checksum_verified:
  assumes "SctpPacket_Parse crc data options = Value p"
    and "\<not> opts_disable_checksum_verification options"
    and "opts_zero_checksum_alternate_error_detection_method options =
      ZeroChecksumAlternateErrorDetectionMethod_None \<or> ch_checksum (pkt_common_header p) \<noteq> 0"
  shows "ch_checksum (pkt_common_header p) = GenerateCrc32C crc (StoreBigEndian32 8 0 data)"
proof -
  have len: "16 \<le> length data"
    using assms(1) by (auto simp: SctpPacket_Parse_def kSctpHeaderSize_def kChunkTlvHeaderSize_def
        split: if_splits)
  with assms show ?thesis
    by (auto simp: SctpPacket_Parse_def kSctpHeaderSize_def kChunkTlvHeaderSize_def verify_checksum_eq
        BoundedByteReader_def Load32_def Let_def obind_Value_iff split: if_splits)
qed

theorem packet_checksum_verified_witness:
  "\<exists>p. SctpPacket_Parse sample_crc sample_packet DcSctpOptions_default = Value p \<and>
     ch_checksum (pkt_common_header p) = GenerateCrc32C sample_crc (StoreBigEndian32 8 0 sample_packet)"
proof -
  obtain p where "SctpPacket_Parse sample_crc sample_packet DcSctpOptions_default = Value p"
    by (rule sample_packet_parsed)
  moreover from packet_checksum_verified [OF this]
  have "ch_checksum (pkt_common_header p) = GenerateCrc32C sample_crc (StoreBigEndian32 8 0 sample_packet)"
    by (simp add: DcSctpOptions_default_def)
  ultimately show ?thesis by blast
qed

end
