(* ===== verification/Sequence_Numbers.thy ===== *)
theory Sequence_Numbers
  imports Prelude
begin

text \<open>
  Wrapping sequence numbers: the modular arithmetic of \<open>rtc_base/numerics/mod_ops.h\<close>, the order of
  \<open>sequence_number_util.h\<close>, the unwrapper of \<open>sequence_number_unwrapper.h\<close>, and the unwrapped
  numbers of \<open>net/dcsctp/common/sequence_numbers.h\<close>. The template parameter \<open>T\<close> is the word
  length. Unwrapped numbers (\<open>int64_t\<close>) are integers: one step moves them by at most half the range
  of \<open>T\<close>, so that at 32 bits they need more than two to the thirty-one steps to overflow.
\<close>

section \<open>Modular arithmetic\<close>

text \<open>\<open>unsigned long\<close> is 64 bits wide; every operation wraps.\<close>

definition mod_ops_Add :: "u64 \<Rightarrow> u64 \<Rightarrow> u64 \<Rightarrow> u64" where
  "mod_ops_Add M a b =
     (let t = M - b mod M;
          res = a - t
      in if t > a then res + M else res)"

definition mod_ops_Subtract :: "u64 \<Rightarrow> u64 \<Rightarrow> u64 \<Rightarrow> u64" where
  "mod_ops_Subtract M a b =
     (let sub = b mod M in if a < sub then M - (sub - a) else a - sub)"

definition ForwardDiff_mod :: "'a::len word \<Rightarrow> 'a word \<Rightarrow> 'a word \<Rightarrow> 'a word" where
  "ForwardDiff_mod M a b = (if a \<le> b then b - a else M - (a - b))"

definition ForwardDiff :: "'a::len word \<Rightarrow> 'a word \<Rightarrow> 'a word" where
  "ForwardDiff a b = b - a"

definition ReverseDiff_mod :: "'a::len word \<Rightarrow> 'a word \<Rightarrow> 'a word \<Rightarrow> 'a word" where
  "ReverseDiff_mod M a b = (if b \<le> a then a - b else M - (b - a))"

definition ReverseDiff :: "'a::len word \<Rightarrow> 'a word \<Rightarrow> 'a word" where
  "ReverseDiff a b = a - b"

definition MinDiff_mod :: "'a::len word \<Rightarrow> 'a word \<Rightarrow> 'a word \<Rightarrow> 'a word" where
  "MinDiff_mod M a b = min (ForwardDiff_mod M a b) (ReverseDiff_mod M a b)"

definition MinDiff :: "'a::len word \<Rightarrow> 'a word \<Rightarrow> 'a word" where
  "MinDiff a b = min (ForwardDiff a b) (ReverseDiff a b)"

section \<open>Order\<close>

definition AheadOrAt_mod :: "'a::len word \<Rightarrow> 'a word \<Rightarrow> 'a word \<Rightarrow> bool" where
  "AheadOrAt_mod M a b =
     (let maxDist = M div 2 in
      if M AND 1 = 0 \<and> MinDiff_mod M a b = maxDist then b < a
      else ForwardDiff_mod M b a \<le> maxDist)"

definition AheadOrAt :: "'a::len word \<Rightarrow> 'a word \<Rightarrow> bool" where
  "AheadOrAt a b =
     (let maxDist = (- 1) div 2 + 1 in
      if a - b = maxDist then b < a else ForwardDiff b a < maxDist)"

definition AheadOf :: "'a::len word \<Rightarrow> 'a word \<Rightarrow> bool" where
  "AheadOf a b \<longleftrightarrow> a \<noteq> b \<and> AheadOrAt a b"

section \<open>Unwrapper\<close>

record 't SeqNumUnwrapper =
  snu_last_unwrapped :: int
  snu_last_value :: "'t option"

definition SeqNumUnwrapper_init :: "'t SeqNumUnwrapper" where
  "SeqNumUnwrapper_init = \<lparr>snu_last_unwrapped = 0, snu_last_value = None\<rparr>"

definition Delta :: "'a::len word \<Rightarrow> 'a word \<Rightarrow> int" where
  "Delta last_value new_value =
     (let kBackwardAdjustment = uint (- 1 :: 'a word) + 1;
          result = uint (ForwardDiff last_value new_value)
      in if \<not> AheadOrAt new_value last_value then result - kBackwardAdjustment else result)"

definition Unwrap :: "'a::len word \<Rightarrow> 'a word SeqNumUnwrapper \<Rightarrow> int \<times> 'a word SeqNumUnwrapper" where
  "Unwrap v u =
     (let last_unwrapped =
            (case snu_last_value u of
               None \<Rightarrow> uint v
             | Some last_value \<Rightarrow> snu_last_unwrapped u + Delta last_value v)
      in (last_unwrapped, u\<lparr>snu_last_unwrapped := last_unwrapped, snu_last_value := Some v\<rparr>))"

definition PeekUnwrap :: "'a::len word \<Rightarrow> 'a word SeqNumUnwrapper \<Rightarrow> int" where
  "PeekUnwrap v u =
     (case snu_last_value u of
        None \<Rightarrow> uint v
      | Some last_value \<Rightarrow> snu_last_unwrapped u + Delta last_value v)"

definition SeqNumUnwrapper_Reset :: "'t SeqNumUnwrapper \<Rightarrow> 't SeqNumUnwrapper" where
  "SeqNumUnwrapper_Reset u = u\<lparr>snu_last_unwrapped := 0, snu_last_value := None\<rparr>"

section \<open>Unwrapped numbers\<close>

text \<open>The remainder of C++ has the sign of the dividend.\<close>

definition cpp_rem :: "int \<Rightarrow> int \<Rightarrow> int" where
  "cpp_rem a b = (if a \<ge> 0 then a mod b else - ((- a) mod b))"

type_synonym UnwrappedTSN = int
type_synonym UnwrappedSSN = int
type_synonym UnwrappedMID = int

definition Wrap :: "int \<Rightarrow> 'a::len word" where
  "Wrap val = word_of_int (cpp_rem val (2 ^ LENGTH('a)))"

definition next_value :: "int \<Rightarrow> int" where
  "next_value val = val + 1"

definition AddTo :: "int \<Rightarrow> int \<Rightarrow> int" where
  "AddTo val delta = val + delta"

definition Difference :: "int \<Rightarrow> int \<Rightarrow> 'a::len word" where
  "Difference lhs rhs = (if lhs > rhs then word_of_int (lhs - rhs) else word_of_int (rhs - lhs))"

lemmas unwrapped_defs [tsn_simps] = next_value_def AddTo_def

section \<open>Correctness of the modular arithmetic\<close>

lemma uint_sub_ge: "b \<le> a \<Longrightarrow> uint (a - b) = uint a - uint (b :: 'a::len word)"
  by (simp add: uint_minus_simple_alt word_le_def uint_sub_if')

lemma ForwardDiff_mod_correct:
  assumes "a < M" and "b < M"
  shows "uint (ForwardDiff_mod M a b) = (uint b - uint a) mod uint M"
proof (cases "a \<le> b")
  case True
  then have "uint b - uint a < uint M" and "0 \<le> uint b - uint a"
    using assms(2) uint_ge_0 [of a] unfolding word_less_alt word_le_def by linarith+
  with True show ?thesis
    by (simp add: ForwardDiff_mod_def uint_sub_ge)
next
  case False
  then have "uint (a - b) = uint a - uint b" by (simp add: uint_sub_ge)
  then have "a - b \<le> M"
    using assms(1) uint_ge_0 [of b] unfolding word_le_def word_less_alt by linarith
  then have "uint (ForwardDiff_mod M a b) = uint M - (uint a - uint b)"
    using False by (simp add: ForwardDiff_mod_def uint_sub_ge)
  also have "\<dots> = (uint b - uint a + uint M) mod uint M"
    using False assms(1) uint_ge_0 [of b] unfolding word_le_def word_less_alt
    by (subst mod_pos_pos_trivial) linarith+
  finally show ?thesis by simp
qed

lemma ReverseDiff_mod_swap: "ReverseDiff_mod M a b = ForwardDiff_mod M b a"
  by (simp add: ReverseDiff_mod_def ForwardDiff_mod_def)

lemma mod_ops_Subtract_correct:
  assumes "a < M"
  shows "uint (mod_ops_Subtract M a b) = (uint a - uint b) mod uint M"
proof -
  have "0 < uint M"
    using assms by (simp add: word_less_alt) (metis linorder_not_less order.trans uint_ge_0)
  then have "b mod M < M" by (simp add: word_less_alt uint_mod)
  then have "uint (ForwardDiff_mod M (b mod M) a) = (uint a - uint (b mod M)) mod uint M"
    by (rule ForwardDiff_mod_correct [OF _ assms])
  moreover have "mod_ops_Subtract M a b = ForwardDiff_mod M (b mod M) a"
    by (auto simp: mod_ops_Subtract_def ForwardDiff_mod_def Let_def)
  ultimately show ?thesis by (simp add: uint_mod mod_diff_right_eq)
qed

lemma mod_ops_Add_correct:
  assumes "a < M"
  shows "uint (mod_ops_Add M a b) = (uint a + uint b) mod uint M"
proof -
  let ?r = "b mod M"
  have M: "0 < uint M"
    using assms by (simp add: word_less_alt) (metis linorder_not_less order.trans uint_ge_0)
  then have r: "0 \<le> uint ?r" "uint ?r < uint M" by (simp_all add: uint_mod)
  then have t: "uint (M - ?r) = uint M - uint ?r"
    by (simp add: uint_sub_ge word_le_def)
  have a: "uint a < uint M" using assms by (simp add: word_less_alt)
  have "uint (mod_ops_Add M a b) = (uint a + uint ?r) mod uint M"
  proof (cases "M - ?r > a")
    case True
    then have less: "uint a + uint ?r < uint M" using t by (simp add: word_less_alt)
    then have "uint a + uint ?r < 2 ^ 64" using uint_lt2p [of M] by simp
    then have "uint (a + ?r) = uint a + uint ?r"
      by (simp add: uint_word_ariths(1) mod_pos_pos_trivial)
    with True less r show ?thesis
      by (simp add: mod_ops_Add_def Let_def mod_pos_pos_trivial)
  next
    case False
    then have "uint (a - (M - ?r)) = uint a + uint ?r - uint M"
      using t by (simp add: uint_sub_ge not_less)
    also have "\<dots> = (uint a + uint ?r - uint M) mod uint M"
      using False t a r by (intro mod_pos_pos_trivial [symmetric]) (simp_all add: word_less_alt)
    finally show ?thesis
      using False by (simp add: mod_ops_Add_def Let_def)
  qed
  then show ?thesis by (simp add: uint_mod mod_add_right_eq)
qed

section \<open>Correctness of the unwrapper\<close>

definition half_range :: "'a::len itself \<Rightarrow> int" where
  "half_range _ = 2 ^ (LENGTH('a) - 1)"

lemma half_range_double: "2 ^ LENGTH('a::len) = 2 * half_range TYPE('a)"
  by (simp add: half_range_def flip: power_Suc)

lemma half_range_pos: "0 < half_range TYPE('a::len)"
  by (simp add: half_range_def)

lemma uint_max_word: "uint (- 1 :: 'a::len word) = 2 * half_range TYPE('a) - 1"
  by (simp add: uint_word_of_int_eq half_range_double [symmetric] mask_eq_exp_minus_1 unsigned_minus_1_eq_mask)

lemma uint_maxDist: "uint ((- 1) div 2 + 1 :: 'a::len word) = half_range TYPE('a)"
proof -
  have "uint ((- 1) div 2 :: 'a word) = half_range TYPE('a) - 1"
  proof (cases "LENGTH('a) = 1")
    case True
    then show ?thesis by (simp add: half_range_def)
  next
    case False
    then have "2 \<le> LENGTH('a)" using len_gt_0 [where 'a = 'a] by linarith
    then have "(2 :: int) ^ 2 \<le> 2 ^ LENGTH('a)" by (intro power_increasing) simp_all
    then have "(2 :: int) < 2 ^ LENGTH('a)" by (simp add: power2_eq_square del: self_le_power)
    then have "(2 :: int) mod 2 ^ LENGTH('a) = 2"
      by (intro mod_pos_pos_trivial) simp_all
    then have "uint (2 :: 'a word) = 2"
      using uint_word_of_int [of 2, where 'a = 'a] by (simp del: uint_numeral)
    then show ?thesis by (simp only: uint_div uint_max_word)
  qed
  moreover have "half_range TYPE('a) < 2 ^ LENGTH('a)"
    using half_range_pos [where 'a = 'a] by (simp add: half_range_double)
  ultimately show ?thesis
    using half_range_pos [where 'a = 'a]
    by (simp add: uint_word_ariths(1) mod_pos_pos_trivial)
qed

text \<open>
  A step of the unwrapper is the signed distance: the number congruent to the difference of the
  values that is closest to zero. At the maximal distance the larger value is the later one.
\<close>

lemma AheadOrAt_iff:
  "AheadOrAt (a :: 'a::len word) b \<longleftrightarrow>
   uint (a - b) < half_range TYPE('a) \<or> (uint (a - b) = half_range TYPE('a) \<and> b < a)"
  using uint_maxDist [where 'a = 'a]
  by (auto simp: AheadOrAt_def ForwardDiff_def Let_def word_less_alt word_uint_eq_iff)

lemma Delta_eq:
  "Delta (l :: 'a::len word) v =
     (if AheadOrAt v l then uint (v - l) else uint (v - l) - 2 * half_range TYPE('a))"
  by (simp add: Delta_def ForwardDiff_def Let_def uint_max_word)

lemma Delta_bounds: "- half_range TYPE('a) \<le> Delta (l :: 'a::len word) v \<and> Delta l v \<le> half_range TYPE('a)"
proof -
  note facts = half_range_pos [where 'a = 'a] uint_lt2p [of "v - l", unfolded half_range_double]
    uint_ge_0 [of "v - l"]
  show ?thesis
  proof (cases "AheadOrAt v l")
    case True
    then have "uint (v - l) \<le> half_range TYPE('a)" by (auto simp: AheadOrAt_iff)
    with facts have "- half_range TYPE('a) \<le> uint (v - l) \<and> uint (v - l) \<le> half_range TYPE('a)"
      by linarith
    with True show ?thesis by (simp add: Delta_eq)
  next
    case False
    then have "half_range TYPE('a) \<le> uint (v - l)" by (auto simp: AheadOrAt_iff)
    with False facts show ?thesis by (simp add: Delta_eq)
  qed
qed

lemma Delta_cong: "word_of_int (Delta l v) = (v :: 'a::len word) - l"
proof -
  have "word_of_int (2 * half_range TYPE('a)) = (0 :: 'a word)"
    unfolding half_range_double [symmetric] by simp
  then show ?thesis by (simp add: Delta_eq)
qed

lemma Delta_near:
  assumes "\<bar>x\<bar> < half_range TYPE('a::len)"
  shows "Delta (l :: 'a word) (l + word_of_int x) = x"
proof (cases "0 \<le> x")
  case True
  then have "uint (word_of_int x :: 'a word) = x"
    using assms half_range_double [where 'a = 'a] by (simp add: uint_word_of_int mod_pos_pos_trivial)
  with True assms show ?thesis by (simp add: Delta_eq AheadOrAt_iff)
next
  case False
  have "uint (word_of_int x :: 'a word) = (x + 2 ^ LENGTH('a)) mod 2 ^ LENGTH('a)"
    by (simp add: uint_word_of_int)
  also have "\<dots> = x + 2 ^ LENGTH('a)"
    using False assms by (intro mod_pos_pos_trivial) (simp_all add: half_range_double)
  finally show ?thesis
    using False assms by (simp add: Delta_eq AheadOrAt_iff half_range_double)
qed

text \<open>The state of an unwrapper: the last unwrapped number wraps to the last value.\<close>

definition unwrapper_ok :: "'a::len word SeqNumUnwrapper \<Rightarrow> bool" where
  "unwrapper_ok u \<longleftrightarrow>
     (case snu_last_value u of None \<Rightarrow> snu_last_unwrapped u = 0
      | Some v \<Rightarrow> v = word_of_int (snu_last_unwrapped u))"

lemma unwrapper_ok_init [simp]: "unwrapper_ok SeqNumUnwrapper_init"
  by (simp add: unwrapper_ok_def SeqNumUnwrapper_init_def)

lemma unwrapper_ok_Reset [simp]: "unwrapper_ok (SeqNumUnwrapper_Reset u)"
  by (simp add: unwrapper_ok_def SeqNumUnwrapper_Reset_def)

lemma Unwrap_ok:
  assumes "unwrapper_ok u" and "Unwrap v u = (x, u')"
  shows "unwrapper_ok u'" and "word_of_int x = v" and "snu_last_unwrapped u' = x"
    and "snu_last_value u' = Some v"
  using assms by (auto simp: Unwrap_def unwrapper_ok_def Let_def Delta_cong split: option.splits)

lemma PeekUnwrap_Unwrap: "PeekUnwrap v u = fst (Unwrap v u)"
  by (simp add: PeekUnwrap_def Unwrap_def Let_def)

lemma PeekUnwrap_near:
  assumes "unwrapper_ok u" and "snu_last_value u \<noteq> None"
    and "\<bar>x - snu_last_unwrapped u\<bar> < half_range TYPE('a::len)"
  shows "PeekUnwrap (word_of_int x :: 'a word) u = x"
proof -
  obtain l where l: "snu_last_value u = Some l" using assms(2) by blast
  then have "word_of_int x = l + word_of_int (x - snu_last_unwrapped u)"
    using assms(1) by (simp add: unwrapper_ok_def)
  then have "Delta l (word_of_int x) = x - snu_last_unwrapped u"
    using Delta_near [OF assms(3), of l] by simp
  then show ?thesis by (simp add: PeekUnwrap_def l)
qed

text \<open>A peer that moves by less than half the range per step is followed exactly.\<close>

fun Unwrap_all :: "'a::len word list \<Rightarrow> 'a word SeqNumUnwrapper \<Rightarrow> int list" where
  "Unwrap_all [] u = []"
| "Unwrap_all (v # vs) u = (let (x, u') = Unwrap v u in x # Unwrap_all vs u')"

fun small_steps :: "int \<Rightarrow> int \<Rightarrow> int list \<Rightarrow> bool" where
  "small_steps h x [] = True"
| "small_steps h x (y # ys) = (\<bar>y - x\<bar> < h \<and> small_steps h y ys)"

lemma Unwrap_all_follow:
  assumes "unwrapper_ok u" and "snu_last_value u \<noteq> None"
    and "small_steps (half_range TYPE('a::len)) (snu_last_unwrapped u) xs"
  shows "Unwrap_all (map (word_of_int :: int \<Rightarrow> 'a word) xs) u = xs"
  using assms
proof (induction xs arbitrary: u)
  case (Cons x xs)
  obtain u' where u': "Unwrap (word_of_int x :: 'a word) u = (x, u')"
    using PeekUnwrap_near [of u x] Cons.prems by (metis PeekUnwrap_Unwrap prod.collapse small_steps.simps(2))
  from Unwrap_ok [OF Cons.prems(1) u'] Cons show ?case by (simp add: u')
qed simp

lemma word_of_int_mod: "word_of_int (x mod 2 ^ LENGTH('a)) = (word_of_int x :: 'a::len word)"
  by (rule word_uint_eqI) (simp add: uint_word_of_int)

lemma Wrap_eq: "Wrap x = (word_of_int x :: 'a::len word)"
  by (simp add: Wrap_def cpp_rem_def word_of_int_mod)

lemma Difference_eq: "Difference x y = (word_of_int \<bar>x - y\<bar> :: 'a::len word)"
  by (simp add: Difference_def)

section \<open>Properties\<close>

text \<open>
  \<open>Add\<close> of \<open>mod_ops.h\<close> computes the sum modulo \<open>M\<close> for every argument below \<open>M\<close>, although its
  intermediate results wrap around the 64-bit range, and the result is below \<open>M\<close>.
\<close>

lemma mod_ops_Add_is_modular_addition:
  assumes "a < M"
  shows "uint (mod_ops_Add M a b) = (uint a + uint b) mod uint M \<and> mod_ops_Add M a b < M"
proof -
  have "0 < uint M"
    using assms unfolding word_less_alt by (metis linorder_not_less order.trans uint_ge_0)
  with mod_ops_Add_correct [OF assms] show ?thesis
    by (simp add: word_less_alt)
qed

text \<open>
  A step of the unwrapper is the signed distance between two wrapping numbers: it is congruent
  to their difference, at most half the range in either direction, and equal to every true
  distance that is strictly below half the range.
\<close>

lemma Delta_is_signed_distance:
  "word_of_int (Delta l v) = (v :: 'a::len word) - l \<and> \<bar>Delta l v\<bar> \<le> half_range TYPE('a) \<and>
   (\<bar>x\<bar> < half_range TYPE('a) \<longrightarrow> Delta l (l + word_of_int x) = x)"
  using Delta_cong [of l v] Delta_bounds [of l v] Delta_near [of x l] by (simp add: abs_le_iff)

text \<open>
  C40. A sender whose 64-bit numbers start below the wrapping point and move by less than half the
  range per packet, forwards or backwards, is followed exactly: unwrapping the wrapped numbers in
  the order of their arrival gives the original ones.
\<close>

theorem unwrapper_follows_sender:
  assumes "0 \<le> x" and "x < 2 ^ LENGTH('a::len)" and "small_steps (half_range TYPE('a)) x xs"
  shows "Unwrap_all (map (Wrap :: int \<Rightarrow> 'a word) (x # xs)) SeqNumUnwrapper_init = x # xs"
proof -
  obtain u where u: "Unwrap (word_of_int x :: 'a word) SeqNumUnwrapper_init = (x, u)"
    using assms(1,2)
    by (simp add: Unwrap_def SeqNumUnwrapper_init_def uint_word_of_int)
  show ?thesis
    using Unwrap_all_follow [of u xs] Unwrap_ok [OF unwrapper_ok_init u] assms(3)
    by (simp add: Wrap_eq [abs_def] u)
qed

theorem unwrapper_follows_sender_witness:
  "small_steps (half_range TYPE(16)) 65534 [65537, 65533, 98000] \<and>
   Unwrap_all (map (Wrap :: int \<Rightarrow> u16) [65534, 65537, 65533, 98000]) SeqNumUnwrapper_init =
     [65534, 65537, 65533, 98000]"
  using unwrapper_follows_sender [of 65534 "[65537, 65533, 98000]", where 'a = 16]
  by (simp add: half_range_def)

end
