(* ===== verification/Time_Units.thy ===== *)
theory Time_Units
  imports Prelude
begin

text \<open>
  Durations and points in time: \<open>webrtc::TimeDelta\<close> and \<open>webrtc::Timestamp\<close>
  (\<open>rtc_base/units/unit_base.h\<close>, \<open>api/units\<close>), both a 64-bit number of microseconds whose two
  extreme values stand for infinity, and the 32-bit milliseconds of the public interface
  (\<open>DurationMs\<close> of \<open>net/dcsctp/public/types.h\<close>).
\<close>

type_synonym TimeDelta = int
type_synonym Timestamp = int
type_synonym DurationMs = int

definition PlusInfinity :: int where
  "PlusInfinity = 9223372036854775807"

definition MinusInfinity :: int where
  "MinusInfinity = - 9223372036854775808"

definition IsInfinite :: "int \<Rightarrow> bool" where
  "IsInfinite v \<longleftrightarrow> v = PlusInfinity \<or> v = MinusInfinity"

text \<open>Sums and differences, of durations and of a time and a duration alike.\<close>

definition unit_plus :: "int \<Rightarrow> int \<Rightarrow> int" where
  "unit_plus a b =
     (if a = PlusInfinity \<or> b = PlusInfinity then PlusInfinity
      else if a = MinusInfinity \<or> b = MinusInfinity then MinusInfinity
      else a + b)"

definition unit_minus :: "int \<Rightarrow> int \<Rightarrow> int" where
  "unit_minus a b =
     (if a = PlusInfinity \<or> b = MinusInfinity then PlusInfinity
      else if a = MinusInfinity \<or> b = PlusInfinity then MinusInfinity
      else a - b)"

definition TimeDelta_Abs :: "TimeDelta \<Rightarrow> TimeDelta" where
  "TimeDelta_Abs v = (if v < 0 then - v else v)"

definition Seconds :: "int \<Rightarrow> int" where
  "Seconds v = v * 1000000"

definition Millis :: "int \<Rightarrow> int" where
  "Millis v = v * 1000"

text \<open>The division and the remainder of C++ round towards zero.\<close>

definition DivideRoundToNearest :: "int \<Rightarrow> int \<Rightarrow> int" where
  "DivideRoundToNearest dividend divisor =
     (if dividend < 0 then
        let half_of_divisor = divisor div 2;
            quotient = - ((- dividend) div divisor);
            remainder = - ((- dividend) mod divisor)
        in if - remainder > half_of_divisor then quotient - 1 else quotient
      else
        let half_of_divisor = (divisor - 1) div 2;
            quotient = dividend div divisor;
            remainder = dividend mod divisor
        in if remainder > half_of_divisor then quotient + 1 else quotient)"

text \<open>Narrowing to \<open>int32_t\<close>.\<close>

definition int32_cast :: "int \<Rightarrow> int" where
  "int32_cast v = sint (word_of_int v :: u32)"

definition InfiniteDuration :: DurationMs where
  "InfiniteDuration = 2147483647"

definition DurationMs_of :: "TimeDelta \<Rightarrow> DurationMs" where
  "DurationMs_of v =
     (if IsInfinite v then InfiniteDuration else int32_cast (DivideRoundToNearest v 1000))"

definition ToTimeDelta :: "DurationMs \<Rightarrow> TimeDelta" where
  "ToTimeDelta d = (if d = InfiniteDuration then PlusInfinity else Millis d)"

section \<open>Facts\<close>

lemma int32_cast_id:
  assumes "- 2147483648 \<le> v" and "v < 2147483648"
  shows "int32_cast v = v"
proof -
  have "signed_take_bit 31 v = v"
    using assms by (intro signed_take_bit_int_eq_self) simp_all
  then show ?thesis by (simp add: int32_cast_def signed_of_int)
qed

lemma DivideRoundToNearest_bounds:
  assumes "0 < d"
  shows "2 * \<bar>d * DivideRoundToNearest v d - v\<bar> \<le> d"
proof -
  define q where "q = \<bar>v\<bar> div d"
  define r where "r = \<bar>v\<bar> mod d"
  have qr: "d * q + r = \<bar>v\<bar>" "0 \<le> r" "r < d"
    using assms by (simp_all add: q_def r_def)
  show ?thesis
  proof (cases "v < 0")
    case True
    then have "DivideRoundToNearest v d = (if r > d div 2 then - q - 1 else - q)"
      by (simp add: DivideRoundToNearest_def Let_def q_def r_def)
    with True qr show ?thesis by (simp add: right_diff_distrib) linarith
  next
    case False
    then have "DivideRoundToNearest v d = (if r > (d - 1) div 2 then q + 1 else q)"
      by (simp add: DivideRoundToNearest_def Let_def q_def r_def)
    with False qr show ?thesis by (simp add: distrib_left) linarith
  qed
qed

lemma DivideRoundToNearest_mult [simp]: "0 < d \<Longrightarrow> DivideRoundToNearest (v * d) d = v"
  by (simp add: DivideRoundToNearest_def Let_def flip: mult_minus_left)

text \<open>Milliseconds survive the conversion to microseconds and back.\<close>

lemma DurationMs_round_trip:
  assumes "- 2147483648 \<le> d" and "d \<le> InfiniteDuration"
  shows "DurationMs_of (ToTimeDelta d) = d"
proof (cases "d = InfiniteDuration")
  case True
  then show ?thesis by (simp add: DurationMs_of_def ToTimeDelta_def IsInfinite_def)
next
  case False
  then have "\<not> IsInfinite (Millis d)"
    using assms by (auto simp: IsInfinite_def Millis_def PlusInfinity_def MinusInfinity_def InfiniteDuration_def)
  with False assms show ?thesis
    by (simp add: DurationMs_of_def ToTimeDelta_def Millis_def int32_cast_id InfiniteDuration_def)
qed

end
