(* ===== verification/Handover_State.thy ===== *)
theory Handover_State
  imports Prelude
begin

text \<open>
  The snapshot by which a socket is moved to another process, and the reasons a socket may have for
  not being ready for it: \<open>net/dcsctp/public/dcsctp_handover_state.h\<close>.
\<close>

datatype HandoverSocketState = HS_Closed | HS_Connected

record HandoverCapabilities =
  hc_partial_reliability :: bool
  hc_message_interleaving :: bool
  hc_reconfig :: bool
  hc_zero_checksum :: bool
  hc_negotiated_maximum_incoming_streams :: u16
  hc_negotiated_maximum_outgoing_streams :: u16

record HandoverOutgoingStream =
  hos_id :: u32
  hos_next_ssn :: u32
  hos_next_unordered_mid :: u32
  hos_next_ordered_mid :: u32
  hos_priority :: u16

record HandoverTransmission =
  ht_next_tsn :: u32
  ht_next_reset_req_sn :: u32
  ht_cwnd :: u32
  ht_rwnd :: u32
  ht_ssthresh :: u32
  ht_partial_bytes_acked :: u32
  ht_streams :: "HandoverOutgoingStream list"

record HandoverOrderedStream =
  hors_id :: u32
  hors_next_ssn :: u32

record HandoverUnorderedStream =
  hus_id :: u32

record HandoverReceive =
  hr_seen_packet :: bool
  hr_last_cumulative_acked_tsn :: u32
  hr_last_assembled_tsn :: u32
  hr_last_completed_deferred_reset_req_sn :: u32
  hr_last_completed_reset_req_sn :: u32
  hr_ordered_streams :: "HandoverOrderedStream list"
  hr_unordered_streams :: "HandoverUnorderedStream list"

record DcSctpSocketHandoverState =
  hs_socket_state :: HandoverSocketState
  hs_my_verification_tag :: u32
  hs_my_initial_tsn :: u32
  hs_peer_verification_tag :: u32
  hs_peer_initial_tsn :: u32
  hs_tie_tag :: u64
  hs_capabilities :: HandoverCapabilities
  hs_tx :: HandoverTransmission
  hs_rx :: HandoverReceive

definition DcSctpSocketHandoverState_default :: DcSctpSocketHandoverState where
  "DcSctpSocketHandoverState_default =
     \<lparr>hs_socket_state = HS_Closed, hs_my_verification_tag = 0, hs_my_initial_tsn = 0,
      hs_peer_verification_tag = 0, hs_peer_initial_tsn = 0, hs_tie_tag = 0,
      hs_capabilities =
        \<lparr>hc_partial_reliability = False, hc_message_interleaving = False, hc_reconfig = False,
         hc_zero_checksum = False, hc_negotiated_maximum_incoming_streams = 0,
         hc_negotiated_maximum_outgoing_streams = 0\<rparr>,
      hs_tx =
        \<lparr>ht_next_tsn = 0, ht_next_reset_req_sn = 0, ht_cwnd = 0, ht_rwnd = 0, ht_ssthresh = 0,
         ht_partial_bytes_acked = 0, ht_streams = []\<rparr>,
      hs_rx =
        \<lparr>hr_seen_packet = False, hr_last_cumulative_acked_tsn = 0, hr_last_assembled_tsn = 0,
         hr_last_completed_deferred_reset_req_sn = 0, hr_last_completed_reset_req_sn = 0,
         hr_ordered_streams = [], hr_unordered_streams = []\<rparr>\<rparr>"

datatype HandoverUnreadinessReason =
    kWrongConnectionState
  | kSendQueueNotEmpty
  | kPendingStreamResetRequest
  | kDataTrackerTsnBlocksPending
  | kPendingStreamReset
  | kReassemblyQueueDeliveredTSNsGap
  | kStreamResetDeferred
  | kOrderedStreamHasUnassembledChunks
  | kUnorderedStreamHasUnassembledChunks
  | kRetransmissionQueueOutstandingData
  | kRetransmissionQueueFastRecovery
  | kRetransmissionQueueNotEmpty

fun reason_value :: "HandoverUnreadinessReason \<Rightarrow> u32" where
  "reason_value kWrongConnectionState = 1"
| "reason_value kSendQueueNotEmpty = 2"
| "reason_value kPendingStreamResetRequest = 4"
| "reason_value kDataTrackerTsnBlocksPending = 8"
| "reason_value kPendingStreamReset = 16"
| "reason_value kReassemblyQueueDeliveredTSNsGap = 32"
| "reason_value kStreamResetDeferred = 64"
| "reason_value kOrderedStreamHasUnassembledChunks = 128"
| "reason_value kUnorderedStreamHasUnassembledChunks = 256"
| "reason_value kRetransmissionQueueOutstandingData = 512"
| "reason_value kRetransmissionQueueFastRecovery = 1024"
| "reason_value kRetransmissionQueueNotEmpty = 2048"

type_synonym HandoverReadinessStatus = u32

definition HandoverReadinessStatus_none :: HandoverReadinessStatus where
  "HandoverReadinessStatus_none = 0"

definition HandoverReadinessStatus_IsReady :: "HandoverReadinessStatus \<Rightarrow> bool" where
  "HandoverReadinessStatus_IsReady status \<longleftrightarrow> status = 0"

definition HandoverReadinessStatus_Contains ::
  "HandoverUnreadinessReason \<Rightarrow> HandoverReadinessStatus \<Rightarrow> bool" where
  "HandoverReadinessStatus_Contains reason status \<longleftrightarrow> status AND reason_value reason \<noteq> 0"

definition HandoverReadinessStatus_Add ::
  "HandoverUnreadinessReason \<Rightarrow> HandoverReadinessStatus \<Rightarrow> HandoverReadinessStatus" where
  "HandoverReadinessStatus_Add reason status = status OR reason_value reason"

text \<open>The other overload of \<open>Add\<close> merges the reasons of a component.\<close>

definition HandoverReadinessStatus_Merge ::
  "HandoverReadinessStatus \<Rightarrow> HandoverReadinessStatus \<Rightarrow> HandoverReadinessStatus" where
  "HandoverReadinessStatus_Merge other status = status OR other"

lemma Add_not_ready [simp]: "\<not> HandoverReadinessStatus_IsReady (HandoverReadinessStatus_Add reason status)"
proof -
  have "status OR reason_value reason = 0 \<longrightarrow> reason_value reason = 0"
    by (metis or.right_neutral or_eq_0_iff)
  moreover have "reason_value reason \<noteq> 0" by (cases reason) simp_all
  ultimately show ?thesis
    by (auto simp: HandoverReadinessStatus_IsReady_def HandoverReadinessStatus_Add_def)
qed

lemma Merge_ready [simp]:
  "HandoverReadinessStatus_IsReady (HandoverReadinessStatus_Merge other status) \<longleftrightarrow>
   HandoverReadinessStatus_IsReady other \<and> HandoverReadinessStatus_IsReady status"
  by (auto simp: HandoverReadinessStatus_IsReady_def HandoverReadinessStatus_Merge_def or_eq_0_iff)

lemma none_ready [simp]: "HandoverReadinessStatus_IsReady HandoverReadinessStatus_none"
  by (simp add: HandoverReadinessStatus_IsReady_def HandoverReadinessStatus_none_def)

end
