(* ===== verification/Ordered_Map.thy ===== *)
theory Ordered_Map
  imports Prelude "HOL-Library.Product_Lexorder"
begin

text \<open>
  \<open>std::map\<close> and \<open>webrtc::flat_map\<close>: a list of pairs in the order of their keys, so that iterating,
  taking the first or last element and erasing up to a bound are what they are in the sources. The
  contract of a map is a locale; its consequences are proved there and used through the
  interpretation on the list representation.
\<close>

type_synonym ('k, 'v) omap = "('k \<times> 'v) list"

fun om_insert :: "'k::linorder \<Rightarrow> 'v \<Rightarrow> ('k, 'v) omap \<Rightarrow> ('k, 'v) omap" where
  "om_insert k v [] = [(k, v)]"
| "om_insert k v ((l, w) # m) =
     (if k < l then (k, v) # (l, w) # m
      else if k = l then (k, v) # m
      else (l, w) # om_insert k v m)"

definition om_erase :: "'k \<Rightarrow> ('k, 'v) omap \<Rightarrow> ('k, 'v) omap" where
  "om_erase k m = filter (\<lambda>p. fst p \<noteq> k) m"

definition om_find :: "('k, 'v) omap \<Rightarrow> 'k \<Rightarrow> 'v option" where
  "om_find m = map_of m"

text \<open>\<open>m[k]\<close> of \<open>std::map\<close> creates an entry when there is none.\<close>

definition om_at :: "'v \<Rightarrow> 'k \<Rightarrow> ('k, 'v) omap \<Rightarrow> 'v" where
  "om_at fallback k m = (case om_find m k of Some v \<Rightarrow> v | None \<Rightarrow> fallback)"

text \<open>\<open>emplace\<close> keeps an entry that is there; the flag tells whether it inserted.\<close>

definition om_emplace :: "'k::linorder \<Rightarrow> 'v \<Rightarrow> ('k, 'v) omap \<Rightarrow> ('k, 'v) omap \<times> bool" where
  "om_emplace k v m = (if om_find m k = None then (om_insert k v m, True) else (m, False))"

text \<open>The positions that \<open>lower_bound\<close> and \<open>upper_bound\<close> point at.\<close>

definition om_lower_bound :: "'k::linorder \<Rightarrow> ('k, 'v) omap \<Rightarrow> nat" where
  "om_lower_bound k m = length (takeWhile (\<lambda>p. fst p < k) m)"

definition om_upper_bound :: "'k::linorder \<Rightarrow> ('k, 'v) omap \<Rightarrow> nat" where
  "om_upper_bound k m = length (takeWhile (\<lambda>p. fst p \<le> k) m)"

definition om_ok :: "('k::linorder, 'v) omap \<Rightarrow> bool" where
  "om_ok m \<longleftrightarrow> sorted_wrt (<) (map fst m)"

locale map_contract =
  fixes insert_at :: "'k \<Rightarrow> 'v \<Rightarrow> 'm \<Rightarrow> 'm" and erase_at :: "'k \<Rightarrow> 'm \<Rightarrow> 'm"
    and find_at :: "'m \<Rightarrow> 'k \<Rightarrow> 'v option" and ok :: "'m \<Rightarrow> bool"
  assumes insert_ok: "ok m \<Longrightarrow> ok (insert_at k v m)"
    and erase_ok: "ok m \<Longrightarrow> ok (erase_at k m)"
    and find_insert: "ok m \<Longrightarrow> find_at (insert_at k v m) = (find_at m)(k \<mapsto> v)"
    and find_erase: "ok m \<Longrightarrow> find_at (erase_at k m) = (find_at m)(k := None)"
begin

lemma insert_other: "ok m \<Longrightarrow> k \<noteq> l \<Longrightarrow> find_at (insert_at k v m) l = find_at m l"
  by (simp add: find_insert)

lemma insert_same: "ok m \<Longrightarrow> find_at (insert_at k v m) k = Some v"
  by (simp add: find_insert)

lemma erase_insert: "ok m \<Longrightarrow> find_at m k = None \<Longrightarrow> find_at (erase_at k (insert_at k v m)) = find_at m"
  by (simp add: find_erase insert_ok find_insert fun_eq_iff)

lemma dom_insert: "ok m \<Longrightarrow> dom (find_at (insert_at k v m)) = insert k (dom (find_at m))"
  by (simp add: find_insert)

lemma dom_erase: "ok m \<Longrightarrow> dom (find_at (erase_at k m)) = dom (find_at m) - {k}"
  by (simp add: find_erase)

end

lemma om_insert_keys: "set (map fst (om_insert k v m)) = insert k (set (map fst m))"
  by (induction k v m rule: om_insert.induct) auto

lemma om_ok_Nil [simp]: "om_ok []"
  by (simp add: om_ok_def)

lemma om_ok_Cons [simp]: "om_ok ((k, v) # m) \<longleftrightarrow> (\<forall>l\<in>set (map fst m). k < l) \<and> om_ok m"
  by (simp add: om_ok_def)

lemma om_insert_ok: "om_ok m \<Longrightarrow> om_ok (om_insert k v m)"
proof (induction k v m rule: om_insert.induct)
  case (2 k v l w m)
  have "l < x" if "l < k" "x \<in> set (map fst (om_insert k v m))" for x
    using that(1) 2(2) that(2) [unfolded om_insert_keys] by auto
  with 2 show ?case by (auto simp del: set_map)
qed simp

lemma om_erase_ok: "om_ok m \<Longrightarrow> om_ok (om_erase k m)"
  by (induction m) (auto simp: om_erase_def)

lemma om_find_insert: "om_ok m \<Longrightarrow> om_find (om_insert k v m) = (om_find m)(k \<mapsto> v)"
proof (induction k v m rule: om_insert.induct)
  case (2 k v l w m)
  then show ?case by (auto simp: om_find_def fun_eq_iff)
qed (simp add: om_find_def)

lemma om_find_erase: "om_find (om_erase k m) = (om_find m)(k := None)"
  by (induction m) (auto simp: om_find_def om_erase_def fun_eq_iff)

interpretation om: map_contract om_insert om_erase om_find om_ok
  by unfold_locales (simp_all add: om_insert_ok om_erase_ok om_find_insert om_find_erase)

lemma om_find_Some: "om_find m k = Some v \<Longrightarrow> (k, v) \<in> set m"
  by (simp add: om_find_def map_of_SomeD)

lemma om_in_find: "om_ok m \<Longrightarrow> (k, v) \<in> set m \<Longrightarrow> om_find m k = Some v"
proof -
  assume "om_ok m" and "(k, v) \<in> set m"
  then have "distinct (map fst m)"
    unfolding om_ok_def by (simp add: strict_sorted_iff)
  with \<open>(k, v) \<in> set m\<close> show ?thesis by (simp add: om_find_def)
qed

lemma om_find_None: "om_find m k = None \<longleftrightarrow> k \<notin> fst ` set m"
  by (simp add: om_find_def map_of_eq_None_iff)

lemma om_ok_distinct: "om_ok m \<Longrightarrow> distinct (map fst m)"
  unfolding om_ok_def by (simp add: strict_sorted_iff)

lemma om_ok_hd_least: "om_ok m \<Longrightarrow> k \<in> fst ` set m \<Longrightarrow> fst (hd m) \<le> k"
  by (cases m) (fastforce simp: less_imp_le)+

lemma om_ext:
  assumes "om_ok m" and "om_ok n" and "om_find m = om_find n"
  shows "m = n"
proof -
  have sub: "set a \<subseteq> set b" if "om_ok a" "om_find a = om_find b" for a b :: "('a, 'b) omap"
    using om_in_find [OF that(1)] om_find_Some that(2) by (metis subrelI)
  from sub [OF assms(1,3)] sub [OF assms(2) assms(3) [symmetric]] have eq: "set m = set n" by blast
  have keys: "map fst m = map fst n"
    using assms(1,2) eq unfolding om_ok_def strict_sorted_iff
    by (intro sorted_distinct_set_unique) simp_all
  have build: "a = map (\<lambda>k. (k, the (om_find a k))) (map fst a)" if "om_ok a" for a :: "('a, 'b) omap"
  proof (rule nth_equalityI)
    fix i assume "i < length a"
    then have "om_find a (fst (a ! i)) = Some (snd (a ! i))"
      using om_in_find [OF that, of "fst (a ! i)" "snd (a ! i)"] by simp
    with \<open>i < length a\<close> show "a ! i = map (\<lambda>k. (k, the (om_find a k))) (map fst a) ! i"
      by (simp add: prod_eq_iff)
  qed simp
  show ?thesis using build [OF assms(1)] build [OF assms(2)] keys assms(3) by metis
qed

lemma om_ok_append: "om_ok (m @ n) \<longleftrightarrow> om_ok m \<and> om_ok n \<and> (\<forall>p\<in>set m. \<forall>q\<in>set n. fst p < fst q)"
  by (auto simp: om_ok_def sorted_wrt_append)

lemma om_ok_take_drop: "om_ok m \<Longrightarrow> i \<le> j \<Longrightarrow> om_ok (take i m @ drop j m)"
proof -
  assume ok: "om_ok m" and "i \<le> j"
  then have "m = take i m @ take (j - i) (drop i m) @ drop j m"
    by (metis append.assoc append_take_drop_id take_add le_add_diff_inverse)
  with ok show ?thesis by (metis om_ok_append Un_iff set_append)
qed

lemma om_insert_perm: "om_find m k = None \<Longrightarrow> mset (om_insert k v m) = add_mset (k, v) (mset m)"
  by (induction k v m rule: om_insert.induct) (auto simp: om_find_def split: if_splits)

lemma om_insert_mset_set: "set (om_insert k v m) \<subseteq> insert (k, v) (set m)"
  by (induction k v m rule: om_insert.induct) auto

section \<open>Sums and predicates over the values\<close>

definition om_weight :: "('v \<Rightarrow> nat) \<Rightarrow> ('k, 'v) omap \<Rightarrow> nat" where
  "om_weight f m = sum_list (map (\<lambda>p. f (snd p)) m)"

lemma om_weight_simps [simp]:
  "om_weight f [] = 0"
  "om_weight f (p # m) = f (snd p) + om_weight f m"
  "om_weight f (m @ n) = om_weight f m + om_weight f n"
  by (simp_all add: om_weight_def)

lemma om_weight_split: "om_weight f (take n m) + om_weight f (drop n m) = om_weight f m"
  by (metis append_take_drop_id om_weight_simps(3))

lemma om_weight_cut:
  "i \<le> j \<Longrightarrow> om_weight f (take i m @ drop j m) + om_weight f (drop i (take j m)) = om_weight f m"
proof -
  assume "i \<le> j"
  have "om_weight f (take i m) + om_weight f (drop i (take j m)) = om_weight f (take j m)"
    using om_weight_split [of f i "take j m"] \<open>i \<le> j\<close> by (simp add: min_absorb1)
  with om_weight_split [of f j m] show ?thesis by simp
qed

lemma om_weight_insert:
  assumes "om_ok m" and "f fallback = 0"
  shows "om_weight f (om_insert k v m) + f (om_at fallback k m) = om_weight f m + f v"
  using assms(1)
proof (induction k v m rule: om_insert.induct)
  case (2 k v l w m)
  have "om_find ((l, w) # m) k = None" if "k < l"
    using that 2(2) unfolding om_find_None by fastforce
  with 2 show ?case by (auto simp: om_at_def om_find_def assms(2) split: option.splits)
qed (simp add: om_at_def om_find_def assms(2))

lemma om_weight_at_le: "f fallback = 0 \<Longrightarrow> f (om_at fallback k m) \<le> om_weight f m"
  by (induction m) (auto simp: om_at_def om_find_def split: option.splits)

definition om_all :: "('v \<Rightarrow> bool) \<Rightarrow> ('k, 'v) omap \<Rightarrow> bool" where
  "om_all P m \<longleftrightarrow> (\<forall>p\<in>set m. P (snd p))"

lemma om_all_simps [simp]:
  "om_all P []" "om_all P (p # m) \<longleftrightarrow> P (snd p) \<and> om_all P m"
  "om_all P (m @ n) \<longleftrightarrow> om_all P m \<and> om_all P n"
  by (auto simp: om_all_def)

lemma om_all_insert: "om_all P m \<Longrightarrow> P v \<Longrightarrow> om_all P (om_insert k v m)"
  using om_insert_mset_set [of k v m] unfolding om_all_def by auto

lemma om_all_at: "om_all P m \<Longrightarrow> P fallback \<Longrightarrow> P (om_at fallback k m)"
  by (fastforce simp: om_all_def om_at_def dest: om_find_Some split: option.splits)

lemma om_all_sub: "om_all P m \<Longrightarrow> set n \<subseteq> set m \<Longrightarrow> om_all P n"
  by (auto simp: om_all_def)

lemma om_all_take_drop: "om_all P m \<Longrightarrow> om_all P (take n m)" "om_all P m \<Longrightarrow> om_all P (drop n m)"
  by (auto simp: om_all_def dest: in_set_takeD in_set_dropD)

lemma om_ok_drop: "om_ok m \<Longrightarrow> om_ok (drop n m)"
  using om_ok_take_drop [of m 0 n] by simp

lemma om_ok_tl: "om_ok m \<Longrightarrow> om_ok (tl m)"
  by (cases m) auto

lemma om_emplace_weight:
  assumes "om_ok m" and "om_emplace k v m = (m', inserted)"
  shows "om_ok m' \<and> m' \<noteq> [] \<and> om_weight f m' = om_weight f m + (if inserted then f v else 0)"
proof (cases "om_find m k = None")
  case True
  then have m': "m' = om_insert k v m" "inserted" using assms(2) by (auto simp: om_emplace_def)
  have "mset m' = add_mset (k, v) (mset m)" using om_insert_perm [OF True] m'(1) by simp
  then have "om_weight f m' = om_weight f m + f v"
    unfolding om_weight_def
    by (metis (no_types, lifting) add.commute image_mset_add_mset mset_map snd_conv sum_mset.add_mset sum_mset_sum_list)
  moreover have "m' \<noteq> []" using \<open>mset m' = add_mset (k, v) (mset m)\<close> by auto
  ultimately show ?thesis using m' om_insert_ok [OF assms(1)] by simp
next
  case False
  then have "m \<noteq> []" by (auto simp: om_find_def)
  with False assms show ?thesis by (auto simp: om_emplace_def)
qed

lemma om_weight_erase:
  assumes "om_ok m" and "om_find m k = Some v"
  shows "om_weight f (om_erase k m) + f v = om_weight f m"
  using assms
proof (induction m)
  case (Cons p m)
  obtain l w where p: "p = (l, w)" by fastforce
  show ?case
  proof (cases "l = k")
    case True
    then have "om_erase k m = m" using Cons.prems(1) p by (auto simp: om_erase_def filter_id_conv)
    with True Cons.prems(2) p show ?thesis by (simp add: om_erase_def om_find_def)
  next
    case False
    with Cons p show ?thesis by (simp add: om_erase_def om_find_def)
  qed
qed (simp add: om_find_def)

section \<open>Parts of a map\<close>

text \<open>The entries at the positions of a set; this is how received fragments relate to a message.\<close>

lemma om_ok_nths: "om_ok xs \<Longrightarrow> om_ok (nths xs I)"
proof (induction xs arbitrary: I)
  case (Cons p xs)
  then show ?case by (cases p) (auto simp: nths_Cons dest!: in_set_nthsD)
qed simp

lemma set_nths_mem: "p \<in> set (nths xs I) \<longleftrightarrow> (\<exists>i<length xs. i \<in> I \<and> xs ! i = p)"
  by (auto simp: set_nths)

lemma om_nths_find_None:
  assumes "om_ok xs" and "i < length xs" and "i \<notin> I"
  shows "om_find (nths xs I) (fst (xs ! i)) = None"
proof -
  have "j = i" if "j < length xs" "fst (xs ! j) = fst (xs ! i)" for j
    using om_ok_distinct [OF assms(1)] that assms(2) by (simp add: distinct_conv_nth) metis
  with assms(3) show ?thesis unfolding om_find_None by (auto simp: set_nths)
qed

lemma om_insert_nths:
  assumes "om_ok xs" and "i < length xs" and "i \<notin> I"
  shows "om_insert (fst (xs ! i)) (snd (xs ! i)) (nths xs I) = nths xs (insert i I)"
proof (rule om_ext)
  show "om_ok (om_insert (fst (xs ! i)) (snd (xs ! i)) (nths xs I))"
    by (intro om_insert_ok om_ok_nths assms(1))
  show "om_ok (nths xs (insert i I))" by (rule om_ok_nths [OF assms(1)])
  have no_key: "(fst (xs ! i), v) \<notin> set (nths xs I)" for v
    using om_nths_find_None [OF assms] unfolding om_find_None by (metis fst_conv image_eqI)
  have "(k, v) \<in> set (nths xs (insert i I)) \<longleftrightarrow> (k, v) = xs ! i \<or> (k, v) \<in> set (nths xs I)" for k v
    using assms(2) by (auto simp: set_nths)
  moreover have "om_find (nths xs (insert i I)) k = Some v \<longleftrightarrow> (k, v) \<in> set (nths xs (insert i I))" for k v
    using om_in_find om_find_Some om_ok_nths [OF assms(1)] by metis
  moreover have "om_find (nths xs I) k = Some v \<longleftrightarrow> (k, v) \<in> set (nths xs I)" for k v
    using om_in_find om_find_Some om_ok_nths [OF assms(1)] by metis
  ultimately have "om_find (nths xs (insert i I)) k = Some v \<longleftrightarrow>
      ((om_find (nths xs I))(fst (xs ! i) \<mapsto> snd (xs ! i))) k = Some v" for k v
    using no_key by (cases "xs ! i") auto
  then have "om_find (nths xs (insert i I)) = (om_find (nths xs I))(fst (xs ! i) \<mapsto> snd (xs ! i))"
    by (intro ext) (metis not_None_eq)
  then show "om_find (om_insert (fst (xs ! i)) (snd (xs ! i)) (nths xs I)) = om_find (nths xs (insert i I))"
    by (simp add: om_find_insert om_ok_nths [OF assms(1)])
qed

lemma om_emplace_nths:
  assumes "om_ok xs" and "i < length xs" and "i \<notin> I"
  shows "om_emplace (fst (xs ! i)) (snd (xs ! i)) (nths xs I) = (nths xs (insert i I), True)"
  by (simp add: om_emplace_def om_nths_find_None [OF assms] om_insert_nths [OF assms])

lemma nths_full_iff: "nths xs I = xs \<longleftrightarrow> (\<forall>i<length xs. i \<in> I)"
proof
  assume "nths xs I = xs"
  then have "card {i. i < length xs \<and> i \<in> I} = card {i. i < length xs}"
    using length_nths [of xs I] by simp
  moreover have "{i. i < length xs \<and> i \<in> I} \<subseteq> {i. i < length xs}" by auto
  ultimately have "{i. i < length xs \<and> i \<in> I} = {i. i < length xs}"
    by (intro card_subset_eq) simp_all
  then show "\<forall>i<length xs. i \<in> I" by auto
qed (simp add: nths_all)

lemma nths_full_length: "length (nths xs I) = length xs \<Longrightarrow> nths xs I = xs"
proof -
  assume "length (nths xs I) = length xs"
  then have "card {i. i < length xs \<and> i \<in> I} = card {i. i < length xs}" by (simp add: length_nths)
  moreover have "{i. i < length xs \<and> i \<in> I} \<subseteq> {i. i < length xs}" by auto
  ultimately have "{i. i < length xs \<and> i \<in> I} = {i. i < length xs}"
    by (intro card_subset_eq) simp_all
  then show ?thesis by (intro iffD2 [OF nths_full_iff]) auto
qed

end
