(* ===== verification/Reassembly_Streams.thy ===== *)
theory Reassembly_Streams
  imports Data_Chunks Sequence_Numbers Time_Units Handover_State Ordered_Map
begin

text \<open>
  What the two implementations of the interface \<open>ReassemblyStreams\<close> share
  (\<open>net/dcsctp/rx/reassembly_streams.h\<close>, \<open>public/dcsctp_message.h\<close>): messages, the integer
  conversions of their byte counts, and the contract of the interface as a locale. The callback
  \<open>OnAssembledMessage\<close> is modelled by the list of its calls: every operation returns, besides its
  result, the messages that it hands over, in order and with their TSNs.
\<close>

section \<open>Messages\<close>

record DcSctpMessage =
  msg_stream_id :: u16
  msg_ppid :: u32
  msg_payload :: bytes

type_synonym Assembled = "UnwrappedTSN list \<times> DcSctpMessage"

definition delivered_bytes :: "Assembled list \<Rightarrow> nat" where
  "delivered_bytes ms = sum_list (map (\<lambda>m. length (msg_payload (snd m))) ms)"

lemma delivered_bytes_simps [simp]:
  "delivered_bytes [] = 0"
  "delivered_bytes (m # ms) = length (msg_payload (snd m)) + delivered_bytes ms"
  "delivered_bytes (ms @ ns) = delivered_bytes ms + delivered_bytes ns"
  by (simp_all add: delivered_bytes_def)

section \<open>Byte counts\<close>

text \<open>
  Byte counts are of type \<open>size_t\<close>, but \<open>std::accumulate\<close> is called with the initial value \<open>0\<close> and
  therefore sums in \<open>int\<close>; the sum is converted back to \<open>size_t\<close>.
\<close>

definition size_cast :: "int \<Rightarrow> nat" where
  "size_cast v = nat (v mod 2 ^ 64)"

definition accumulate :: "nat list \<Rightarrow> nat" where
  "accumulate sizes = size_cast (fold (\<lambda>s v. int32_cast (v + int s)) sizes 0)"

definition kMaxInt :: nat where
  "kMaxInt = 2147483647"

lemma int32_cast_small: "n \<le> kMaxInt \<Longrightarrow> int32_cast (int n) = int n"
  by (intro int32_cast_id) (simp_all add: kMaxInt_def)

lemma int32_cast_diff: "m \<le> kMaxInt \<Longrightarrow> n \<le> kMaxInt \<Longrightarrow> int32_cast (int m - int n) = int m - int n"
  by (intro int32_cast_id) (simp_all add: kMaxInt_def)

lemma fold_int32_cast:
  "n + sum_list sizes \<le> kMaxInt \<Longrightarrow>
   fold (\<lambda>s v. int32_cast (v + int s)) sizes (int n) = int (n + sum_list sizes)"
proof (induction sizes arbitrary: n)
  case (Cons s sizes)
  then have "int32_cast (int n + int s) = int (n + s)"
    using int32_cast_small [of "n + s"] by simp
  with Cons.IH [of "n + s"] Cons.prems show ?case by (simp add: add.assoc)
qed simp

lemma accumulate_eq: "sum_list sizes \<le> kMaxInt \<Longrightarrow> accumulate sizes = sum_list sizes"
  using fold_int32_cast [of 0 sizes] by (simp add: accumulate_def size_cast_def kMaxInt_def)

section \<open>The interface\<close>

text \<open>
  The bookkeeping law of the interface: \<open>Add\<close> returns by how much the bytes that are held grow,
  \<open>HandleForwardTsn\<close> by how much they shrink, and a reset does not touch them. The law holds while
  the byte counts fit into \<open>int\<close>.
\<close>

locale reassembly_streams =
  fixes add_chunk :: "UnwrappedTSN \<Rightarrow> Data \<Rightarrow> 's \<Rightarrow> int \<times> Assembled list \<times> 's"
    and forward_tsn :: "UnwrappedTSN \<Rightarrow> SkippedStream list \<Rightarrow> 's \<Rightarrow> nat \<times> Assembled list \<times> 's"
    and reset_streams :: "u16 list \<Rightarrow> 's \<Rightarrow> 's"
    and held :: "'s \<Rightarrow> nat" and ok :: "'s \<Rightarrow> bool"
  assumes add_held:
      "\<lbrakk>ok s; held s + Data_size data \<le> kMaxInt; add_chunk tsn data s = (r, ms, s')\<rbrakk> \<Longrightarrow>
       ok s' \<and> int (held s') = int (held s) + r \<and> held s' + delivered_bytes ms \<le> held s + Data_size data"
    and forward_held:
      "\<lbrakk>ok s; held s \<le> kMaxInt; forward_tsn tsn skipped s = (n, ms, s')\<rbrakk> \<Longrightarrow>
       ok s' \<and> held s' + n = held s \<and> held s' + delivered_bytes ms \<le> held s"
    and reset_held: "ok s \<Longrightarrow> ok (reset_streams ids s) \<and> held (reset_streams ids s) = held s"
begin

lemma add_bounded:
  "\<lbrakk>ok s; held s + Data_size data \<le> kMaxInt; add_chunk tsn data s = (r, ms, s')\<rbrakk> \<Longrightarrow>
   held s' \<le> kMaxInt \<and> delivered_bytes ms \<le> kMaxInt"
  using add_held by fastforce

lemma forward_bounded:
  "\<lbrakk>ok s; held s \<le> kMaxInt; forward_tsn tsn skipped s = (n, ms, s')\<rbrakk> \<Longrightarrow> n \<le> held s"
  using forward_held by (metis le_add2)

end

section \<open>Receiving messages in order\<close>

text \<open>
  The specification of an ordered stream. A sender splits message number \<open>j\<close> into the fragments
  \<open>sent j\<close>; each arrival is a pair of a message number and the position of a fragment in it. The
  state of a receiver is determined by the set of arrivals and the number \<open>k\<close> of messages that it
  has handed over: \<open>k\<close> is the first message that is not complete.
\<close>

type_synonym Fragment = "UnwrappedTSN \<times> Data"

definition complete :: "(nat \<Rightarrow> Fragment list) \<Rightarrow> (nat \<times> nat) set \<Rightarrow> nat \<Rightarrow> bool" where
  "complete sent arrived j \<longleftrightarrow> (\<forall>i<length (sent j). (j, i) \<in> arrived)"

definition message_of :: "Fragment list \<Rightarrow> Assembled" where
  "message_of fragments =
     (map fst fragments,
      \<lparr>msg_stream_id = data_stream_id (snd (hd fragments)), msg_ppid = data_ppid (snd (hd fragments)),
       msg_payload = concat (map (data_payload \<circ> snd) fragments)\<rparr>)"

fun add_all ::
  "(UnwrappedTSN \<Rightarrow> Data \<Rightarrow> 's \<Rightarrow> int \<times> Assembled list \<times> 's) \<Rightarrow> Fragment list \<Rightarrow> 's \<Rightarrow> Assembled list \<times> 's" where
  "add_all add_chunk [] s = ([], s)"
| "add_all add_chunk ((tsn, data) # fragments) s =
     (let (r, messages, s) = add_chunk tsn data s;
          (more_messages, s) = add_all add_chunk fragments s
      in (messages @ more_messages, s))"

definition in_flight :: "(nat \<Rightarrow> Fragment list) \<Rightarrow> (nat \<times> nat) list \<Rightarrow> bool" where
  "in_flight sent arrivals \<longleftrightarrow> distinct arrivals \<and> (\<forall>a\<in>set arrivals. snd a < length (sent (fst a)))"

locale ordered_receiver =
  fixes add_chunk :: "UnwrappedTSN \<Rightarrow> Data \<Rightarrow> 's \<Rightarrow> int \<times> Assembled list \<times> 's"
    and simulates :: "(nat \<Rightarrow> Fragment list) \<Rightarrow> (nat \<times> nat) set \<Rightarrow> nat \<Rightarrow> 's \<Rightarrow> bool"
    and newest :: "'s \<Rightarrow> int" and reach :: int
  assumes add_simulates:
    "\<lbrakk>simulates sent arrived k s; (j, i) \<notin> arrived; i < length (sent j); \<bar>int j - newest s\<bar> < reach;
      add_chunk (fst (sent j ! i)) (snd (sent j ! i)) s = (r, ms, s')\<rbrakk> \<Longrightarrow>
     \<exists>k'\<ge>k. simulates sent (insert (j, i) arrived) k' s' \<and> newest s' = int j \<and>
       ms = map (message_of \<circ> sent) [k..<k']"
    and simulates_complete:
      "simulates sent arrived k s \<Longrightarrow> (\<forall>j<k. complete sent arrived j) \<and> \<not> complete sent arrived k"
begin

lemma add_all_simulates:
  assumes "simulates sent arrived k s" and "in_flight sent arrivals" and "set arrivals \<inter> arrived = {}"
    and "small_steps reach (newest s) (map (int \<circ> fst) arrivals)"
    and "add_all add_chunk (map (\<lambda>(j, i). sent j ! i) arrivals) s = (ms, s')"
  shows "\<exists>k'\<ge>k. simulates sent (arrived \<union> set arrivals) k' s' \<and> ms = map (message_of \<circ> sent) [k..<k']"
  using assms
proof (induction arrivals arbitrary: arrived k s ms)
  case (Cons a arrivals)
  obtain j i where a: "a = (j, i)" by fastforce
  obtain r ms1 s1 where 1: "add_chunk (fst (sent j ! i)) (snd (sent j ! i)) s = (r, ms1, s1)"
    by (metis prod_cases3)
  obtain ms2 where 2: "add_all add_chunk (map (\<lambda>(j, i). sent j ! i) arrivals) s1 = (ms2, s')" "ms = ms1 @ ms2"
    using Cons.prems(5) 1 a by (cases "sent j ! i") (auto split: prod.splits)
  obtain k1 where k1: "k \<le> k1" "simulates sent (insert (j, i) arrived) k1 s1" "newest s1 = int j"
      "ms1 = map (message_of \<circ> sent) [k..<k1]"
    using add_simulates [OF Cons.prems(1) _ _ _ 1] Cons.prems(2,3,4) a by (auto simp: in_flight_def)
  have "in_flight sent arrivals" "set arrivals \<inter> insert (j, i) arrived = {}"
    "small_steps reach (newest s1) (map (int \<circ> fst) arrivals)"
    using Cons.prems(2,3,4) a k1(3) by (auto simp: in_flight_def comp_def)
  from Cons.IH [OF k1(2) this 2(1)] obtain k2 where k2: "k1 \<le> k2"
      "simulates sent (insert (j, i) arrived \<union> set arrivals) k2 s'" "ms2 = map (message_of \<circ> sent) [k1..<k2]"
    by blast
  have "ms = map (message_of \<circ> sent) [k..<k2]"
    using 2(2) k1(1,4) k2(1,3) by (metis map_append le_Suc_ex upt_add_eq_append)
  with k1(1) k2(1,2) a show ?case by (intro exI [of _ k2]) auto
qed auto

text \<open>
  Whatever the order of arrival, the messages come out in the order in which they were sent, each
  once and with all of its fragments, up to the first message that is not complete.
\<close>

lemma delivers_in_order:
  assumes "simulates sent {} 0 s" and "in_flight sent arrivals"
    and "small_steps reach (newest s) (map (int \<circ> fst) arrivals)"
    and "add_all add_chunk (map (\<lambda>(j, i). sent j ! i) arrivals) s = (ms, s')"
  shows "\<exists>k. ms = map (message_of \<circ> sent) [0..<k] \<and> (\<forall>j<k. complete sent (set arrivals) j) \<and>
             \<not> complete sent (set arrivals) k"
  using add_all_simulates [OF assms(1,2) _ assms(3,4)] simulates_complete by fastforce

end

end
