(* ===== verification/Traditional_Reassembly.thy ===== *)
theory Traditional_Reassembly
  imports Reassembly_Streams
begin

text \<open>
  Reassembly without message interleaving, \<open>net/dcsctp/rx/traditional_reassembly_streams.{h,cc}\<close>:
  unordered streams find a message around each new fragment, ordered streams deliver the messages
  in the order of their stream sequence numbers. Iterators are positions in the ordered map.
\<close>

type_synonym ChunkMap = "(UnwrappedTSN, Data) omap"

section \<open>Finding a message\<close>

fun FindBeginning :: "ChunkMap \<Rightarrow> nat \<Rightarrow> nat option" where
  "FindBeginning chunks 0 = (if data_is_beginning (snd (chunks ! 0)) then Some 0 else None)"
| "FindBeginning chunks (Suc i) =
     (if data_is_beginning (snd (chunks ! Suc i)) then Some (Suc i)
      else if next_value (fst (chunks ! i)) \<noteq> fst (chunks ! Suc i) then None
      else FindBeginning chunks i)"

function FindEnd :: "ChunkMap \<Rightarrow> nat \<Rightarrow> nat option" where
  "FindEnd chunks i =
     (if data_is_end (snd (chunks ! i)) then Some (Suc i)
      else if Suc i \<ge> length chunks then None
      else if fst (chunks ! Suc i) \<noteq> next_value (fst (chunks ! i)) then None
      else FindEnd chunks (Suc i))"
  by pat_completeness auto
termination
  by (relation "measure (\<lambda>(chunks, i). length chunks - i)") auto

declare FindEnd.simps [simp del]

section \<open>Assembling a message\<close>

text \<open>The two overloads of \<open>AssembleMessage\<close>, for one chunk and for a range of chunks.\<close>

definition AssembleMessage_one :: "UnwrappedTSN \<Rightarrow> Data \<Rightarrow> nat \<times> Assembled" where
  "AssembleMessage_one tsn data =
     (Data_size data,
      ([tsn], \<lparr>msg_stream_id = data_stream_id data, msg_ppid = data_ppid data,
               msg_payload = data_payload data\<rparr>))"

definition AssembleMessage :: "ChunkMap \<Rightarrow> nat \<times> Assembled" where
  "AssembleMessage chunks =
     (if length chunks = 1 then AssembleMessage_one (fst (hd chunks)) (snd (hd chunks))
      else
        (accumulate (map (Data_size \<circ> snd) chunks),
         (map fst chunks,
          \<lparr>msg_stream_id = data_stream_id (snd (hd chunks)), msg_ppid = data_ppid (snd (hd chunks)),
           msg_payload = concat (map (data_payload \<circ> snd) chunks)\<rparr>)))"

section \<open>Unordered streams\<close>

definition UnorderedStream_TryToAssembleMessage :: "nat \<Rightarrow> ChunkMap \<Rightarrow> nat \<times> Assembled list \<times> ChunkMap" where
  "UnorderedStream_TryToAssembleMessage iter chunks =
     (case FindBeginning chunks iter of
        None \<Rightarrow> (0, [], chunks)
      | Some start \<Rightarrow>
          (case FindEnd chunks iter of
             None \<Rightarrow> (0, [], chunks)
           | Some end' \<Rightarrow>
               let (bytes_assembled, message) = AssembleMessage (drop start (take end' chunks))
               in (bytes_assembled, [message], take start chunks @ drop end' chunks)))"

definition UnorderedStream_Add :: "UnwrappedTSN \<Rightarrow> Data \<Rightarrow> ChunkMap \<Rightarrow> int \<times> Assembled list \<times> ChunkMap" where
  "UnorderedStream_Add tsn data chunks =
     (if data_is_beginning data \<and> data_is_end data
      then (0, [snd (AssembleMessage_one tsn data)], chunks)
      else
        let queued_bytes = int32_cast (int (Data_size data));
            (chunks, inserted) = om_emplace tsn data chunks
        in if \<not> inserted then (0, [], chunks)
           else
             let (bytes, messages, chunks) =
                   UnorderedStream_TryToAssembleMessage (om_lower_bound tsn chunks) chunks
             in (int32_cast (queued_bytes - int bytes), messages, chunks))"

definition UnorderedStream_EraseTo :: "UnwrappedTSN \<Rightarrow> ChunkMap \<Rightarrow> nat \<times> ChunkMap" where
  "UnorderedStream_EraseTo tsn chunks =
     (let end_iter = om_upper_bound tsn chunks
      in (accumulate (map (Data_size \<circ> snd) (take end_iter chunks)), drop end_iter chunks))"

section \<open>Ordered streams\<close>

record OrderedStream =
  os_chunks_by_ssn :: "(UnwrappedSSN, ChunkMap) omap"
  os_ssn_unwrapper :: "u16 SeqNumUnwrapper"
  os_next_ssn :: UnwrappedSSN

definition OrderedStream_new :: "u16 \<Rightarrow> OrderedStream" where
  "OrderedStream_new next_ssn =
     (let (ssn, unwrapper) = Unwrap next_ssn SeqNumUnwrapper_init
      in \<lparr>os_chunks_by_ssn = [], os_ssn_unwrapper = unwrapper, os_next_ssn = ssn\<rparr>)"

definition OrderedStream_TryToAssembleMessage ::
  "OrderedStream \<Rightarrow> nat \<times> Assembled list \<times> OrderedStream" where
  "OrderedStream_TryToAssembleMessage s =
     (if os_chunks_by_ssn s = [] \<or> fst (hd (os_chunks_by_ssn s)) \<noteq> os_next_ssn s then (0, [], s)
      else
        let chunks = snd (hd (os_chunks_by_ssn s)) in
        if \<not> data_is_beginning (snd (hd chunks)) \<or> \<not> data_is_end (snd (last chunks)) then (0, [], s)
        else
          let tsn_diff = Difference (fst (last chunks)) (fst (hd chunks)) :: u32 in
          if unat tsn_diff \<noteq> length chunks - 1 then (0, [], s)
          else
            let (assembled_bytes, message) = AssembleMessage chunks
            in (assembled_bytes, [message],
                s\<lparr>os_chunks_by_ssn := tl (os_chunks_by_ssn s), os_next_ssn := os_next_ssn s + 1\<rparr>))"

text \<open>
  The loop ends when no byte was assembled; otherwise the first entry of the map is gone.
\<close>

lemma OrderedStream_TryToAssembleMessage_shrinks:
  "OrderedStream_TryToAssembleMessage s = (n, ms, s') \<Longrightarrow> n \<noteq> 0 \<Longrightarrow>
   length (os_chunks_by_ssn s') < length (os_chunks_by_ssn s)"
  by (auto simp: OrderedStream_TryToAssembleMessage_def Let_def split: if_splits prod.splits)

function OrderedStream_TryToAssembleMessages ::
  "OrderedStream \<Rightarrow> nat \<times> Assembled list \<times> OrderedStream" where
  "OrderedStream_TryToAssembleMessages s =
     (case OrderedStream_TryToAssembleMessage s of (assembled_bytes_this_iter, messages, s') \<Rightarrow>
        if assembled_bytes_this_iter = 0 then (0, messages, s')
        else case OrderedStream_TryToAssembleMessages s' of (assembled_bytes, more_messages, s'') \<Rightarrow>
          (assembled_bytes_this_iter + assembled_bytes, messages @ more_messages, s''))"
  by pat_completeness auto
termination
  by (relation "measure (length \<circ> os_chunks_by_ssn)")
    (auto dest: OrderedStream_TryToAssembleMessage_shrinks [OF sym])

declare OrderedStream_TryToAssembleMessages.simps [simp del]

definition OrderedStream_emplace ::
  "UnwrappedSSN \<Rightarrow> UnwrappedTSN \<Rightarrow> Data \<Rightarrow> OrderedStream \<Rightarrow> bool \<times> OrderedStream" where
  "OrderedStream_emplace ssn tsn data s =
     (let (chunks, inserted) = om_emplace tsn data (om_at [] ssn (os_chunks_by_ssn s))
      in (inserted, s\<lparr>os_chunks_by_ssn := om_insert ssn chunks (os_chunks_by_ssn s)\<rparr>))"

definition OrderedStream_TryToAssembleMessagesFastpath ::
  "UnwrappedSSN \<Rightarrow> UnwrappedTSN \<Rightarrow> Data \<Rightarrow> OrderedStream \<Rightarrow> nat \<times> Assembled list \<times> OrderedStream" where
  "OrderedStream_TryToAssembleMessagesFastpath ssn tsn data s =
     (if data_is_beginning data \<and> data_is_end data then
        let (assembled_bytes, message) = AssembleMessage_one tsn data;
            s = s\<lparr>os_next_ssn := os_next_ssn s + 1\<rparr>;
            (more_bytes, messages, s) = OrderedStream_TryToAssembleMessages s
        in (assembled_bytes + more_bytes, message # messages, s)
      else
        let (inserted, s) = OrderedStream_emplace ssn tsn data s in
        if \<not> inserted then (Data_size data, [], s)
        else OrderedStream_TryToAssembleMessages s)"

definition OrderedStream_Add ::
  "UnwrappedTSN \<Rightarrow> Data \<Rightarrow> OrderedStream \<Rightarrow> int \<times> Assembled list \<times> OrderedStream" where
  "OrderedStream_Add tsn data s =
     (let queued_bytes = int32_cast (int (Data_size data));
          (ssn, unwrapper) = Unwrap (data_ssn data) (os_ssn_unwrapper s);
          s = s\<lparr>os_ssn_unwrapper := unwrapper\<rparr>
      in if ssn = os_next_ssn s then
           let (bytes, messages, s) = OrderedStream_TryToAssembleMessagesFastpath ssn tsn data s
           in (int32_cast (queued_bytes - int bytes), messages, s)
         else
           let (inserted, s) = OrderedStream_emplace ssn tsn data s
           in (if \<not> inserted then 0 else queued_bytes, [], s))"

definition OrderedStream_EraseTo :: "u16 \<Rightarrow> OrderedStream \<Rightarrow> nat \<times> Assembled list \<times> OrderedStream" where
  "OrderedStream_EraseTo ssn s =
     (let (unwrapped_ssn, unwrapper) = Unwrap ssn (os_ssn_unwrapper s);
          end_iter = om_upper_bound unwrapped_ssn (os_chunks_by_ssn s);
          removed_bytes =
            accumulate (map (\<lambda>p. accumulate (map (Data_size \<circ> snd) (snd p)))
                          (take end_iter (os_chunks_by_ssn s)));
          s = s\<lparr>os_ssn_unwrapper := unwrapper,
                os_chunks_by_ssn := drop end_iter (os_chunks_by_ssn s),
                os_next_ssn := (if unwrapped_ssn \<ge> os_next_ssn s then unwrapped_ssn + 1 else os_next_ssn s)\<rparr>;
          (assembled_bytes, messages, s) = OrderedStream_TryToAssembleMessages s
      in (removed_bytes + assembled_bytes, messages, s))"

definition OrderedStream_Reset :: "OrderedStream \<Rightarrow> OrderedStream" where
  "OrderedStream_Reset s =
     (let (ssn, unwrapper) = Unwrap 0 (SeqNumUnwrapper_Reset (os_ssn_unwrapper s))
      in s\<lparr>os_ssn_unwrapper := unwrapper, os_next_ssn := ssn\<rparr>)"

section \<open>All streams\<close>

record TraditionalReassemblyStreams =
  trs_unordered_streams :: "(u16, ChunkMap) omap"
  trs_ordered_streams :: "(u16, OrderedStream) omap"

definition TraditionalReassemblyStreams_new :: TraditionalReassemblyStreams where
  "TraditionalReassemblyStreams_new = \<lparr>trs_unordered_streams = [], trs_ordered_streams = []\<rparr>"

definition TraditionalReassemblyStreams_Add ::
  "UnwrappedTSN \<Rightarrow> Data \<Rightarrow> TraditionalReassemblyStreams \<Rightarrow>
   int \<times> Assembled list \<times> TraditionalReassemblyStreams" where
  "TraditionalReassemblyStreams_Add tsn data streams =
     (if data_is_unordered data then
        let (r, messages, stream) =
              UnorderedStream_Add tsn data (om_at [] (data_stream_id data) (trs_unordered_streams streams))
        in (r, messages, streams\<lparr>trs_unordered_streams :=
              om_insert (data_stream_id data) stream (trs_unordered_streams streams)\<rparr>)
      else
        let (r, messages, stream) =
              OrderedStream_Add tsn data
                (om_at (OrderedStream_new 0) (data_stream_id data) (trs_ordered_streams streams))
        in (r, messages, streams\<lparr>trs_ordered_streams :=
              om_insert (data_stream_id data) stream (trs_ordered_streams streams)\<rparr>))"

fun erase_unordered :: "UnwrappedTSN \<Rightarrow> (u16, ChunkMap) omap \<Rightarrow> nat \<times> (u16, ChunkMap) omap" where
  "erase_unordered tsn [] = (0, [])"
| "erase_unordered tsn ((stream_id, stream) # streams) =
     (let (removed, stream) = UnorderedStream_EraseTo tsn stream;
          (more_bytes, streams) = erase_unordered tsn streams
      in (removed + more_bytes, (stream_id, stream) # streams))"

fun erase_ordered ::
  "SkippedStream list \<Rightarrow> (u16, OrderedStream) omap \<Rightarrow> nat \<times> Assembled list \<times> (u16, OrderedStream) omap" where
  "erase_ordered [] streams = (0, [], streams)"
| "erase_ordered (skipped_stream # skipped_streams) streams =
     (let (removed, messages, stream) =
            OrderedStream_EraseTo (ss_ssn skipped_stream)
              (om_at (OrderedStream_new 0) (ss_stream_id skipped_stream) streams);
          (more_bytes, more_messages, streams) =
            erase_ordered skipped_streams (om_insert (ss_stream_id skipped_stream) stream streams)
      in (removed + more_bytes, messages @ more_messages, streams))"

definition TraditionalReassemblyStreams_HandleForwardTsn ::
  "UnwrappedTSN \<Rightarrow> SkippedStream list \<Rightarrow> TraditionalReassemblyStreams \<Rightarrow>
   nat \<times> Assembled list \<times> TraditionalReassemblyStreams" where
  "TraditionalReassemblyStreams_HandleForwardTsn new_cumulative_ack_tsn skipped_streams streams =
     (let (bytes_removed, unordered) =
            erase_unordered new_cumulative_ack_tsn (trs_unordered_streams streams);
          (more_bytes, messages, ordered) = erase_ordered skipped_streams (trs_ordered_streams streams)
      in (bytes_removed + more_bytes, messages,
          \<lparr>trs_unordered_streams = unordered, trs_ordered_streams = ordered\<rparr>))"

definition reset_ordered :: "u16 \<Rightarrow> (u16, OrderedStream) omap \<Rightarrow> (u16, OrderedStream) omap" where
  "reset_ordered stream_id streams =
     (case om_find streams stream_id of
        None \<Rightarrow> streams
      | Some stream \<Rightarrow> om_insert stream_id (OrderedStream_Reset stream) streams)"

definition TraditionalReassemblyStreams_ResetStreams ::
  "u16 list \<Rightarrow> TraditionalReassemblyStreams \<Rightarrow> TraditionalReassemblyStreams" where
  "TraditionalReassemblyStreams_ResetStreams stream_ids streams =
     streams\<lparr>trs_ordered_streams :=
       (if stream_ids = []
        then map (\<lambda>(stream_id, stream). (stream_id, OrderedStream_Reset stream)) (trs_ordered_streams streams)
        else fold reset_ordered stream_ids (trs_ordered_streams streams))\<rparr>"

section \<open>Handover\<close>

definition TraditionalReassemblyStreams_GetHandoverReadiness ::
  "TraditionalReassemblyStreams \<Rightarrow> HandoverReadinessStatus" where
  "TraditionalReassemblyStreams_GetHandoverReadiness streams =
     (let status = HandoverReadinessStatus_none;
          status = (if list_ex (\<lambda>p. os_chunks_by_ssn (snd p) \<noteq> []) (trs_ordered_streams streams)
                    then HandoverReadinessStatus_Add kOrderedStreamHasUnassembledChunks status else status)
      in if list_ex (\<lambda>p. snd p \<noteq> []) (trs_unordered_streams streams)
         then HandoverReadinessStatus_Add kUnorderedStreamHasUnassembledChunks status else status)"

definition TraditionalReassemblyStreams_AddHandoverState ::
  "TraditionalReassemblyStreams \<Rightarrow> DcSctpSocketHandoverState \<Rightarrow> DcSctpSocketHandoverState" where
  "TraditionalReassemblyStreams_AddHandoverState streams state =
     state\<lparr>hs_rx := (hs_rx state)\<lparr>
       hr_ordered_streams := hr_ordered_streams (hs_rx state) @
         map (\<lambda>(stream_id, stream). \<lparr>hors_id = ucast stream_id,
                hors_next_ssn = ucast (Wrap (os_next_ssn stream) :: u16)\<rparr>) (trs_ordered_streams streams),
       hr_unordered_streams := hr_unordered_streams (hs_rx state) @
         map (\<lambda>(stream_id, stream). \<lparr>hus_id = ucast stream_id\<rparr>) (trs_unordered_streams streams)\<rparr>\<rparr>"

definition TraditionalReassemblyStreams_RestoreFromState ::
  "DcSctpSocketHandoverState \<Rightarrow> TraditionalReassemblyStreams \<Rightarrow> TraditionalReassemblyStreams" where
  "TraditionalReassemblyStreams_RestoreFromState state streams =
     \<lparr>trs_unordered_streams =
        fold (\<lambda>s m. fst (om_emplace (ucast (hus_id s)) [] m)) (hr_unordered_streams (hs_rx state))
          (trs_unordered_streams streams),
      trs_ordered_streams =
        fold (\<lambda>s m. fst (om_emplace (ucast (hors_id s)) (OrderedStream_new (ucast (hors_next_ssn s))) m))
          (hr_ordered_streams (hs_rx state)) (trs_ordered_streams streams)\<rparr>"

section \<open>Byte accounting\<close>

definition chunk_bytes :: "ChunkMap \<Rightarrow> nat" where
  "chunk_bytes = om_weight Data_size"

definition os_bytes :: "OrderedStream \<Rightarrow> nat" where
  "os_bytes s = om_weight chunk_bytes (os_chunks_by_ssn s)"

definition trs_bytes :: "TraditionalReassemblyStreams \<Rightarrow> nat" where
  "trs_bytes streams =
     om_weight chunk_bytes (trs_unordered_streams streams) + om_weight os_bytes (trs_ordered_streams streams)"

text \<open>Well-formedness: the maps are in order, and no entry of an ordered stream is empty.\<close>

definition os_ok :: "OrderedStream \<Rightarrow> bool" where
  "os_ok s \<longleftrightarrow> om_ok (os_chunks_by_ssn s) \<and>
     om_all (\<lambda>chunks. om_ok chunks \<and> chunks \<noteq> []) (os_chunks_by_ssn s)"

definition trs_ok :: "TraditionalReassemblyStreams \<Rightarrow> bool" where
  "trs_ok streams \<longleftrightarrow>
     om_ok (trs_unordered_streams streams) \<and> om_all om_ok (trs_unordered_streams streams) \<and>
     om_ok (trs_ordered_streams streams) \<and> om_all os_ok (trs_ordered_streams streams)"

lemma chunk_bytes_Nil [simp]: "chunk_bytes [] = 0"
  by (simp add: chunk_bytes_def)

lemma chunk_bytes_sum: "chunk_bytes m = sum_list (map (Data_size \<circ> snd) m)"
  by (simp add: chunk_bytes_def om_weight_def comp_def)

lemma length_concat_payloads: "length (concat (map (data_payload \<circ> snd) m)) = chunk_bytes m"
  by (induction m) (simp_all add: chunk_bytes_def Data_size_def)

lemma AssembleMessage_bytes:
  assumes "chunk_bytes m \<le> kMaxInt" and "AssembleMessage m = (n, message)"
  shows "n = chunk_bytes m" and "length (msg_payload (snd message)) = chunk_bytes m"
proof -
  have "n = chunk_bytes m \<and> length (msg_payload (snd message)) = chunk_bytes m"
  proof (cases "length m = 1")
    case True
    then obtain p where "m = [p]" by (metis One_nat_def length_0_conv length_Suc_conv)
    with assms(2) show ?thesis
      by (auto simp: AssembleMessage_def AssembleMessage_one_def chunk_bytes_def Data_size_def)
  next
    case False
    with assms show ?thesis
      using accumulate_eq [of "map (Data_size \<circ> snd) m"] length_concat_payloads [of m]
      by (auto simp: AssembleMessage_def chunk_bytes_sum)
  qed
  then show "n = chunk_bytes m" and "length (msg_payload (snd message)) = chunk_bytes m" by simp_all
qed

lemma AssembleMessage_one_bytes:
  "AssembleMessage_one tsn data = (n, message) \<Longrightarrow> n = Data_size data \<and> length (msg_payload (snd message)) = n"
  by (auto simp: AssembleMessage_one_def Data_size_def)

lemma chunk_bytes_emplace:
  assumes "om_ok m" and "om_emplace tsn data m = (m', inserted)"
  shows "om_ok m'" and "m' \<noteq> []" and "chunk_bytes m' = chunk_bytes m + (if inserted then Data_size data else 0)"
  using om_emplace_weight [OF assms] unfolding chunk_bytes_def by blast+

subsection \<open>Unordered streams\<close>

lemma FindBeginning_le: "FindBeginning chunks i = Some j \<Longrightarrow> j \<le> i"
  by (induction chunks i rule: FindBeginning.induct) (auto split: if_splits)

lemma FindEnd_gt: "FindEnd chunks i = Some j \<Longrightarrow> i < j"
  by (induction chunks i rule: FindEnd.induct) (subst (asm) (2) FindEnd.simps, auto split: if_splits)

lemma UnorderedStream_TryToAssembleMessage_bytes:
  assumes "om_ok chunks" and "chunk_bytes chunks \<le> kMaxInt"
    and "UnorderedStream_TryToAssembleMessage iter chunks = (n, ms, chunks')"
  shows "om_ok chunks' \<and> chunk_bytes chunks' + n = chunk_bytes chunks \<and> delivered_bytes ms = n"
proof (cases "FindBeginning chunks iter = None \<or> FindEnd chunks iter = None")
  case True
  with assms show ?thesis
    by (auto simp: UnorderedStream_TryToAssembleMessage_def split: option.splits)
next
  case False
  then obtain b e where be: "FindBeginning chunks iter = Some b" "FindEnd chunks iter = Some e" by auto
  then have "b \<le> e" using FindBeginning_le FindEnd_gt by fastforce
  obtain message where m: "AssembleMessage (drop b (take e chunks)) = (n, message)" "ms = [message]"
      "chunks' = take b chunks @ drop e chunks"
    using assms(3) be by (auto simp: UnorderedStream_TryToAssembleMessage_def split: prod.splits)
  have cut: "chunk_bytes chunks' + chunk_bytes (drop b (take e chunks)) = chunk_bytes chunks"
    unfolding m(3) chunk_bytes_def by (rule om_weight_cut [OF \<open>b \<le> e\<close>])
  with assms(2) AssembleMessage_bytes [OF _ m(1)] om_ok_take_drop [OF assms(1) \<open>b \<le> e\<close>] m(2,3)
  show ?thesis by simp
qed

lemma UnorderedStream_Add_bytes:
  assumes "om_ok chunks" and "chunk_bytes chunks + Data_size data \<le> kMaxInt"
    and "UnorderedStream_Add tsn data chunks = (r, ms, chunks')"
  shows "om_ok chunks' \<and> int (chunk_bytes chunks') = int (chunk_bytes chunks) + r \<and>
         chunk_bytes chunks' + delivered_bytes ms \<le> chunk_bytes chunks + Data_size data"
proof (cases "data_is_beginning data \<and> data_is_end data")
  case True
  with assms show ?thesis
    by (auto simp: UnorderedStream_Add_def AssembleMessage_one_def Data_size_def)
next
  case False
  obtain m inserted where m: "om_emplace tsn data chunks = (m, inserted)" by fastforce
  note emplaced = chunk_bytes_emplace [OF assms(1) m]
  show ?thesis
  proof (cases inserted)
    case True
    obtain n m' where t: "UnorderedStream_TryToAssembleMessage (om_lower_bound tsn m) m = (n, ms, m')"
        "r = int32_cast (int32_cast (int (Data_size data)) - int n)" "chunks' = m'"
      using assms(3) False True m by (auto simp: UnorderedStream_Add_def split: prod.splits)
    have "chunk_bytes m \<le> kMaxInt" using emplaced(3) True assms(2) by simp
    note bytes = UnorderedStream_TryToAssembleMessage_bytes [OF emplaced(1) this t(1)]
    then have "n \<le> kMaxInt" "Data_size data \<le> kMaxInt" using \<open>chunk_bytes m \<le> kMaxInt\<close> assms(2) by linarith+
    then have "r = int (Data_size data) - int n" using t(2) by (simp add: int32_cast_small int32_cast_diff)
    with bytes emplaced(3) True t(3) show ?thesis by simp
  next
    case not_inserted: False
    with assms(1,3) False m emplaced show ?thesis by (auto simp: UnorderedStream_Add_def)
  qed
qed

lemma UnorderedStream_EraseTo_bytes:
  assumes "om_ok chunks" and "chunk_bytes chunks \<le> kMaxInt"
    and "UnorderedStream_EraseTo tsn chunks = (n, chunks')"
  shows "om_ok chunks' \<and> chunk_bytes chunks' + n = chunk_bytes chunks"
proof -
  let ?i = "om_upper_bound tsn chunks"
  have split: "chunk_bytes (take ?i chunks) + chunk_bytes (drop ?i chunks) = chunk_bytes chunks"
    unfolding chunk_bytes_def by (rule om_weight_split)
  with assms(2) have "accumulate (map (Data_size \<circ> snd) (take ?i chunks)) = chunk_bytes (take ?i chunks)"
    using accumulate_eq [of "map (Data_size \<circ> snd) (take ?i chunks)"] by (simp add: chunk_bytes_sum)
  with split assms(1,3) om_ok_drop show ?thesis by (auto simp: UnorderedStream_EraseTo_def Let_def)
qed

subsection \<open>Ordered streams\<close>

lemma OrderedStream_TryToAssembleMessage_bytes:
  assumes "os_ok s" and "os_bytes s \<le> kMaxInt" and "OrderedStream_TryToAssembleMessage s = (n, ms, s')"
  shows "os_ok s' \<and> os_bytes s' + n = os_bytes s \<and> delivered_bytes ms = n"
proof (cases "ms = []")
  case True
  with assms show ?thesis
    by (auto simp: OrderedStream_TryToAssembleMessage_def Let_def split: if_splits prod.splits)
next
  case False
  then obtain ssn chunks rest message where *: "os_chunks_by_ssn s = (ssn, chunks) # rest"
      "AssembleMessage chunks = (n, message)" "ms = [message]"
      "s' = s\<lparr>os_chunks_by_ssn := rest, os_next_ssn := os_next_ssn s + 1\<rparr>"
    using assms(3)
    by (cases "os_chunks_by_ssn s")
      (auto simp: OrderedStream_TryToAssembleMessage_def Let_def split: if_splits prod.splits)
  have "chunk_bytes chunks \<le> kMaxInt" using assms(2) *(1) by (simp add: os_bytes_def)
  with AssembleMessage_bytes [OF this *(2)] assms(1) * show ?thesis
    by (simp add: os_bytes_def os_ok_def)
qed

lemma OrderedStream_TryToAssembleMessages_bytes:
  assumes "os_ok s" and "os_bytes s \<le> kMaxInt" and "OrderedStream_TryToAssembleMessages s = (n, ms, s')"
  shows "os_ok s' \<and> os_bytes s' + n = os_bytes s \<and> delivered_bytes ms = n"
  using assms
proof (induction s arbitrary: n ms s' rule: OrderedStream_TryToAssembleMessages.induct)
  case (1 s)
  obtain n1 ms1 s1 where 1: "OrderedStream_TryToAssembleMessage s = (n1, ms1, s1)" by (metis prod_cases3)
  note first = OrderedStream_TryToAssembleMessage_bytes [OF "1.prems"(1,2) 1]
  show ?case
  proof (cases "n1 = 0")
    case True
    with first 1 "1.prems"(3) show ?thesis
      by (subst (asm) OrderedStream_TryToAssembleMessages.simps) auto
  next
    case False
    obtain n2 ms2 s2 where 2: "OrderedStream_TryToAssembleMessages s1 = (n2, ms2, s2)" by (metis prod_cases3)
    have rest: "os_ok s2 \<and> os_bytes s2 + n2 = os_bytes s1 \<and> delivered_bytes ms2 = n2"
      using "1.IH" [OF 1 [symmetric] refl False _ _ 2] first "1.prems"(2) by simp
    moreover have "n = n1 + n2" "ms = ms1 @ ms2" "s' = s2"
      using "1.prems"(3) 1 2 False by (subst (asm) OrderedStream_TryToAssembleMessages.simps, simp)+
    ultimately show ?thesis using first by simp
  qed
qed

lemma OrderedStream_emplace_bytes:
  assumes "os_ok s" and "OrderedStream_emplace ssn tsn data s = (inserted, s')"
  shows "os_ok s' \<and> os_bytes s' = os_bytes s + (if inserted then Data_size data else 0)"
proof -
  let ?at = "om_at [] ssn (os_chunks_by_ssn s)"
  have "om_ok ?at"
    using assms(1) unfolding os_ok_def by (intro om_all_at [of om_ok]) (auto simp: om_all_def)
  moreover obtain m where m: "om_emplace tsn data ?at = (m, inserted)"
      "s' = s\<lparr>os_chunks_by_ssn := om_insert ssn m (os_chunks_by_ssn s)\<rparr>"
    using assms(2) by (auto simp: OrderedStream_emplace_def split: prod.splits)
  ultimately have em: "om_ok m" "m \<noteq> []" "chunk_bytes m = chunk_bytes ?at + (if inserted then Data_size data else 0)"
    using chunk_bytes_emplace by blast+
  have "os_ok s'"
    using assms(1) em(1,2) by (simp add: os_ok_def m(2) om_insert_ok om_all_insert)
  moreover have "os_bytes s' + chunk_bytes ?at = os_bytes s + chunk_bytes m"
    using om_weight_insert [of "os_chunks_by_ssn s" chunk_bytes "[]" ssn m] assms(1)
    by (simp add: os_bytes_def os_ok_def m(2))
  ultimately show ?thesis using em(3) by simp
qed

lemma OrderedStream_Fastpath_bytes:
  assumes "os_ok s" and "os_bytes s + Data_size data \<le> kMaxInt"
    and "OrderedStream_TryToAssembleMessagesFastpath ssn tsn data s = (n, ms, s')"
  shows "os_ok s' \<and> os_bytes s' + n = os_bytes s + Data_size data \<and> delivered_bytes ms \<le> n"
proof (cases "data_is_beginning data \<and> data_is_end data")
  case True
  let ?s = "s\<lparr>os_next_ssn := os_next_ssn s + 1\<rparr>"
  obtain n2 ms2 where 2: "OrderedStream_TryToAssembleMessages ?s = (n2, ms2, s')" "n = Data_size data + n2"
      "delivered_bytes ms = Data_size data + delivered_bytes ms2"
    using assms(3) True
    by (auto simp: OrderedStream_TryToAssembleMessagesFastpath_def AssembleMessage_one_def Data_size_def split: prod.splits)
  have "os_ok ?s" "os_bytes ?s = os_bytes s" using assms(1) by (simp_all add: os_ok_def os_bytes_def)
  with OrderedStream_TryToAssembleMessages_bytes [OF _ _ 2(1)] assms(2) 2(2,3) show ?thesis by simp
next
  case False
  obtain inserted s1 where e: "OrderedStream_emplace ssn tsn data s = (inserted, s1)" by fastforce
  note em = OrderedStream_emplace_bytes [OF assms(1) e]
  show ?thesis
  proof (cases inserted)
    case True
    then have "OrderedStream_TryToAssembleMessages s1 = (n, ms, s')"
      using assms(3) False e by (auto simp: OrderedStream_TryToAssembleMessagesFastpath_def)
    with OrderedStream_TryToAssembleMessages_bytes [OF _ _ this] em True assms(2) show ?thesis by simp
  next
    case not_inserted: False
    with assms(3) False e em show ?thesis
      by (auto simp: OrderedStream_TryToAssembleMessagesFastpath_def)
  qed
qed

lemma OrderedStream_Add_bytes:
  assumes "os_ok s" and "os_bytes s + Data_size data \<le> kMaxInt" and "OrderedStream_Add tsn data s = (r, ms, s')"
  shows "os_ok s' \<and> int (os_bytes s') = int (os_bytes s) + r \<and>
         os_bytes s' + delivered_bytes ms \<le> os_bytes s + Data_size data"
proof -
  obtain ssn u where u: "Unwrap (data_ssn data) (os_ssn_unwrapper s) = (ssn, u)" by fastforce
  define s1 where "s1 = s\<lparr>os_ssn_unwrapper := u\<rparr>"
  have s1: "os_ok s1" "os_bytes s1 = os_bytes s" "os_next_ssn s1 = os_next_ssn s"
    using assms(1) by (simp_all add: s1_def os_ok_def os_bytes_def)
  have size: "Data_size data \<le> kMaxInt" using assms(2) by simp
  show ?thesis
  proof (cases "ssn = os_next_ssn s")
    case True
    obtain n where n: "OrderedStream_TryToAssembleMessagesFastpath ssn tsn data s1 = (n, ms, s')"
        "r = int32_cast (int32_cast (int (Data_size data)) - int n)"
      using assms(3) u True by (auto simp: OrderedStream_Add_def s1_def split: prod.splits)
    note fast = OrderedStream_Fastpath_bytes [OF s1(1) _ n(1)]
    then have "r = int (Data_size data) - int n"
      using n(2) size assms(2) s1(2)
      by (simp add: int32_cast_small int32_cast_id kMaxInt_def)
    with fast assms(2) s1(2) show ?thesis by simp
  next
    case False
    obtain inserted where e: "OrderedStream_emplace ssn tsn data s1 = (inserted, s')"
        "r = (if inserted then int32_cast (int (Data_size data)) else 0)" "ms = []"
      using assms(3) u False by (auto simp: OrderedStream_Add_def s1_def split: prod.splits if_splits)
    with OrderedStream_emplace_bytes [OF s1(1) e(1)] s1(2) size show ?thesis
      by (simp add: int32_cast_small)
  qed
qed

lemma accumulate_by_ssn:
  assumes "om_weight chunk_bytes m \<le> kMaxInt"
  shows "accumulate (map (\<lambda>p. accumulate (map (Data_size \<circ> snd) (snd p))) m) = om_weight chunk_bytes m"
proof -
  have inner: "accumulate (map (Data_size \<circ> snd) (snd p)) = chunk_bytes (snd p)" if "p \<in> set m" for p
  proof -
    have "chunk_bytes (snd p) \<le> om_weight chunk_bytes m"
      unfolding om_weight_def using that by (intro member_le_sum_list) (auto intro: rev_image_eqI)
    with assms show ?thesis using accumulate_eq [of "map (Data_size \<circ> snd) (snd p)"] by (simp add: chunk_bytes_sum)
  qed
  then have "map (\<lambda>p. accumulate (map (Data_size \<circ> snd) (snd p))) m = map (\<lambda>p. chunk_bytes (snd p)) m"
    by (intro map_cong refl)
  with accumulate_eq [of "map (\<lambda>p. chunk_bytes (snd p)) m"] assms show ?thesis
    unfolding om_weight_def by argo
qed

lemma OrderedStream_EraseTo_bytes:
  assumes "os_ok s" and "os_bytes s \<le> kMaxInt" and "OrderedStream_EraseTo ssn s = (n, ms, s')"
  shows "os_ok s' \<and> os_bytes s' + n = os_bytes s \<and> delivered_bytes ms \<le> n"
proof -
  obtain x u where u: "Unwrap ssn (os_ssn_unwrapper s) = (x, u)" by fastforce
  let ?m = "os_chunks_by_ssn s" and ?i = "om_upper_bound x (os_chunks_by_ssn s)"
  define s1 where "s1 = s\<lparr>os_ssn_unwrapper := u, os_chunks_by_ssn := drop ?i ?m,
      os_next_ssn := (if x \<ge> os_next_ssn s then x + 1 else os_next_ssn s)\<rparr>"
  have split: "om_weight chunk_bytes (take ?i ?m) + os_bytes s1 = os_bytes s"
    by (simp add: os_bytes_def s1_def om_weight_split)
  have ok: "os_ok s1" using assms(1) by (simp add: os_ok_def s1_def om_ok_drop om_all_take_drop)
  obtain n2 where n2: "OrderedStream_TryToAssembleMessages s1 = (n2, ms, s')"
      "n = accumulate (map (\<lambda>p. accumulate (map (Data_size \<circ> snd) (snd p))) (take ?i ?m)) + n2"
    using assms(3) u by (auto simp: OrderedStream_EraseTo_def s1_def Let_def split: prod.splits)
  with OrderedStream_TryToAssembleMessages_bytes [OF ok _ n2(1)] split assms(2)
    accumulate_by_ssn [of "take ?i ?m"]
  show ?thesis by simp
qed

lemma OrderedStream_Reset_bytes: "os_ok s \<Longrightarrow> os_ok (OrderedStream_Reset s) \<and> os_bytes (OrderedStream_Reset s) = os_bytes s"
  by (simp add: OrderedStream_Reset_def os_ok_def os_bytes_def split: prod.splits)

lemma OrderedStream_new_ok [simp]: "os_ok (OrderedStream_new ssn)" "os_bytes (OrderedStream_new ssn) = 0"
  by (simp_all add: OrderedStream_new_def os_ok_def os_bytes_def split: prod.splits)

subsection \<open>All streams\<close>

lemma TraditionalReassemblyStreams_Add_bytes:
  assumes "trs_ok streams" and "trs_bytes streams + Data_size data \<le> kMaxInt"
    and "TraditionalReassemblyStreams_Add tsn data streams = (r, ms, streams')"
  shows "trs_ok streams' \<and> int (trs_bytes streams') = int (trs_bytes streams) + r \<and>
         trs_bytes streams' + delivered_bytes ms \<le> trs_bytes streams + Data_size data"
proof (cases "data_is_unordered data")
  case True
  let ?m = "trs_unordered_streams streams" and ?id = "data_stream_id data"
  let ?at = "om_at [] ?id ?m"
  obtain chunks where c: "UnorderedStream_Add tsn data ?at = (r, ms, chunks)"
      "streams' = streams\<lparr>trs_unordered_streams := om_insert ?id chunks ?m\<rparr>"
    using assms(3) True by (auto simp: TraditionalReassemblyStreams_Add_def split: prod.splits)
  have "chunk_bytes ?at \<le> om_weight chunk_bytes ?m" by (simp add: om_weight_at_le)
  moreover from this have "chunk_bytes ?at + Data_size data \<le> kMaxInt"
    using assms(2) by (simp add: trs_bytes_def)
  moreover have "om_ok ?at" using assms(1) by (simp add: trs_ok_def om_all_at)
  ultimately have add: "om_ok chunks \<and> int (chunk_bytes chunks) = int (chunk_bytes ?at) + r \<and>
      chunk_bytes chunks + delivered_bytes ms \<le> chunk_bytes ?at + Data_size data"
    using UnorderedStream_Add_bytes [OF _ _ c(1)] by blast
  have "om_weight chunk_bytes (om_insert ?id chunks ?m) + chunk_bytes ?at = om_weight chunk_bytes ?m + chunk_bytes chunks"
    using assms(1) by (intro om_weight_insert) (simp_all add: trs_ok_def)
  moreover have "trs_ok streams'"
    using assms(1) add by (simp add: trs_ok_def c(2) om_insert_ok om_all_insert)
  ultimately show ?thesis using add by (simp add: trs_bytes_def c(2))
next
  case False
  let ?m = "trs_ordered_streams streams" and ?id = "data_stream_id data"
  let ?at = "om_at (OrderedStream_new 0) ?id ?m"
  obtain s where c: "OrderedStream_Add tsn data ?at = (r, ms, s)"
      "streams' = streams\<lparr>trs_ordered_streams := om_insert ?id s ?m\<rparr>"
    using assms(3) False by (auto simp: TraditionalReassemblyStreams_Add_def split: prod.splits)
  have "os_bytes ?at \<le> om_weight os_bytes ?m" by (simp add: om_weight_at_le)
  moreover from this have "os_bytes ?at + Data_size data \<le> kMaxInt"
    using assms(2) by (simp add: trs_bytes_def)
  moreover have "os_ok ?at" using assms(1) by (simp add: trs_ok_def om_all_at)
  ultimately have add: "os_ok s \<and> int (os_bytes s) = int (os_bytes ?at) + r \<and>
      os_bytes s + delivered_bytes ms \<le> os_bytes ?at + Data_size data"
    using OrderedStream_Add_bytes [OF _ _ c(1)] by blast
  have "om_weight os_bytes (om_insert ?id s ?m) + os_bytes ?at = om_weight os_bytes ?m + os_bytes s"
    using assms(1) by (intro om_weight_insert) (simp_all add: trs_ok_def)
  moreover have "trs_ok streams'"
    using assms(1) add by (simp add: trs_ok_def c(2) om_insert_ok om_all_insert)
  ultimately show ?thesis using add by (simp add: trs_bytes_def c(2))
qed

lemma erase_unordered_bytes:
  assumes "om_all om_ok m" and "om_weight chunk_bytes m \<le> kMaxInt" and "erase_unordered tsn m = (n, m')"
  shows "om_all om_ok m' \<and> map fst m' = map fst m \<and> om_weight chunk_bytes m' + n = om_weight chunk_bytes m"
  using assms
proof (induction tsn m arbitrary: n m' rule: erase_unordered.induct)
  case (2 tsn stream_id stream streams)
  obtain n1 s1 where 1: "UnorderedStream_EraseTo tsn stream = (n1, s1)" by fastforce
  obtain n2 m2 where 2: "erase_unordered tsn streams = (n2, m2)" by fastforce
  have "n = n1 + n2" "m' = (stream_id, s1) # m2" using "2.prems"(3) 1 2 by simp_all
  moreover have "om_ok s1 \<and> chunk_bytes s1 + n1 = chunk_bytes stream"
    using UnorderedStream_EraseTo_bytes [OF _ _ 1] "2.prems"(1,2) by simp
  moreover have "om_all om_ok m2 \<and> map fst m2 = map fst streams \<and>
      om_weight chunk_bytes m2 + n2 = om_weight chunk_bytes streams"
    using "2.IH" [OF 1 [symmetric] refl _ _ 2] "2.prems"(1,2) by simp
  ultimately show ?case by simp
qed simp

lemma erase_ordered_bytes:
  assumes "om_ok m" and "om_all os_ok m" and "om_weight os_bytes m \<le> kMaxInt"
    and "erase_ordered skipped m = (n, ms, m')"
  shows "om_ok m' \<and> om_all os_ok m' \<and> om_weight os_bytes m' + n = om_weight os_bytes m \<and> delivered_bytes ms \<le> n"
  using assms
proof (induction skipped arbitrary: m n ms m')
  case (Cons k skipped)
  let ?at = "om_at (OrderedStream_new 0) (ss_stream_id k) m"
  obtain n1 ms1 s1 where 1: "OrderedStream_EraseTo (ss_ssn k) ?at = (n1, ms1, s1)" by (metis prod_cases3)
  let ?m1 = "om_insert (ss_stream_id k) s1 m"
  obtain n2 ms2 m2 where 2: "erase_ordered skipped ?m1 = (n2, ms2, m2)" by (metis prod_cases3)
  have eqs: "n = n1 + n2" "ms = ms1 @ ms2" "m' = m2" using Cons.prems(4) 1 2 by simp_all
  have "os_bytes ?at \<le> om_weight os_bytes m" by (simp add: om_weight_at_le)
  then have first: "os_ok s1 \<and> os_bytes s1 + n1 = os_bytes ?at \<and> delivered_bytes ms1 \<le> n1"
    using OrderedStream_EraseTo_bytes [OF _ _ 1] Cons.prems(2,3) by (simp add: om_all_at)
  have w: "om_weight os_bytes ?m1 + os_bytes ?at = om_weight os_bytes m + os_bytes s1"
    using Cons.prems(1) by (intro om_weight_insert) simp_all
  have "om_ok m2 \<and> om_all os_ok m2 \<and> om_weight os_bytes m2 + n2 = om_weight os_bytes ?m1 \<and> delivered_bytes ms2 \<le> n2"
    using Cons.IH [OF _ _ _ 2] Cons.prems first w by (simp add: om_insert_ok om_all_insert)
  with first w eqs \<open>os_bytes ?at \<le> om_weight os_bytes m\<close> show ?case by simp
qed simp

lemma om_ok_keys: "map fst m' = map fst m \<Longrightarrow> om_ok m' = om_ok m"
  by (simp add: om_ok_def)

lemma TraditionalReassemblyStreams_HandleForwardTsn_bytes:
  assumes "trs_ok streams" and "trs_bytes streams \<le> kMaxInt"
    and "TraditionalReassemblyStreams_HandleForwardTsn tsn skipped streams = (n, ms, streams')"
  shows "trs_ok streams' \<and> trs_bytes streams' + n = trs_bytes streams \<and>
         trs_bytes streams' + delivered_bytes ms \<le> trs_bytes streams"
proof -
  obtain n1 m1 where 1: "erase_unordered tsn (trs_unordered_streams streams) = (n1, m1)" by fastforce
  obtain n2 m2 where 2: "erase_ordered skipped (trs_ordered_streams streams) = (n2, ms, m2)"
      "n = n1 + n2" "streams' = \<lparr>trs_unordered_streams = m1, trs_ordered_streams = m2\<rparr>"
    using assms(3) 1 by (auto simp: TraditionalReassemblyStreams_HandleForwardTsn_def split: prod.splits)
  have "om_all om_ok m1 \<and> map fst m1 = map fst (trs_unordered_streams streams) \<and>
      om_weight chunk_bytes m1 + n1 = om_weight chunk_bytes (trs_unordered_streams streams)"
    using erase_unordered_bytes [OF _ _ 1] assms(1,2) by (simp add: trs_ok_def trs_bytes_def)
  moreover have "om_ok m2 \<and> om_all os_ok m2 \<and>
      om_weight os_bytes m2 + n2 = om_weight os_bytes (trs_ordered_streams streams) \<and> delivered_bytes ms \<le> n2"
    using erase_ordered_bytes [OF _ _ _ 2(1)] assms(1,2) by (simp add: trs_ok_def trs_bytes_def)
  ultimately show ?thesis
    using assms(1) om_ok_keys [of m1 "trs_unordered_streams streams"]
    by (simp add: trs_ok_def trs_bytes_def 2)
qed

lemma om_insert_found:
  assumes "om_ok m" and "om_find m k = Some v" and "f w = f v"
  shows "om_weight f (om_insert k w m) = om_weight f m"
  using assms
proof (induction k w m rule: om_insert.induct)
  case (2 k v l w m)
  have "\<not> k < l" using 2(2,3) om_find_Some [OF 2(3)] by fastforce
  with 2 show ?case by (auto simp: om_find_def split: if_splits)
qed (simp add: om_find_def)

lemma reset_ordered_bytes:
  assumes "om_ok m" and "om_all os_ok m"
  shows "om_ok (reset_ordered k m) \<and> om_all os_ok (reset_ordered k m) \<and>
         om_weight os_bytes (reset_ordered k m) = om_weight os_bytes m"
proof (cases "om_find m k")
  case (Some s)
  then have "os_ok s" using assms(2) om_find_Some unfolding om_all_def by fastforce
  with Some assms OrderedStream_Reset_bytes [of s] show ?thesis
    by (simp add: reset_ordered_def om_insert_ok om_all_insert om_insert_found)
qed (simp add: reset_ordered_def assms)

lemma fold_reset_ordered_bytes:
  assumes "om_ok m" and "om_all os_ok m"
  shows "om_ok (fold reset_ordered ids m) \<and> om_all os_ok (fold reset_ordered ids m) \<and>
         om_weight os_bytes (fold reset_ordered ids m) = om_weight os_bytes m"
  using assms by (induction ids arbitrary: m) (simp_all add: reset_ordered_bytes)

lemma TraditionalReassemblyStreams_ResetStreams_bytes:
  assumes "trs_ok streams"
  shows "trs_ok (TraditionalReassemblyStreams_ResetStreams ids streams) \<and>
         trs_bytes (TraditionalReassemblyStreams_ResetStreams ids streams) = trs_bytes streams"
proof -
  have all: "om_all os_ok (map (\<lambda>(i, s). (i, OrderedStream_Reset s)) m) \<and>
      map fst (map (\<lambda>(i, s). (i, OrderedStream_Reset s)) m) = map fst m \<and>
      om_weight os_bytes (map (\<lambda>(i, s). (i, OrderedStream_Reset s)) m) = om_weight os_bytes m"
    if "om_all os_ok m" for m :: "(u16, OrderedStream) omap"
    using that by (induction m) (auto simp: OrderedStream_Reset_bytes)
  show ?thesis
    using assms all [of "trs_ordered_streams streams"]
      fold_reset_ordered_bytes [of "trs_ordered_streams streams" ids]
      om_ok_keys [of "map (\<lambda>(i, s). (i, OrderedStream_Reset s)) (trs_ordered_streams streams)" "trs_ordered_streams streams"]
    by (simp add: TraditionalReassemblyStreams_ResetStreams_def trs_ok_def trs_bytes_def)
qed

interpretation traditional: reassembly_streams TraditionalReassemblyStreams_Add
  TraditionalReassemblyStreams_HandleForwardTsn TraditionalReassemblyStreams_ResetStreams trs_bytes trs_ok
  by unfold_locales
    (rule TraditionalReassemblyStreams_Add_bytes TraditionalReassemblyStreams_HandleForwardTsn_bytes
      TraditionalReassemblyStreams_ResetStreams_bytes; assumption)+

lemma TraditionalReassemblyStreams_new_ok [simp]:
  "trs_ok TraditionalReassemblyStreams_new" "trs_bytes TraditionalReassemblyStreams_new = 0"
  by (simp_all add: TraditionalReassemblyStreams_new_def trs_ok_def trs_bytes_def)

section \<open>Delivery in order\<close>

text \<open>
  A message on an ordered stream as it is sent without interleaving: its fragments have consecutive
  TSNs, the sequence number of the message, non-empty payloads, and only the first and the last
  one are marked as such.
\<close>

definition ordered_message :: "nat \<Rightarrow> Fragment list \<Rightarrow> bool" where
  "ordered_message j fs \<longleftrightarrow> fs \<noteq> [] \<and> chunk_bytes fs \<le> kMaxInt \<and>
     (\<forall>i<length fs. fst (fs ! i) = fst (fs ! 0) + int i \<and> data_ssn (snd (fs ! i)) = of_nat j \<and>
        data_payload (snd (fs ! i)) \<noteq> [] \<and> (data_is_beginning (snd (fs ! i)) \<longleftrightarrow> i = 0) \<and>
        (data_is_end (snd (fs ! i)) \<longleftrightarrow> Suc i = length fs))"

definition positions :: "(nat \<times> nat) set \<Rightarrow> nat \<Rightarrow> nat set" where
  "positions arrived j = {i. (j, i) \<in> arrived}"

definition os_holds :: "(nat \<Rightarrow> Fragment list) \<Rightarrow> (nat \<times> nat) set \<Rightarrow> nat \<Rightarrow> OrderedStream \<Rightarrow> bool" where
  "os_holds sent arrived k s \<longleftrightarrow> om_ok (os_chunks_by_ssn s) \<and> os_next_ssn s = int k \<and>
     (\<forall>x. om_find (os_chunks_by_ssn s) x =
        (if x < int k \<or> nths (sent (nat x)) (positions arrived (nat x)) = [] then None
         else Some (nths (sent (nat x)) (positions arrived (nat x)))))"

definition os_simulates :: "(nat \<Rightarrow> Fragment list) \<Rightarrow> (nat \<times> nat) set \<Rightarrow> nat \<Rightarrow> OrderedStream \<Rightarrow> bool" where
  "os_simulates sent arrived k s \<longleftrightarrow>
     (\<forall>j. ordered_message j (sent j)) \<and> os_holds sent arrived k s \<and>
     (\<forall>j<k. complete sent arrived j) \<and> \<not> complete sent arrived k \<and>
     unwrapper_ok (os_ssn_unwrapper s) \<and> snu_last_value (os_ssn_unwrapper s) \<noteq> None"

definition os_newest :: "OrderedStream \<Rightarrow> int" where
  "os_newest s = snu_last_unwrapped (os_ssn_unwrapper s)"

lemma positions_insert: "positions (insert (j, i) arrived) j' = (if j' = j then insert i (positions arrived j) else positions arrived j')"
  by (auto simp: positions_def)

lemma complete_iff: "complete sent arrived j \<longleftrightarrow> nths (sent j) (positions arrived j) = sent j"
  by (simp add: complete_def nths_full_iff positions_def)

lemma ordered_message_whole: "ordered_message j fs \<Longrightarrow> fs \<noteq> [] \<and> chunk_bytes fs \<le> kMaxInt"
  unfolding ordered_message_def by blast

lemma ordered_message_at:
  assumes "ordered_message j fs" and "i < length fs"
  shows "fst (fs ! i) = fst (fs ! 0) + int i" and "data_ssn (snd (fs ! i)) = of_nat j"
    and "data_payload (snd (fs ! i)) \<noteq> []" and "data_is_beginning (snd (fs ! i)) \<longleftrightarrow> i = 0"
    and "data_is_end (snd (fs ! i)) \<longleftrightarrow> Suc i = length fs"
  using assms unfolding ordered_message_def by blast+

lemma ordered_message_ok: "ordered_message j fs \<Longrightarrow> om_ok fs"
proof -
  assume fs: "ordered_message j fs"
  have "fst (fs ! a) < fst (fs ! b)" if "a < b" "b < length fs" for a b
    using ordered_message_at(1) [OF fs, of a] ordered_message_at(1) [OF fs, of b] that by linarith
  then show ?thesis by (simp add: om_ok_def sorted_wrt_iff_nth_less)
qed

lemma AssembleMessage_message:
  assumes "fs \<noteq> []" and "chunk_bytes fs \<le> kMaxInt"
  shows "AssembleMessage fs = (chunk_bytes fs, message_of fs)"
proof (cases "length fs = 1")
  case True
  then obtain p where "fs = [p]" by (metis One_nat_def length_0_conv length_Suc_conv)
  then show ?thesis by (simp add: AssembleMessage_def AssembleMessage_one_def message_of_def chunk_bytes_def)
next
  case False
  with assms accumulate_eq [of "map (Data_size \<circ> snd) fs"] show ?thesis
    by (simp add: AssembleMessage_def message_of_def chunk_bytes_sum)
qed

lemma ordered_message_length: "ordered_message j fs \<Longrightarrow> length fs \<le> chunk_bytes fs"
proof -
  assume fs: "ordered_message j fs"
  have "\<forall>p\<in>set fs. 1 \<le> Data_size (snd p)"
    using ordered_message_at(3) [OF fs] by (metis Data_size_def One_nat_def Suc_leI in_set_conv_nth length_greater_0_conv)
  then show ?thesis by (induction fs) (auto simp: chunk_bytes_def)
qed

lemma ordered_message_short: "ordered_message j fs \<Longrightarrow> length fs - 1 < 2 ^ 32"
proof -
  assume "ordered_message j fs"
  then have "length fs \<le> 2147483647"
    using ordered_message_length ordered_message_whole le_trans unfolding kMaxInt_def by blast
  then show ?thesis by simp
qed

text \<open>The test of \<open>TryToAssembleMessage\<close> recognises exactly the complete messages.\<close>

lemma completeness_test:
  assumes "ordered_message j fs" and "nths fs I = f" and "f \<noteq> []"
  shows "(data_is_beginning (snd (hd f)) \<and> data_is_end (snd (last f)) \<and>
          unat (Difference (fst (last f)) (fst (hd f)) :: u32) = length f - 1) \<longleftrightarrow> f = fs"
proof -
  have pos: "0 < length fs" using assms(2,3) by auto
  let ?z = "length fs - 1"
  have "fst (fs ! ?z) - fst (fs ! 0) = int ?z"
    using ordered_message_at(1) [OF assms(1), of ?z] pos by simp
  then have "Difference (fst (fs ! ?z)) (fst (fs ! 0)) = (of_nat ?z :: u32)"
    unfolding Difference_eq by (metis abs_of_nat of_int_of_nat_eq)
  then have diff: "unat (Difference (fst (fs ! ?z)) (fst (fs ! 0)) :: u32) = ?z"
    using unat_of_nat_word_eq [of ?z, where 'a = 32] ordered_message_short [OF assms(1)] by simp
  obtain a b where ab: "a < length fs" "hd f = fs ! a" "b < length fs" "last f = fs ! b"
    using assms(2,3) hd_in_set last_in_set set_nths_mem by metis
  note flags = ordered_message_at(4) [OF assms(1) ab(1)] ordered_message_at(5) [OF assms(1) ab(3)]
  show ?thesis
  proof
    assume lhs: "data_is_beginning (snd (hd f)) \<and> data_is_end (snd (last f)) \<and>
      unat (Difference (fst (last f)) (fst (hd f)) :: u32) = length f - 1"
    with ab flags have "a = 0" "b = ?z" by auto
    with lhs ab diff have "length f - 1 = ?z" by metis
    moreover have "0 < length f" using assms(3) by simp
    ultimately have "length (nths fs I) = length fs" unfolding assms(2) using pos by linarith
    then show "f = fs" using nths_full_length assms(2) by metis
  next
    assume "f = fs"
    then have ends: "hd f = fs ! 0" "last f = fs ! ?z"
      using assms(3) by (simp_all add: hd_conv_nth last_conv_nth)
    moreover have "data_is_beginning (snd (fs ! 0))" "data_is_end (snd (fs ! ?z))"
      using ordered_message_at(4) [OF assms(1) pos] ordered_message_at(5) [OF assms(1), of ?z] pos by simp_all
    ultimately show "data_is_beginning (snd (hd f)) \<and> data_is_end (snd (last f)) \<and>
      unat (Difference (fst (last f)) (fst (hd f)) :: u32) = length f - 1"
      using diff \<open>f = fs\<close> by metis
  qed
qed

lemma os_holds_front:
  assumes "os_holds sent arrived k s" and f: "f = nths (sent k) (positions arrived k)"
  shows "f = [] \<Longrightarrow> os_chunks_by_ssn s = [] \<or> fst (hd (os_chunks_by_ssn s)) \<noteq> int k"
    and "f \<noteq> [] \<Longrightarrow> \<exists>rest. os_chunks_by_ssn s = (int k, f) # rest"
proof -
  let ?m = "os_chunks_by_ssn s"
  have ok: "om_ok ?m" and find: "om_find ?m (int k) = (if f = [] then None else Some f)"
    using assms by (simp_all add: os_holds_def)
  have low: "om_find ?m x = None" if "x < int k" for x
    using assms(1) that by (simp add: os_holds_def)
  show "?m = [] \<or> fst (hd ?m) \<noteq> int k" if "f = []"
    using find that hd_in_set [of ?m] by (metis image_eqI om_find_None)
  show "\<exists>rest. ?m = (int k, f) # rest" if "f \<noteq> []"
  proof -
    have "(int k, f) \<in> set ?m" using find that by (simp add: om_find_Some)
    then have "fst (hd ?m) \<le> int k" using om_ok_hd_least [OF ok, of "int k"] by (metis fst_conv image_eqI)
    moreover have "?m \<noteq> []" using \<open>(int k, f) \<in> set ?m\<close> by auto
    moreover have "\<not> fst (hd ?m) < int k"
      using low [of "fst (hd ?m)"] hd_in_set [OF \<open>?m \<noteq> []\<close>] by (auto simp: om_find_None)
    ultimately obtain v rest where m: "?m = (int k, v) # rest" by (cases ?m) auto
    with find that show ?thesis by (simp add: om_find_def)
  qed
qed

lemma os_holds_incomplete:
  assumes "os_holds sent arrived k s" and "ordered_message k (sent k)" and "\<not> complete sent arrived k"
  shows "OrderedStream_TryToAssembleMessage s = (0, [], s)"
proof (cases "nths (sent k) (positions arrived k) = []")
  case True
  have "os_next_ssn s = int k" using assms(1) by (simp add: os_holds_def)
  with os_holds_front(1) [OF assms(1) refl True] show ?thesis
    by (simp add: OrderedStream_TryToAssembleMessage_def)
next
  case False
  let ?f = "nths (sent k) (positions arrived k)"
  obtain rest where "os_chunks_by_ssn s = (int k, ?f) # rest"
    using os_holds_front(2) [OF assms(1) refl False] by blast
  moreover have "?f \<noteq> sent k" using assms(3) by (simp add: complete_iff)
  ultimately show ?thesis
    using completeness_test [OF assms(2) refl False] assms(1)
    by (auto simp: OrderedStream_TryToAssembleMessage_def Let_def os_holds_def)
qed

lemma os_holds_complete:
  assumes "os_holds sent arrived k s" and "ordered_message k (sent k)" and "complete sent arrived k"
  shows "\<exists>n s'. OrderedStream_TryToAssembleMessage s = (n, [message_of (sent k)], s') \<and> n \<noteq> 0 \<and>
           os_holds sent arrived (Suc k) s' \<and> os_ssn_unwrapper s' = os_ssn_unwrapper s"
proof -
  let ?f = "nths (sent k) (positions arrived k)"
  have f: "?f = sent k" "sent k \<noteq> []" using assms(2,3) using ordered_message_whole by (auto simp: complete_iff)
  obtain rest where rest: "os_chunks_by_ssn s = (int k, sent k) # rest"
    using os_holds_front(2) [OF assms(1) refl] f by auto
  let ?s = "s\<lparr>os_chunks_by_ssn := rest, os_next_ssn := os_next_ssn s + 1\<rparr>"
  have bytes: "chunk_bytes (sent k) \<le> kMaxInt" "chunk_bytes (sent k) \<noteq> 0"
    using ordered_message_whole [OF assms(2)] ordered_message_length [OF assms(2)] f(2)
    by (auto simp: less_le_trans [OF _ ordered_message_length [OF assms(2)]])
  have "OrderedStream_TryToAssembleMessage s = (chunk_bytes (sent k), [message_of (sent k)], ?s)"
    using completeness_test [OF assms(2) f(1) f(2)] rest assms(1) AssembleMessage_message [OF f(2) bytes(1)]
    by (auto simp: OrderedStream_TryToAssembleMessage_def Let_def os_holds_def)
  moreover have "om_find rest x = (if x = int k then None else om_find (os_chunks_by_ssn s) x)" for x
    using assms(1) rest by (auto simp: os_holds_def om_find_def map_of_eq_None_iff)
  then have "os_holds sent arrived (Suc k) ?s"
    using assms(1) rest by (auto simp: os_holds_def)
  ultimately show ?thesis using bytes(2) by fastforce
qed

lemma os_holds_messages:
  assumes "os_holds sent arrived k s" and "\<forall>j. ordered_message j (sent j)" and "\<forall>j<k. complete sent arrived j"
    and "OrderedStream_TryToAssembleMessages s = (n, ms, s')"
  shows "\<exists>k'\<ge>k. os_holds sent arrived k' s' \<and> (\<forall>j<k'. complete sent arrived j) \<and> \<not> complete sent arrived k' \<and>
           ms = map (message_of \<circ> sent) [k..<k'] \<and> os_ssn_unwrapper s' = os_ssn_unwrapper s"
  using assms(1,3,4)
proof (induction s arbitrary: k n ms s' rule: OrderedStream_TryToAssembleMessages.induct)
  case (1 s)
  show ?case
  proof (cases "complete sent arrived k")
    case False
    have "OrderedStream_TryToAssembleMessage s = (0, [], s)"
      using os_holds_incomplete [OF "1.prems"(1) _ False] assms(2) by blast
    then have "ms = [] \<and> s' = s"
      using "1.prems"(3) by (subst (asm) OrderedStream_TryToAssembleMessages.simps) simp
    with "1.prems"(1,2) False show ?thesis by (intro exI [of _ k]) simp
  next
    case True
    obtain n1 s1 where one: "OrderedStream_TryToAssembleMessage s = (n1, [message_of (sent k)], s1)" "n1 \<noteq> 0"
        "os_holds sent arrived (Suc k) s1" "os_ssn_unwrapper s1 = os_ssn_unwrapper s"
      using os_holds_complete [OF "1.prems"(1) _ True] assms(2) by blast
    obtain n2 ms2 s2 where 2: "OrderedStream_TryToAssembleMessages s1 = (n2, ms2, s2)" by (metis prod_cases3)
    have eqs: "ms = message_of (sent k) # ms2" "s' = s2"
      using "1.prems"(3) one(1,2) 2 by (subst (asm) OrderedStream_TryToAssembleMessages.simps, simp)+
    have "\<forall>j<Suc k. complete sent arrived j" using "1.prems"(2) True less_Suc_eq by metis
    from "1.IH" [OF one(1) [symmetric] refl one(2,3) this 2] obtain k' where k': "Suc k \<le> k'"
        "os_holds sent arrived k' s2" "\<forall>j<k'. complete sent arrived j" "\<not> complete sent arrived k'"
        "ms2 = map (message_of \<circ> sent) [Suc k..<k']" "os_ssn_unwrapper s2 = os_ssn_unwrapper s1"
      by blast
    then have "ms = map (message_of \<circ> sent) [k..<k']" using eqs(1) by (simp add: upt_conv_Cons)
    with k' eqs(2) one(4) show ?thesis by (intro exI [of _ k']) simp
  qed
qed

lemma os_holds_at:
  assumes "os_holds sent arrived k s" and "k \<le> j"
  shows "om_at [] (int j) (os_chunks_by_ssn s) = nths (sent j) (positions arrived j)"
  using assms by (simp add: os_holds_def om_at_def)

lemma os_holds_emplace:
  assumes "os_holds sent arrived k s" and "ordered_message j (sent j)" and "k \<le> j"
    and "i < length (sent j)" and "(j, i) \<notin> arrived"
  shows "\<exists>s'. OrderedStream_emplace (int j) (fst (sent j ! i)) (snd (sent j ! i)) s = (True, s') \<and>
           os_holds sent (insert (j, i) arrived) k s' \<and> os_ssn_unwrapper s' = os_ssn_unwrapper s"
proof -
  let ?m = "os_chunks_by_ssn s" and ?f = "nths (sent j) (insert i (positions arrived j))"
  let ?s = "s\<lparr>os_chunks_by_ssn := om_insert (int j) ?f ?m\<rparr>"
  have "i \<notin> positions arrived j" using assms(5) by (simp add: positions_def)
  with om_emplace_nths [OF ordered_message_ok [OF assms(2)] assms(4)] os_holds_at [OF assms(1,3)]
  have "OrderedStream_emplace (int j) (fst (sent j ! i)) (snd (sent j ! i)) s = (True, ?s)"
    by (simp add: OrderedStream_emplace_def)
  moreover have "os_holds sent (insert (j, i) arrived) k ?s"
  proof -
    have ok: "om_ok ?m" using assms(1) by (simp add: os_holds_def)
    have "?f \<noteq> []" using assms(4) set_nths_mem [of "sent j ! i" "sent j"] by (metis empty_iff insertI1 list.set(1))
    have "om_find (om_insert (int j) ?f ?m) x =
        (if x < int k \<or> nths (sent (nat x)) (positions (insert (j, i) arrived) (nat x)) = [] then None
         else Some (nths (sent (nat x)) (positions (insert (j, i) arrived) (nat x))))" for x
    proof (cases "x = int j")
      case True
      with assms(3) \<open>?f \<noteq> []\<close> show ?thesis by (simp add: om_find_insert [OF ok] positions_insert)
    next
      case False
      then have "nat x \<noteq> j \<or> x < int k" by (cases "x < 0") auto
      with False assms(1) show ?thesis by (auto simp: om_find_insert [OF ok] positions_insert os_holds_def)
    qed
    then show ?thesis using assms(1) om_insert_ok [OF ok] by (simp add: os_holds_def)
  qed
  ultimately show ?thesis by (intro exI [of _ ?s]) simp
qed

lemma complete_insert_iff:
  "j' \<noteq> j \<Longrightarrow> complete sent (insert (j, i) arrived) j' \<longleftrightarrow> complete sent arrived j'"
  "complete sent arrived j' \<Longrightarrow> complete sent (insert (j, i) arrived) j'"
  by (auto simp: complete_def)

lemma single_fragment_holds:
  assumes "os_holds sent arrived k s" and "(k, 0) \<notin> arrived" and "length (sent k) = 1"
  shows "os_holds sent (insert (k, 0) arrived) (Suc k) (s\<lparr>os_next_ssn := os_next_ssn s + 1\<rparr>)"
proof -
  obtain p where "sent k = [p]" using assms(3) by (metis One_nat_def length_0_conv length_Suc_conv)
  then have "nths (sent k) (positions arrived k) = []" using assms(2) by (simp add: positions_def)
  then have "om_find (os_chunks_by_ssn s) (int k) = None" using assms(1) by (simp add: os_holds_def)
  then have "om_find (os_chunks_by_ssn s) x =
      (if x < int (Suc k) \<or> nths (sent (nat x)) (positions (insert (k, 0) arrived) (nat x)) = [] then None
       else Some (nths (sent (nat x)) (positions (insert (k, 0) arrived) (nat x))))" for x
    using assms(1) by (cases "x = int k"; cases "x < int k") (auto simp: os_holds_def positions_insert)
  with assms(1) show ?thesis by (simp add: os_holds_def)
qed

lemma os_unwrap:
  assumes "unwrapper_ok (os_ssn_unwrapper s)" and "snu_last_value (os_ssn_unwrapper s) \<noteq> None"
    and "\<bar>int j - os_newest s\<bar> < 2 ^ 15"
  shows "\<exists>u. Unwrap (of_nat j :: u16) (os_ssn_unwrapper s) = (int j, u) \<and> unwrapper_ok u \<and>
           snu_last_value u \<noteq> None \<and> snu_last_unwrapped u = int j"
proof -
  have "PeekUnwrap (word_of_int (int j) :: u16) (os_ssn_unwrapper s) = int j"
    using assms by (intro PeekUnwrap_near) (simp_all add: os_newest_def half_range_def)
  then obtain u where u: "Unwrap (of_nat j :: u16) (os_ssn_unwrapper s) = (int j, u)"
    by (metis PeekUnwrap_Unwrap of_int_of_nat_eq prod.collapse)
  from Unwrap_ok [OF assms(1) u] u show ?thesis by auto
qed

lemma fastpath_simulates:
  assumes "os_holds sent arrived k s" and "\<forall>j. ordered_message j (sent j)" and "\<forall>j<k. complete sent arrived j"
    and "i < length (sent k)" and "(k, i) \<notin> arrived"
    and "OrderedStream_TryToAssembleMessagesFastpath (int k) (fst (sent k ! i)) (snd (sent k ! i)) s = (n, ms, s')"
  shows "\<exists>k'\<ge>k. os_holds sent (insert (k, i) arrived) k' s' \<and>
           (\<forall>j<k'. complete sent (insert (k, i) arrived) j) \<and> \<not> complete sent (insert (k, i) arrived) k' \<and>
           ms = map (message_of \<circ> sent) [k..<k'] \<and> os_ssn_unwrapper s' = os_ssn_unwrapper s"
proof -
  let ?A = "insert (k, i) arrived" and ?d = "snd (sent k ! i)"
  have before: "\<forall>j<k. complete sent ?A j" using assms(3) by (simp add: complete_insert_iff(2))
  note flags = ordered_message_at(4,5) [OF assms(2) [rule_format] assms(4)]
  show ?thesis
  proof (cases "data_is_beginning ?d \<and> data_is_end ?d")
    case True
    then have one: "i = 0" "length (sent k) = 1" using flags by auto
    let ?s = "s\<lparr>os_next_ssn := os_next_ssn s + 1\<rparr>"
    obtain p where p: "sent k = [p]" using one(2) by (metis One_nat_def length_0_conv length_Suc_conv)
    obtain n2 ms2 where 2: "OrderedStream_TryToAssembleMessages ?s = (n2, ms2, s')"
        "ms = message_of (sent k) # ms2"
      using assms(6) True one p
      by (auto simp: OrderedStream_TryToAssembleMessagesFastpath_def AssembleMessage_one_def message_of_def split: prod.splits)
    have "os_holds sent ?A (Suc k) ?s"
      using single_fragment_holds [OF assms(1) _ one(2)] assms(5) one(1) by simp
    moreover have "\<forall>j<Suc k. complete sent ?A j"
      using before one by (auto simp: less_Suc_eq complete_def)
    ultimately obtain k' where k': "Suc k \<le> k'" "os_holds sent ?A k' s'" "\<forall>j<k'. complete sent ?A j"
        "\<not> complete sent ?A k'" "ms2 = map (message_of \<circ> sent) [Suc k..<k']" "os_ssn_unwrapper s' = os_ssn_unwrapper ?s"
      using os_holds_messages [OF _ assms(2) _ 2(1)] by blast
    with 2(2) show ?thesis by (intro exI [of _ k']) (simp add: upt_conv_Cons)
  next
    case False
    obtain s1 where s1: "OrderedStream_emplace (int k) (fst (sent k ! i)) ?d s = (True, s1)"
        "os_holds sent ?A k s1" "os_ssn_unwrapper s1 = os_ssn_unwrapper s"
      using os_holds_emplace [OF assms(1) _ le_refl assms(4,5)] assms(2) by blast
    then have "OrderedStream_TryToAssembleMessages s1 = (n, ms, s')"
      using assms(6) False by (auto simp: OrderedStream_TryToAssembleMessagesFastpath_def)
    with os_holds_messages [OF s1(2) assms(2) before this] s1(3) show ?thesis by simp
  qed
qed

lemma OrderedStream_Add_simulates:
  assumes "os_simulates sent arrived k s" and "(j, i) \<notin> arrived" and "i < length (sent j)"
    and "\<bar>int j - os_newest s\<bar> < 2 ^ 15"
    and "OrderedStream_Add (fst (sent j ! i)) (snd (sent j ! i)) s = (r, ms, s')"
  shows "\<exists>k'\<ge>k. os_simulates sent (insert (j, i) arrived) k' s' \<and> os_newest s' = int j \<and>
           ms = map (message_of \<circ> sent) [k..<k']"
proof -
  note sim = assms(1) [unfolded os_simulates_def]
  have ssn: "data_ssn (snd (sent j ! i)) = of_nat j"
    using sim assms(3) by (blast intro: ordered_message_at(2))
  obtain u where u: "Unwrap (of_nat j :: u16) (os_ssn_unwrapper s) = (int j, u)" "unwrapper_ok u"
      "snu_last_value u \<noteq> None" "snu_last_unwrapped u = int j"
    using os_unwrap [OF _ _ assms(4)] sim by blast
  define s1 where "s1 = s\<lparr>os_ssn_unwrapper := u\<rparr>"
  have holds: "os_holds sent arrived k s1" using sim by (simp add: os_holds_def s1_def)
  have "k \<le> j" using sim assms(2,3) unfolding complete_def by (metis not_less)
  have next_k: "os_next_ssn s = int k" using sim by (simp add: os_holds_def)
  show ?thesis
  proof (cases "j = k")
    case True
    obtain n where "OrderedStream_TryToAssembleMessagesFastpath (int k) (fst (sent k ! i)) (snd (sent k ! i)) s1 = (n, ms, s')"
      using assms(5) u(1) True next_k ssn by (auto simp: OrderedStream_Add_def s1_def split: prod.splits)
    from fastpath_simulates [OF holds _ _ _ _ this] sim assms(2,3) True u(2-4) show ?thesis
      by (auto simp: os_simulates_def os_newest_def s1_def)
  next
    case False
    obtain s2 where s2: "OrderedStream_emplace (int j) (fst (sent j ! i)) (snd (sent j ! i)) s1 = (True, s2)"
        "os_holds sent (insert (j, i) arrived) k s2" "os_ssn_unwrapper s2 = u"
      using os_holds_emplace [OF holds _ \<open>k \<le> j\<close> assms(3,2)] sim by (auto simp: s1_def)
    then have "ms = [] \<and> s' = s2"
      using assms(5) u(1) False next_k ssn by (auto simp: OrderedStream_Add_def s1_def split: prod.splits)
    moreover have "os_simulates sent (insert (j, i) arrived) k s2"
      using sim s2(2,3) u(2,3) False by (simp add: os_simulates_def complete_insert_iff)
    ultimately show ?thesis using s2(3) u(4) by (intro exI [of _ k]) (simp add: os_newest_def)
  qed
qed

interpretation ordered_stream: ordered_receiver OrderedStream_Add os_simulates os_newest "2 ^ 15"
proof unfold_locales
  fix sent arrived k s j i r ms s'
  assume "os_simulates sent arrived k s" and "(j, i) \<notin> arrived" and "i < length (sent j)"
    and "\<bar>int j - os_newest s\<bar> < 2 ^ 15"
    and "OrderedStream_Add (fst (sent j ! i)) (snd (sent j ! i)) s = (r, ms, s')"
  then show "\<exists>k'\<ge>k. os_simulates sent (insert (j, i) arrived) k' s' \<and> os_newest s' = int j \<and>
      ms = map (message_of \<circ> sent) [k..<k']"
    by (rule OrderedStream_Add_simulates)
qed (simp add: os_simulates_def)

lemma os_simulates_new:
  assumes "\<forall>j. ordered_message j (sent j)"
  shows "os_simulates sent {} 0 (OrderedStream_new 0)" and "os_newest (OrderedStream_new 0) = 0"
proof -
  have "\<not> complete sent {} 0" using ordered_message_whole [of 0 "sent 0"] assms by (auto simp: complete_def)
  with assms show "os_simulates sent {} 0 (OrderedStream_new 0)"
    by (simp add: os_simulates_def OrderedStream_new_def os_holds_def Unwrap_def SeqNumUnwrapper_init_def
        om_find_def positions_def unwrapper_ok_def)
  show "os_newest (OrderedStream_new 0) = 0"
    by (simp add: os_newest_def OrderedStream_new_def Unwrap_def SeqNumUnwrapper_init_def)
qed

section \<open>Properties\<close>

text \<open>
  C10. An ordered stream delivers in order whatever the network does to the order: let each message
  be split into fragments with consecutive TSNs and let any selection of the fragments arrive, each
  once and in any order that keeps the stream sequence numbers of neighbouring arrivals less than
  half the range apart. Then exactly the messages before the first incomplete one have been
  delivered, in the order of sending, each with its whole payload.
\<close>

theorem ordered_stream_delivers_in_order:
  assumes "\<forall>j. ordered_message j (sent j)" and "in_flight sent arrivals"
    and "small_steps (2 ^ 15) 0 (map (int \<circ> fst) arrivals)"
    and "add_all OrderedStream_Add (map (\<lambda>(j, i). sent j ! i) arrivals) (OrderedStream_new 0) = (ms, s)"
  shows "\<exists>k. ms = map (message_of \<circ> sent) [0..<k] \<and> (\<forall>j<k. complete sent (set arrivals) j) \<and>
             \<not> complete sent (set arrivals) k"
  using ordered_stream.delivers_in_order [OF os_simulates_new(1) assms(2) _ assms(4)] assms(1,3)
  by (simp add: os_simulates_new(2))

definition sample_fragment :: "nat \<Rightarrow> nat \<Rightarrow> Fragment" where
  "sample_fragment j i =
     (int (10 + 2 * j + i),
      \<lparr>data_stream_id = 1, data_ssn = of_nat j, data_mid = of_nat j, data_fsn = of_nat i, data_ppid = 53,
       data_payload = [of_nat j, of_nat i], data_is_beginning = (i = 0), data_is_end = (i = 1),
       data_is_unordered = False\<rparr>)"

definition sample_sent :: "nat \<Rightarrow> Fragment list" where
  "sample_sent j = [sample_fragment j 0, sample_fragment j 1]"

lemma sample_sent_ordered: "ordered_message j (sample_sent j)"
  by (auto simp: ordered_message_def sample_sent_def sample_fragment_def chunk_bytes_def Data_size_def
      kMaxInt_def less_Suc_eq)

theorem ordered_stream_delivers_in_order_witness:
  "fst (add_all OrderedStream_Add (map (\<lambda>(j, i). sample_sent j ! i) [(1, 0), (0, 1), (2, 1), (1, 1), (0, 0)])
     (OrderedStream_new 0)) = [message_of (sample_sent 0), message_of (sample_sent 1)]"
proof -
  let ?a = "[(1, 0), (0, 1), (2, 1), (1, 1), (0, 0)] :: (nat \<times> nat) list"
  have "in_flight sample_sent ?a" by (simp add: in_flight_def sample_sent_def)
  moreover have "small_steps (2 ^ 15) 0 (map (int \<circ> fst) ?a)" by simp
  ultimately obtain k where k:
      "fst (add_all OrderedStream_Add (map (\<lambda>(j, i). sample_sent j ! i) ?a) (OrderedStream_new 0)) =
         map (message_of \<circ> sample_sent) [0..<k]"
      "\<forall>j<k. complete sample_sent (set ?a) j" "\<not> complete sample_sent (set ?a) k"
    using ordered_stream_delivers_in_order [of sample_sent ?a] sample_sent_ordered by (metis prod.collapse)
  have "complete sample_sent (set ?a) 0" "complete sample_sent (set ?a) 1" "\<not> complete sample_sent (set ?a) 2"
    by (auto simp: complete_def sample_sent_def less_Suc_eq)
  with k(2,3) have "k = 2" by (metis One_nat_def Suc_1 less_2_cases linorder_neqE_nat)
  then show ?thesis using k(1) by (simp add: upt_rec)
qed

end
