(* ===== verification/Interleaved_Reassembly.thy ===== *)
theory Interleaved_Reassembly
  imports Traditional_Reassembly
begin

text \<open>
  Reassembly with message interleaving, \<open>net/dcsctp/rx/interleaved_reassembly_streams.{h,cc}\<close>:
  the fragments of a message are found by message identifier and fragment sequence number, so that
  their TSNs need not be consecutive. The map \<open>streams_\<close> is ordered by \<open>FullStreamId\<close>; its
  \<open>operator<\<close> is not an order, and the model uses the lexicographic order for the map.
\<close>

section \<open>Stream identifiers\<close>

type_synonym FullStreamId = "bool \<times> u16"

definition FullStreamId_less :: "FullStreamId \<Rightarrow> FullStreamId \<Rightarrow> bool" where
  "FullStreamId_less a b \<longleftrightarrow>
     fst a < fst b \<or> (\<not> (fst a < fst b) \<and> snd a < snd b)"

section \<open>A stream\<close>

type_synonym FsnMap = "(u32, UnwrappedTSN \<times> Data) omap"

record InterleavedStream =
  is_stream_id :: FullStreamId
  is_chunks_by_mid :: "(UnwrappedMID, FsnMap) omap"
  is_mid_unwrapper :: "u32 SeqNumUnwrapper"
  is_next_mid :: UnwrappedMID

definition InterleavedStream_new :: "FullStreamId \<Rightarrow> u32 \<Rightarrow> InterleavedStream" where
  "InterleavedStream_new stream_id next_mid =
     (let (mid, unwrapper) = Unwrap next_mid SeqNumUnwrapper_init
      in \<lparr>is_stream_id = stream_id, is_chunks_by_mid = [], is_mid_unwrapper = unwrapper, is_next_mid = mid\<rparr>)"

definition InterleavedStream_AssembleMessage_one :: "UnwrappedTSN \<Rightarrow> Data \<Rightarrow> nat \<times> Assembled" where
  "InterleavedStream_AssembleMessage_one tsn data =
     (Data_size data,
      ([tsn], \<lparr>msg_stream_id = data_stream_id data, msg_ppid = data_ppid data,
               msg_payload = data_payload data\<rparr>))"

definition InterleavedStream_AssembleMessage :: "FsnMap \<Rightarrow> nat \<times> Assembled" where
  "InterleavedStream_AssembleMessage tsn_chunks =
     (if length tsn_chunks = 1
      then InterleavedStream_AssembleMessage_one (fst (snd (hd tsn_chunks))) (snd (snd (hd tsn_chunks)))
      else
        (accumulate (map (\<lambda>p. Data_size (snd (snd p))) tsn_chunks),
         (map (\<lambda>item. fst (snd item)) tsn_chunks,
          \<lparr>msg_stream_id = data_stream_id (snd (snd (hd tsn_chunks))),
           msg_ppid = data_ppid (snd (snd (hd tsn_chunks))),
           msg_payload = concat (map (\<lambda>item. data_payload (snd (snd item))) tsn_chunks)\<rparr>)))"

definition InterleavedStream_TryToAssembleMessage ::
  "UnwrappedMID \<Rightarrow> InterleavedStream \<Rightarrow> nat \<times> Assembled list \<times> InterleavedStream" where
  "InterleavedStream_TryToAssembleMessage mid s =
     (case om_find (is_chunks_by_mid s) mid of
        None \<Rightarrow> (0, [], s)
      | Some chunks \<Rightarrow>
          if \<not> data_is_beginning (snd (snd (hd chunks))) \<or> \<not> data_is_end (snd (snd (last chunks)))
          then (0, [], s)
          else
            let fsn_diff = uint (fst (last chunks) - fst (hd chunks)) in
            if fsn_diff \<noteq> int (length chunks) - 1 then (0, [], s)
            else
              let (removed_bytes, message) = InterleavedStream_AssembleMessage chunks
              in (removed_bytes, [message], s\<lparr>is_chunks_by_mid := om_erase mid (is_chunks_by_mid s)\<rparr>))"

lemma InterleavedStream_TryToAssembleMessage_shrinks:
  "InterleavedStream_TryToAssembleMessage mid s = (n, ms, s') \<Longrightarrow> n \<noteq> 0 \<Longrightarrow>
   length (is_chunks_by_mid s') < length (is_chunks_by_mid s)"
proof -
  assume "InterleavedStream_TryToAssembleMessage mid s = (n, ms, s')" and "n \<noteq> 0"
  then obtain chunks where "om_find (is_chunks_by_mid s) mid = Some chunks"
      "is_chunks_by_mid s' = om_erase mid (is_chunks_by_mid s)"
    by (auto simp: InterleavedStream_TryToAssembleMessage_def Let_def split: if_splits prod.splits option.splits)
  moreover have "length (filter P m) < length m" if "x \<in> set m" "\<not> P x" for P m and x :: "UnwrappedMID \<times> FsnMap"
    using that by (rule length_filter_less)
  ultimately show ?thesis
    unfolding om_erase_def by (metis (mono_tags) fst_conv om_find_Some)
qed

function InterleavedStream_TryToAssembleMessages ::
  "InterleavedStream \<Rightarrow> nat \<times> Assembled list \<times> InterleavedStream" where
  "InterleavedStream_TryToAssembleMessages s =
     (case InterleavedStream_TryToAssembleMessage (is_next_mid s) s of (removed_bytes_this_iter, messages, s') \<Rightarrow>
        if removed_bytes_this_iter = 0 then (0, messages, s')
        else
          case InterleavedStream_TryToAssembleMessages (s'\<lparr>is_next_mid := is_next_mid s' + 1\<rparr>) of
            (removed_bytes, more_messages, s'') \<Rightarrow>
              (removed_bytes_this_iter + removed_bytes, messages @ more_messages, s''))"
  by pat_completeness auto
termination
  by (relation "measure (length \<circ> is_chunks_by_mid)")
    (auto dest: InterleavedStream_TryToAssembleMessage_shrinks [OF sym])

declare InterleavedStream_TryToAssembleMessages.simps [simp del]

definition InterleavedStream_Add ::
  "UnwrappedTSN \<Rightarrow> Data \<Rightarrow> InterleavedStream \<Rightarrow> int \<times> Assembled list \<times> InterleavedStream" where
  "InterleavedStream_Add tsn data s =
     (let queued_bytes = int32_cast (int (Data_size data));
          (mid, unwrapper) = Unwrap (data_mid data) (is_mid_unwrapper s);
          s = s\<lparr>is_mid_unwrapper := unwrapper\<rparr>;
          fsn = data_fsn data;
          is_unordered = fst (is_stream_id s)
      in if is_unordered \<and> data_is_beginning data \<and> data_is_end data then
           (0, [snd (InterleavedStream_AssembleMessage_one tsn data)], s)
         else if \<not> is_unordered \<and> mid = is_next_mid s \<and> data_is_beginning data \<and> data_is_end data then
           let message = snd (InterleavedStream_AssembleMessage_one tsn data);
               s = s\<lparr>is_next_mid := is_next_mid s + 1\<rparr>;
               (bytes, messages, s) = InterleavedStream_TryToAssembleMessages s
           in (int32_cast (- int bytes), message # messages, s)
         else
           let (chunks, inserted) = om_emplace fsn (tsn, data) (om_at [] mid (is_chunks_by_mid s));
               s = s\<lparr>is_chunks_by_mid := om_insert mid chunks (is_chunks_by_mid s)\<rparr>
           in if \<not> inserted then (0, [], s)
              else if is_unordered then
                let (bytes, messages, s) = InterleavedStream_TryToAssembleMessage mid s
                in (int32_cast (queued_bytes - int bytes), messages, s)
              else if mid = is_next_mid s then
                let (bytes, messages, s) = InterleavedStream_TryToAssembleMessages s
                in (int32_cast (queued_bytes - int bytes), messages, s)
              else (queued_bytes, [], s))"

definition InterleavedStream_EraseTo :: "u32 \<Rightarrow> InterleavedStream \<Rightarrow> nat \<times> Assembled list \<times> InterleavedStream" where
  "InterleavedStream_EraseTo mid s =
     (let (unwrapped_mid, unwrapper) = Unwrap mid (is_mid_unwrapper s);
          it = om_upper_bound unwrapped_mid (is_chunks_by_mid s);
          removed_bytes =
            sum_list (map (\<lambda>p. accumulate (map (\<lambda>q. Data_size (snd (snd q))) (snd p)))
                        (take it (is_chunks_by_mid s)));
          s = s\<lparr>is_mid_unwrapper := unwrapper, is_chunks_by_mid := drop it (is_chunks_by_mid s)\<rparr>
      in if \<not> fst (is_stream_id s) then
           let s = (if unwrapped_mid \<ge> is_next_mid s
                    then s\<lparr>is_next_mid := next_value unwrapped_mid\<rparr> else s);
               (bytes, messages, s) = InterleavedStream_TryToAssembleMessages s
           in (removed_bytes + bytes, messages, s)
         else (removed_bytes, [], s))"

definition InterleavedStream_Reset :: "InterleavedStream \<Rightarrow> InterleavedStream" where
  "InterleavedStream_Reset s =
     (let (mid, unwrapper) = Unwrap 0 (SeqNumUnwrapper_Reset (is_mid_unwrapper s))
      in s\<lparr>is_mid_unwrapper := unwrapper, is_next_mid := mid\<rparr>)"

definition InterleavedStream_AddHandoverState ::
  "InterleavedStream \<Rightarrow> DcSctpSocketHandoverState \<Rightarrow> DcSctpSocketHandoverState" where
  "InterleavedStream_AddHandoverState s state =
     (if fst (is_stream_id s)
      then state\<lparr>hs_rx := (hs_rx state)\<lparr>hr_unordered_streams := hr_unordered_streams (hs_rx state) @
             [\<lparr>hus_id = ucast (snd (is_stream_id s))\<rparr>]\<rparr>\<rparr>
      else state\<lparr>hs_rx := (hs_rx state)\<lparr>hr_ordered_streams := hr_ordered_streams (hs_rx state) @
             [\<lparr>hors_id = ucast (snd (is_stream_id s)), hors_next_ssn = Wrap (is_next_mid s)\<rparr>]\<rparr>\<rparr>)"

section \<open>All streams\<close>

type_synonym InterleavedReassemblyStreams = "(FullStreamId, InterleavedStream) omap"

text \<open>\<open>GetOrCreateStream\<close> returns a reference; the updated stream is stored by the caller.\<close>

definition GetOrCreateStream :: "FullStreamId \<Rightarrow> InterleavedReassemblyStreams \<Rightarrow> InterleavedStream" where
  "GetOrCreateStream stream_id streams = om_at (InterleavedStream_new stream_id 0) stream_id streams"

definition InterleavedReassemblyStreams_Add ::
  "UnwrappedTSN \<Rightarrow> Data \<Rightarrow> InterleavedReassemblyStreams \<Rightarrow>
   int \<times> Assembled list \<times> InterleavedReassemblyStreams" where
  "InterleavedReassemblyStreams_Add tsn data streams =
     (let stream_id = (data_is_unordered data, data_stream_id data);
          (r, messages, stream) = InterleavedStream_Add tsn data (GetOrCreateStream stream_id streams)
      in (r, messages, om_insert stream_id stream streams))"

fun skip_streams ::
  "SkippedStream list \<Rightarrow> InterleavedReassemblyStreams \<Rightarrow> nat \<times> Assembled list \<times> InterleavedReassemblyStreams" where
  "skip_streams [] streams = (0, [], streams)"
| "skip_streams (skipped # skipped_streams) streams =
     (let stream_id = (ss_unordered skipped, ss_stream_id skipped);
          (removed, messages, stream) =
            InterleavedStream_EraseTo (ss_mid skipped) (GetOrCreateStream stream_id streams);
          (more_bytes, more_messages, streams) = skip_streams skipped_streams (om_insert stream_id stream streams)
      in (removed + more_bytes, messages @ more_messages, streams))"

definition InterleavedReassemblyStreams_HandleForwardTsn ::
  "UnwrappedTSN \<Rightarrow> SkippedStream list \<Rightarrow> InterleavedReassemblyStreams \<Rightarrow>
   nat \<times> Assembled list \<times> InterleavedReassemblyStreams" where
  "InterleavedReassemblyStreams_HandleForwardTsn new_cumulative_ack_tsn skipped_streams streams =
     skip_streams skipped_streams streams"

definition reset_stream :: "FullStreamId \<Rightarrow> InterleavedReassemblyStreams \<Rightarrow> InterleavedReassemblyStreams" where
  "reset_stream stream_id streams =
     om_insert stream_id (InterleavedStream_Reset (GetOrCreateStream stream_id streams)) streams"

definition InterleavedReassemblyStreams_ResetStreams ::
  "u16 list \<Rightarrow> InterleavedReassemblyStreams \<Rightarrow> InterleavedReassemblyStreams" where
  "InterleavedReassemblyStreams_ResetStreams stream_ids streams =
     (if stream_ids = [] then map (\<lambda>(stream_id, stream). (stream_id, InterleavedStream_Reset stream)) streams
      else fold (\<lambda>stream_id streams. reset_stream (False, stream_id) (reset_stream (True, stream_id) streams))
             stream_ids streams)"

definition InterleavedReassemblyStreams_GetHandoverReadiness ::
  "InterleavedReassemblyStreams \<Rightarrow> HandoverReadinessStatus" where
  "InterleavedReassemblyStreams_GetHandoverReadiness streams =
     (case find (\<lambda>p. is_chunks_by_mid (snd p) \<noteq> []) streams of
        None \<Rightarrow> HandoverReadinessStatus_none
      | Some ((is_unordered, _), _) \<Rightarrow>
          HandoverReadinessStatus_Add
            (if is_unordered then kUnorderedStreamHasUnassembledChunks else kOrderedStreamHasUnassembledChunks)
            HandoverReadinessStatus_none)"

definition InterleavedReassemblyStreams_AddHandoverState ::
  "InterleavedReassemblyStreams \<Rightarrow> DcSctpSocketHandoverState \<Rightarrow> DcSctpSocketHandoverState" where
  "InterleavedReassemblyStreams_AddHandoverState streams =
     fold (\<lambda>p. InterleavedStream_AddHandoverState (snd p)) streams"

definition InterleavedReassemblyStreams_RestoreFromState ::
  "DcSctpSocketHandoverState \<Rightarrow> InterleavedReassemblyStreams \<Rightarrow> InterleavedReassemblyStreams" where
  "InterleavedReassemblyStreams_RestoreFromState state streams =
     fold (\<lambda>s m. let stream_id = (True, ucast (hus_id s))
                 in fst (om_emplace stream_id (InterleavedStream_new stream_id 0) m))
       (hr_unordered_streams (hs_rx state))
       (fold (\<lambda>s m. let stream_id = (False, ucast (hors_id s))
                    in fst (om_emplace stream_id (InterleavedStream_new stream_id (hors_next_ssn s)) m))
          (hr_ordered_streams (hs_rx state)) streams)"

section \<open>Byte accounting\<close>

definition fsn_bytes :: "FsnMap \<Rightarrow> nat" where
  "fsn_bytes = om_weight (\<lambda>p. Data_size (snd p))"

definition is_bytes :: "InterleavedStream \<Rightarrow> nat" where
  "is_bytes s = om_weight fsn_bytes (is_chunks_by_mid s)"

definition irs_bytes :: "InterleavedReassemblyStreams \<Rightarrow> nat" where
  "irs_bytes = om_weight is_bytes"

definition is_ok :: "InterleavedStream \<Rightarrow> bool" where
  "is_ok s \<longleftrightarrow> om_ok (is_chunks_by_mid s) \<and>
     om_all (\<lambda>chunks. om_ok chunks \<and> chunks \<noteq> []) (is_chunks_by_mid s)"

definition irs_ok :: "InterleavedReassemblyStreams \<Rightarrow> bool" where
  "irs_ok streams \<longleftrightarrow> om_ok streams \<and> om_all is_ok streams"

lemma fsn_bytes_Nil [simp]: "fsn_bytes [] = 0"
  by (simp add: fsn_bytes_def)

lemma fsn_bytes_chunks: "fsn_bytes m = chunk_bytes (map snd m)"
  by (simp add: fsn_bytes_def chunk_bytes_def om_weight_def comp_def)

lemma fsn_bytes_sum: "fsn_bytes m = sum_list (map (\<lambda>p. Data_size (snd (snd p))) m)"
  by (simp add: fsn_bytes_def om_weight_def)

text \<open>Both implementations assemble a message in the same way.\<close>

lemma InterleavedStream_AssembleMessage_eq:
  "m \<noteq> [] \<Longrightarrow> InterleavedStream_AssembleMessage m = AssembleMessage (map snd m)"
  by (simp add: InterleavedStream_AssembleMessage_def InterleavedStream_AssembleMessage_one_def
      AssembleMessage_def AssembleMessage_one_def hd_map comp_def)

lemma InterleavedStream_TryToAssembleMessage_bytes:
  assumes "is_ok s" and "is_bytes s \<le> kMaxInt" and "InterleavedStream_TryToAssembleMessage mid s = (n, ms, s')"
  shows "is_ok s' \<and> is_bytes s' + n = is_bytes s \<and> delivered_bytes ms = n"
proof (cases "ms = []")
  case True
  with assms show ?thesis
    by (auto simp: InterleavedStream_TryToAssembleMessage_def Let_def split: if_splits prod.splits option.splits)
next
  case False
  then obtain chunks message where *: "om_find (is_chunks_by_mid s) mid = Some chunks"
      "InterleavedStream_AssembleMessage chunks = (n, message)" "ms = [message]"
      "s' = s\<lparr>is_chunks_by_mid := om_erase mid (is_chunks_by_mid s)\<rparr>"
    using assms(3)
    by (auto simp: InterleavedStream_TryToAssembleMessage_def Let_def split: if_splits prod.splits option.splits)
  have "chunks \<noteq> []" using assms(1) om_find_Some [OF *(1)] unfolding is_ok_def om_all_def by fastforce
  then have a: "AssembleMessage (map snd chunks) = (n, message)"
    using *(2) InterleavedStream_AssembleMessage_eq by simp
  have w: "is_bytes s' + fsn_bytes chunks = is_bytes s"
    using om_weight_erase [OF _ *(1)] assms(1) by (simp add: is_bytes_def is_ok_def *(4))
  with assms(2) have "chunk_bytes (map snd chunks) \<le> kMaxInt" by (simp add: fsn_bytes_chunks)
  moreover have "is_ok s'"
    using assms(1) om_erase_ok [of "is_chunks_by_mid s" mid] unfolding is_ok_def *(4)
    by (auto simp: om_all_def om_erase_def)
  ultimately show ?thesis
    using AssembleMessage_bytes [OF _ a] w *(3) by (simp add: fsn_bytes_chunks)
qed

lemma InterleavedStream_TryToAssembleMessages_bytes:
  assumes "is_ok s" and "is_bytes s \<le> kMaxInt" and "InterleavedStream_TryToAssembleMessages s = (n, ms, s')"
  shows "is_ok s' \<and> is_bytes s' + n = is_bytes s \<and> delivered_bytes ms = n"
  using assms
proof (induction s arbitrary: n ms s' rule: InterleavedStream_TryToAssembleMessages.induct)
  case (1 s)
  obtain n1 ms1 s1 where 1: "InterleavedStream_TryToAssembleMessage (is_next_mid s) s = (n1, ms1, s1)"
    by (metis prod_cases3)
  note first = InterleavedStream_TryToAssembleMessage_bytes [OF "1.prems"(1,2) 1]
  show ?case
  proof (cases "n1 = 0")
    case True
    with first 1 "1.prems"(3) show ?thesis
      by (subst (asm) InterleavedStream_TryToAssembleMessages.simps) auto
  next
    case False
    let ?s = "s1\<lparr>is_next_mid := is_next_mid s1 + 1\<rparr>"
    obtain n2 ms2 s2 where 2: "InterleavedStream_TryToAssembleMessages ?s = (n2, ms2, s2)" by (metis prod_cases3)
    have "is_ok ?s" "is_bytes ?s = is_bytes s1" using first by (simp_all add: is_ok_def is_bytes_def)
    then have rest: "is_ok s2 \<and> is_bytes s2 + n2 = is_bytes s1 \<and> delivered_bytes ms2 = n2"
      using "1.IH" [OF 1 [symmetric] refl False _ _ 2] first "1.prems"(2) by simp
    moreover have "n = n1 + n2" "ms = ms1 @ ms2" "s' = s2"
      using "1.prems"(3) 1 2 False by (subst (asm) InterleavedStream_TryToAssembleMessages.simps, simp)+
    ultimately show ?thesis using first by simp
  qed
qed

lemma emplace_fragment_bytes:
  assumes "is_ok s" and "om_emplace fsn (tsn, data) (om_at [] mid (is_chunks_by_mid s)) = (chunks, inserted)"
    and "s' = s\<lparr>is_chunks_by_mid := om_insert mid chunks (is_chunks_by_mid s)\<rparr>"
  shows "is_ok s' \<and> is_bytes s' = is_bytes s + (if inserted then Data_size data else 0)"
proof -
  let ?at = "om_at [] mid (is_chunks_by_mid s)"
  have "om_ok ?at"
    using assms(1) unfolding is_ok_def by (intro om_all_at [of om_ok]) (auto simp: om_all_def)
  from om_emplace_weight [OF this assms(2), of "\<lambda>p. Data_size (snd p)"]
  have em: "om_ok chunks" "chunks \<noteq> []" "fsn_bytes chunks = fsn_bytes ?at + (if inserted then Data_size data else 0)"
    by (simp_all add: fsn_bytes_def)
  have "is_ok s'" using assms(1) em(1,2) by (simp add: is_ok_def assms(3) om_insert_ok om_all_insert)
  moreover have "is_bytes s' + fsn_bytes ?at = is_bytes s + fsn_bytes chunks"
    using om_weight_insert [of "is_chunks_by_mid s" fsn_bytes "[]" mid chunks] assms(1)
    by (simp add: is_bytes_def is_ok_def assms(3))
  ultimately show ?thesis using em(3) by simp
qed

text \<open>The three ways of \<open>Add\<close>: deliver directly, deliver and unblock, or store.\<close>

lemma InterleavedStream_Add_cases:
  assumes "InterleavedStream_Add tsn data s = (r, ms, s')"
  obtains (direct) mid u where "Unwrap (data_mid data) (is_mid_unwrapper s) = (mid, u)"
      "fst (is_stream_id s)" "data_is_beginning data" "data_is_end data"
      "r = 0" "ms = [snd (AssembleMessage_one tsn data)]" "s' = s\<lparr>is_mid_unwrapper := u\<rparr>"
  | (unblock) u n ms' where "Unwrap (data_mid data) (is_mid_unwrapper s) = (is_next_mid s, u)"
      "\<not> fst (is_stream_id s)" "data_is_beginning data" "data_is_end data"
      "InterleavedStream_TryToAssembleMessages (s\<lparr>is_mid_unwrapper := u, is_next_mid := is_next_mid s + 1\<rparr>) = (n, ms', s')"
      "r = int32_cast (- int n)" "ms = snd (AssembleMessage_one tsn data) # ms'"
  | (store) mid u chunks inserted s1 n where "Unwrap (data_mid data) (is_mid_unwrapper s) = (mid, u)"
      "\<not> (data_is_beginning data \<and> data_is_end data \<and> (fst (is_stream_id s) \<or> mid = is_next_mid s))"
      "om_emplace (data_fsn data) (tsn, data) (om_at [] mid (is_chunks_by_mid s)) = (chunks, inserted)"
      "s1 = s\<lparr>is_mid_unwrapper := u, is_chunks_by_mid := om_insert mid chunks (is_chunks_by_mid s)\<rparr>"
      "(n, ms, s') = (if \<not> inserted then (Data_size data, [], s1)
         else if fst (is_stream_id s) then InterleavedStream_TryToAssembleMessage mid s1
         else if mid = is_next_mid s then InterleavedStream_TryToAssembleMessages s1 else (0, [], s1))"
      "r = (if inserted then if \<not> fst (is_stream_id s) \<and> mid \<noteq> is_next_mid s then int32_cast (int (Data_size data))
              else int32_cast (int32_cast (int (Data_size data)) - int n) else 0)"
proof -
  obtain mid u where u: "Unwrap (data_mid data) (is_mid_unwrapper s) = (mid, u)" by fastforce
  note defs = InterleavedStream_Add_def u InterleavedStream_AssembleMessage_one_def AssembleMessage_one_def
  show thesis
  proof (cases "data_is_beginning data \<and> data_is_end data \<and> (fst (is_stream_id s) \<or> mid = is_next_mid s)")
    case True
    then show thesis
      using assms u direct unblock
      by (cases "fst (is_stream_id s)") (auto simp: defs Let_def split: prod.splits)
  next
    case False
    obtain chunks inserted where c:
      "om_emplace (data_fsn data) (tsn, data) (om_at [] mid (is_chunks_by_mid s)) = (chunks, inserted)"
      by fastforce
    define s1 where "s1 = s\<lparr>is_mid_unwrapper := u, is_chunks_by_mid := om_insert mid chunks (is_chunks_by_mid s)\<rparr>"
    define t where "t = (if \<not> inserted then (Data_size data, [], s1)
         else if fst (is_stream_id s) then InterleavedStream_TryToAssembleMessage mid s1
         else if mid = is_next_mid s then InterleavedStream_TryToAssembleMessages s1 else (0, [], s1))"
    have "ms = fst (snd t)" "s' = snd (snd t)"
      "r = (if inserted then if \<not> fst (is_stream_id s) \<and> mid \<noteq> is_next_mid s then int32_cast (int (Data_size data))
              else int32_cast (int32_cast (int (Data_size data)) - int (fst t)) else 0)"
      using assms False c unfolding t_def s1_def
      by (auto simp: defs Let_def split: prod.splits if_splits)
    then show thesis using store [OF u False c s1_def, of "fst t"] unfolding t_def by simp
  qed
qed

lemma InterleavedStream_Add_bytes:
  assumes "is_ok s" and "is_bytes s + Data_size data \<le> kMaxInt" and "InterleavedStream_Add tsn data s = (r, ms, s')"
  shows "is_ok s' \<and> int (is_bytes s') = int (is_bytes s) + r \<and>
         is_bytes s' + delivered_bytes ms \<le> is_bytes s + Data_size data"
  using assms(3)
proof (cases rule: InterleavedStream_Add_cases)
  case (direct mid u)
  with assms(1) show ?thesis by (simp add: is_ok_def is_bytes_def AssembleMessage_one_def Data_size_def)
next
  case (unblock u n ms')
  let ?s = "s\<lparr>is_mid_unwrapper := u, is_next_mid := is_next_mid s + 1\<rparr>"
  have "is_ok ?s" "is_bytes ?s = is_bytes s" using assms(1) by (simp_all add: is_ok_def is_bytes_def)
  with InterleavedStream_TryToAssembleMessages_bytes [OF _ _ unblock(5)] assms(2)
  have b: "is_ok s' \<and> is_bytes s' + n = is_bytes s \<and> delivered_bytes ms' = n" by simp
  then have "r = - int n" using unblock(6) int32_cast_diff [of 0 n] assms(2) by simp
  with b unblock(7) show ?thesis by (simp add: AssembleMessage_one_def Data_size_def)
next
  case (store mid u chunks inserted s1 n)
  have s1: "is_ok s1 \<and> is_bytes s1 = is_bytes s + (if inserted then Data_size data else 0)"
    using emplace_fragment_bytes [OF _ _ refl, of "s\<lparr>is_mid_unwrapper := u\<rparr>"] assms(1) store(3,4)
    by (simp add: is_ok_def is_bytes_def)
  have size: "Data_size data \<le> kMaxInt" using assms(2) by simp
  show ?thesis
  proof (cases "inserted \<and> (fst (is_stream_id s) \<or> mid = is_next_mid s)")
    case True
    then consider "InterleavedStream_TryToAssembleMessage mid s1 = (n, ms, s')"
      | "InterleavedStream_TryToAssembleMessages s1 = (n, ms, s')"
      using store(5) by (cases "fst (is_stream_id s)") simp_all
    moreover have "is_ok s1" "is_bytes s1 \<le> kMaxInt" using s1 assms(2) by simp_all
    ultimately have b: "is_ok s' \<and> is_bytes s' + n = is_bytes s1 \<and> delivered_bytes ms = n"
      by cases (rule InterleavedStream_TryToAssembleMessage_bytes InterleavedStream_TryToAssembleMessages_bytes; assumption)+
    then have "r = int (Data_size data) - int n"
      using store(6) True size assms(2) s1 by (auto simp: int32_cast_small int32_cast_diff)
    with b s1 True show ?thesis by simp
  next
    case False
    with store(5,6) s1 size show ?thesis by (auto simp: int32_cast_small split: if_splits)
  qed
qed

lemma accumulate_by_mid:
  assumes "om_weight fsn_bytes m \<le> kMaxInt"
  shows "sum_list (map (\<lambda>p. accumulate (map (\<lambda>q. Data_size (snd (snd q))) (snd p))) m) = om_weight fsn_bytes m"
  using assms
proof (induction m)
  case (Cons p m)
  then have "accumulate (map (\<lambda>q. Data_size (snd (snd q))) (snd p)) = fsn_bytes (snd p)"
    using accumulate_eq [of "map (\<lambda>q. Data_size (snd (snd q))) (snd p)"] by (simp add: fsn_bytes_sum)
  with Cons show ?case by simp
qed simp

lemma InterleavedStream_EraseTo_bytes:
  assumes "is_ok s" and "is_bytes s \<le> kMaxInt" and "InterleavedStream_EraseTo mid s = (n, ms, s')"
  shows "is_ok s' \<and> is_bytes s' + n = is_bytes s \<and> delivered_bytes ms \<le> n"
proof -
  obtain x u where u: "Unwrap mid (is_mid_unwrapper s) = (x, u)" by fastforce
  let ?m = "is_chunks_by_mid s" and ?i = "om_upper_bound x (is_chunks_by_mid s)"
  define s1 where "s1 = s\<lparr>is_mid_unwrapper := u, is_chunks_by_mid := drop ?i ?m\<rparr>"
  define s2 where "s2 = (if x \<ge> is_next_mid s1 then s1\<lparr>is_next_mid := next_value x\<rparr> else s1)"
  have split: "om_weight fsn_bytes (take ?i ?m) + is_bytes s1 = is_bytes s"
    by (simp add: is_bytes_def s1_def om_weight_split)
  have ok: "is_ok s1" using assms(1) by (simp add: is_ok_def s1_def om_ok_drop om_all_take_drop)
  have s2: "is_ok s2" "is_bytes s2 = is_bytes s1" using ok by (simp_all add: s2_def is_ok_def is_bytes_def)
  have removed: "sum_list (map (\<lambda>p. accumulate (map (\<lambda>q. Data_size (snd (snd q))) (snd p))) (take ?i ?m)) =
      om_weight fsn_bytes (take ?i ?m)"
    using accumulate_by_mid [of "take ?i ?m"] split assms(2) by simp
  show ?thesis
  proof (cases "fst (is_stream_id s)")
    case True
    with assms(3) u removed split ok show ?thesis by (auto simp: InterleavedStream_EraseTo_def s1_def Let_def)
  next
    case False
    obtain n2 ms2 s3 where n2: "InterleavedStream_TryToAssembleMessages s2 = (n2, ms2, s3)" by (metis prod_cases3)
    then have "InterleavedStream_EraseTo mid s = (om_weight fsn_bytes (take ?i ?m) + n2, ms2, s3)"
      using False u removed
      by (cases "x \<ge> is_next_mid s") (simp_all add: InterleavedStream_EraseTo_def s1_def s2_def Let_def)
    with InterleavedStream_TryToAssembleMessages_bytes [OF s2(1) _ n2(1)] split s2(2) assms(2,3)
    show ?thesis by simp
  qed
qed

lemma InterleavedStream_Reset_bytes [simp]:
  "is_ok (InterleavedStream_Reset s) = is_ok s" "is_bytes (InterleavedStream_Reset s) = is_bytes s"
  by (simp_all add: InterleavedStream_Reset_def is_ok_def is_bytes_def split: prod.splits)

lemma InterleavedStream_new_ok [simp]:
  "is_ok (InterleavedStream_new stream_id mid)" "is_bytes (InterleavedStream_new stream_id mid) = 0"
  by (simp_all add: InterleavedStream_new_def is_ok_def is_bytes_def split: prod.splits)

lemma GetOrCreateStream_ok:
  assumes "irs_ok streams"
  shows "is_ok (GetOrCreateStream stream_id streams)"
    and "is_bytes (GetOrCreateStream stream_id streams) \<le> irs_bytes streams"
    and "irs_bytes (om_insert stream_id s streams) + is_bytes (GetOrCreateStream stream_id streams) =
           irs_bytes streams + is_bytes s"
  using assms unfolding irs_ok_def irs_bytes_def GetOrCreateStream_def
  by (simp_all add: om_all_at om_weight_at_le om_weight_insert)

lemma irs_ok_insert: "irs_ok streams \<Longrightarrow> is_ok s \<Longrightarrow> irs_ok (om_insert stream_id s streams)"
  by (simp add: irs_ok_def om_insert_ok om_all_insert)

lemma InterleavedReassemblyStreams_Add_bytes:
  assumes "irs_ok streams" and "irs_bytes streams + Data_size data \<le> kMaxInt"
    and "InterleavedReassemblyStreams_Add tsn data streams = (r, ms, streams')"
  shows "irs_ok streams' \<and> int (irs_bytes streams') = int (irs_bytes streams) + r \<and>
         irs_bytes streams' + delivered_bytes ms \<le> irs_bytes streams + Data_size data"
proof -
  let ?id = "(data_is_unordered data, data_stream_id data)"
  let ?at = "GetOrCreateStream ?id streams"
  obtain s where s: "InterleavedStream_Add tsn data ?at = (r, ms, s)" "streams' = om_insert ?id s streams"
    using assms(3) by (auto simp: InterleavedReassemblyStreams_Add_def Let_def split: prod.splits)
  note at = GetOrCreateStream_ok [OF assms(1), of ?id]
  have "is_ok s \<and> int (is_bytes s) = int (is_bytes ?at) + r \<and>
      is_bytes s + delivered_bytes ms \<le> is_bytes ?at + Data_size data"
    using InterleavedStream_Add_bytes [OF at(1) _ s(1)] at(2) assms(2) by simp
  with at(3) [of s] irs_ok_insert [OF assms(1)] s(2) show ?thesis by simp
qed

lemma skip_streams_bytes:
  assumes "irs_ok streams" and "irs_bytes streams \<le> kMaxInt" and "skip_streams skipped streams = (n, ms, streams')"
  shows "irs_ok streams' \<and> irs_bytes streams' + n = irs_bytes streams \<and> delivered_bytes ms \<le> n"
  using assms
proof (induction skipped arbitrary: streams n ms streams')
  case (Cons k skipped)
  let ?id = "(ss_unordered k, ss_stream_id k)"
  let ?at = "GetOrCreateStream ?id streams"
  obtain n1 ms1 s1 where 1: "InterleavedStream_EraseTo (ss_mid k) ?at = (n1, ms1, s1)" by (metis prod_cases3)
  obtain n2 ms2 m2 where 2: "skip_streams skipped (om_insert ?id s1 streams) = (n2, ms2, m2)" by (metis prod_cases3)
  have eqs: "n = n1 + n2" "ms = ms1 @ ms2" "streams' = m2" using Cons.prems(3) 1 2 by (simp_all add: Let_def)
  note at = GetOrCreateStream_ok [OF Cons.prems(1), of ?id]
  have first: "is_ok s1 \<and> is_bytes s1 + n1 = is_bytes ?at \<and> delivered_bytes ms1 \<le> n1"
    using InterleavedStream_EraseTo_bytes [OF at(1) _ 1] at(2) Cons.prems(2) by simp
  have "irs_ok m2 \<and> irs_bytes m2 + n2 = irs_bytes (om_insert ?id s1 streams) \<and> delivered_bytes ms2 \<le> n2"
    using Cons.IH [OF irs_ok_insert [OF Cons.prems(1)] _ 2] first at(3) [of s1] Cons.prems(2) by simp
  with first at(3) [of s1] eqs show ?case by simp
qed simp

lemma InterleavedReassemblyStreams_HandleForwardTsn_bytes:
  assumes "irs_ok streams" and "irs_bytes streams \<le> kMaxInt"
    and "InterleavedReassemblyStreams_HandleForwardTsn tsn skipped streams = (n, ms, streams')"
  shows "irs_ok streams' \<and> irs_bytes streams' + n = irs_bytes streams \<and>
         irs_bytes streams' + delivered_bytes ms \<le> irs_bytes streams"
  using skip_streams_bytes [OF assms(1,2), of skipped n ms streams'] assms(3)
  by (simp add: InterleavedReassemblyStreams_HandleForwardTsn_def)

lemma reset_stream_bytes:
  assumes "irs_ok streams"
  shows "irs_ok (reset_stream stream_id streams) \<and> irs_bytes (reset_stream stream_id streams) = irs_bytes streams"
  using GetOrCreateStream_ok(1) [OF assms, of stream_id] irs_ok_insert [OF assms]
    GetOrCreateStream_ok(3) [OF assms, of stream_id "InterleavedStream_Reset (GetOrCreateStream stream_id streams)"]
  by (simp add: reset_stream_def)

lemma InterleavedReassemblyStreams_ResetStreams_bytes:
  assumes "irs_ok streams"
  shows "irs_ok (InterleavedReassemblyStreams_ResetStreams ids streams) \<and>
         irs_bytes (InterleavedReassemblyStreams_ResetStreams ids streams) = irs_bytes streams"
proof -
  let ?r = "\<lambda>(stream_id, stream). (stream_id, InterleavedStream_Reset stream)"
  have all: "om_all is_ok (map ?r m) = om_all is_ok m \<and> map fst (map ?r m) = map fst m \<and>
      om_weight is_bytes (map ?r m) = om_weight is_bytes m" for m :: InterleavedReassemblyStreams
    by (induction m) auto
  have "irs_ok (fold (\<lambda>i s. reset_stream (False, i) (reset_stream (True, i) s)) ids m) \<and>
      irs_bytes (fold (\<lambda>i s. reset_stream (False, i) (reset_stream (True, i) s)) ids m) = irs_bytes m"
    if "irs_ok m" for m
    using that by (induction ids arbitrary: m) (simp_all add: reset_stream_bytes)
  with assms all om_ok_keys [of "map ?r streams" streams] show ?thesis
    by (simp add: InterleavedReassemblyStreams_ResetStreams_def irs_ok_def irs_bytes_def)
qed

interpretation interleaved: reassembly_streams InterleavedReassemblyStreams_Add
  InterleavedReassemblyStreams_HandleForwardTsn InterleavedReassemblyStreams_ResetStreams irs_bytes irs_ok
  by unfold_locales
    (rule InterleavedReassemblyStreams_Add_bytes InterleavedReassemblyStreams_HandleForwardTsn_bytes
      InterleavedReassemblyStreams_ResetStreams_bytes; assumption)+

lemma irs_ok_Nil [simp]: "irs_ok []" "irs_bytes [] = 0"
  by (simp_all add: irs_ok_def irs_bytes_def)

section \<open>Delivery in order\<close>

text \<open>
  A message as it is sent with interleaving: its fragments are numbered from zero, carry the
  identifier of the message and non-empty payloads; their TSNs are arbitrary.
\<close>

definition interleaved_message :: "nat \<Rightarrow> Fragment list \<Rightarrow> bool" where
  "interleaved_message j fs \<longleftrightarrow> fs \<noteq> [] \<and> chunk_bytes fs \<le> kMaxInt \<and>
     (\<forall>i<length fs. data_fsn (snd (fs ! i)) = of_nat i \<and> data_mid (snd (fs ! i)) = of_nat j \<and>
        data_payload (snd (fs ! i)) \<noteq> [] \<and> (data_is_beginning (snd (fs ! i)) \<longleftrightarrow> i = 0) \<and>
        (data_is_end (snd (fs ! i)) \<longleftrightarrow> Suc i = length fs))"

definition keyed :: "Fragment list \<Rightarrow> FsnMap" where
  "keyed fs = map (\<lambda>p. (data_fsn (snd p), p)) fs"

definition is_holds :: "(nat \<Rightarrow> Fragment list) \<Rightarrow> (nat \<times> nat) set \<Rightarrow> nat \<Rightarrow> InterleavedStream \<Rightarrow> bool" where
  "is_holds sent arrived k s \<longleftrightarrow> om_ok (is_chunks_by_mid s) \<and> is_next_mid s = int k \<and> \<not> fst (is_stream_id s) \<and>
     (\<forall>x. om_find (is_chunks_by_mid s) x =
        (if x < int k \<or> nths (keyed (sent (nat x))) (positions arrived (nat x)) = [] then None
         else Some (nths (keyed (sent (nat x))) (positions arrived (nat x)))))"

definition is_simulates :: "(nat \<Rightarrow> Fragment list) \<Rightarrow> (nat \<times> nat) set \<Rightarrow> nat \<Rightarrow> InterleavedStream \<Rightarrow> bool" where
  "is_simulates sent arrived k s \<longleftrightarrow>
     (\<forall>j. interleaved_message j (sent j)) \<and> is_holds sent arrived k s \<and>
     (\<forall>j<k. complete sent arrived j) \<and> \<not> complete sent arrived k \<and>
     unwrapper_ok (is_mid_unwrapper s) \<and> snu_last_value (is_mid_unwrapper s) \<noteq> None"

definition is_newest :: "InterleavedStream \<Rightarrow> int" where
  "is_newest s = snu_last_unwrapped (is_mid_unwrapper s)"

lemma keyed_simps [simp]:
  "length (keyed fs) = length fs" "keyed fs = [] \<longleftrightarrow> fs = []" "map snd (keyed fs) = fs"
  "i < length fs \<Longrightarrow> keyed fs ! i = (data_fsn (snd (fs ! i)), fs ! i)"
  by (simp_all add: keyed_def comp_def)

lemma complete_keyed: "complete sent arrived j \<longleftrightarrow> nths (keyed (sent j)) (positions arrived j) = keyed (sent j)"
  by (simp add: complete_def nths_full_iff positions_def)

lemma interleaved_message_whole: "interleaved_message j fs \<Longrightarrow> fs \<noteq> [] \<and> chunk_bytes fs \<le> kMaxInt"
  unfolding interleaved_message_def by blast

lemma interleaved_message_at:
  assumes "interleaved_message j fs" and "i < length fs"
  shows "data_fsn (snd (fs ! i)) = of_nat i" and "data_mid (snd (fs ! i)) = of_nat j"
    and "data_payload (snd (fs ! i)) \<noteq> []" and "data_is_beginning (snd (fs ! i)) \<longleftrightarrow> i = 0"
    and "data_is_end (snd (fs ! i)) \<longleftrightarrow> Suc i = length fs"
  using assms unfolding interleaved_message_def by blast+

lemma interleaved_message_length: "interleaved_message j fs \<Longrightarrow> length fs \<le> chunk_bytes fs"
proof -
  assume fs: "interleaved_message j fs"
  have "\<forall>p\<in>set fs. 1 \<le> Data_size (snd p)"
    using interleaved_message_at(3) [OF fs] by (metis Data_size_def One_nat_def Suc_leI in_set_conv_nth length_greater_0_conv)
  then show ?thesis by (induction fs) (auto simp: chunk_bytes_def)
qed

lemma interleaved_fsn:
  assumes "interleaved_message j fs" and "i < length fs"
  shows "unat (data_fsn (snd (fs ! i))) = i"
proof -
  have "length fs \<le> 2147483647"
    using interleaved_message_length [OF assms(1)] interleaved_message_whole [OF assms(1)] le_trans
    unfolding kMaxInt_def by blast
  then show ?thesis
    using assms(2) unat_of_nat_word_eq [of i, where 'a = 32] by (simp add: interleaved_message_at(1) [OF assms])
qed

lemma interleaved_message_ok: "interleaved_message j fs \<Longrightarrow> om_ok (keyed fs)"
  using interleaved_fsn by (auto simp: om_ok_def sorted_wrt_iff_nth_less word_less_nat_alt)

lemma interleaved_completeness_test:
  assumes "interleaved_message j fs" and "nths (keyed fs) I = f" and "f \<noteq> []"
  shows "(data_is_beginning (snd (snd (hd f))) \<and> data_is_end (snd (snd (last f))) \<and>
          uint (fst (last f) - fst (hd f)) = int (length f) - 1) \<longleftrightarrow> f = keyed fs"
proof -
  have pos: "0 < length fs" using assms(2,3) by (auto simp: keyed_def)
  let ?z = "length fs - 1"
  note at = interleaved_message_at(4,5) [OF assms(1)]
  have "uint (fst (keyed fs ! ?z) - fst (keyed fs ! 0)) = int ?z"
    using interleaved_fsn [OF assms(1), of ?z] interleaved_message_at(1) [OF assms(1) pos] pos
    by (simp add: uint_nat del: of_nat_unat)
  then have diff: "uint (fst (keyed fs ! ?z) - fst (keyed fs ! 0)) = int (length fs) - 1" using pos by simp
  obtain a b where ab: "a < length fs" "hd f = keyed fs ! a" "b < length fs" "last f = keyed fs ! b"
    using assms(2,3) hd_in_set last_in_set set_nths_mem keyed_simps(1) by metis
  show ?thesis
  proof
    assume lhs: "data_is_beginning (snd (snd (hd f))) \<and> data_is_end (snd (snd (last f))) \<and>
      uint (fst (last f) - fst (hd f)) = int (length f) - 1"
    with ab at(1) [OF ab(1)] at(2) [OF ab(3)] have "a = 0" "b = ?z" by auto
    with lhs ab diff have "length f = length fs" by simp
    then show "f = keyed fs" using nths_full_length [of "keyed fs" I] assms(2) by simp
  next
    assume "f = keyed fs"
    then have "hd f = keyed fs ! 0" "last f = keyed fs ! ?z" "length f = length fs"
      using assms(3) by (simp_all add: hd_conv_nth last_conv_nth)
    with at(1) [OF pos] at(2) [of ?z] pos diff
    show "data_is_beginning (snd (snd (hd f))) \<and> data_is_end (snd (snd (last f))) \<and>
      uint (fst (last f) - fst (hd f)) = int (length f) - 1"
      by simp
  qed
qed

lemma is_holds_incomplete:
  assumes "is_holds sent arrived k s" and "interleaved_message k (sent k)" and "\<not> complete sent arrived k"
  shows "InterleavedStream_TryToAssembleMessage (int k) s = (0, [], s)"
proof (cases "nths (keyed (sent k)) (positions arrived k) = []")
  case True
  with assms(1) show ?thesis by (simp add: InterleavedStream_TryToAssembleMessage_def is_holds_def)
next
  case False
  with interleaved_completeness_test [OF assms(2) refl False] assms(1,3) show ?thesis
    by (auto simp: InterleavedStream_TryToAssembleMessage_def Let_def is_holds_def complete_keyed)
qed

lemma is_holds_complete:
  assumes "is_holds sent arrived k s" and "interleaved_message k (sent k)" and "complete sent arrived k"
  shows "\<exists>n s'. InterleavedStream_TryToAssembleMessage (int k) s = (n, [message_of (sent k)], s') \<and> n \<noteq> 0 \<and>
           is_holds sent arrived (Suc k) (s'\<lparr>is_next_mid := is_next_mid s' + 1\<rparr>) \<and>
           is_mid_unwrapper s' = is_mid_unwrapper s"
proof -
  let ?f = "nths (keyed (sent k)) (positions arrived k)"
  have f: "?f = keyed (sent k)" "sent k \<noteq> []" "keyed (sent k) \<noteq> []"
    using assms(2,3) interleaved_message_whole by (auto simp: complete_keyed)
  then have find: "om_find (is_chunks_by_mid s) (int k) = Some (keyed (sent k))"
    using assms(1) by (simp add: is_holds_def)
  let ?s = "s\<lparr>is_chunks_by_mid := om_erase (int k) (is_chunks_by_mid s)\<rparr>"
  have bytes: "chunk_bytes (sent k) \<le> kMaxInt" "chunk_bytes (sent k) \<noteq> 0"
    using interleaved_message_whole [OF assms(2)] interleaved_message_length [OF assms(2)] f(2)
    by (auto simp: less_le_trans [OF _ interleaved_message_length [OF assms(2)]])
  have "InterleavedStream_AssembleMessage (keyed (sent k)) = (chunk_bytes (sent k), message_of (sent k))"
    using InterleavedStream_AssembleMessage_eq [OF f(3)] AssembleMessage_message [OF f(2) bytes(1)] by simp
  then have "InterleavedStream_TryToAssembleMessage (int k) s = (chunk_bytes (sent k), [message_of (sent k)], ?s)"
    using interleaved_completeness_test [OF assms(2) f(1) f(3)] find
    by (auto simp: InterleavedStream_TryToAssembleMessage_def Let_def)
  moreover have "is_holds sent arrived (Suc k) (?s\<lparr>is_next_mid := is_next_mid ?s + 1\<rparr>)"
    using assms(1) by (auto simp: is_holds_def om_erase_ok om_find_erase)
  ultimately show ?thesis using bytes(2) by fastforce
qed

lemma is_holds_messages:
  assumes "is_holds sent arrived k s" and "\<forall>j. interleaved_message j (sent j)" and "\<forall>j<k. complete sent arrived j"
    and "InterleavedStream_TryToAssembleMessages s = (n, ms, s')"
  shows "\<exists>k'\<ge>k. is_holds sent arrived k' s' \<and> (\<forall>j<k'. complete sent arrived j) \<and> \<not> complete sent arrived k' \<and>
           ms = map (message_of \<circ> sent) [k..<k'] \<and> is_mid_unwrapper s' = is_mid_unwrapper s"
  using assms(1,3,4)
proof (induction s arbitrary: k n ms s' rule: InterleavedStream_TryToAssembleMessages.induct)
  case (1 s)
  have nxt: "is_next_mid s = int k" using "1.prems"(1) by (simp add: is_holds_def)
  show ?case
  proof (cases "complete sent arrived k")
    case False
    have "InterleavedStream_TryToAssembleMessage (is_next_mid s) s = (0, [], s)"
      using is_holds_incomplete [OF "1.prems"(1) _ False] assms(2) nxt by simp
    then have "ms = [] \<and> s' = s"
      using "1.prems"(3) by (subst (asm) InterleavedStream_TryToAssembleMessages.simps) simp
    with "1.prems"(1,2) False show ?thesis by (intro exI [of _ k]) simp
  next
    case True
    obtain n1 s1 where one: "InterleavedStream_TryToAssembleMessage (is_next_mid s) s = (n1, [message_of (sent k)], s1)"
        "n1 \<noteq> 0" "is_holds sent arrived (Suc k) (s1\<lparr>is_next_mid := is_next_mid s1 + 1\<rparr>)"
        "is_mid_unwrapper s1 = is_mid_unwrapper s"
      using is_holds_complete [OF "1.prems"(1) _ True] assms(2) nxt by auto
    obtain n2 ms2 s2 where 2:
        "InterleavedStream_TryToAssembleMessages (s1\<lparr>is_next_mid := is_next_mid s1 + 1\<rparr>) = (n2, ms2, s2)"
      by (metis prod_cases3)
    have eqs: "ms = message_of (sent k) # ms2" "s' = s2"
      using "1.prems"(3) one(1,2) 2 by (subst (asm) InterleavedStream_TryToAssembleMessages.simps, simp)+
    have "\<forall>j<Suc k. complete sent arrived j" using "1.prems"(2) True less_Suc_eq by metis
    from "1.IH" [OF one(1) [symmetric] refl one(2,3) this 2] obtain k' where k': "Suc k \<le> k'"
        "is_holds sent arrived k' s2" "\<forall>j<k'. complete sent arrived j" "\<not> complete sent arrived k'"
        "ms2 = map (message_of \<circ> sent) [Suc k..<k']" "is_mid_unwrapper s2 = is_mid_unwrapper s1"
      by auto
    then have "ms = map (message_of \<circ> sent) [k..<k']" using eqs(1) by (simp add: upt_conv_Cons)
    with k' eqs(2) one(4) show ?thesis by (intro exI [of _ k']) simp
  qed
qed

lemma is_holds_emplace:
  assumes "is_holds sent arrived k s" and "interleaved_message j (sent j)" and "k \<le> j"
    and "i < length (sent j)" and "(j, i) \<notin> arrived"
    and "om_emplace (data_fsn (snd (sent j ! i))) (fst (sent j ! i), snd (sent j ! i))
           (om_at [] (int j) (is_chunks_by_mid s)) = (chunks, inserted)"
    and "s' = s\<lparr>is_mid_unwrapper := u, is_chunks_by_mid := om_insert (int j) chunks (is_chunks_by_mid s)\<rparr>"
  shows "inserted \<and> is_holds sent (insert (j, i) arrived) k s'"
proof -
  let ?m = "is_chunks_by_mid s" and ?f = "nths (keyed (sent j)) (insert i (positions arrived j))"
  have "om_at [] (int j) ?m = nths (keyed (sent j)) (positions arrived j)"
    using assms(1,3) by (simp add: is_holds_def om_at_def)
  moreover have "i \<notin> positions arrived j" using assms(5) by (simp add: positions_def)
  ultimately have new: "chunks = ?f" "inserted"
    using om_emplace_nths [OF interleaved_message_ok [OF assms(2)], of i "positions arrived j"] assms(4,6)
    by simp_all
  have ok: "om_ok ?m" using assms(1) by (simp add: is_holds_def)
  have "?f \<noteq> []"
    using assms(4) set_nths_mem [of "keyed (sent j) ! i" "keyed (sent j)"] by (metis empty_iff insertI1 keyed_simps(1) list.set(1))
  have "om_find (om_insert (int j) ?f ?m) x =
      (if x < int k \<or> nths (keyed (sent (nat x))) (positions (insert (j, i) arrived) (nat x)) = [] then None
       else Some (nths (keyed (sent (nat x))) (positions (insert (j, i) arrived) (nat x))))" for x
  proof (cases "x = int j")
    case True
    with assms(3) \<open>?f \<noteq> []\<close> show ?thesis by (simp add: om_find_insert [OF ok] positions_insert)
  next
    case False
    then have "nat x \<noteq> j \<or> x < int k" by (cases "x < 0") auto
    with False assms(1) show ?thesis by (auto simp: om_find_insert [OF ok] positions_insert is_holds_def)
  qed
  then show ?thesis using assms(1) om_insert_ok [OF ok] new by (simp add: is_holds_def assms(7))
qed

lemma is_unwrap:
  assumes "unwrapper_ok (is_mid_unwrapper s)" and "snu_last_value (is_mid_unwrapper s) \<noteq> None"
    and "\<bar>int j - is_newest s\<bar> < 2 ^ 31" and "Unwrap (of_nat j :: u32) (is_mid_unwrapper s) = (x, u)"
  shows "x = int j \<and> unwrapper_ok u \<and> snu_last_value u \<noteq> None \<and> snu_last_unwrapped u = int j"
proof -
  have "PeekUnwrap (word_of_int (int j) :: u32) (is_mid_unwrapper s) = int j"
    using assms(1-3) by (intro PeekUnwrap_near) (simp_all add: is_newest_def half_range_def)
  then have "x = int j" using assms(4) by (metis PeekUnwrap_Unwrap fst_conv of_int_of_nat_eq)
  with Unwrap_ok [OF assms(1,4)] show ?thesis by auto
qed

lemma single_fragment_is_holds:
  assumes "is_holds sent arrived k s" and "(k, 0) \<notin> arrived" and "length (sent k) = 1"
  shows "is_holds sent (insert (k, 0) arrived) (Suc k) (s\<lparr>is_mid_unwrapper := u, is_next_mid := is_next_mid s + 1\<rparr>)"
proof -
  obtain p where "sent k = [p]" using assms(3) by (metis One_nat_def length_0_conv length_Suc_conv)
  then have "nths (keyed (sent k)) (positions arrived k) = []" using assms(2) by (simp add: positions_def keyed_def)
  then have "om_find (is_chunks_by_mid s) (int k) = None" using assms(1) by (simp add: is_holds_def)
  then have "om_find (is_chunks_by_mid s) x =
      (if x < int (Suc k) \<or> nths (keyed (sent (nat x))) (positions (insert (k, 0) arrived) (nat x)) = [] then None
       else Some (nths (keyed (sent (nat x))) (positions (insert (k, 0) arrived) (nat x))))" for x
    using assms(1) by (cases "x = int k"; cases "x < int k") (auto simp: is_holds_def positions_insert)
  with assms(1) show ?thesis by (simp add: is_holds_def)
qed

lemma InterleavedStream_Add_simulates:
  assumes "is_simulates sent arrived k s" and "(j, i) \<notin> arrived" and "i < length (sent j)"
    and "\<bar>int j - is_newest s\<bar> < 2 ^ 31"
    and "InterleavedStream_Add (fst (sent j ! i)) (snd (sent j ! i)) s = (r, ms, s')"
  shows "\<exists>k'\<ge>k. is_simulates sent (insert (j, i) arrived) k' s' \<and> is_newest s' = int j \<and>
           ms = map (message_of \<circ> sent) [k..<k']"
proof -
  let ?A = "insert (j, i) arrived"
  note sim = assms(1) [unfolded is_simulates_def]
  have msgs: "\<forall>j. interleaved_message j (sent j)" and holds: "is_holds sent arrived k s"
    and before: "\<forall>j<k. complete sent ?A j"
    using sim by (simp_all add: complete_insert_iff(2))
  have mid: "data_mid (snd (sent j ! i)) = of_nat j"
    using msgs assms(3) by (blast intro: interleaved_message_at(2))
  have "k \<le> j" using sim assms(2,3) unfolding complete_def by (metis not_less)
  have nxt: "is_next_mid s = int k" and ordered: "\<not> fst (is_stream_id s)" using holds by (simp_all add: is_holds_def)
  have unwrap: "x = int j \<and> unwrapper_ok u \<and> snu_last_value u \<noteq> None \<and> snu_last_unwrapped u = int j"
    if "Unwrap (data_mid (snd (sent j ! i))) (is_mid_unwrapper s) = (x, u)" for x u
    using is_unwrap [OF _ _ assms(4)] sim that mid by auto
  have conclude: ?thesis
    if "k \<le> k'" "is_holds sent ?A k' s'" "\<forall>j<k'. complete sent ?A j" "\<not> complete sent ?A k'"
      "ms = map (message_of \<circ> sent) [k..<k']" "is_mid_unwrapper s' = u"
      "Unwrap (data_mid (snd (sent j ! i))) (is_mid_unwrapper s) = (x, u)" for k' x u
    using that msgs unwrap [OF that(7)] by (intro exI [of _ k']) (simp add: is_simulates_def is_newest_def)
  show ?thesis
    using assms(5)
  proof (cases rule: InterleavedStream_Add_cases)
    case (direct mid u)
    with ordered show ?thesis by simp
  next
    case (unblock u n ms')
    have "j = k" using unwrap [OF unblock(1)] nxt by simp
    note flags = interleaved_message_at(4,5) [OF msgs [rule_format] assms(3)]
    have one: "i = 0" "length (sent k) = 1" using flags unblock(3,4) \<open>j = k\<close> by auto
    obtain p where p: "sent k = [p]" using one(2) by (metis One_nat_def length_0_conv length_Suc_conv)
    have "\<forall>j<Suc k. complete sent ?A j"
      using before one \<open>j = k\<close> by (auto simp: less_Suc_eq complete_def)
    then obtain k' where k': "Suc k \<le> k'" "is_holds sent ?A k' s'" "\<forall>j<k'. complete sent ?A j"
        "\<not> complete sent ?A k'" "ms' = map (message_of \<circ> sent) [Suc k..<k']" "is_mid_unwrapper s' = u"
      using is_holds_messages [OF _ msgs _ unblock(5), of ?A "Suc k"] single_fragment_is_holds [OF holds _ one(2)]
        assms(2) \<open>j = k\<close> one(1) by auto
    have "snd (AssembleMessage_one (fst (sent j ! i)) (snd (sent j ! i))) = message_of (sent k)"
      using p one(1) \<open>j = k\<close> by (simp add: AssembleMessage_one_def message_of_def)
    with k' unblock(1,7) show ?thesis by (intro conclude [of k']) (simp_all add: upt_conv_Cons)
  next
    case (store mid u chunks inserted s1 n)
    have "mid = int j" using unwrap [OF store(1)] by simp
    have s1: "inserted" "is_holds sent ?A k s1" "is_mid_unwrapper s1 = u"
      using is_holds_emplace [OF holds msgs [rule_format] \<open>k \<le> j\<close> assms(3,2) _ store(4) [unfolded \<open>mid = int j\<close>]]
        store(3,4) \<open>mid = int j\<close> by simp_all
    show ?thesis
    proof (cases "j = k")
      case True
      then have "InterleavedStream_TryToAssembleMessages s1 = (n, ms, s')"
        using store(5) s1(1) ordered nxt \<open>mid = int j\<close> by simp
      from is_holds_messages [OF s1(2) msgs before this] s1(3) store(1) show ?thesis
        using conclude by blast
    next
      case False
      then have "ms = [] \<and> s' = s1" using store(5) s1(1) ordered nxt \<open>mid = int j\<close> by simp
      moreover have "\<not> complete sent ?A k" using sim False by (simp add: complete_insert_iff)
      ultimately show ?thesis using s1(2,3) before store(1) by (intro conclude [of k]) simp_all
    qed
  qed
qed

interpretation interleaved_stream: ordered_receiver InterleavedStream_Add is_simulates is_newest "2 ^ 31"
proof unfold_locales
  fix sent arrived k s j i r ms s'
  assume "is_simulates sent arrived k s" and "(j, i) \<notin> arrived" and "i < length (sent j)"
    and "\<bar>int j - is_newest s\<bar> < 2 ^ 31"
    and "InterleavedStream_Add (fst (sent j ! i)) (snd (sent j ! i)) s = (r, ms, s')"
  then show "\<exists>k'\<ge>k. is_simulates sent (insert (j, i) arrived) k' s' \<and> is_newest s' = int j \<and>
      ms = map (message_of \<circ> sent) [k..<k']"
    by (rule InterleavedStream_Add_simulates)
qed (simp add: is_simulates_def)

lemma is_simulates_new:
  assumes "\<forall>j. interleaved_message j (sent j)"
  shows "is_simulates sent {} 0 (InterleavedStream_new (False, stream_id) 0)"
    and "is_newest (InterleavedStream_new (False, stream_id) 0) = 0"
proof -
  have "\<not> complete sent {} 0" using interleaved_message_whole [of 0 "sent 0"] assms by (auto simp: complete_def)
  with assms show "is_simulates sent {} 0 (InterleavedStream_new (False, stream_id) 0)"
    by (simp add: is_simulates_def InterleavedStream_new_def is_holds_def Unwrap_def SeqNumUnwrapper_init_def
        om_find_def positions_def unwrapper_ok_def)
  show "is_newest (InterleavedStream_new (False, stream_id) 0) = 0"
    by (simp add: is_newest_def InterleavedStream_new_def Unwrap_def SeqNumUnwrapper_init_def)
qed

section \<open>Properties\<close>

text \<open>
  C11. With interleaving an ordered stream delivers in order as well, although the fragments of its
  messages may be mixed with those of other messages: exactly the messages before the first
  incomplete one have been delivered, in the order of sending and with their whole payloads, for
  every order of arrival that keeps the message identifiers of neighbouring arrivals less than half
  the range apart.
\<close>

theorem interleaved_stream_delivers_in_order:
  assumes "\<forall>j. interleaved_message j (sent j)" and "in_flight sent arrivals"
    and "small_steps (2 ^ 31) 0 (map (int \<circ> fst) arrivals)"
    and "add_all InterleavedStream_Add (map (\<lambda>(j, i). sent j ! i) arrivals)
           (InterleavedStream_new (False, stream_id) 0) = (ms, s)"
  shows "\<exists>k. ms = map (message_of \<circ> sent) [0..<k] \<and> (\<forall>j<k. complete sent (set arrivals) j) \<and>
             \<not> complete sent (set arrivals) k"
  using interleaved_stream.delivers_in_order [OF is_simulates_new(1) assms(2) _ assms(4)] assms(1,3)
  by (simp add: is_simulates_new(2))

theorem interleaved_stream_delivers_in_order_witness:
  "\<exists>k ms s. interleaved_message 3 (sample_sent 3) \<and>
     add_all InterleavedStream_Add (map (\<lambda>(j, i). sample_sent j ! i) [(1, 0), (0, 1), (0, 0)])
       (InterleavedStream_new (False, 1) 0) = (ms, s) \<and>
     ms = map (message_of \<circ> sample_sent) [0..<k]"
proof -
  let ?a = "[(1, 0), (0, 1), (0, 0)] :: (nat \<times> nat) list"
  have msgs: "\<forall>j. interleaved_message j (sample_sent j)"
    by (auto simp: interleaved_message_def sample_sent_def sample_fragment_def chunk_bytes_def Data_size_def
        kMaxInt_def less_Suc_eq)
  moreover have "in_flight sample_sent ?a" by (simp add: in_flight_def sample_sent_def)
  moreover have "small_steps (2 ^ 31) 0 (map (int \<circ> fst) ?a)" by simp
  ultimately show ?thesis
    using interleaved_stream_delivers_in_order [of sample_sent ?a 1] by (metis prod.collapse)
qed

text \<open>
  C14. The comparison by which the streams are kept in a \<open>std::map\<close> is not a strict order: every
  ordered stream is below every unordered one, and an unordered stream is also below each ordered
  stream with a larger identifier.
\<close>

theorem FullStreamId_less_not_asymmetric:
  "i < j \<longleftrightarrow> FullStreamId_less (True, i) (False, j) \<and> FullStreamId_less (False, j) (True, i)"
  by (simp add: FullStreamId_less_def)

end
