(* ===== verification/Interval_Set.thy ===== *)
theory Interval_Set
  imports Prelude
begin

text \<open>
  Sets of sequence numbers kept as a sorted list of closed intervals that neither overlap nor
  touch, as the gap ack blocks of a SACK and the blocks of the data tracker are. The end points
  are read off an interval by two functions, so that the facts serve both record types.
\<close>

definition covered :: "('b \<Rightarrow> int) \<Rightarrow> ('b \<Rightarrow> int) \<Rightarrow> 'b list \<Rightarrow> int set" where
  "covered lo hi bs = (\<Union>b\<in>set bs. {lo b..hi b})"

definition separated :: "('b \<Rightarrow> int) \<Rightarrow> ('b \<Rightarrow> int) \<Rightarrow> 'b list \<Rightarrow> bool" where
  "separated lo hi bs \<longleftrightarrow>
     sorted_wrt (\<lambda>a b. hi a + 1 < lo b) bs \<and> list_all (\<lambda>b. lo b \<le> hi b) bs"

lemma covered_simps [simp]:
  "covered lo hi [] = {}"
  "covered lo hi (b # bs) = {lo b..hi b} \<union> covered lo hi bs"
  "covered lo hi (as @ bs) = covered lo hi as \<union> covered lo hi bs"
  by (auto simp: covered_def)

lemma separated_Nil [simp]: "separated lo hi []"
  by (simp add: separated_def)

lemma separated_Cons [simp]:
  "separated lo hi (b # bs) \<longleftrightarrow>
   lo b \<le> hi b \<and> (\<forall>c\<in>set bs. hi b + 1 < lo c) \<and> separated lo hi bs"
  by (auto simp: separated_def)

lemma separated_append:
  "separated lo hi (as @ bs) \<longleftrightarrow>
   separated lo hi as \<and> separated lo hi bs \<and> (\<forall>a\<in>set as. \<forall>b\<in>set bs. hi a + 1 < lo b)"
  by (auto simp: separated_def sorted_wrt_append)

lemma separated_le: "separated lo hi bs \<Longrightarrow> b \<in> set bs \<Longrightarrow> lo b \<le> hi b"
  by (auto simp: separated_def list_all_iff)

text \<open>Nothing below the first interval is covered, and neither is the number after it.\<close>

lemma covered_gap:
  assumes "\<forall>c\<in>set bs. x < lo c"
  shows "x \<notin> covered lo hi bs"
proof
  assume "x \<in> covered lo hi bs"
  then obtain c where "c \<in> set bs" and "lo c \<le> x"
    by (auto simp: covered_def)
  with assms have "x < lo c" by blast
  with \<open>lo c \<le> x\<close> show False by simp
qed

lemma separated_gap:
  assumes "separated lo hi (b # bs)" and "x \<le> hi b + 1"
  shows "x \<notin> covered lo hi bs"
proof (rule covered_gap, rule ballI)
  fix c assume "c \<in> set bs"
  with assms(1) have "hi b + 1 < lo c" by simp
  with assms(2) show "x < lo c" by simp
qed

lemma covered_lower:
  assumes "separated lo hi (b # bs)" and "x \<in> covered lo hi (b # bs)"
  shows "lo b \<le> x"
proof (rule ccontr)
  assume "\<not> lo b \<le> x"
  moreover from this have "x \<notin> covered lo hi bs"
    using assms(1) by (intro separated_gap [OF assms(1)]) simp
  ultimately show False using assms(2) by simp
qed

lemma separated_nonempty: "separated lo hi (b # bs) \<Longrightarrow> lo b \<in> covered lo hi (b # bs)"
  by simp

locale interval_list =
  fixes lo hi :: "'b \<Rightarrow> int"
  assumes interval_eqI: "lo x = lo y \<Longrightarrow> hi x = hi y \<Longrightarrow> x = y"
begin

lemma head_hi_le:
  assumes "separated lo hi (x # xs)" and "separated lo hi (y # ys)"
    and "covered lo hi (y # ys) \<subseteq> covered lo hi (x # xs)" and "lo x = lo y"
  shows "hi y \<le> hi x"
proof (rule ccontr)
  assume "\<not> hi y \<le> hi x"
  then have "hi x + 1 \<in> {lo y..hi y}"
    using assms(1,4) by simp
  then have "hi x + 1 \<in> covered lo hi (x # xs)"
    by (intro subsetD [OF assms(3)]) simp
  moreover have "hi x + 1 \<notin> covered lo hi (x # xs)"
    using separated_gap [OF assms(1)] by simp
  ultimately show False by simp
qed

lemma covered_tail:
  assumes "separated lo hi (x # xs)"
  shows "covered lo hi xs = covered lo hi (x # xs) - {lo x..hi x}"
proof -
  have "z \<notin> covered lo hi xs" if "z \<le> hi x" for z
    using that by (intro separated_gap [OF assms]) simp
  then show ?thesis by auto
qed

text \<open>A set has at most one such list.\<close>

lemma separated_canonical:
  "separated lo hi xs \<Longrightarrow> separated lo hi ys \<Longrightarrow> covered lo hi xs = covered lo hi ys \<Longrightarrow> xs = ys"
proof (induction xs arbitrary: ys)
  case Nil
  then show ?case by (cases ys) auto
next
  case (Cons x xs)
  from Cons.prems(1,3) obtain y ys' where ys: "ys = y # ys'"
    by (cases ys) auto
  note sep = Cons.prems(1) Cons.prems(2) [unfolded ys]
  note cov = Cons.prems(3) [unfolded ys]
  have "lo y \<le> lo x"
    by (rule covered_lower [OF sep(2) separated_nonempty [OF sep(1), unfolded cov]])
  moreover have "lo x \<le> lo y"
    by (rule covered_lower [OF sep(1) separated_nonempty [OF sep(2), folded cov]])
  ultimately have lo: "lo x = lo y" by simp
  have hi: "hi x = hi y"
    by (rule order.antisym [OF head_hi_le [OF sep(2,1) equalityD1 [OF cov] lo [symmetric]]
          head_hi_le [OF sep equalityD2 [OF cov] lo]])
  have "covered lo hi xs = covered lo hi ys'"
    unfolding covered_tail [OF sep(1)] covered_tail [OF sep(2)] cov lo hi ..
  then have "xs = ys'"
    using Cons.IH sep by simp
  with interval_eqI [OF lo hi] show ?case by (simp add: ys)
qed

end

end
