(* ===== verification/Chunk_Validators.thy ===== *)
theory Chunk_Validators
  imports Data_Chunks Interval_Set
begin

text \<open>
  \<open>net/dcsctp/packet/chunk_validators.cc\<close>: the check of the gap ack blocks of a received SACK,
  and the repair of a SACK that fails it. The meaning of a block list is the set of offsets from
  the cumulative TSN ack that it covers.
\<close>

section \<open>Definitions\<close>

fun validate_blocks :: "u16 \<Rightarrow> GapAckBlock list \<Rightarrow> bool" where
  "validate_blocks prev_end [] = True"
| "validate_blocks prev_end (b # bs) =
     (if gab_end b < gab_start b then False
      else if unat (gab_start b) \<le> unat prev_end + 1 then False
      else validate_blocks (gab_end b) bs)"

definition ChunkValidators_Validate :: "SackChunk \<Rightarrow> bool" where
  "ChunkValidators_Validate sack =
     (if sack_gap_ack_blocks sack = [] then True else validate_blocks 0 (sack_gap_ack_blocks sack))"

fun merge_blocks :: "GapAckBlock list \<Rightarrow> GapAckBlock list \<Rightarrow> GapAckBlock list" where
  "merge_blocks merged [] = merged"
| "merge_blocks merged (b # bs) =
     (if unat (gab_end (last merged)) + 1 \<ge> unat (gab_start b)
      then merge_blocks
             (butlast merged @ [(last merged)\<lparr>gab_end := max (gab_end (last merged)) (gab_end b)\<rparr>]) bs
      else merge_blocks (merged @ [b]) bs)"

definition ChunkValidators_Clean :: "SackChunk \<Rightarrow> SackChunk" where
  "ChunkValidators_Clean sack =
     (if ChunkValidators_Validate sack then sack
      else
        let gap_ack_blocks = filter (\<lambda>b. gab_end b > gab_start b) (sack_gap_ack_blocks sack) in
        if length gap_ack_blocks \<le> 1 then sack\<lparr>sack_gap_ack_blocks := gap_ack_blocks\<rparr>
        else
          let gap_ack_blocks = sort_key gab_start gap_ack_blocks in
          sack\<lparr>sack_gap_ack_blocks := merge_blocks [hd gap_ack_blocks] (tl gap_ack_blocks)\<rparr>)"

section \<open>Block lists as sets of offsets\<close>

abbreviation gab_lo :: "GapAckBlock \<Rightarrow> int" where
  "gab_lo b \<equiv> uint (gab_start b)"

abbreviation gab_hi :: "GapAckBlock \<Rightarrow> int" where
  "gab_hi b \<equiv> uint (gab_end b)"

definition acked_offsets :: "GapAckBlock list \<Rightarrow> int set" where
  "acked_offsets bs = covered gab_lo gab_hi bs"

interpretation gap_blocks: interval_list gab_lo gab_hi
  by unfold_locales (simp add: word_uint_eq_iff)

text \<open>
  \<open>Validate\<close> accepts exactly the separated lists that leave the offset next to the cumulative
  ack uncovered.
\<close>

lemma unat_add_le_iff: "unat a \<le> unat (b :: u16) + 1 \<longleftrightarrow> uint (a :: u16) \<le> uint b + 1"
proof -
  have "unat a \<le> unat b + 1 \<longleftrightarrow> int (unat a) \<le> int (unat b + 1)"
    by (rule of_nat_le_iff [symmetric])
  then show ?thesis by (simp add: add.commute)
qed

lemma validate_blocks_iff:
  "validate_blocks prev bs \<longleftrightarrow>
   separated gab_lo gab_hi bs \<and> (\<forall>b\<in>set bs. uint prev + 1 < gab_lo b)"
proof (induction bs arbitrary: prev)
  case (Cons b bs)
  have "unat (gab_start b) \<le> unat prev + 1 \<longleftrightarrow> gab_lo b \<le> uint prev + 1"
    by (rule unat_add_le_iff)
  then have "validate_blocks prev (b # bs) \<longleftrightarrow>
      gab_lo b \<le> gab_hi b \<and> uint prev + 1 < gab_lo b \<and> validate_blocks (gab_end b) bs"
    by (simp add: word_less_alt not_le)
  moreover have "uint prev + 1 < gab_lo c"
    if "gab_lo b \<le> gab_hi b" "uint prev + 1 < gab_lo b" "gab_hi b + 1 < gab_lo c" for c
    using that by linarith
  ultimately show ?case
    unfolding Cons.IH separated_Cons by (simp only: set_simps ball_simps) blast
qed simp

section \<open>Merging\<close>

lemma merge_blocks_snoc:
  "merge_blocks (ms @ [m]) (b # bs) =
     (if gab_hi m + 1 \<ge> gab_lo b then merge_blocks (ms @ [m\<lparr>gab_end := max (gab_end m) (gab_end b)\<rparr>]) bs
      else merge_blocks ((ms @ [m]) @ [b]) bs)"
proof -
  have "unat (gab_start b) \<le> unat (gab_end m) + 1 \<longleftrightarrow> gab_lo b \<le> gab_hi m + 1"
    by (rule unat_add_le_iff)
  then show ?thesis by simp
qed

lemma uint_max: "uint (max a b) = max (uint a) (uint (b :: 'a::len word))"
  by (simp add: max_def word_le_def)

declare merge_blocks.simps(2) [simp del]

lemma merge_blocks_correct:
  assumes "separated gab_lo gab_hi (ms @ [m])" and "sorted (map gab_start (m # bs))"
    and "\<forall>b\<in>set bs. gab_lo b \<le> gab_hi b"
  shows "separated gab_lo gab_hi (merge_blocks (ms @ [m]) bs) \<and>
    acked_offsets (merge_blocks (ms @ [m]) bs) = acked_offsets (ms @ m # bs)"
  using assms
proof (induction bs arbitrary: ms m)
  case Nil
  then show ?case by simp
next
  case (Cons b bs)
  have order: "gab_lo m \<le> gab_lo b" "gab_lo b \<le> gab_hi b" "gab_lo m \<le> gab_hi m"
    using Cons.prems by (auto simp: word_le_def separated_append)
  show ?case
  proof (cases "gab_hi m + 1 \<ge> gab_lo b")
    case True
    let ?m = "m\<lparr>gab_end := max (gab_end m) (gab_end b)\<rparr>"
    have "separated gab_lo gab_hi (ms @ [?m])"
      using Cons.prems(1) order by (auto simp: separated_append uint_max)
    then have "separated gab_lo gab_hi (merge_blocks (ms @ [?m]) bs) \<and>
        acked_offsets (merge_blocks (ms @ [?m]) bs) = acked_offsets (ms @ ?m # bs)"
      using Cons.prems by (intro Cons.IH) auto
    moreover have "acked_offsets (ms @ ?m # bs) = acked_offsets (ms @ m # b # bs)"
      using True order by (auto simp: acked_offsets_def uint_max)
    ultimately show ?thesis
      using True by (simp add: merge_blocks_snoc)
  next
    case False
    have "gab_hi a + 1 < gab_lo b" if "a \<in> set ms" for a
      using Cons.prems(1) order(1) that by (auto simp: separated_append intro: order.strict_trans2)
    then have "separated gab_lo gab_hi ((ms @ [m]) @ [b])"
      using Cons.prems(1) order False by (simp add: separated_append)
    then have "separated gab_lo gab_hi (merge_blocks ((ms @ [m]) @ [b]) bs) \<and>
        acked_offsets (merge_blocks ((ms @ [m]) @ [b]) bs) = acked_offsets ((ms @ [m]) @ b # bs)"
      using Cons.prems by (intro Cons.IH) auto
    then show ?thesis
      using False by (simp add: merge_blocks_snoc)
  qed
qed

section \<open>What cleaning keeps\<close>

definition sane :: "GapAckBlock \<Rightarrow> bool" where
  "sane b \<longleftrightarrow> gab_start b < gab_end b"

lemma ChunkValidators_Validate_iff:
  "ChunkValidators_Validate sack \<longleftrightarrow>
   separated gab_lo gab_hi (sack_gap_ack_blocks sack) \<and>
   (\<forall>b\<in>set (sack_gap_ack_blocks sack). 1 < gab_lo b)"
  by (auto simp: ChunkValidators_Validate_def validate_blocks_iff)

text \<open>
  The result is separated and covers what the sane blocks cover; the order that the unstable
  \<open>absl::c_sort\<close> gives to blocks with equal starts has no influence, since a separated list is
  determined by what it covers.
\<close>

lemma merge_sorted_correct:
  assumes "ys \<noteq> []" and "sorted (map gab_start ys)" and "\<forall>b\<in>set ys. sane b"
  shows "separated gab_lo gab_hi (merge_blocks [hd ys] (tl ys))"
    and "acked_offsets (merge_blocks [hd ys] (tl ys)) = acked_offsets ys"
proof -
  have le: "gab_lo b \<le> gab_hi b" if "b \<in> set ys" for b
    using assms(3) that by (auto simp: sane_def word_less_alt)
  have "separated gab_lo gab_hi ([] @ [hd ys])" using le assms(1) by simp
  from merge_blocks_correct [OF this, of "tl ys"] assms(1,2) le
  show "separated gab_lo gab_hi (merge_blocks [hd ys] (tl ys))"
    and "acked_offsets (merge_blocks [hd ys] (tl ys)) = acked_offsets ys"
    by (simp_all add: list.set_sel)
qed

lemma merge_any_sort:
  assumes "mset ys = mset xs" and "sorted (map gab_start ys)" and "\<forall>b\<in>set xs. sane b" and "xs \<noteq> []"
  shows "merge_blocks [hd ys] (tl ys) =
    merge_blocks [hd (sort_key gab_start xs)] (tl (sort_key gab_start xs))"
proof -
  let ?zs = "sort_key gab_start xs"
  have ys: "set ys = set xs" "ys \<noteq> []" using assms(1,4) by (auto dest: mset_eq_setD)
  have zs: "?zs \<noteq> []"
    using assms(4) by (metis set_empty set_sort)
  have "acked_offsets ys = acked_offsets ?zs"
    using ys(1) by (simp add: acked_offsets_def covered_def)
  moreover note merge_sorted_correct [of ys] merge_sorted_correct [of ?zs]
  ultimately show ?thesis
    using assms(2,3) ys zs by (intro gap_blocks.separated_canonical) (simp_all add: acked_offsets_def)
qed

lemma Clean_blocks:
  assumes "\<not> ChunkValidators_Validate sack"
  shows "separated gab_lo gab_hi (sack_gap_ack_blocks (ChunkValidators_Clean sack))"
    and "acked_offsets (sack_gap_ack_blocks (ChunkValidators_Clean sack)) =
      acked_offsets (filter sane (sack_gap_ack_blocks sack))"
proof -
  let ?bs = "filter sane (sack_gap_ack_blocks sack)"
  have filter: "filter (\<lambda>b. gab_start b < gab_end b) (sack_gap_ack_blocks sack) = ?bs"
    by (simp add: sane_def [abs_def])
  have "separated gab_lo gab_hi ?bs" if "length ?bs \<le> 1"
  proof -
    from that consider "?bs = []" | b where "?bs = [b]"
      by (cases ?bs; cases "tl ?bs") auto
    then show ?thesis
    proof cases
      case 2
      have "b \<in> set ?bs" unfolding 2 by simp
      then have "sane b" by simp
      with 2 show ?thesis by (simp add: sane_def word_less_alt)
    qed simp
  qed
  note short = this
  let ?zs = "sort_key gab_start ?bs"
  have clean: "sack_gap_ack_blocks (ChunkValidators_Clean sack) =
      (if length ?bs \<le> 1 then ?bs else merge_blocks [hd ?zs] (tl ?zs))"
    using assms by (simp add: ChunkValidators_Clean_def filter Let_def)
  have "?zs \<noteq> []" if "\<not> length ?bs \<le> 1"
    using that length_sort [of gab_start ?bs] by (metis list.size(3) zero_le)
  then have long: "separated gab_lo gab_hi (merge_blocks [hd ?zs] (tl ?zs))"
      "acked_offsets (merge_blocks [hd ?zs] (tl ?zs)) = acked_offsets ?zs" if "\<not> length ?bs \<le> 1"
    using that by (intro merge_sorted_correct; simp)+
  show "separated gab_lo gab_hi (sack_gap_ack_blocks (ChunkValidators_Clean sack))"
    unfolding clean using short long(1) by (cases "length ?bs \<le> 1") simp_all
  have "acked_offsets ?zs = acked_offsets ?bs"
    by (simp add: acked_offsets_def covered_def)
  with long(2) show "acked_offsets (sack_gap_ack_blocks (ChunkValidators_Clean sack)) = acked_offsets ?bs"
    unfolding clean by (cases "length ?bs \<le> 1") simp_all
qed

section \<open>Properties\<close>

text \<open>
  C38. \<open>Validate\<close> accepts a SACK exactly when its gap ack blocks are non-empty intervals in ascending
  order that neither overlap nor touch each other, and none starts at offset 0 or 1.
\<close>

theorem Validate_characterised:
  "ChunkValidators_Validate sack \<longleftrightarrow>
   separated gab_lo gab_hi (sack_gap_ack_blocks sack) \<and>
   list_all (\<lambda>b. 1 < gab_lo b) (sack_gap_ack_blocks sack)"
  by (simp add: ChunkValidators_Validate_iff list_all_iff)

text \<open>
  C37. Cleaning never acknowledges anything that the received SACK did not: it changes the gap ack
  blocks only; a valid SACK stays as it is; otherwise the new blocks are in ascending order, do
  not overlap or touch, and cover what the blocks with \<open>start < end\<close> of the received SACK covered.
\<close>

theorem Clean_sound:
  "ChunkValidators_Clean sack =
     sack\<lparr>sack_gap_ack_blocks := sack_gap_ack_blocks (ChunkValidators_Clean sack)\<rparr> \<and>
   separated gab_lo gab_hi (sack_gap_ack_blocks (ChunkValidators_Clean sack)) \<and>
   acked_offsets (sack_gap_ack_blocks (ChunkValidators_Clean sack)) =
     (if ChunkValidators_Validate sack then acked_offsets (sack_gap_ack_blocks sack)
      else acked_offsets (filter sane (sack_gap_ack_blocks sack))) \<and>
   acked_offsets (sack_gap_ack_blocks (ChunkValidators_Clean sack))
     \<subseteq> acked_offsets (sack_gap_ack_blocks sack)"
proof (cases "ChunkValidators_Validate sack")
  case True
  then have "ChunkValidators_Clean sack = sack" by (simp add: ChunkValidators_Clean_def)
  with True show ?thesis by (simp add: ChunkValidators_Validate_iff)
next
  case False
  have "acked_offsets (filter sane bs) \<subseteq> acked_offsets bs" for bs
    by (auto simp: acked_offsets_def covered_def)
  moreover have "ChunkValidators_Clean sack =
      sack\<lparr>sack_gap_ack_blocks := sack_gap_ack_blocks (ChunkValidators_Clean sack)\<rparr>"
    by (simp add: ChunkValidators_Clean_def Let_def)
  ultimately show ?thesis using False Clean_blocks [OF False] by simp
qed

definition sack_with :: "GapAckBlock list \<Rightarrow> SackChunk" where
  "sack_with bs =
     \<lparr>sack_cumulative_tsn_ack = 0, sack_a_rwnd = 0, sack_gap_ack_blocks = bs, sack_duplicate_tsns = {}\<rparr>"


end
