(* ===== verification/Timer.thy ===== *)
theory Timer
  imports Time_Units
begin

text \<open>
  Timers with restart and backoff, \<open>net/dcsctp/timer/timer.cc\<close>, on top of the low-level
  \<open>Timeout\<close> interface of \<open>net/dcsctp/public/timeout.h\<close>. The calls a timer makes on its timeout
  are recorded in order in the field \<open>tm_timeout_calls\<close>. The callback \<open>on_expired\<close> is an argument
  of the operation that calls it; it may operate on the timer it belongs to.
\<close>

section \<open>Options\<close>

datatype TimerBackoffAlgorithm = kFixed | kExponential

record TimerOptions =
  to_duration :: TimeDelta
  to_backoff_algorithm :: TimerBackoffAlgorithm
  to_max_restarts :: "int option"
  to_max_backoff_duration :: TimeDelta

definition TimerOptions_of ::
  "TimeDelta \<Rightarrow> TimerBackoffAlgorithm \<Rightarrow> int option \<Rightarrow> TimeDelta \<Rightarrow> TimerOptions" where
  "TimerOptions_of duration backoff_algorithm max_restarts max_backoff_duration =
     \<lparr>to_duration = duration, to_backoff_algorithm = backoff_algorithm,
      to_max_restarts = max_restarts, to_max_backoff_duration = max_backoff_duration\<rparr>"

definition kMaxTimerDuration :: TimeDelta where
  "kMaxTimerDuration = Seconds (24 * 3600)"

section \<open>The timer\<close>

datatype TimeoutCall =
    Timeout_Start DurationMs u64
  | Timeout_Stop
  | Timeout_Restart DurationMs u64

record Timer =
  tm_id :: u32
  tm_options :: TimerOptions
  tm_duration :: TimeDelta
  tm_generation :: u32
  tm_is_running :: bool
  tm_expiration_count :: int
  tm_timeout_calls :: "TimeoutCall list"

definition Timer_new :: "u32 \<Rightarrow> TimerOptions \<Rightarrow> Timer" where
  "Timer_new timer_id options =
     \<lparr>tm_id = timer_id, tm_options = options, tm_duration = to_duration options, tm_generation = 0,
      tm_is_running = False, tm_expiration_count = 0, tm_timeout_calls = []\<rparr>"

definition MakeTimeoutId :: "u32 \<Rightarrow> u32 \<Rightarrow> u64" where
  "MakeTimeoutId timer_id generation = push_bit 32 (ucast timer_id) OR ucast generation"

fun backoff_loop :: "TimeDelta \<Rightarrow> nat \<Rightarrow> TimeDelta \<Rightarrow> TimeDelta" where
  "backoff_loop max_backoff_duration 0 duration = min duration kMaxTimerDuration"
| "backoff_loop max_backoff_duration (Suc expiration_count) duration =
     (if duration < kMaxTimerDuration then
        let duration = duration * 2 in
        if duration > max_backoff_duration then max_backoff_duration
        else backoff_loop max_backoff_duration expiration_count duration
      else min duration kMaxTimerDuration)"

definition GetBackoffDuration :: "TimerOptions \<Rightarrow> TimeDelta \<Rightarrow> int \<Rightarrow> TimeDelta" where
  "GetBackoffDuration options base_duration expiration_count =
     (case to_backoff_algorithm options of
        kFixed \<Rightarrow> base_duration
      | kExponential \<Rightarrow>
          backoff_loop (to_max_backoff_duration options) (nat expiration_count) base_duration)"

definition timeout_call :: "TimeoutCall \<Rightarrow> Timer \<Rightarrow> Timer" where
  "timeout_call c t = t\<lparr>tm_timeout_calls := tm_timeout_calls t @ [c]\<rparr>"

definition Timer_Start :: "Timer \<Rightarrow> Timer" where
  "Timer_Start t =
     (let t = t\<lparr>tm_expiration_count := 0\<rparr> in
      if \<not> tm_is_running t then
        let t = t\<lparr>tm_is_running := True, tm_generation := tm_generation t + 1\<rparr>
        in timeout_call (Timeout_Start (DurationMs_of (tm_duration t))
             (MakeTimeoutId (tm_id t) (tm_generation t))) t
      else
        let t = t\<lparr>tm_generation := tm_generation t + 1\<rparr>
        in timeout_call (Timeout_Restart (DurationMs_of (tm_duration t))
             (MakeTimeoutId (tm_id t) (tm_generation t))) t)"

definition Timer_Stop :: "Timer \<Rightarrow> Timer" where
  "Timer_Stop t =
     (if tm_is_running t then
        (timeout_call Timeout_Stop t)\<lparr>tm_expiration_count := 0, tm_is_running := False\<rparr>
      else t)"

definition Timer_set_duration :: "TimeDelta \<Rightarrow> Timer \<Rightarrow> Timer" where
  "Timer_set_duration duration t = t\<lparr>tm_duration := min duration kMaxTimerDuration\<rparr>"

text \<open>Start the timeout again, with the duration the backoff algorithm gives.\<close>

definition start_backoff :: "Timer \<Rightarrow> Timer" where
  "start_backoff t =
     (let duration = GetBackoffDuration (tm_options t) (tm_duration t) (tm_expiration_count t);
          t = t\<lparr>tm_generation := tm_generation t + 1\<rparr>
      in timeout_call (Timeout_Start (DurationMs_of duration)
           (MakeTimeoutId (tm_id t) (tm_generation t))) t)"

definition may_restart :: "Timer \<Rightarrow> bool" where
  "may_restart t =
     (case to_max_restarts (tm_options t) of
        None \<Rightarrow> True
      | Some max_restarts \<Rightarrow> tm_expiration_count t \<le> max_restarts)"

definition Timer_Trigger ::
  "u32 \<Rightarrow> (Timer \<Rightarrow> 's \<Rightarrow> TimeDelta \<times> Timer \<times> 's) \<Rightarrow> Timer \<Rightarrow> 's \<Rightarrow> Timer \<times> 's" where
  "Timer_Trigger generation on_expired t s =
     (if tm_is_running t \<and> generation = tm_generation t then
        let t = t\<lparr>tm_expiration_count := tm_expiration_count t + 1, tm_is_running := False\<rparr>;
            t = (if may_restart t then start_backoff (t\<lparr>tm_is_running := True\<rparr>) else t);
            (new_duration, t, s) = on_expired t s
        in if new_duration > 0 \<and> new_duration \<noteq> tm_duration t then
             let t = t\<lparr>tm_duration := new_duration\<rparr> in
             (if tm_is_running t then start_backoff (timeout_call Timeout_Stop t) else t, s)
           else (t, s)
      else (t, s))"

section \<open>The timer manager\<close>

record TimerManager =
  tmm_timers :: "u32 \<Rightarrow> Timer option"
  tmm_next_id :: u32

definition TimerManager_new :: TimerManager where
  "TimerManager_new = \<lparr>tmm_timers = (\<lambda>_. None), tmm_next_id = 0\<rparr>"

definition TimerManager_CreateTimer ::
  "TimerOptions \<Rightarrow> TimerManager \<Rightarrow> (u32 \<times> TimerManager) outcome" where
  "TimerManager_CreateTimer options m =
     (let m = m\<lparr>tmm_next_id := tmm_next_id m + 1\<rparr>;
          timer_id = tmm_next_id m
      in RTC_CHECK (timer_id \<noteq> - 1)
           (Value (timer_id, m\<lparr>tmm_timers := (tmm_timers m)(timer_id \<mapsto> Timer_new timer_id options)\<rparr>)))"

text \<open>\<open>~Timer\<close>: the timer is stopped and removes itself from the manager.\<close>

definition TimerManager_DestroyTimer :: "u32 \<Rightarrow> TimerManager \<Rightarrow> Timer option \<times> TimerManager" where
  "TimerManager_DestroyTimer timer_id m =
     (map_option Timer_Stop (tmm_timers m timer_id),
      m\<lparr>tmm_timers := (tmm_timers m)(timer_id := None)\<rparr>)"

text \<open>
  The callback works on the manager, where its own timer is stored while it runs. It must not
  destroy that timer.
\<close>

definition TimerManager_HandleTimeout ::
  "u64 \<Rightarrow> (u32 \<Rightarrow> TimerManager \<Rightarrow> 's \<Rightarrow> TimeDelta \<times> TimerManager \<times> 's) \<Rightarrow>
   TimerManager \<Rightarrow> 's \<Rightarrow> TimerManager \<times> 's" where
  "TimerManager_HandleTimeout timeout_id on_expired m s =
     (let timer_id = ucast (drop_bit 32 timeout_id);
          generation = ucast timeout_id
      in case tmm_timers m timer_id of
           None \<Rightarrow> (m, s)
         | Some timer \<Rightarrow>
             let (timer, m, s) = Timer_Trigger generation
                   (\<lambda>t (m, s).
                      let m = m\<lparr>tmm_timers := (tmm_timers m)(timer_id \<mapsto> t)\<rparr>;
                          (d, m, s) = on_expired timer_id m s
                      in (d, (case tmm_timers m timer_id of Some t \<Rightarrow> t | None \<Rightarrow> t), m, s))
                   timer (m, s)
             in (m\<lparr>tmm_timers := (tmm_timers m)(timer_id \<mapsto> timer)\<rparr>, s))"

section \<open>Backoff\<close>

lemma backoff_loop_le: "backoff_loop mb n d \<le> max mb kMaxTimerDuration"
  by (induction mb n d rule: backoff_loop.induct) (auto simp: Let_def)

lemma backoff_loop_bounded:
  assumes "0 \<le> d" and "mb \<le> kMaxTimerDuration" and "d \<le> mb"
  shows "backoff_loop mb n d = min (d * 2 ^ n) mb"
  using assms
proof (induction n arbitrary: d)
  case (Suc n)
  have "d * 2 \<le> d * 2 ^ Suc n"
    using Suc.prems(1) by (intro mult_left_mono) simp_all
  with Suc show ?case by (auto simp: Let_def min_def algebra_simps)
qed (simp add: min_def)

lemma backoff_loop_unbounded:
  assumes "0 \<le> d" and "2 * kMaxTimerDuration \<le> mb"
  shows "backoff_loop mb n d = min (d * 2 ^ n) kMaxTimerDuration"
  using assms
proof (induction n arbitrary: d)
  case (Suc n)
  show ?case
  proof (cases "d < kMaxTimerDuration")
    case True
    with Suc show ?thesis by (simp add: Let_def algebra_simps)
  next
    case False
    moreover have "d * 1 \<le> d * 2 ^ Suc n"
      using Suc.prems(1) by (intro mult_left_mono one_le_power) simp_all
    ultimately have "min (d * 2 ^ Suc n) kMaxTimerDuration = kMaxTimerDuration"
      by (intro min_absorb2) linarith
    with False show ?thesis by simp
  qed
qed simp

section \<open>The timeout protocol\<close>

text \<open>
  What \<open>timeout.h\<close> asks of the caller: a timeout is started only when it is not pending, and
  stopped or restarted only when it is.
\<close>

datatype timeout_state = Idle | Armed u64 | Violated

fun timeout_step :: "TimeoutCall \<Rightarrow> timeout_state \<Rightarrow> timeout_state" where
  "timeout_step (Timeout_Start d i) Idle = Armed i"
| "timeout_step Timeout_Stop (Armed j) = Idle"
| "timeout_step (Timeout_Restart d i) (Armed j) = Armed i"
| "timeout_step _ _ = Violated"

definition timeout_run :: "TimeoutCall list \<Rightarrow> timeout_state \<Rightarrow> timeout_state" where
  "timeout_run cs a = fold timeout_step cs a"

lemma timeout_run_simps [simp]:
  "timeout_run [] a = a"
  "timeout_run (c # cs) a = timeout_run cs (timeout_step c a)"
  "timeout_run (cs @ ds) a = timeout_run ds (timeout_run cs a)"
  by (simp_all add: timeout_run_def)

definition timer_timeout :: "Timer \<Rightarrow> timeout_state" where
  "timer_timeout t =
     (if tm_is_running t then Armed (MakeTimeoutId (tm_id t) (tm_generation t)) else Idle)"

text \<open>An operation follows the protocol when its calls lead from one of these states to the next.\<close>

definition follows :: "Timer \<Rightarrow> Timer \<Rightarrow> bool" where
  "follows t t' \<longleftrightarrow>
     tm_id t' = tm_id t \<and> tm_options t' = tm_options t \<and>
     (\<exists>cs. tm_timeout_calls t' = tm_timeout_calls t @ cs \<and>
           timeout_run cs (timer_timeout t) = timer_timeout t')"

lemma follows_refl [simp]: "follows t t"
  by (simp add: follows_def)

lemma follows_trans [trans]: "follows t u \<Longrightarrow> follows u v \<Longrightarrow> follows t v"
  unfolding follows_def by (elim conjE exE) simp

lemmas timer_defs = follows_def timer_timeout_def timeout_call_def Let_def

lemma follows_Start [simp]: "follows t (Timer_Start t)"
  by (simp add: Timer_Start_def timer_defs)

lemma follows_Stop [simp]: "follows t (Timer_Stop t)"
  by (simp add: Timer_Stop_def timer_defs)

lemma follows_set_duration [simp]: "follows t (Timer_set_duration d t)"
  by (simp add: Timer_set_duration_def timer_defs)

text \<open>What a callback may do to its own timer.\<close>

datatype timer_action = Act_Start | Act_Stop | Act_set_duration TimeDelta

fun timer_act :: "timer_action \<Rightarrow> Timer \<Rightarrow> Timer" where
  "timer_act Act_Start t = Timer_Start t"
| "timer_act Act_Stop t = Timer_Stop t"
| "timer_act (Act_set_duration d) t = Timer_set_duration d t"

lemma follows_act [simp]: "follows t (timer_act a t)"
  by (cases a) simp_all

lemma follows_acts [simp]: "follows t (fold timer_act as t)"
proof (induction as arbitrary: t)
  case (Cons a as)
  have "follows t (timer_act a t)" by simp
  also have "follows \<dots> (fold timer_act as \<dots>)" by (rule Cons.IH)
  finally show ?case by simp
qed simp

definition act_callback :: "TimeDelta \<Rightarrow> timer_action list \<Rightarrow> Timer \<Rightarrow> 's \<Rightarrow> TimeDelta \<times> Timer \<times> 's" where
  "act_callback d as t s = (d, fold timer_act as t, s)"

text \<open>An accepted expiry takes the timer through the state in which its timeout is not pending.\<close>

definition expired :: "Timer \<Rightarrow> Timer" where
  "expired t =
     (let t = t\<lparr>tm_expiration_count := tm_expiration_count t + 1, tm_is_running := False\<rparr>
      in if may_restart t then start_backoff (t\<lparr>tm_is_running := True\<rparr>) else t)"

definition rearmed :: "TimeDelta \<Rightarrow> Timer \<Rightarrow> Timer" where
  "rearmed d t =
     (if d > 0 \<and> d \<noteq> tm_duration t then
        let t = t\<lparr>tm_duration := d\<rparr> in
        if tm_is_running t then start_backoff (timeout_call Timeout_Stop t) else t
      else t)"

lemma Timer_Trigger_accepted:
  assumes "tm_is_running t" and "on_expired (expired t) s = (d, t', s')"
  shows "Timer_Trigger (tm_generation t) on_expired t s = (rearmed d t', s')"
  using assms unfolding Timer_Trigger_def expired_def rearmed_def Let_def by (simp del: fun_upd_apply)

lemma Timer_Trigger_ignored:
  assumes "\<not> (tm_is_running t \<and> g = tm_generation t)"
  shows "Timer_Trigger g on_expired t s = (t, s)"
  using assms unfolding Timer_Trigger_def by (simp only: if_False)

lemma follows_rearmed: "follows t (rearmed d t)"
  by (simp add: rearmed_def start_backoff_def timer_defs)

lemma follows_expired: "follows (t\<lparr>tm_is_running := False\<rparr>) (expired t)"
  by (simp add: expired_def start_backoff_def timer_defs)

section \<open>Timeout identifiers\<close>

lemma MakeTimeoutId_generation [simp]: "ucast (MakeTimeoutId i g) = g"
  by (rule bit_word_eqI) (simp add: MakeTimeoutId_def bit_simps)

lemma MakeTimeoutId_timer [simp]: "ucast (drop_bit 32 (MakeTimeoutId i g)) = i"
  by (rule bit_word_eqI)
    (auto simp: MakeTimeoutId_def bit_simps dest: bit_imp_le_length)

lemma MakeTimeoutId_inject [simp]: "MakeTimeoutId i g = MakeTimeoutId j h \<longleftrightarrow> i = j \<and> g = h"
  by (metis MakeTimeoutId_generation MakeTimeoutId_timer)

section \<open>A timer and its timeout\<close>

text \<open>
  The timer together with the timeout it drives. Besides the calls of its owner there is the expiry
  of the pending timeout, and the late delivery of an earlier one that was already on its way when
  the timer was stopped or restarted.
\<close>

inductive timer_reachable :: "u32 \<Rightarrow> TimerOptions \<Rightarrow> Timer \<Rightarrow> timeout_state \<Rightarrow> bool"
  for i :: u32 and opts :: TimerOptions where
  created: "timer_reachable i opts (Timer_new i opts) Idle"
| called: "timer_reachable i opts t a \<Longrightarrow> t' = timer_act act t \<Longrightarrow>
    tm_timeout_calls t' = tm_timeout_calls t @ cs \<Longrightarrow>
    timer_reachable i opts t' (timeout_run cs a)"
| expires: "timer_reachable i opts t (Armed tid) \<Longrightarrow>
    Timer_Trigger (ucast tid) (act_callback d as) t () = (t', ()) \<Longrightarrow>
    tm_timeout_calls t' = tm_timeout_calls t @ cs \<Longrightarrow>
    timer_reachable i opts t' (timeout_run cs Idle)"
| late: "timer_reachable i opts t a \<Longrightarrow> a \<noteq> Armed (MakeTimeoutId i g) \<Longrightarrow>
    Timer_Trigger g (act_callback d as) t () = (t', ()) \<Longrightarrow>
    tm_timeout_calls t' = tm_timeout_calls t @ cs \<Longrightarrow>
    timer_reachable i opts t' (timeout_run cs a)"

lemma follows_calls:
  assumes "follows t t'" and "tm_timeout_calls t' = tm_timeout_calls t @ cs"
  shows "timeout_run cs (timer_timeout t) = timer_timeout t'"
  using assms unfolding follows_def by (elim conjE exE) simp

lemma follows_id: "follows t t' \<Longrightarrow> tm_id t' = tm_id t"
  by (simp add: follows_def)

lemma Trigger_follows:
  assumes "tm_is_running t"
    and "Timer_Trigger (tm_generation t) (act_callback d as) t () = (t', ())"
  shows "follows (t\<lparr>tm_is_running := False\<rparr>) t'"
proof -
  have "t' = rearmed d (fold timer_act as (expired t))"
    using Timer_Trigger_accepted [OF assms(1), of "act_callback d as" "()"] assms(2)
    by (simp add: act_callback_def [of d as "expired t"])
  moreover have "follows (t\<lparr>tm_is_running := False\<rparr>) (expired t)" by (rule follows_expired)
  moreover have "follows (expired t) (fold timer_act as (expired t))" by simp
  ultimately show ?thesis using follows_rearmed follows_trans by metis
qed

lemma reachable_timeout:
  "timer_reachable i opts t a \<Longrightarrow> tm_id t = i \<and> a = timer_timeout t"
proof (induction rule: timer_reachable.induct)
  case created
  then show ?case by (simp add: Timer_new_def timer_timeout_def)
next
  case (called t a t' act cs)
  then show ?case using follows_calls [of t t' cs] follows_id [of t t'] by simp
next
  case (expires t tid d as t' cs)
  then have run: "tm_is_running t" and "tid = MakeTimeoutId (tm_id t) (tm_generation t)"
    by (simp_all add: timer_timeout_def split: if_splits)
  with expires.hyps(2) have f: "follows (t\<lparr>tm_is_running := False\<rparr>) t'"
    using Trigger_follows [OF run, of d as t'] by simp
  with follows_calls [OF f, of cs] expires follows_id [OF f] show ?case
    by (simp add: timer_timeout_def)
next
  case (late t a g d as t' cs)
  then have "\<not> (tm_is_running t \<and> g = tm_generation t)"
    by (auto simp: timer_timeout_def)
  then have "t' = t" using late.hyps(3) Timer_Trigger_ignored [of t g "act_callback d as" "()"] by simp
  with late show ?case by simp
qed

section \<open>Properties\<close>

text \<open>
  C34. In every reachable state of a timer and the timeout it drives, the timeout is pending exactly
  when the timer is running, and then under the identifier of the timer and its current
  generation; the timer never starts a pending timeout nor stops an idle one. An expiry that is
  delivered late, for an earlier generation, has no effect.
\<close>

theorem timer_follows_timeout_protocol:
  assumes "timer_reachable i opts t a"
  shows "a = (if tm_is_running t then Armed (MakeTimeoutId i (tm_generation t)) else Idle) \<and>
         (a \<noteq> Armed (MakeTimeoutId i g) \<longrightarrow> Timer_Trigger g on_expired t s = (t, s))"
proof -
  have a: "a = (if tm_is_running t then Armed (MakeTimeoutId i (tm_generation t)) else Idle)"
    using reachable_timeout [OF assms] by (auto simp: timer_timeout_def)
  then have "Timer_Trigger g on_expired t s = (t, s)" if "a \<noteq> Armed (MakeTimeoutId i g)"
    using that by (intro Timer_Trigger_ignored) (auto split: if_splits)
  with a show ?thesis by blast
qed

definition sample_timer_options :: TimerOptions where
  "sample_timer_options = TimerOptions_of (Millis 500) kExponential (Some 2) PlusInfinity"

lemma sample_timer_reachable:
  "timer_reachable 7 sample_timer_options (Timer_Start (Timer_new 7 sample_timer_options))
     (Armed (MakeTimeoutId 7 1))"
proof -
  have "timer_reachable 7 sample_timer_options (Timer_Start (Timer_new 7 sample_timer_options))
     (timeout_run [Timeout_Start (DurationMs_of (Millis 500)) (MakeTimeoutId 7 1)] Idle)"
    by (rule called [OF created, of _ Act_Start])
      (simp_all add: Timer_Start_def Timer_new_def timeout_call_def sample_timer_options_def
        TimerOptions_of_def Let_def)
  then show ?thesis by simp
qed

theorem timer_follows_timeout_protocol_witness:
  "let t = Timer_Start (Timer_new 7 sample_timer_options) in
   timer_reachable 7 sample_timer_options t (Armed (MakeTimeoutId 7 1)) \<and> tm_is_running t \<and>
   Timer_Trigger 0 (act_callback 5 []) t () = (t, ())"
  using timer_follows_timeout_protocol [OF sample_timer_reachable, of 0 "act_callback 5 []" "()"]
    sample_timer_reachable
  by (simp add: Let_def split: if_splits)

text \<open>
  Exponential backoff doubles the base duration once per expiry and stops at the configured
  maximum and at one day: for a maximum up to a day that the base duration does not exceed, and
  for a maximum of at least two days (as when none is configured), the result has this closed form.
\<close>

lemma backoff_closed_form:
  assumes "to_backoff_algorithm options = kExponential" and "0 \<le> base"
    and "base \<le> to_max_backoff_duration options"
    and "to_max_backoff_duration options \<le> kMaxTimerDuration \<or>
         2 * kMaxTimerDuration \<le> to_max_backoff_duration options"
  shows "GetBackoffDuration options base n =
         min (base * 2 ^ nat n) (min (to_max_backoff_duration options) kMaxTimerDuration)"
  using assms(4)
proof
  assume "to_max_backoff_duration options \<le> kMaxTimerDuration"
  with assms(1-3) show ?thesis
    by (simp add: GetBackoffDuration_def backoff_loop_bounded min_def)
next
  assume m: "2 * kMaxTimerDuration \<le> to_max_backoff_duration options"
  moreover have "0 < kMaxTimerDuration" by (simp add: kMaxTimerDuration_def Seconds_def)
  ultimately have "min (to_max_backoff_duration options) kMaxTimerDuration = kMaxTimerDuration"
    by (simp add: min_def)
  with assms(1,2) m show ?thesis
    by (simp add: GetBackoffDuration_def backoff_loop_unbounded)
qed

end
