(* ===== verification/Data_Tracker.thy ===== *)
theory Data_Tracker
  imports Chunk_Validators Sequence_Numbers Timer Handover_State
begin

text \<open>
  The receiver's record of the TSNs it has seen, and when it has to send a SACK:
  \<open>net/dcsctp/rx/data_tracker.cc\<close>. The delayed-ack timer is part of the state. The meaning of
  the cumulative TSN and the additional blocks is one set of received TSNs, and every operation is
  shown to be the corresponding operation on that set.
\<close>

section \<open>Additional blocks\<close>

record TsnRange =
  tr_first :: UnwrappedTSN
  tr_last :: UnwrappedTSN

definition TsnRange_of :: "UnwrappedTSN \<Rightarrow> UnwrappedTSN \<Rightarrow> TsnRange" where
  "TsnRange_of first_tsn last_tsn = \<lparr>tr_first = first_tsn, tr_last = last_tsn\<rparr>"

text \<open>\<open>std::lower_bound\<close>: the position of the first element that is not before the key.\<close>

definition lower_bound :: "('b \<Rightarrow> bool) \<Rightarrow> 'b list \<Rightarrow> nat" where
  "lower_bound before xs = length (takeWhile before xs)"

definition AdditionalTsnBlocks_Add :: "UnwrappedTSN \<Rightarrow> TsnRange list \<Rightarrow> bool \<times> TsnRange list" where
  "AdditionalTsnBlocks_Add tsn blocks =
     (let it = lower_bound (\<lambda>elem. next_value (tr_last elem) < tsn) blocks in
      if it = length blocks then (True, blocks @ [TsnRange_of tsn tsn])
      else if tsn \<ge> tr_first (blocks ! it) \<and> tsn \<le> tr_last (blocks ! it) then (False, blocks)
      else if next_value (tr_last (blocks ! it)) = tsn then
        let next_it = it + 1 in
        if next_it \<noteq> length blocks \<and> next_value tsn = tr_first (blocks ! next_it) then
          (True, take next_it (blocks[it := (blocks ! it)\<lparr>tr_last := tr_last (blocks ! next_it)\<rparr>]) @
                 drop (next_it + 1) blocks)
        else (True, blocks[it := (blocks ! it)\<lparr>tr_last := tsn\<rparr>])
      else if tr_first (blocks ! it) = next_value tsn then
        (True, blocks[it := (blocks ! it)\<lparr>tr_first := tsn\<rparr>])
      else (True, take it blocks @ TsnRange_of tsn tsn # drop it blocks))"

definition AdditionalTsnBlocks_EraseTo :: "UnwrappedTSN \<Rightarrow> TsnRange list \<Rightarrow> TsnRange list" where
  "AdditionalTsnBlocks_EraseTo tsn blocks =
     (let it = lower_bound (\<lambda>elem. tr_last elem < tsn) blocks;
          tsn_is_within_block = (it \<noteq> length blocks \<and> tsn \<ge> tr_first (blocks ! it));
          blocks = drop it blocks
      in if tsn_is_within_block then blocks[0 := (blocks ! 0)\<lparr>tr_first := next_value tsn\<rparr>]
         else blocks)"

definition AdditionalTsnBlocks_PopFront :: "TsnRange list \<Rightarrow> TsnRange list" where
  "AdditionalTsnBlocks_PopFront blocks = drop 1 blocks"

section \<open>The tracker\<close>

datatype AckState = Ack_Idle | Ack_BecomingDelayed | Ack_Delayed | Ack_Immediate

definition kMaxDuplicateTsnReported :: nat where
  "kMaxDuplicateTsnReported = 20"

definition kMaxGapAckBlocksReported :: nat where
  "kMaxGapAckBlocksReported = 20"

definition kMaxAcceptedOutstandingFragments :: u32 where
  "kMaxAcceptedOutstandingFragments = 100000"

record DataTracker =
  dt_seen_packet :: bool
  dt_delayed_ack_timer :: Timer
  dt_ack_state :: AckState
  dt_tsn_unwrapper :: "u32 SeqNumUnwrapper"
  dt_last_cumulative_acked_tsn :: UnwrappedTSN
  dt_additional_tsn_blocks :: "TsnRange list"
  dt_duplicate_tsns :: "u32 set"

definition DataTracker_new :: "Timer \<Rightarrow> u32 \<Rightarrow> DataTracker" where
  "DataTracker_new delayed_ack_timer peer_initial_tsn =
     (let (tsn, unwrapper) = Unwrap (peer_initial_tsn - 1) SeqNumUnwrapper_init in
      \<lparr>dt_seen_packet = False, dt_delayed_ack_timer = delayed_ack_timer, dt_ack_state = Ack_Idle,
       dt_tsn_unwrapper = unwrapper, dt_last_cumulative_acked_tsn = tsn,
       dt_additional_tsn_blocks = [], dt_duplicate_tsns = {}\<rparr>)"

definition IsTSNValid :: "u32 \<Rightarrow> DataTracker \<Rightarrow> bool" where
  "IsTSNValid tsn d =
     (let unwrapped_tsn = PeekUnwrap tsn (dt_tsn_unwrapper d);
          difference = Difference unwrapped_tsn (dt_last_cumulative_acked_tsn d) :: u32
      in \<not> difference > kMaxAcceptedOutstandingFragments)"

definition UpdateAckState :: "AckState \<Rightarrow> DataTracker \<Rightarrow> DataTracker" where
  "UpdateAckState new_state d =
     (if new_state \<noteq> dt_ack_state d then
        let d = (if dt_ack_state d = Ack_Delayed
                 then d\<lparr>dt_delayed_ack_timer := Timer_Stop (dt_delayed_ack_timer d)\<rparr>
                 else if new_state = Ack_Delayed
                 then d\<lparr>dt_delayed_ack_timer := Timer_Start (dt_delayed_ack_timer d)\<rparr>
                 else d)
        in d\<lparr>dt_ack_state := new_state\<rparr>
      else d)"

definition report_duplicate :: "UnwrappedTSN \<Rightarrow> DataTracker \<Rightarrow> DataTracker" where
  "report_duplicate tsn d =
     (if card (dt_duplicate_tsns d) < kMaxDuplicateTsnReported
      then d\<lparr>dt_duplicate_tsns := insert (Wrap tsn) (dt_duplicate_tsns d)\<rparr> else d)"

text \<open>The cumulative TSN moves past the first block when that block is next to it.\<close>

definition advance_over_front :: "DataTracker \<Rightarrow> DataTracker" where
  "advance_over_front d =
     (if dt_additional_tsn_blocks d \<noteq> [] \<and>
         tr_first (hd (dt_additional_tsn_blocks d)) = next_value (dt_last_cumulative_acked_tsn d)
      then d\<lparr>dt_last_cumulative_acked_tsn := tr_last (hd (dt_additional_tsn_blocks d)),
             dt_additional_tsn_blocks := AdditionalTsnBlocks_PopFront (dt_additional_tsn_blocks d)\<rparr>
      else d)"

text \<open>The delayed-ack rule that DATA and FORWARD-TSN share.\<close>

definition delay_or_send :: "DataTracker \<Rightarrow> DataTracker" where
  "delay_or_send d =
     (if dt_ack_state d = Ack_Idle then UpdateAckState Ack_BecomingDelayed d
      else if dt_ack_state d = Ack_Delayed then UpdateAckState Ack_Immediate d
      else d)"

text \<open>The first part of \<open>Observe\<close>, up to where the ack state no longer depends on the TSN.\<close>

definition Observe_tsn :: "UnwrappedTSN \<Rightarrow> DataTracker \<Rightarrow> bool \<times> DataTracker" where
  "Observe_tsn unwrapped_tsn d =
     (if unwrapped_tsn \<le> dt_last_cumulative_acked_tsn d then
        (True, UpdateAckState Ack_Immediate (report_duplicate unwrapped_tsn d))
      else if unwrapped_tsn = next_value (dt_last_cumulative_acked_tsn d) then
        (False, advance_over_front (d\<lparr>dt_last_cumulative_acked_tsn := unwrapped_tsn\<rparr>))
      else
        let (inserted, blocks) = AdditionalTsnBlocks_Add unwrapped_tsn (dt_additional_tsn_blocks d);
            d = d\<lparr>dt_additional_tsn_blocks := blocks\<rparr>
        in if \<not> inserted then (True, report_duplicate unwrapped_tsn d) else (False, d))"

text \<open>The rest of \<open>Observe\<close>: what the arrival means for the next SACK.\<close>

definition Observe_ack :: "bool \<Rightarrow> DataTracker \<Rightarrow> DataTracker" where
  "Observe_ack immediate_ack d =
     (let d = (if dt_additional_tsn_blocks d \<noteq> [] then UpdateAckState Ack_Immediate d else d);
          d = (if immediate_ack then UpdateAckState Ack_Immediate d else d);
          d = (if \<not> dt_seen_packet d then UpdateAckState Ack_Immediate (d\<lparr>dt_seen_packet := True\<rparr>)
               else d)
      in delay_or_send d)"

definition DataTracker_Observe :: "u32 \<Rightarrow> bool \<Rightarrow> DataTracker \<Rightarrow> bool \<times> DataTracker" where
  "DataTracker_Observe tsn immediate_ack d =
     (let (unwrapped_tsn, unwrapper) = Unwrap tsn (dt_tsn_unwrapper d);
          d = d\<lparr>dt_tsn_unwrapper := unwrapper\<rparr>;
          (is_duplicate, d) = Observe_tsn unwrapped_tsn d
      in (\<not> is_duplicate, Observe_ack immediate_ack d))"

definition DataTracker_HandleForwardTsn :: "u32 \<Rightarrow> DataTracker \<Rightarrow> bool \<times> DataTracker" where
  "DataTracker_HandleForwardTsn new_cumulative_ack d =
     (let (unwrapped_tsn, unwrapper) = Unwrap new_cumulative_ack (dt_tsn_unwrapper d);
          d = d\<lparr>dt_tsn_unwrapper := unwrapper\<rparr>
      in if unwrapped_tsn \<le> dt_last_cumulative_acked_tsn d then
           (False, UpdateAckState Ack_Immediate d)
         else
           let d = d\<lparr>dt_last_cumulative_acked_tsn := unwrapped_tsn,
                     dt_additional_tsn_blocks :=
                       AdditionalTsnBlocks_EraseTo unwrapped_tsn (dt_additional_tsn_blocks d)\<rparr>
           in (True, delay_or_send (advance_over_front d)))"

definition CreateGapAckBlocks :: "DataTracker \<Rightarrow> GapAckBlock list" where
  "CreateGapAckBlocks d =
     map (\<lambda>block.
            let start_diff = Difference (tr_first block) (dt_last_cumulative_acked_tsn d) :: u32;
                end_diff = Difference (tr_last block) (dt_last_cumulative_acked_tsn d) :: u32
            in \<lparr>gab_start = ucast start_diff, gab_end = ucast end_diff\<rparr>)
       (take kMaxGapAckBlocksReported (dt_additional_tsn_blocks d))"

definition CreateSelectiveAck :: "nat \<Rightarrow> DataTracker \<Rightarrow> SackChunk \<times> DataTracker" where
  "CreateSelectiveAck a_rwnd d =
     (\<lparr>sack_cumulative_tsn_ack = Wrap (dt_last_cumulative_acked_tsn d),
       sack_a_rwnd = of_nat a_rwnd,
       sack_gap_ack_blocks = CreateGapAckBlocks d,
       sack_duplicate_tsns = dt_duplicate_tsns d\<rparr>,
      d\<lparr>dt_duplicate_tsns := {}\<rparr>)"

definition ShouldSendAck :: "bool \<Rightarrow> DataTracker \<Rightarrow> bool \<times> DataTracker" where
  "ShouldSendAck also_if_delayed d =
     (if dt_ack_state d = Ack_Immediate \<or>
         (also_if_delayed \<and> (dt_ack_state d = Ack_BecomingDelayed \<or> dt_ack_state d = Ack_Delayed))
      then (True, UpdateAckState Ack_Idle d)
      else (False, d))"

definition last_cumulative_acked_tsn :: "DataTracker \<Rightarrow> u32" where
  "last_cumulative_acked_tsn d = Wrap (dt_last_cumulative_acked_tsn d)"

definition IsLaterThanCumulativeAckedTsn :: "u32 \<Rightarrow> DataTracker \<Rightarrow> bool" where
  "IsLaterThanCumulativeAckedTsn tsn d \<longleftrightarrow>
     PeekUnwrap tsn (dt_tsn_unwrapper d) > dt_last_cumulative_acked_tsn d"

definition will_increase_cum_ack_tsn :: "u32 \<Rightarrow> DataTracker \<Rightarrow> bool" where
  "will_increase_cum_ack_tsn tsn d \<longleftrightarrow>
     PeekUnwrap tsn (dt_tsn_unwrapper d) = next_value (dt_last_cumulative_acked_tsn d)"

definition ForceImmediateSack :: "DataTracker \<Rightarrow> DataTracker" where
  "ForceImmediateSack d = d\<lparr>dt_ack_state := Ack_Immediate\<rparr>"

definition HandleDelayedAckTimerExpiry :: "DataTracker \<Rightarrow> DataTracker" where
  "HandleDelayedAckTimerExpiry d = UpdateAckState Ack_Immediate d"

definition ObservePacketEnd :: "DataTracker \<Rightarrow> DataTracker" where
  "ObservePacketEnd d =
     (if dt_ack_state d = Ack_BecomingDelayed then UpdateAckState Ack_Delayed d else d)"

definition DataTracker_GetHandoverReadiness :: "DataTracker \<Rightarrow> HandoverReadinessStatus" where
  "DataTracker_GetHandoverReadiness d =
     (let status = HandoverReadinessStatus_none in
      if dt_additional_tsn_blocks d \<noteq> []
      then HandoverReadinessStatus_Add kDataTrackerTsnBlocksPending status else status)"

definition DataTracker_AddHandoverState ::
  "DataTracker \<Rightarrow> DcSctpSocketHandoverState \<Rightarrow> DcSctpSocketHandoverState" where
  "DataTracker_AddHandoverState d state =
     state\<lparr>hs_rx := (hs_rx state)\<lparr>hr_last_cumulative_acked_tsn := last_cumulative_acked_tsn d,
                                  hr_seen_packet := dt_seen_packet d\<rparr>\<rparr>"

definition DataTracker_RestoreFromState ::
  "DcSctpSocketHandoverState \<Rightarrow> DataTracker \<Rightarrow> DataTracker" where
  "DataTracker_RestoreFromState state d =
     (let (tsn, unwrapper) =
            Unwrap (hr_last_cumulative_acked_tsn (hs_rx state)) (dt_tsn_unwrapper d)
      in d\<lparr>dt_seen_packet := hr_seen_packet (hs_rx state), dt_tsn_unwrapper := unwrapper,
           dt_last_cumulative_acked_tsn := tsn\<rparr>)"

section \<open>Blocks as a set\<close>

interpretation tsn_ranges: interval_list "tr_first :: TsnRange \<Rightarrow> int" tr_last
  by unfold_locales (rule TsnRange.equality, simp_all)

definition block_set :: "TsnRange list \<Rightarrow> UnwrappedTSN set" where
  "block_set bs = covered tr_first tr_last bs"

abbreviation separated_blocks :: "TsnRange list \<Rightarrow> bool" where
  "separated_blocks bs \<equiv> separated tr_first tr_last bs"

lemma block_set_simps [simp]:
  "block_set [] = {}"
  "block_set (b # bs) = {tr_first b..tr_last b} \<union> block_set bs"
  "block_set (as @ bs) = block_set as \<union> block_set bs"
  by (simp_all add: block_set_def)

text \<open>The search splits the blocks into those before the TSN and the rest.\<close>

lemma lower_bound_split:
  obtains as bs where "xs = as @ bs" and "lower_bound P xs = length as"
    and "\<forall>a\<in>set as. P a" and "bs \<noteq> [] \<longrightarrow> \<not> P (hd bs)"
proof
  show "xs = takeWhile P xs @ dropWhile P xs" by simp
  show "lower_bound P xs = length (takeWhile P xs)" by (simp add: lower_bound_def)
  show "\<forall>a\<in>set (takeWhile P xs). P a" by (auto dest: set_takeWhileD)
  show "dropWhile P xs \<noteq> [] \<longrightarrow> \<not> P (hd (dropWhile P xs))" by (simp add: hd_dropWhile)
qed

lemma Add_append:
  assumes "\<forall>a\<in>set as. tr_last a + 1 < tsn" and "bs \<noteq> [] \<longrightarrow> \<not> tr_last (hd bs) + 1 < tsn"
  shows "AdditionalTsnBlocks_Add tsn (as @ bs) =
    (case bs of
       [] \<Rightarrow> (True, as @ [TsnRange_of tsn tsn])
     | b # cs \<Rightarrow>
         if tr_first b \<le> tsn \<and> tsn \<le> tr_last b then (False, as @ bs)
         else if tr_last b + 1 = tsn then
           (if cs \<noteq> [] \<and> tsn + 1 = tr_first (hd cs)
            then (True, as @ b\<lparr>tr_last := tr_last (hd cs)\<rparr> # tl cs)
            else (True, as @ b\<lparr>tr_last := tsn\<rparr> # cs))
         else if tr_first b = tsn + 1 then (True, as @ b\<lparr>tr_first := tsn\<rparr> # cs)
         else (True, as @ TsnRange_of tsn tsn # bs))"
proof -
  have "takeWhile (\<lambda>e. tr_last e + 1 < tsn) (as @ bs) = as"
    using assms by (cases bs) (auto simp: takeWhile_append)
  then have it: "lower_bound (\<lambda>e. next_value (tr_last e) < tsn) (as @ bs) = length as"
    by (simp add: lower_bound_def next_value_def)
  show ?thesis
  proof (cases bs)
    case Nil
    with it show ?thesis by (simp add: AdditionalTsnBlocks_Add_def Let_def)
  next
    case (Cons b cs)
    with it show ?thesis
      by (cases cs)
        (simp_all add: AdditionalTsnBlocks_Add_def Let_def next_value_def nth_append
          list_update_append)
  qed
qed

lemma not_in_blocks_below: "\<forall>a\<in>set as. tr_last a < x \<Longrightarrow> x \<notin> block_set as"
  by (force simp: block_set_def covered_def)

lemma not_in_blocks_above: "\<forall>a\<in>set as. x < tr_first a \<Longrightarrow> x \<notin> block_set as"
  unfolding block_set_def by (rule covered_gap)

text \<open>What it means that a TSN was added to a block list.\<close>

definition adds :: "UnwrappedTSN \<Rightarrow> TsnRange list \<Rightarrow> bool \<times> TsnRange list \<Rightarrow> bool" where
  "adds tsn blocks r \<longleftrightarrow>
     separated_blocks (snd r) \<and> block_set (snd r) = insert tsn (block_set blocks) \<and>
     fst r = (tsn \<notin> block_set blocks)"

lemma adds_right:
  assumes "separated_blocks (as @ b # cs)" and "tr_last b + 1 = tsn"
  shows "adds tsn (as @ b # cs)
    (if cs \<noteq> [] \<and> tsn + 1 = tr_first (hd cs)
     then (True, as @ b\<lparr>tr_last := tr_last (hd cs)\<rparr> # tl cs)
     else (True, as @ b\<lparr>tr_last := tsn\<rparr> # cs))"
proof -
  have cross: "\<And>a. a \<in> set as \<Longrightarrow> tr_last a + 1 < tr_first b"
    and b: "tr_first b \<le> tr_last b" and cs: "separated_blocks cs"
    "\<And>c. c \<in> set cs \<Longrightarrow> tr_last b + 1 < tr_first c"
    using assms(1) by (simp_all add: separated_append)
  have "tsn \<notin> block_set as"
    using cross b assms(2) by (intro not_in_blocks_below ballI) force
  moreover have "tsn \<notin> block_set cs"
    using cs(2) assms(2) by (intro not_in_blocks_above ballI) force
  ultimately have new: "tsn \<notin> block_set (as @ b # cs)" using assms(2) by simp
  show ?thesis
  proof (cases "cs \<noteq> [] \<and> tsn + 1 = tr_first (hd cs)")
    case True
    then obtain c ds where "cs = c # ds" and "tsn + 1 = tr_first c" by (cases cs) auto
    with assms b new show ?thesis by (auto simp: adds_def separated_append)
  next
    case False
    have "tsn + 1 < tr_first c" if "c \<in> set cs" for c
      using False cs that assms(2) by (cases cs) force+
    with False assms b new show ?thesis by (auto simp: adds_def separated_append)
  qed
qed

lemma adds_left:
  assumes "separated_blocks (as @ b # cs)" and "\<forall>a\<in>set as. tr_last a + 1 < tsn"
    and "tsn < tr_first b"
  shows "adds tsn (as @ b # cs)
    (if tr_first b = tsn + 1 then (True, as @ b\<lparr>tr_first := tsn\<rparr> # cs)
     else (True, as @ TsnRange_of tsn tsn # b # cs))"
proof -
  have b: "tr_first b \<le> tr_last b" and above: "\<And>c. c \<in> set cs \<Longrightarrow> tr_last b + 1 < tr_first c"
    using assms(1) by (simp_all add: separated_append)
  have "tsn \<notin> block_set as"
    using assms(2) by (intro not_in_blocks_below ballI) force
  moreover have "tsn \<notin> block_set cs"
    using above assms(3) b by (intro not_in_blocks_above ballI) force
  ultimately have new: "tsn \<notin> block_set (as @ b # cs)" using assms(3) by simp
  show ?thesis
  proof (cases "tr_first b = tsn + 1")
    case True
    with assms b new show ?thesis by (auto simp: adds_def separated_append)
  next
    case False
    then have "tsn + 1 < tr_first c" if "c \<in> set (b # cs)" for c
      using assms(3) above b that by force
    with False assms b new show ?thesis
      by (simp add: adds_def separated_append TsnRange_of_def)
  qed
qed

lemma Add_correct:
  assumes "separated_blocks blocks"
  shows "adds tsn blocks (AdditionalTsnBlocks_Add tsn blocks)"
proof -
  obtain as bs where split: "blocks = as @ bs"
    and as: "\<forall>a\<in>set as. tr_last a + 1 < tsn"
    and bs: "bs \<noteq> [] \<longrightarrow> \<not> tr_last (hd bs) + 1 < tsn"
    using lower_bound_split [of blocks "\<lambda>e. tr_last e + 1 < tsn"] by metis
  note eq = Add_append [OF as bs, folded split]
  show ?thesis
  proof (cases bs)
    case Nil
    moreover have "tsn \<notin> block_set as"
      using as by (intro not_in_blocks_below ballI) force
    ultimately show ?thesis
      using eq assms as by (simp add: adds_def split separated_append TsnRange_of_def)
  next
    case (Cons b cs)
    then have "tsn \<le> tr_last b + 1" using bs by simp
    then consider "tr_first b \<le> tsn" "tsn \<le> tr_last b" | "tr_last b + 1 = tsn" | "tsn < tr_first b" "tsn \<le> tr_last b"
      using assms by (simp add: split Cons separated_append) linarith
    then show ?thesis
    proof cases
      case 1
      with eq assms show ?thesis by (auto simp: adds_def split Cons)
    next
      case 2
      with eq adds_right [OF assms [unfolded split Cons] 2] show ?thesis
        by (simp only: split Cons list.case) simp
    next
      case 3
      with eq adds_left [OF assms [unfolded split Cons] as 3(1)] show ?thesis
        by (simp only: split Cons list.case) simp
    qed
  qed
qed

lemmas Add_separated = Add_correct [unfolded adds_def, THEN conjunct1]
lemmas Add_set = Add_correct [unfolded adds_def, THEN conjunct2, THEN conjunct1]
lemmas Add_fresh = Add_correct [unfolded adds_def, THEN conjunct2, THEN conjunct2]

lemma EraseTo_append:
  assumes "\<forall>a\<in>set as. tr_last a < tsn" and "bs \<noteq> [] \<longrightarrow> \<not> tr_last (hd bs) < tsn"
  shows "AdditionalTsnBlocks_EraseTo tsn (as @ bs) =
    (case bs of
       [] \<Rightarrow> []
     | b # cs \<Rightarrow> if tr_first b \<le> tsn then b\<lparr>tr_first := tsn + 1\<rparr> # cs else b # cs)"
proof -
  have "takeWhile (\<lambda>e. tr_last e < tsn) (as @ bs) = as"
    using assms by (cases bs) (auto simp: takeWhile_append)
  then have it: "lower_bound (\<lambda>e. tr_last e < tsn) (as @ bs) = length as"
    by (simp add: lower_bound_def)
  then show ?thesis
    by (cases bs) (simp_all add: AdditionalTsnBlocks_EraseTo_def Let_def next_value_def)
qed

section \<open>The tracker as a set of TSNs\<close>

definition received :: "DataTracker \<Rightarrow> UnwrappedTSN set" where
  "received d = {..dt_last_cumulative_acked_tsn d} \<union> block_set (dt_additional_tsn_blocks d)"

definition blocks_ok :: "DataTracker \<Rightarrow> bool" where
  "blocks_ok d \<longleftrightarrow>
     separated_blocks (dt_additional_tsn_blocks d) \<and>
     (\<forall>b\<in>set (dt_additional_tsn_blocks d). dt_last_cumulative_acked_tsn d + 1 < tr_first b)"

text \<open>
  Moving the cumulative TSN over the first block restores the gap below the blocks. The first block
  may be empty here: \<open>EraseTo\<close> truncates a block even when nothing of it is left.
\<close>

lemma advance_over_front_correct:
  assumes blocks: "dt_additional_tsn_blocks d = bs" and cum: "dt_last_cumulative_acked_tsn d = cum"
    and front: "bs \<noteq> [] \<Longrightarrow> separated_blocks (tl bs) \<and> cum < tr_first (hd bs) \<and> cum \<le> tr_last (hd bs) \<and>
      (tr_first (hd bs) = cum + 1 \<or> tr_first (hd bs) \<le> tr_last (hd bs)) \<and>
      (\<forall>c\<in>set (tl bs). tr_last (hd bs) + 1 < tr_first c)"
  shows "blocks_ok (advance_over_front d)" and "received (advance_over_front d) = received d"
proof -
  have "blocks_ok (advance_over_front d) \<and> received (advance_over_front d) = received d"
  proof (cases bs)
    case Nil
    with blocks show ?thesis by (simp add: advance_over_front_def blocks_ok_def)
  next
    case (Cons b cs)
    have f: "separated_blocks cs" "cum < tr_first b" "cum \<le> tr_last b"
      "\<And>c. c \<in> set cs \<Longrightarrow> tr_last b + 1 < tr_first c" "tr_first b = cum + 1 \<or> tr_first b \<le> tr_last b"
      using front by (simp_all add: Cons)
    show ?thesis
    proof (cases "tr_first b = cum + 1")
      case True
      then have "{..tr_last b} = {..cum} \<union> {tr_first b..tr_last b}"
        using f(3) by auto
      with True f blocks cum Cons show ?thesis
        by (simp add: advance_over_front_def blocks_ok_def received_def next_value_def
            AdditionalTsnBlocks_PopFront_def Un_assoc)
    next
      case False
      then have "\<forall>c\<in>set (b # cs). cum + 1 < tr_first c"
        using f by force
      with False f blocks cum Cons show ?thesis
        by (simp add: advance_over_front_def blocks_ok_def received_def next_value_def)
    qed
  qed
  then show "blocks_ok (advance_over_front d)" and "received (advance_over_front d) = received d"
    by simp_all
qed

lemma EraseTo_advance:
  assumes "blocks_ok d" and "dt_last_cumulative_acked_tsn d < tsn"
  defines "d' \<equiv> advance_over_front (d\<lparr>dt_last_cumulative_acked_tsn := tsn,
    dt_additional_tsn_blocks := AdditionalTsnBlocks_EraseTo tsn (dt_additional_tsn_blocks d)\<rparr>)"
  shows "blocks_ok d'" and "received d' = received d \<union> {..tsn}"
proof -
  let ?blocks = "dt_additional_tsn_blocks d"
  obtain as bs where split: "?blocks = as @ bs"
    and as: "\<forall>a\<in>set as. tr_last a < tsn"
    and bs: "bs \<noteq> [] \<longrightarrow> \<not> tr_last (hd bs) < tsn"
    using lower_bound_split [of ?blocks "\<lambda>e. tr_last e < tsn"] by metis
  note eq = EraseTo_append [OF as bs, folded split]
  let ?d = "d\<lparr>dt_last_cumulative_acked_tsn := tsn,
    dt_additional_tsn_blocks := AdditionalTsnBlocks_EraseTo tsn ?blocks\<rparr>"
  have sep: "separated_blocks bs"
    using assms(1) by (simp add: blocks_ok_def split separated_append)
  let ?bs = "AdditionalTsnBlocks_EraseTo tsn ?blocks"
  have "?bs \<noteq> [] \<Longrightarrow> separated_blocks (tl ?bs) \<and> tsn < tr_first (hd ?bs) \<and> tsn \<le> tr_last (hd ?bs) \<and>
      (tr_first (hd ?bs) = tsn + 1 \<or> tr_first (hd ?bs) \<le> tr_last (hd ?bs)) \<and>
      (\<forall>c\<in>set (tl ?bs). tr_last (hd ?bs) + 1 < tr_first c)"
    using sep bs unfolding eq by (cases bs) auto
  note adv = advance_over_front_correct [of ?d, OF _ _ this, simplified]
  show "blocks_ok d'" unfolding d'_def by (rule adv(1))
  have "block_set as \<subseteq> {..tsn}"
    using as by (force simp: block_set_def covered_def)
  moreover have "{..tsn} \<union> block_set ?bs = {..tsn} \<union> block_set bs"
    using bs unfolding eq by (cases bs) auto
  ultimately show "received d' = received d \<union> {..tsn}"
    using assms(2) unfolding d'_def adv(2) by (auto simp: received_def split)
qed

section \<open>Frames and the ack state\<close>

text \<open>The ack state changes independently of the record of TSNs.\<close>

lemma UpdateAckState_frame [simp]:
  "dt_seen_packet (UpdateAckState st d) = dt_seen_packet d"
  "dt_tsn_unwrapper (UpdateAckState st d) = dt_tsn_unwrapper d"
  "dt_last_cumulative_acked_tsn (UpdateAckState st d) = dt_last_cumulative_acked_tsn d"
  "dt_additional_tsn_blocks (UpdateAckState st d) = dt_additional_tsn_blocks d"
  "dt_duplicate_tsns (UpdateAckState st d) = dt_duplicate_tsns d"
  "dt_ack_state (UpdateAckState st d) = st"
  by (simp_all add: UpdateAckState_def Let_def)

lemma delay_or_send_frame [simp]:
  "dt_seen_packet (delay_or_send d) = dt_seen_packet d"
  "dt_tsn_unwrapper (delay_or_send d) = dt_tsn_unwrapper d"
  "dt_last_cumulative_acked_tsn (delay_or_send d) = dt_last_cumulative_acked_tsn d"
  "dt_additional_tsn_blocks (delay_or_send d) = dt_additional_tsn_blocks d"
  "dt_duplicate_tsns (delay_or_send d) = dt_duplicate_tsns d"
  by (simp_all add: delay_or_send_def)

lemma report_duplicate_frame [simp]:
  "dt_seen_packet (report_duplicate t d) = dt_seen_packet d"
  "dt_delayed_ack_timer (report_duplicate t d) = dt_delayed_ack_timer d"
  "dt_ack_state (report_duplicate t d) = dt_ack_state d"
  "dt_tsn_unwrapper (report_duplicate t d) = dt_tsn_unwrapper d"
  "dt_last_cumulative_acked_tsn (report_duplicate t d) = dt_last_cumulative_acked_tsn d"
  "dt_additional_tsn_blocks (report_duplicate t d) = dt_additional_tsn_blocks d"
  by (simp_all add: report_duplicate_def)

lemma advance_over_front_frame [simp]:
  "dt_seen_packet (advance_over_front d) = dt_seen_packet d"
  "dt_delayed_ack_timer (advance_over_front d) = dt_delayed_ack_timer d"
  "dt_ack_state (advance_over_front d) = dt_ack_state d"
  "dt_tsn_unwrapper (advance_over_front d) = dt_tsn_unwrapper d"
  "dt_duplicate_tsns (advance_over_front d) = dt_duplicate_tsns d"
  by (simp_all add: advance_over_front_def)

lemma Timer_Start_running [simp]: "tm_is_running (Timer_Start t)"
  by (simp add: Timer_Start_def timeout_call_def Let_def)

text \<open>While an ack is delayed its timer is running.\<close>

definition ack_ok :: "DataTracker \<Rightarrow> bool" where
  "ack_ok d \<longleftrightarrow> (dt_ack_state d = Ack_Delayed \<longrightarrow> tm_is_running (dt_delayed_ack_timer d))"

lemma ack_ok_UpdateAckState: "ack_ok d \<Longrightarrow> ack_ok (UpdateAckState st d)"
  by (auto simp: ack_ok_def UpdateAckState_def Let_def)

lemma ack_ok_delay_or_send: "ack_ok d \<Longrightarrow> ack_ok (delay_or_send d)"
  by (simp add: delay_or_send_def ack_ok_UpdateAckState)

text \<open>The invariant of the tracker.\<close>

definition duplicates_ok :: "DataTracker \<Rightarrow> bool" where
  "duplicates_ok d \<longleftrightarrow> finite (dt_duplicate_tsns d) \<and> card (dt_duplicate_tsns d) \<le> kMaxDuplicateTsnReported"

definition dt_ok :: "DataTracker \<Rightarrow> bool" where
  "dt_ok d \<longleftrightarrow>
     unwrapper_ok (dt_tsn_unwrapper d) \<and> snu_last_value (dt_tsn_unwrapper d) \<noteq> None \<and>
     blocks_ok d \<and> ack_ok d \<and> duplicates_ok d"

lemma duplicates_ok_report: "duplicates_ok d \<Longrightarrow> duplicates_ok (report_duplicate t d)"
  by (auto simp: duplicates_ok_def report_duplicate_def card_insert_if)

text \<open>The set of TSNs and the invariant depend on some fields only.\<close>

lemma received_cong:
  "dt_last_cumulative_acked_tsn d = dt_last_cumulative_acked_tsn d' \<Longrightarrow>
   dt_additional_tsn_blocks d = dt_additional_tsn_blocks d' \<Longrightarrow> received d = received d'"
  by (simp add: received_def)

lemma blocks_ok_cong:
  "dt_last_cumulative_acked_tsn d = dt_last_cumulative_acked_tsn d' \<Longrightarrow>
   dt_additional_tsn_blocks d = dt_additional_tsn_blocks d' \<Longrightarrow> blocks_ok d = blocks_ok d'"
  by (simp add: blocks_ok_def)

lemma received_frame [simp]:
  "received (UpdateAckState st d) = received d" "received (delay_or_send d) = received d"
  "received (report_duplicate t d) = received d" "received (d\<lparr>dt_tsn_unwrapper := u\<rparr>) = received d"
  "received (d\<lparr>dt_seen_packet := b\<rparr>) = received d" "received (d\<lparr>dt_ack_state := st\<rparr>) = received d"
  "received (d\<lparr>dt_duplicate_tsns := ts\<rparr>) = received d"
  by (rule received_cong, simp_all)+

lemma blocks_ok_frame [simp]:
  "blocks_ok (UpdateAckState st d) = blocks_ok d" "blocks_ok (delay_or_send d) = blocks_ok d"
  "blocks_ok (report_duplicate t d) = blocks_ok d" "blocks_ok (d\<lparr>dt_tsn_unwrapper := u\<rparr>) = blocks_ok d"
  "blocks_ok (d\<lparr>dt_seen_packet := b\<rparr>) = blocks_ok d" "blocks_ok (d\<lparr>dt_ack_state := st\<rparr>) = blocks_ok d"
  "blocks_ok (d\<lparr>dt_duplicate_tsns := ts\<rparr>) = blocks_ok d"
  by (rule blocks_ok_cong, simp_all)+

lemma duplicates_ok_frame [simp]:
  "duplicates_ok (UpdateAckState st d) = duplicates_ok d" "duplicates_ok (delay_or_send d) = duplicates_ok d"
  "duplicates_ok (advance_over_front d) = duplicates_ok d" "duplicates_ok (d\<lparr>dt_tsn_unwrapper := u\<rparr>) = duplicates_ok d"
  "duplicates_ok (d\<lparr>dt_seen_packet := b\<rparr>) = duplicates_ok d"
  "duplicates_ok (d\<lparr>dt_last_cumulative_acked_tsn := c\<rparr>) = duplicates_ok d"
  "duplicates_ok (d\<lparr>dt_additional_tsn_blocks := bs\<rparr>) = duplicates_ok d"
  "duplicates_ok (d\<lparr>dt_ack_state := st\<rparr>) = duplicates_ok d"
  by (simp_all add: duplicates_ok_def)

lemma ack_ok_frame [simp]:
  "ack_ok (report_duplicate t d) = ack_ok d" "ack_ok (advance_over_front d) = ack_ok d"
  "ack_ok (d\<lparr>dt_tsn_unwrapper := u\<rparr>) = ack_ok d" "ack_ok (d\<lparr>dt_seen_packet := b\<rparr>) = ack_ok d"
  "ack_ok (d\<lparr>dt_last_cumulative_acked_tsn := c\<rparr>) = ack_ok d"
  "ack_ok (d\<lparr>dt_additional_tsn_blocks := bs\<rparr>) = ack_ok d"
  "ack_ok (d\<lparr>dt_duplicate_tsns := ts\<rparr>) = ack_ok d"
  by (simp_all add: ack_ok_def)

section \<open>Refinement\<close>

text \<open>What \<open>Observe\<close> does to the record of TSNs when \<open>t\<close> arrives.\<close>

definition observes :: "UnwrappedTSN \<Rightarrow> DataTracker \<Rightarrow> bool \<times> DataTracker \<Rightarrow> bool" where
  "observes t d r \<longleftrightarrow>
     blocks_ok (snd r) \<and> ack_ok (snd r) \<and> duplicates_ok (snd r) \<and>
     received (snd r) = insert t (received d) \<and> fst r = (t \<in> received d) \<and>
     dt_tsn_unwrapper (snd r) = dt_tsn_unwrapper d"

lemma observes_old:
  assumes "blocks_ok d" and "ack_ok d" and "duplicates_ok d" and "t \<le> dt_last_cumulative_acked_tsn d"
  shows "observes t d (Observe_tsn t d)"
proof -
  from assms(4) have "t \<in> received d" by (simp add: received_def)
  with assms show ?thesis
    by (auto simp: observes_def Observe_tsn_def ack_ok_UpdateAckState duplicates_ok_report)
qed

lemma observes_cumulative:
  assumes "blocks_ok d" and "ack_ok d" and "duplicates_ok d" and "t = dt_last_cumulative_acked_tsn d + 1"
  shows "observes t d (Observe_tsn t d)"
proof -
  let ?bs = "dt_additional_tsn_blocks d" and ?d = "d\<lparr>dt_last_cumulative_acked_tsn := t\<rparr>"
  have sep: "separated_blocks ?bs" and gap: "\<And>b. b \<in> set ?bs \<Longrightarrow> t < tr_first b"
    using assms(1,4) by (simp_all add: blocks_ok_def)
  have "?bs \<noteq> [] \<Longrightarrow> separated_blocks (tl ?bs) \<and> t < tr_first (hd ?bs) \<and> t \<le> tr_last (hd ?bs) \<and>
    (tr_first (hd ?bs) = t + 1 \<or> tr_first (hd ?bs) \<le> tr_last (hd ?bs)) \<and>
    (\<forall>c\<in>set (tl ?bs). tr_last (hd ?bs) + 1 < tr_first c)"
    using sep gap by (cases ?bs) force+
  note adv = advance_over_front_correct [of ?d, OF _ _ this, simplified]
  have "t \<notin> block_set ?bs" using gap by (intro not_in_blocks_above ballI) force
  then have "t \<notin> received d" and "received ?d = insert t (received d)"
    using assms(4) by (auto simp: received_def)
  with adv assms show ?thesis by (simp add: observes_def Observe_tsn_def next_value_def)
qed

lemma observes_additional:
  assumes "blocks_ok d" and "ack_ok d" and "duplicates_ok d" and "dt_last_cumulative_acked_tsn d + 1 < t"
  shows "observes t d (Observe_tsn t d)"
proof -
  let ?cum = "dt_last_cumulative_acked_tsn d" and ?bs = "dt_additional_tsn_blocks d"
  have sep: "separated_blocks ?bs" and gap: "\<And>b. b \<in> set ?bs \<Longrightarrow> ?cum + 1 < tr_first b"
    using assms(1) by (simp_all add: blocks_ok_def)
  obtain ins bs where add: "AdditionalTsnBlocks_Add t ?bs = (ins, bs)" by fastforce
  have new: "separated_blocks bs" "block_set bs = insert t (block_set ?bs)" "ins = (t \<notin> block_set ?bs)"
    using Add_separated [OF sep, of t] Add_set [OF sep, of t] Add_fresh [OF sep, of t]
    by (simp_all add: add)
  have "?cum + 1 < tr_first b" if "b \<in> set bs" for b
  proof -
    have "tr_first b \<in> block_set bs"
      using that separated_le [OF new(1) that] by (auto simp: block_set_def covered_def)
    then show ?thesis using new(2) assms(4) gap
      by (auto simp: block_set_def covered_def) force
  qed
  with new assms show ?thesis
    by (auto simp: observes_def Observe_tsn_def add next_value_def blocks_ok_def received_def
        duplicates_ok_report)
qed

lemma Observe_tsn_correct:
  assumes "blocks_ok d" and "ack_ok d" and "duplicates_ok d"
  shows "observes t d (Observe_tsn t d)"
proof -
  consider "t \<le> dt_last_cumulative_acked_tsn d" | "t = dt_last_cumulative_acked_tsn d + 1"
    | "dt_last_cumulative_acked_tsn d + 1 < t" by linarith
  then show ?thesis
    using observes_old [OF assms] observes_cumulative [OF assms] observes_additional [OF assms]
    by cases blast+
qed

lemma Observe_ack_frame [simp]:
  "received (Observe_ack imm d) = received d"
  "blocks_ok (Observe_ack imm d) = blocks_ok d"
  "duplicates_ok (Observe_ack imm d) = duplicates_ok d"
  "dt_tsn_unwrapper (Observe_ack imm d) = dt_tsn_unwrapper d"
  by (simp_all add: Observe_ack_def Let_def)

lemma ack_ok_Observe_ack: "ack_ok d \<Longrightarrow> ack_ok (Observe_ack imm d)"
  by (simp add: Observe_ack_def Let_def ack_ok_delay_or_send ack_ok_UpdateAckState)

lemma Observe_correct:
  assumes "dt_ok d" and "DataTracker_Observe tsn imm d = (is_new, d')"
  defines "t \<equiv> PeekUnwrap tsn (dt_tsn_unwrapper d)"
  shows "dt_ok d'" and "received d' = insert t (received d)" and "is_new \<longleftrightarrow> t \<notin> received d"
proof -
  obtain u where u: "Unwrap tsn (dt_tsn_unwrapper d) = (t, u)"
    by (metis PeekUnwrap_Unwrap prod.collapse t_def)
  let ?d = "d\<lparr>dt_tsn_unwrapper := u\<rparr>"
  obtain dup d1 where d1: "Observe_tsn t ?d = (dup, d1)" by fastforce
  have "observes t ?d (Observe_tsn t ?d)"
    using assms(1) by (intro Observe_tsn_correct) (simp_all add: dt_ok_def)
  then have o: "blocks_ok d1" "ack_ok d1" "duplicates_ok d1" "received d1 = insert t (received d)"
    "dup = (t \<in> received d)" "dt_tsn_unwrapper d1 = u"
    by (simp_all add: observes_def d1)
  have "unwrapper_ok u" and "snu_last_value u \<noteq> None"
    using Unwrap_ok [OF _ u] assms(1) by (simp_all add: dt_ok_def)
  moreover have "d' = Observe_ack imm d1" and "is_new = (\<not> dup)"
    using assms(2) by (simp_all add: DataTracker_Observe_def u d1)
  ultimately show "dt_ok d'" and "received d' = insert t (received d)" and "is_new \<longleftrightarrow> t \<notin> received d"
    using o by (simp_all add: dt_ok_def ack_ok_Observe_ack)
qed

lemma HandleForwardTsn_correct:
  assumes "dt_ok d" and "DataTracker_HandleForwardTsn tsn d = (r, d')"
  defines "t \<equiv> PeekUnwrap tsn (dt_tsn_unwrapper d)"
  shows "dt_ok d'" and "received d' = received d \<union> {..t}" and "r \<longleftrightarrow> dt_last_cumulative_acked_tsn d < t"
proof -
  obtain u where u: "Unwrap tsn (dt_tsn_unwrapper d) = (t, u)"
    by (metis PeekUnwrap_Unwrap prod.collapse t_def)
  let ?d = "d\<lparr>dt_tsn_unwrapper := u\<rparr>"
  have un: "unwrapper_ok u" "snu_last_value u \<noteq> None"
    using Unwrap_ok [OF _ u] assms(1) by (simp_all add: dt_ok_def)
  have "dt_ok d' \<and> received d' = received d \<union> {..t} \<and> r = (dt_last_cumulative_acked_tsn d < t)"
  proof (cases "t \<le> dt_last_cumulative_acked_tsn d")
    case True
    then have "received d \<union> {..t} = received d" by (auto simp: received_def)
    moreover have "d' = UpdateAckState Ack_Immediate ?d" and "\<not> r"
      using True assms(2) by (simp_all add: DataTracker_HandleForwardTsn_def u)
    ultimately show ?thesis
      using True assms(1) un by (simp add: dt_ok_def ack_ok_UpdateAckState)
  next
    case False
    have "blocks_ok ?d" and "dt_last_cumulative_acked_tsn ?d < t"
      using assms(1) False by (simp_all add: dt_ok_def)
    note erase = EraseTo_advance [OF this]
    let ?e = "advance_over_front (?d\<lparr>dt_last_cumulative_acked_tsn := t, dt_additional_tsn_blocks :=
      AdditionalTsnBlocks_EraseTo t (dt_additional_tsn_blocks ?d)\<rparr>)"
    have "d' = delay_or_send ?e" and "r"
      using False assms(2) by (simp_all add: DataTracker_HandleForwardTsn_def u)
    with False assms(1) un erase show ?thesis
      by (simp add: dt_ok_def ack_ok_delay_or_send)
  qed
  then show "dt_ok d'" and "received d' = received d \<union> {..t}" and "r \<longleftrightarrow> dt_last_cumulative_acked_tsn d < t"
    by simp_all
qed

lemma dt_ok_new: "dt_ok (DataTracker_new timer tsn)"
proof -
  obtain t u where u: "Unwrap (tsn - 1) SeqNumUnwrapper_init = (t, u)" by fastforce
  from Unwrap_ok [OF unwrapper_ok_init u] show ?thesis
    by (simp add: DataTracker_new_def u dt_ok_def blocks_ok_def ack_ok_def duplicates_ok_def)
qed

lemma dt_ok_UpdateAckState: "dt_ok d \<Longrightarrow> dt_ok (UpdateAckState st d)"
  by (simp add: dt_ok_def ack_ok_UpdateAckState)

lemma dt_ok_ShouldSendAck: "dt_ok d \<Longrightarrow> dt_ok (snd (ShouldSendAck also d))"
  by (simp add: ShouldSendAck_def dt_ok_UpdateAckState)

lemma dt_ok_ObservePacketEnd: "dt_ok d \<Longrightarrow> dt_ok (ObservePacketEnd d)"
  by (simp add: ObservePacketEnd_def dt_ok_UpdateAckState)

lemma dt_ok_CreateSelectiveAck: "dt_ok d \<Longrightarrow> dt_ok (snd (CreateSelectiveAck a_rwnd d))"
  by (simp add: CreateSelectiveAck_def dt_ok_def duplicates_ok_def)

lemma dt_ok_ForceImmediateSack: "dt_ok d \<Longrightarrow> dt_ok (ForceImmediateSack d)"
  by (simp add: ForceImmediateSack_def dt_ok_def ack_ok_def)

text \<open>When the timer has expired, whatever has become of it, its handler restores the invariant.\<close>

lemma dt_ok_timer_expiry:
  "dt_ok d \<Longrightarrow> dt_ok (HandleDelayedAckTimerExpiry (d\<lparr>dt_delayed_ack_timer := t\<rparr>))"
  by (simp add: HandleDelayedAckTimerExpiry_def dt_ok_def ack_ok_def duplicates_ok_def blocks_ok_def)

lemma dt_ok_RestoreFromState:
  assumes "dt_ok d" and "dt_additional_tsn_blocks d = []"
  shows "dt_ok (DataTracker_RestoreFromState state d)"
proof -
  obtain t u where u: "Unwrap (hr_last_cumulative_acked_tsn (hs_rx state)) (dt_tsn_unwrapper d) = (t, u)"
    by fastforce
  from assms Unwrap_ok [OF _ u] show ?thesis
    by (simp add: DataTracker_RestoreFromState_def u dt_ok_def blocks_ok_def ack_ok_def duplicates_ok_def)
qed

text \<open>The states a tracker can be in.\<close>

inductive dt_reachable :: "DataTracker \<Rightarrow> bool" where
  new: "dt_reachable (DataTracker_new timer peer_initial_tsn)"
| data: "dt_reachable d \<Longrightarrow> IsTSNValid tsn d \<Longrightarrow> dt_reachable (snd (DataTracker_Observe tsn imm d))"
| forward_tsn: "dt_reachable d \<Longrightarrow> dt_reachable (snd (DataTracker_HandleForwardTsn tsn d))"
| packet_end: "dt_reachable d \<Longrightarrow> dt_reachable (ObservePacketEnd d)"
| should_send: "dt_reachable d \<Longrightarrow> dt_reachable (snd (ShouldSendAck also d))"
| sack: "dt_reachable d \<Longrightarrow> dt_reachable (snd (CreateSelectiveAck a_rwnd d))"
| forced: "dt_reachable d \<Longrightarrow> dt_reachable (ForceImmediateSack d)"
| expiry: "dt_reachable d \<Longrightarrow>
    dt_reachable (HandleDelayedAckTimerExpiry (d\<lparr>dt_delayed_ack_timer := timer\<rparr>))"
| restored: "dt_reachable d \<Longrightarrow> dt_additional_tsn_blocks d = [] \<Longrightarrow>
    dt_reachable (DataTracker_RestoreFromState state d)"

lemma dt_reachable_ok: "dt_reachable d \<Longrightarrow> dt_ok d"
proof (induction rule: dt_reachable.induct)
  case (data d tsn imm)
  then show ?case using Observe_correct(1) by (metis prod.collapse)
next
  case (forward_tsn d tsn)
  then show ?case using HandleForwardTsn_correct(1) by (metis prod.collapse)
qed (simp_all add: dt_ok_new dt_ok_ObservePacketEnd dt_ok_ShouldSendAck dt_ok_CreateSelectiveAck
    dt_ok_ForceImmediateSack dt_ok_timer_expiry dt_ok_RestoreFromState)

section \<open>Selective acks\<close>

lemma Difference_small:
  assumes "c \<le> x" and "x - c < 65536"
  shows "uint (ucast (Difference x c :: u32) :: u16) = x - c"
proof -
  have "uint (Difference x c :: u32) = (x - c) mod 2 ^ 32"
    using assms(1) by (simp add: Difference_eq uint_word_of_int del: of_int_diff)
  then have "uint (Difference x c :: u32) = x - c" using assms by simp
  with assms show ?thesis by (simp add: unsigned_ucast_eq take_bit_eq_mod)
qed

definition within_reach :: "DataTracker \<Rightarrow> bool" where
  "within_reach d \<longleftrightarrow>
     (\<forall>b\<in>set (dt_additional_tsn_blocks d). tr_last b - dt_last_cumulative_acked_tsn d < 65536)"

definition gap_block :: "UnwrappedTSN \<Rightarrow> TsnRange \<Rightarrow> GapAckBlock" where
  "gap_block cum b = \<lparr>gab_start = ucast (Difference (tr_first b) cum :: u32),
                      gab_end = ucast (Difference (tr_last b) cum :: u32)\<rparr>"

lemma CreateGapAckBlocks_eq:
  "CreateGapAckBlocks d =
     map (gap_block (dt_last_cumulative_acked_tsn d))
       (take kMaxGapAckBlocksReported (dt_additional_tsn_blocks d))"
  by (simp add: CreateGapAckBlocks_def gap_block_def Let_def)

lemma gap_block_bounds:
  assumes "cum + 1 < tr_first b" and "tr_first b \<le> tr_last b" and "tr_last b - cum < 65536"
  shows "gab_lo (gap_block cum b) = tr_first b - cum" and "gab_hi (gap_block cum b) = tr_last b - cum"
  using Difference_small [of cum "tr_first b"] Difference_small [of cum "tr_last b"] assms
  by (simp_all add: gap_block_def)

text \<open>The gap ack blocks are the blocks relative to the cumulative TSN.\<close>

lemma gap_blocks_shifted:
  assumes "separated_blocks bs" and "\<forall>b\<in>set bs. cum + 1 < tr_first b"
    and "\<forall>b\<in>set bs. tr_last b - cum < 65536"
  shows "separated gab_lo gab_hi (map (gap_block cum) bs)"
    and "acked_offsets (map (gap_block cum) bs) = (\<lambda>t. t - cum) ` block_set bs"
proof -
  have b: "gab_lo (gap_block cum b) = tr_first b - cum" "gab_hi (gap_block cum b) = tr_last b - cum"
    if "b \<in> set bs" for b
    using gap_block_bounds assms(2,3) separated_le [OF assms(1)] that by blast+
  have img: "(\<lambda>t. t - cum) ` {lo..hi} = {lo - cum..hi - cum}" for lo hi :: int
    by (simp add: image_diff_atLeastAtMost)
  show "separated gab_lo gab_hi (map (gap_block cum) bs)"
    using assms(1) b by (induction bs) auto
  show "acked_offsets (map (gap_block cum) bs) = (\<lambda>t. t - cum) ` block_set bs"
    using b by (induction bs) (simp_all add: acked_offsets_def image_Un img)
qed

section \<open>The ack state across packets\<close>

lemma Observe_tsn_ack_state:
  "dt_ack_state (snd (Observe_tsn t d)) \<in> {dt_ack_state d, Ack_Immediate}"
  by (simp add: Observe_tsn_def Let_def split: prod.split)

lemma Observe_ack_ack_state:
  "dt_ack_state (Observe_ack imm d) \<in> {Ack_BecomingDelayed, Ack_Immediate}"
  "dt_ack_state d \<in> {Ack_Delayed, Ack_Immediate} \<Longrightarrow> dt_ack_state (Observe_ack imm d) = Ack_Immediate"
  "dt_additional_tsn_blocks d \<noteq> [] \<Longrightarrow> dt_ack_state (Observe_ack imm d) = Ack_Immediate"
  by (cases "dt_ack_state d"; simp add: Observe_ack_def delay_or_send_def Let_def)+

lemma Observe_split:
  obtains d1 where "snd (DataTracker_Observe tsn imm d) = Observe_ack imm d1"
    and "dt_ack_state d1 \<in> {dt_ack_state d, Ack_Immediate}"
proof -
  obtain t u where u: "Unwrap tsn (dt_tsn_unwrapper d) = (t, u)" by fastforce
  have "snd (DataTracker_Observe tsn imm d) =
      Observe_ack imm (snd (Observe_tsn t (d\<lparr>dt_tsn_unwrapper := u\<rparr>)))"
    by (simp add: DataTracker_Observe_def u Let_def split: prod.split)
  moreover have "dt_ack_state (snd (Observe_tsn t (d\<lparr>dt_tsn_unwrapper := u\<rparr>)))
      \<in> {dt_ack_state d, Ack_Immediate}"
    using Observe_tsn_ack_state [of t "d\<lparr>dt_tsn_unwrapper := u\<rparr>"] by simp
  ultimately show thesis by (rule that)
qed

lemma Observe_ack_state:
  "dt_ack_state (snd (DataTracker_Observe tsn imm d)) \<in> {Ack_BecomingDelayed, Ack_Immediate}"
  "dt_ack_state d = Ack_Delayed \<Longrightarrow> dt_ack_state (snd (DataTracker_Observe tsn imm d)) = Ack_Immediate"
proof -
  obtain d1 where d1: "snd (DataTracker_Observe tsn imm d) = Observe_ack imm d1"
    "dt_ack_state d1 \<in> {dt_ack_state d, Ack_Immediate}"
    by (rule Observe_split)
  show "dt_ack_state (snd (DataTracker_Observe tsn imm d)) \<in> {Ack_BecomingDelayed, Ack_Immediate}"
    unfolding d1(1) by (rule Observe_ack_ack_state(1))
  show "dt_ack_state (snd (DataTracker_Observe tsn imm d)) = Ack_Immediate" if "dt_ack_state d = Ack_Delayed"
    unfolding d1(1) using d1(2) that by (intro Observe_ack_ack_state(2)) simp
qed

lemma ObservePacketEnd_ack_state:
  "dt_ack_state (ObservePacketEnd d) =
     (if dt_ack_state d = Ack_BecomingDelayed then Ack_Delayed else dt_ack_state d)"
  by (simp add: ObservePacketEnd_def)

lemma ShouldSendAck_immediate: "fst (ShouldSendAck False d) \<longleftrightarrow> dt_ack_state d = Ack_Immediate"
  by (simp add: ShouldSendAck_def)

section \<open>Properties\<close>

text \<open>
  C3. The data tracker is a set of received TSNs. In every reachable state, \<open>Observe\<close> adds the
  unwrapped TSN to the set and tells whether it was new, and \<open>HandleForwardTsn\<close> adds everything up
  to the given TSN and tells whether that was ahead of the cumulative TSN. The blocks stay sorted,
  disjoint and non-adjacent, above the first missing TSN.
\<close>

theorem data_tracker_refines_set:
  fixes tsn :: u32
  assumes "dt_reachable d"
  defines "t \<equiv> PeekUnwrap tsn (dt_tsn_unwrapper d)"
  shows "(case DataTracker_Observe tsn imm d of (is_new, d') \<Rightarrow>
            blocks_ok d' \<and> received d' = insert t (received d) \<and> is_new = (t \<notin> received d)) \<and>
         (case DataTracker_HandleForwardTsn tsn d of (effect, d') \<Rightarrow>
            blocks_ok d' \<and> received d' = received d \<union> {..t} \<and>
            effect = (dt_last_cumulative_acked_tsn d < t))"
proof -
  note ok = dt_reachable_ok [OF assms(1)]
  obtain n d1 where o: "DataTracker_Observe tsn imm d = (n, d1)" by fastforce
  obtain e d2 where f: "DataTracker_HandleForwardTsn tsn d = (e, d2)" by fastforce
  from Observe_correct [OF ok o] HandleForwardTsn_correct [OF ok f] show ?thesis
    by (simp add: o f t_def dt_ok_def)
qed

definition sample_tracker :: DataTracker where
  "sample_tracker = snd (DataTracker_Observe 65538 False
     (DataTracker_new (Timer_new 1 sample_timer_options) 1))"

lemma sample_tracker_parts:
  "Unwrap (0 :: u32) SeqNumUnwrapper_init = (0, \<lparr>snu_last_unwrapped = 0, snu_last_value = Some 0\<rparr>)"
  "Delta (0 :: u32) 65538 = 65538"
  by (simp_all add: Unwrap_def SeqNumUnwrapper_init_def Delta_def AheadOrAt_def ForwardDiff_def)

lemma sample_tracker_reachable: "dt_reachable sample_tracker"
  unfolding sample_tracker_def
  by (intro data new)
    (simp add: IsTSNValid_def DataTracker_new_def sample_tracker_parts PeekUnwrap_def Difference_def
      kMaxAcceptedOutstandingFragments_def word_of_int_numeral)

lemma sample_tracker_blocks:
  "dt_last_cumulative_acked_tsn sample_tracker = 0"
  "dt_additional_tsn_blocks sample_tracker = [\<lparr>tr_first = 65538, tr_last = 65538\<rparr>]"
  by (simp_all add: sample_tracker_def DataTracker_Observe_def DataTracker_new_def
      sample_tracker_parts Unwrap_def [of "65538 :: u32"] Observe_tsn_def AdditionalTsnBlocks_Add_def
      lower_bound_def TsnRange_of_def next_value_def Observe_ack_def Let_def)

theorem data_tracker_refines_set_witness:
  "dt_reachable sample_tracker \<and>
   fst (DataTracker_HandleForwardTsn 65539 sample_tracker) = (0 < PeekUnwrap 65539 (dt_tsn_unwrapper sample_tracker))"
  using data_tracker_refines_set [OF sample_tracker_reachable, of 65539 False] sample_tracker_reachable
  by (simp add: sample_tracker_blocks split: prod.splits)

text \<open>
  C27. A SACK is sound and complete while every received TSN lies less than 65536 above the
  cumulative one: it passes the receiver's validation, its cumulative TSN and gap ack blocks
  acknowledge only received TSNs, and if there are at most twenty blocks it acknowledges all of
  them. It lists at most twenty duplicates.
\<close>

theorem sack_reports_received:
  fixes a_rwnd :: nat
  assumes "dt_reachable d" and "within_reach d"
  defines "sack \<equiv> fst (CreateSelectiveAck a_rwnd d)" and "cum \<equiv> dt_last_cumulative_acked_tsn d"
  shows "ChunkValidators_Validate sack \<and> sack_cumulative_tsn_ack sack = word_of_int cum \<and>
         (\<forall>off\<in>acked_offsets (sack_gap_ack_blocks sack). cum + off \<in> received d) \<and>
         (length (dt_additional_tsn_blocks d) \<le> kMaxGapAckBlocksReported \<longrightarrow>
            received d = {..cum} \<union> (\<lambda>off. cum + off) ` acked_offsets (sack_gap_ack_blocks sack)) \<and>
         card (sack_duplicate_tsns sack) \<le> kMaxDuplicateTsnReported"
proof -
  let ?all = "dt_additional_tsn_blocks d"
  let ?bs = "take kMaxGapAckBlocksReported ?all"
  have ok: "blocks_ok d" "duplicates_ok d" using dt_reachable_ok [OF assms(1)] by (simp_all add: dt_ok_def)
  have sep: "separated_blocks ?bs"
    using ok(1) separated_append [of tr_first tr_last ?bs "drop kMaxGapAckBlocksReported ?all"]
    by (simp add: blocks_ok_def)
  have low: "\<forall>b\<in>set ?bs. cum + 1 < tr_first b" and high: "\<forall>b\<in>set ?bs. tr_last b - cum < 65536"
    using ok(1) assms(2) by (auto simp: blocks_ok_def within_reach_def cum_def dest: in_set_takeD)
  have gaps: "sack_gap_ack_blocks sack = map (gap_block cum) ?bs"
    by (simp add: sack_def cum_def CreateSelectiveAck_def CreateGapAckBlocks_eq)
  note shifted = gap_blocks_shifted [OF sep low high, folded gaps]
  have "1 < gab_lo g" if "g \<in> set (sack_gap_ack_blocks sack)" for g
    using that gap_block_bounds(1) low high separated_le [OF sep] unfolding gaps by fastforce
  then have "ChunkValidators_Validate sack"
    using shifted(1) by (simp add: ChunkValidators_Validate_def validate_blocks_iff)
  moreover have "\<forall>off\<in>acked_offsets (sack_gap_ack_blocks sack). cum + off \<in> received d"
  proof -
    have "block_set ?bs \<subseteq> block_set ?all"
      by (auto simp: block_set_def covered_def dest: in_set_takeD)
    then show ?thesis unfolding shifted(2) by (auto simp: received_def)
  qed
  moreover have "received d = {..cum} \<union> (\<lambda>off. cum + off) ` acked_offsets (sack_gap_ack_blocks sack)"
    if "length ?all \<le> kMaxGapAckBlocksReported"
    using that unfolding shifted(2) by (simp add: received_def cum_def image_image)
  moreover have "sack_cumulative_tsn_ack sack = word_of_int cum"
    and "card (sack_duplicate_tsns sack) \<le> kMaxDuplicateTsnReported"
    using ok(2) by (simp_all add: sack_def cum_def CreateSelectiveAck_def Wrap_eq duplicates_ok_def)
  ultimately show ?thesis by blast
qed

definition sample_gap :: DataTracker where
  "sample_gap = snd (DataTracker_Observe 3 False
     (DataTracker_new (Timer_new 1 sample_timer_options) 1))"

lemma sample_gap_reachable: "dt_reachable sample_gap"
  unfolding sample_gap_def
  by (intro data new)
    (simp add: IsTSNValid_def DataTracker_new_def sample_tracker_parts PeekUnwrap_def Difference_def
      kMaxAcceptedOutstandingFragments_def Delta_def AheadOrAt_def ForwardDiff_def)

lemma sample_gap_blocks:
  "dt_last_cumulative_acked_tsn sample_gap = 0"
  "dt_additional_tsn_blocks sample_gap = [\<lparr>tr_first = 3, tr_last = 3\<rparr>]"
  by (simp_all add: sample_gap_def DataTracker_Observe_def DataTracker_new_def
      sample_tracker_parts Unwrap_def [of "3 :: u32"] Observe_tsn_def AdditionalTsnBlocks_Add_def
      lower_bound_def TsnRange_of_def next_value_def Observe_ack_def Let_def Delta_def AheadOrAt_def
      ForwardDiff_def)

theorem sack_reports_received_witness:
  "dt_reachable sample_gap \<and> within_reach sample_gap \<and>
   ChunkValidators_Validate (fst (CreateSelectiveAck 1000 sample_gap))"
proof -
  have "within_reach sample_gap" by (simp add: within_reach_def sample_gap_blocks)
  with sack_reports_received [OF sample_gap_reachable this, of 1000] sample_gap_reachable
  show ?thesis by simp
qed

text \<open>
  C28. Beyond that distance a SACK can acknowledge a TSN that was never received: TSNs up to 100000
  ahead are accepted, but the offsets of the gap ack blocks are truncated to 16 bits.
\<close>

theorem sack_acknowledges_missing_tsn:
  "\<exists>d tsn. dt_reachable d \<and>
     tsn - dt_last_cumulative_acked_tsn d
       \<in> acked_offsets (sack_gap_ack_blocks (fst (CreateSelectiveAck a_rwnd d))) \<and>
     tsn \<notin> received d"
proof (intro exI conjI)
  show "dt_reachable sample_tracker" by (rule sample_tracker_reachable)
  show "2 \<notin> received sample_tracker" by (simp add: received_def sample_tracker_blocks)
  show "2 - dt_last_cumulative_acked_tsn sample_tracker
      \<in> acked_offsets (sack_gap_ack_blocks (fst (CreateSelectiveAck a_rwnd sample_tracker)))"
    by (simp add: CreateSelectiveAck_def CreateGapAckBlocks_eq gap_block_def sample_tracker_blocks
        kMaxGapAckBlocksReported_def acked_offsets_def Difference_def)
qed



end
