(* ===== verification/Reassembly_Queue.thy ===== *)
theory Reassembly_Queue
  imports Interleaved_Reassembly Data_Tracker
begin

text \<open>
  The reassembly queue, \<open>net/dcsctp/rx/reassembly_queue.{h,cc}\<close>: it hands received data to one of
  the two implementations of \<open>ReassemblyStreams\<close>, keeps the messages that are ready, holds back data
  while the reset of streams is deferred, and counts the bytes it is responsible for.
\<close>

section \<open>Dynamic dispatch\<close>

datatype ReassemblyStreams =
    Traditional TraditionalReassemblyStreams
  | Interleaved InterleavedReassemblyStreams

definition CreateStreams :: "bool \<Rightarrow> ReassemblyStreams" where
  "CreateStreams use_message_interleaving =
     (if use_message_interleaving then Interleaved [] else Traditional TraditionalReassemblyStreams_new)"

fun ReassemblyStreams_Add ::
  "UnwrappedTSN \<Rightarrow> Data \<Rightarrow> ReassemblyStreams \<Rightarrow> int \<times> Assembled list \<times> ReassemblyStreams" where
  "ReassemblyStreams_Add tsn data (Traditional s) =
     (let (r, ms, s') = TraditionalReassemblyStreams_Add tsn data s in (r, ms, Traditional s'))"
| "ReassemblyStreams_Add tsn data (Interleaved s) =
     (let (r, ms, s') = InterleavedReassemblyStreams_Add tsn data s in (r, ms, Interleaved s'))"

fun ReassemblyStreams_HandleForwardTsn ::
  "UnwrappedTSN \<Rightarrow> SkippedStream list \<Rightarrow> ReassemblyStreams \<Rightarrow> nat \<times> Assembled list \<times> ReassemblyStreams" where
  "ReassemblyStreams_HandleForwardTsn tsn skipped (Traditional s) =
     (let (n, ms, s') = TraditionalReassemblyStreams_HandleForwardTsn tsn skipped s in (n, ms, Traditional s'))"
| "ReassemblyStreams_HandleForwardTsn tsn skipped (Interleaved s) =
     (let (n, ms, s') = InterleavedReassemblyStreams_HandleForwardTsn tsn skipped s in (n, ms, Interleaved s'))"

fun ReassemblyStreams_ResetStreams :: "u16 list \<Rightarrow> ReassemblyStreams \<Rightarrow> ReassemblyStreams" where
  "ReassemblyStreams_ResetStreams ids (Traditional s) = Traditional (TraditionalReassemblyStreams_ResetStreams ids s)"
| "ReassemblyStreams_ResetStreams ids (Interleaved s) = Interleaved (InterleavedReassemblyStreams_ResetStreams ids s)"

fun ReassemblyStreams_GetHandoverReadiness :: "ReassemblyStreams \<Rightarrow> HandoverReadinessStatus" where
  "ReassemblyStreams_GetHandoverReadiness (Traditional s) = TraditionalReassemblyStreams_GetHandoverReadiness s"
| "ReassemblyStreams_GetHandoverReadiness (Interleaved s) = InterleavedReassemblyStreams_GetHandoverReadiness s"

fun ReassemblyStreams_AddHandoverState ::
  "ReassemblyStreams \<Rightarrow> DcSctpSocketHandoverState \<Rightarrow> DcSctpSocketHandoverState" where
  "ReassemblyStreams_AddHandoverState (Traditional s) = TraditionalReassemblyStreams_AddHandoverState s"
| "ReassemblyStreams_AddHandoverState (Interleaved s) = InterleavedReassemblyStreams_AddHandoverState s"

fun ReassemblyStreams_RestoreFromState :: "DcSctpSocketHandoverState \<Rightarrow> ReassemblyStreams \<Rightarrow> ReassemblyStreams" where
  "ReassemblyStreams_RestoreFromState state (Traditional s) =
     Traditional (TraditionalReassemblyStreams_RestoreFromState state s)"
| "ReassemblyStreams_RestoreFromState state (Interleaved s) =
     Interleaved (InterleavedReassemblyStreams_RestoreFromState state s)"

section \<open>State\<close>

text \<open>The closures in \<open>deferred_actions\<close>, as data.\<close>

datatype DeferredAction =
    Deferred_Add u32 Data
  | Deferred_HandleForwardTsn u32 "SkippedStream list"

record DeferredResetStreams =
  drs_sender_last_assigned_tsn :: UnwrappedTSN
  drs_streams :: "u16 set"
  drs_deferred_actions :: "DeferredAction list"

record ReassemblyQueue =
  rq_max_size_bytes :: nat
  rq_watermark_bytes :: nat
  rq_tsn_unwrapper :: "u32 SeqNumUnwrapper"
  rq_reassembled_messages :: "DcSctpMessage list"
  rq_deferred_reset_streams :: "DeferredResetStreams option"
  rq_queued_bytes :: u64
  rq_streams :: ReassemblyStreams

text \<open>
  \<open>max_size_bytes * kHighWatermarkLimit\<close> is a product of type \<open>float\<close>: the size is rounded to 24
  significant bits, multiplied with \<open>0.9f\<close>, which is \<open>15099494 / 2 ^ 24\<close>, and rounded again.
\<close>

fun bit_length :: "nat \<Rightarrow> nat" where
  "bit_length n = (if n = 0 then 0 else Suc (bit_length (n div 2)))"

declare bit_length.simps [simp del]

definition round_to_float :: "nat \<Rightarrow> nat" where
  "round_to_float n =
     (let e = bit_length n - 24 in
      if e = 0 then n
      else
        let q = n div 2 ^ e; r = n mod 2 ^ e; half = 2 ^ (e - 1)
        in (if r > half \<or> (r = half \<and> odd q) then q + 1 else q) * 2 ^ e)"

definition kHighWatermarkLimit :: nat where
  "kHighWatermarkLimit = 15099494"

definition watermark_of :: "nat \<Rightarrow> nat" where
  "watermark_of max_size_bytes =
     round_to_float (round_to_float max_size_bytes * kHighWatermarkLimit) div 2 ^ 24"

definition ReassemblyQueue_new :: "nat \<Rightarrow> bool \<Rightarrow> ReassemblyQueue" where
  "ReassemblyQueue_new max_size_bytes use_message_interleaving =
     \<lparr>rq_max_size_bytes = max_size_bytes, rq_watermark_bytes = watermark_of max_size_bytes,
      rq_tsn_unwrapper = SeqNumUnwrapper_init, rq_reassembled_messages = [],
      rq_deferred_reset_streams = None, rq_queued_bytes = 0,
      rq_streams = CreateStreams use_message_interleaving\<rparr>"

section \<open>Operations\<close>

definition AddReassembledMessage :: "Assembled \<Rightarrow> ReassemblyQueue \<Rightarrow> ReassemblyQueue" where
  "AddReassembledMessage m q =
     q\<lparr>rq_queued_bytes := rq_queued_bytes q + of_nat (length (msg_payload (snd m))),
       rq_reassembled_messages := rq_reassembled_messages q @ [snd m]\<rparr>"

definition ReassemblyQueue_Add :: "u32 \<Rightarrow> Data \<Rightarrow> ReassemblyQueue \<Rightarrow> ReassemblyQueue" where
  "ReassemblyQueue_Add tsn data q =
     (let (unwrapped_tsn, unwrapper) = Unwrap tsn (rq_tsn_unwrapper q);
          q = q\<lparr>rq_tsn_unwrapper := unwrapper\<rparr>;
          added =
            (let (r, messages, streams) = ReassemblyStreams_Add unwrapped_tsn data (rq_streams q);
                 q = fold AddReassembledMessage messages (q\<lparr>rq_streams := streams\<rparr>)
             in q\<lparr>rq_queued_bytes := rq_queued_bytes q + of_int r\<rparr>)
      in case rq_deferred_reset_streams q of
           None \<Rightarrow> added
         | Some d \<Rightarrow>
             if unwrapped_tsn > drs_sender_last_assigned_tsn d \<and> data_stream_id data \<in> drs_streams d
             then q\<lparr>rq_queued_bytes := rq_queued_bytes q + of_nat (Data_size data),
                    rq_deferred_reset_streams :=
                      Some (d\<lparr>drs_deferred_actions := drs_deferred_actions d @ [Deferred_Add tsn data]\<rparr>)\<rparr>
             else added)"

definition ReassemblyQueue_HandleForwardTsn ::
  "u32 \<Rightarrow> SkippedStream list \<Rightarrow> ReassemblyQueue \<Rightarrow> ReassemblyQueue" where
  "ReassemblyQueue_HandleForwardTsn new_cumulative_tsn skipped_streams q =
     (let (tsn, unwrapper) = Unwrap new_cumulative_tsn (rq_tsn_unwrapper q);
          q = q\<lparr>rq_tsn_unwrapper := unwrapper\<rparr>;
          performed =
            (let (n, messages, streams) = ReassemblyStreams_HandleForwardTsn tsn skipped_streams (rq_streams q);
                 q = fold AddReassembledMessage messages (q\<lparr>rq_streams := streams\<rparr>)
             in q\<lparr>rq_queued_bytes := rq_queued_bytes q - of_nat n\<rparr>)
      in case rq_deferred_reset_streams q of
           None \<Rightarrow> performed
         | Some d \<Rightarrow>
             if tsn > drs_sender_last_assigned_tsn d
             then q\<lparr>rq_deferred_reset_streams :=
                      Some (d\<lparr>drs_deferred_actions := drs_deferred_actions d @
                               [Deferred_HandleForwardTsn new_cumulative_tsn skipped_streams]\<rparr>)\<rparr>
             else performed)"

fun run_action :: "DeferredAction \<Rightarrow> ReassemblyQueue \<Rightarrow> ReassemblyQueue" where
  "run_action (Deferred_Add tsn data) q =
     ReassemblyQueue_Add tsn data (q\<lparr>rq_queued_bytes := rq_queued_bytes q - of_nat (Data_size data)\<rparr>)"
| "run_action (Deferred_HandleForwardTsn new_cumulative_tsn streams) q =
     ReassemblyQueue_HandleForwardTsn new_cumulative_tsn streams q"

definition ResetStreamsAndLeaveDeferredReset :: "u16 list \<Rightarrow> ReassemblyQueue \<Rightarrow> ReassemblyQueue" where
  "ResetStreamsAndLeaveDeferredReset stream_ids q =
     (let q = q\<lparr>rq_streams := ReassemblyStreams_ResetStreams stream_ids (rq_streams q)\<rparr>
      in case rq_deferred_reset_streams q of
           None \<Rightarrow> q
         | Some d \<Rightarrow> fold run_action (drs_deferred_actions d) (q\<lparr>rq_deferred_reset_streams := None\<rparr>))"

definition EnterDeferredReset :: "u32 \<Rightarrow> u16 list \<Rightarrow> ReassemblyQueue \<Rightarrow> ReassemblyQueue" where
  "EnterDeferredReset sender_last_assigned_tsn streams q =
     (if rq_deferred_reset_streams q = None then
        let (tsn, unwrapper) = Unwrap sender_last_assigned_tsn (rq_tsn_unwrapper q)
        in q\<lparr>rq_tsn_unwrapper := unwrapper,
             rq_deferred_reset_streams :=
               Some \<lparr>drs_sender_last_assigned_tsn = tsn, drs_streams = set streams, drs_deferred_actions = []\<rparr>\<rparr>
      else q)"

definition GetNextMessage :: "ReassemblyQueue \<Rightarrow> DcSctpMessage option \<times> ReassemblyQueue" where
  "GetNextMessage q =
     (case rq_reassembled_messages q of
        [] \<Rightarrow> (None, q)
      | ret # messages \<Rightarrow>
          (Some ret, q\<lparr>rq_reassembled_messages := messages,
                       rq_queued_bytes := rq_queued_bytes q - of_nat (length (msg_payload ret))\<rparr>))"

definition HasMessages :: "ReassemblyQueue \<Rightarrow> bool" where
  "HasMessages q \<longleftrightarrow> rq_reassembled_messages q \<noteq> []"

definition ReassemblyQueue_IsConsistent :: "ReassemblyQueue \<Rightarrow> bool" where
  "ReassemblyQueue_IsConsistent q \<longleftrightarrow> unat (rq_queued_bytes q) \<le> 2 * rq_max_size_bytes q"

definition remaining_bytes :: "ReassemblyQueue \<Rightarrow> u64" where
  "remaining_bytes q = of_nat (rq_watermark_bytes q) - rq_queued_bytes q"

definition is_full :: "ReassemblyQueue \<Rightarrow> bool" where
  "is_full q \<longleftrightarrow> unat (rq_queued_bytes q) \<ge> rq_max_size_bytes q"

definition is_above_watermark :: "ReassemblyQueue \<Rightarrow> bool" where
  "is_above_watermark q \<longleftrightarrow> unat (rq_queued_bytes q) \<ge> rq_watermark_bytes q"

definition ReassemblyQueue_GetHandoverReadiness :: "ReassemblyQueue \<Rightarrow> HandoverReadinessStatus" where
  "ReassemblyQueue_GetHandoverReadiness q =
     (let status = ReassemblyStreams_GetHandoverReadiness (rq_streams q)
      in if rq_deferred_reset_streams q \<noteq> None
         then HandoverReadinessStatus_Add kStreamResetDeferred status else status)"

definition ReassemblyQueue_AddHandoverState ::
  "ReassemblyQueue \<Rightarrow> DcSctpSocketHandoverState \<Rightarrow> DcSctpSocketHandoverState" where
  "ReassemblyQueue_AddHandoverState q state = ReassemblyStreams_AddHandoverState (rq_streams q) state"

definition ReassemblyQueue_RestoreFromState ::
  "DcSctpSocketHandoverState \<Rightarrow> ReassemblyQueue \<Rightarrow> ReassemblyQueue" where
  "ReassemblyQueue_RestoreFromState state q =
     q\<lparr>rq_streams := ReassemblyStreams_RestoreFromState state (rq_streams q)\<rparr>"

section \<open>The streams behind the interface\<close>

fun rs_bytes :: "ReassemblyStreams \<Rightarrow> nat" where
  "rs_bytes (Traditional s) = trs_bytes s"
| "rs_bytes (Interleaved s) = irs_bytes s"

fun rs_ok :: "ReassemblyStreams \<Rightarrow> bool" where
  "rs_ok (Traditional s) = trs_ok s"
| "rs_ok (Interleaved s) = irs_ok s"

interpretation rs: reassembly_streams ReassemblyStreams_Add ReassemblyStreams_HandleForwardTsn
  ReassemblyStreams_ResetStreams rs_bytes rs_ok
proof unfold_locales
  fix s tsn data r ms s'
  assume "rs_ok s" and "rs_bytes s + Data_size data \<le> kMaxInt" and "ReassemblyStreams_Add tsn data s = (r, ms, s')"
  then show "rs_ok s' \<and> int (rs_bytes s') = int (rs_bytes s) + r \<and>
      rs_bytes s' + delivered_bytes ms \<le> rs_bytes s + Data_size data"
    using traditional.add_held interleaved.add_held by (cases s) (fastforce split: prod.splits)+
next
  fix s tsn skipped n ms s'
  assume "rs_ok s" and "rs_bytes s \<le> kMaxInt" and "ReassemblyStreams_HandleForwardTsn tsn skipped s = (n, ms, s')"
  then show "rs_ok s' \<and> rs_bytes s' + n = rs_bytes s \<and> rs_bytes s' + delivered_bytes ms \<le> rs_bytes s"
    using traditional.forward_held interleaved.forward_held by (cases s) (fastforce split: prod.splits)+
next
  fix s ids
  assume "rs_ok s"
  then show "rs_ok (ReassemblyStreams_ResetStreams ids s) \<and>
      rs_bytes (ReassemblyStreams_ResetStreams ids s) = rs_bytes s"
    by (cases s) (simp_all add: traditional.reset_held interleaved.reset_held)
qed

section \<open>Byte accounting\<close>

definition ready_bytes :: "DcSctpMessage list \<Rightarrow> nat" where
  "ready_bytes ms = sum_list (map (\<lambda>m. length (msg_payload m)) ms)"

fun action_bytes :: "DeferredAction \<Rightarrow> nat" where
  "action_bytes (Deferred_Add tsn data) = Data_size data"
| "action_bytes (Deferred_HandleForwardTsn tsn skipped) = 0"

definition deferred_bytes :: "DeferredAction list \<Rightarrow> nat" where
  "deferred_bytes actions = sum_list (map action_bytes actions)"

text \<open>The bytes in the streams, in the messages that are ready, and in the deferred chunks.\<close>

definition rq_bytes :: "ReassemblyQueue \<Rightarrow> nat" where
  "rq_bytes q = rs_bytes (rq_streams q) + ready_bytes (rq_reassembled_messages q) +
     (case rq_deferred_reset_streams q of None \<Rightarrow> 0 | Some d \<Rightarrow> deferred_bytes (drs_deferred_actions d))"

text \<open>The counter covers the queue and \<open>extra\<close> bytes of actions that are about to run.\<close>

definition accounts :: "nat \<Rightarrow> ReassemblyQueue \<Rightarrow> bool" where
  "accounts extra q \<longleftrightarrow> rs_ok (rq_streams q) \<and> rq_queued_bytes q = of_nat (rq_bytes q + extra)"

lemma ready_bytes_simps [simp]:
  "ready_bytes [] = 0" "ready_bytes (m # ms) = length (msg_payload m) + ready_bytes ms"
  "ready_bytes (ms @ ns) = ready_bytes ms + ready_bytes ns"
  by (simp_all add: ready_bytes_def)

lemma deferred_bytes_simps [simp]:
  "deferred_bytes [] = 0" "deferred_bytes (a # as) = action_bytes a + deferred_bytes as"
  "deferred_bytes (as @ bs) = deferred_bytes as + deferred_bytes bs"
  by (simp_all add: deferred_bytes_def)

lemma fold_AddReassembledMessage:
  "fold AddReassembledMessage ms q =
     q\<lparr>rq_queued_bytes := rq_queued_bytes q + of_nat (delivered_bytes ms),
       rq_reassembled_messages := rq_reassembled_messages q @ map snd ms\<rparr>"
  by (induction ms arbitrary: q) (simp_all add: AddReassembledMessage_def add.assoc)

lemma ready_bytes_delivered: "ready_bytes (map snd ms) = delivered_bytes ms"
  by (induction ms) simp_all

lemma of_nat_shift: "int a = int b + r \<Longrightarrow> (of_nat a :: 'a::len word) = of_nat b + of_int r"
  by (metis of_int_add of_int_of_nat_eq)

lemma ReassemblyQueue_Add_accounts:
  assumes "accounts extra q" and "rq_bytes q + Data_size data \<le> kMaxInt"
  shows "accounts extra (ReassemblyQueue_Add tsn data q) \<and>
         rq_bytes (ReassemblyQueue_Add tsn data q) \<le> rq_bytes q + Data_size data \<and>
         (rq_deferred_reset_streams q = None \<longrightarrow> rq_deferred_reset_streams (ReassemblyQueue_Add tsn data q) = None)"
proof -
  obtain t u where u: "Unwrap tsn (rq_tsn_unwrapper q) = (t, u)" by fastforce
  obtain r ms s where s: "ReassemblyStreams_Add t data (rq_streams q) = (r, ms, s)" by (metis prod_cases3)
  have held: "rs_ok s" "int (rs_bytes s) = int (rs_bytes (rq_streams q)) + r"
      "rs_bytes s + delivered_bytes ms \<le> rs_bytes (rq_streams q) + Data_size data"
    using rs.add_held [OF _ _ s] assms by (simp_all add: accounts_def rq_bytes_def)
  note shift = of_nat_shift [OF held(2), where 'a = 64]
  show ?thesis
  proof (cases "\<exists>d. rq_deferred_reset_streams q = Some d \<and> t > drs_sender_last_assigned_tsn d \<and> data_stream_id data \<in> drs_streams d")
    case True
    with assms u show ?thesis
      by (auto simp: ReassemblyQueue_Add_def accounts_def rq_bytes_def)
  next
    case False
    then have "ReassemblyQueue_Add tsn data q =
        q\<lparr>rq_tsn_unwrapper := u, rq_streams := s,
          rq_queued_bytes := rq_queued_bytes q + of_nat (delivered_bytes ms) + of_int r,
          rq_reassembled_messages := rq_reassembled_messages q @ map snd ms\<rparr>"
      using u s by (auto simp: ReassemblyQueue_Add_def fold_AddReassembledMessage Let_def split: option.splits)
    with assms(1) held(1,3) shift show ?thesis
      by (simp add: accounts_def rq_bytes_def ready_bytes_delivered)
  qed
qed

lemma ReassemblyQueue_HandleForwardTsn_accounts:
  assumes "accounts extra q" and "rq_bytes q \<le> kMaxInt"
  shows "accounts extra (ReassemblyQueue_HandleForwardTsn tsn skipped q) \<and>
         rq_bytes (ReassemblyQueue_HandleForwardTsn tsn skipped q) \<le> rq_bytes q \<and>
         (rq_deferred_reset_streams q = None \<longrightarrow>
          rq_deferred_reset_streams (ReassemblyQueue_HandleForwardTsn tsn skipped q) = None)"
proof -
  obtain t u where u: "Unwrap tsn (rq_tsn_unwrapper q) = (t, u)" by fastforce
  obtain n ms s where s: "ReassemblyStreams_HandleForwardTsn t skipped (rq_streams q) = (n, ms, s)" by (metis prod_cases3)
  have held: "rs_ok s" "rs_bytes s + n = rs_bytes (rq_streams q)"
      "rs_bytes s + delivered_bytes ms \<le> rs_bytes (rq_streams q)"
    using rs.forward_held [OF _ _ s] assms by (simp_all add: accounts_def rq_bytes_def)
  show ?thesis
  proof (cases "\<exists>d. rq_deferred_reset_streams q = Some d \<and> t > drs_sender_last_assigned_tsn d")
    case True
    with assms u show ?thesis
      by (auto simp: ReassemblyQueue_HandleForwardTsn_def accounts_def rq_bytes_def)
  next
    case False
    then have "ReassemblyQueue_HandleForwardTsn tsn skipped q =
        q\<lparr>rq_tsn_unwrapper := u, rq_streams := s,
          rq_queued_bytes := rq_queued_bytes q + of_nat (delivered_bytes ms) - of_nat n,
          rq_reassembled_messages := rq_reassembled_messages q @ map snd ms\<rparr>"
      using u s by (auto simp: ReassemblyQueue_HandleForwardTsn_def fold_AddReassembledMessage Let_def split: option.splits)
    with assms(1) held(1,3) held(2) [symmetric] show ?thesis
      by (simp add: accounts_def rq_bytes_def ready_bytes_delivered)
  qed
qed

lemma run_actions_account:
  assumes "accounts (deferred_bytes actions) q" and "rq_bytes q + deferred_bytes actions \<le> kMaxInt"
    and "rq_deferred_reset_streams q = None"
  shows "accounts 0 (fold run_action actions q) \<and>
         rq_bytes (fold run_action actions q) \<le> rq_bytes q + deferred_bytes actions"
  using assms
proof (induction actions arbitrary: q)
  case (Cons a actions)
  have "accounts (deferred_bytes actions) (run_action a q) \<and>
      rq_bytes (run_action a q) \<le> rq_bytes q + action_bytes a \<and> rq_deferred_reset_streams (run_action a q) = None"
  proof (cases a)
    case (Deferred_Add tsn data)
    let ?q = "q\<lparr>rq_queued_bytes := rq_queued_bytes q - of_nat (Data_size data)\<rparr>"
    have "accounts (deferred_bytes actions) ?q" "rq_bytes ?q = rq_bytes q"
      using Cons.prems(1) Deferred_Add by (simp_all add: accounts_def rq_bytes_def)
    with ReassemblyQueue_Add_accounts [of "deferred_bytes actions" ?q data tsn] Cons.prems(2,3) Deferred_Add
    show ?thesis by simp
  next
    case (Deferred_HandleForwardTsn tsn skipped)
    with ReassemblyQueue_HandleForwardTsn_accounts [of "deferred_bytes actions" q tsn skipped] Cons.prems
    show ?thesis by simp
  qed
  with Cons.IH [of "run_action a q"] Cons.prems(2) show ?case by fastforce
qed simp

lemma ResetStreamsAndLeaveDeferredReset_accounts:
  assumes "accounts 0 q" and "rq_bytes q \<le> kMaxInt"
  shows "accounts 0 (ResetStreamsAndLeaveDeferredReset ids q) \<and>
         rq_bytes (ResetStreamsAndLeaveDeferredReset ids q) \<le> rq_bytes q"
proof -
  let ?q = "q\<lparr>rq_streams := ReassemblyStreams_ResetStreams ids (rq_streams q)\<rparr>"
  have q: "accounts 0 ?q" "rq_bytes ?q = rq_bytes q"
    using rs.reset_held [of "rq_streams q" ids] assms(1) by (simp_all add: accounts_def rq_bytes_def)
  show ?thesis
  proof (cases "rq_deferred_reset_streams q")
    case None
    with q show ?thesis by (simp add: ResetStreamsAndLeaveDeferredReset_def)
  next
    case (Some d)
    let ?q' = "?q\<lparr>rq_deferred_reset_streams := None\<rparr>" and ?as = "drs_deferred_actions d"
    have "rq_bytes ?q' + deferred_bytes ?as = rq_bytes q" "accounts (deferred_bytes ?as) ?q'"
      using q Some by (simp_all add: accounts_def rq_bytes_def)
    with run_actions_account [of ?as ?q'] assms(2) Some show ?thesis
      by (simp add: ResetStreamsAndLeaveDeferredReset_def)
  qed
qed

lemma EnterDeferredReset_accounts:
  "accounts 0 q \<Longrightarrow> accounts 0 (EnterDeferredReset tsn ids q) \<and> rq_bytes (EnterDeferredReset tsn ids q) = rq_bytes q"
  by (auto simp: EnterDeferredReset_def accounts_def rq_bytes_def split: prod.splits)

lemma GetNextMessage_accounts:
  "accounts 0 q \<Longrightarrow> accounts 0 (snd (GetNextMessage q)) \<and> rq_bytes (snd (GetNextMessage q)) \<le> rq_bytes q"
  by (auto simp: GetNextMessage_def accounts_def rq_bytes_def split: list.splits)

lemma ReassemblyQueue_new_accounts: "accounts 0 (ReassemblyQueue_new max_size interleaving) \<and> rq_bytes (ReassemblyQueue_new max_size interleaving) = 0"
  by (simp add: ReassemblyQueue_new_def CreateStreams_def accounts_def rq_bytes_def)

text \<open>A queue in use; data is added while the queue has room for it below \<open>2 ^ 31\<close> bytes.\<close>

inductive rq_reachable :: "ReassemblyQueue \<Rightarrow> bool" where
  new: "rq_reachable (ReassemblyQueue_new max_size_bytes use_message_interleaving)"
| add: "rq_reachable q \<Longrightarrow> rq_bytes q + Data_size data \<le> kMaxInt \<Longrightarrow> rq_reachable (ReassemblyQueue_Add tsn data q)"
| forward: "rq_reachable q \<Longrightarrow> rq_reachable (ReassemblyQueue_HandleForwardTsn tsn skipped q)"
| enter: "rq_reachable q \<Longrightarrow> rq_reachable (EnterDeferredReset tsn stream_ids q)"
| leave: "rq_reachable q \<Longrightarrow> rq_reachable (ResetStreamsAndLeaveDeferredReset stream_ids q)"
| get: "rq_reachable q \<Longrightarrow> rq_reachable (snd (GetNextMessage q))"

lemma rq_reachable_accounts: "rq_reachable q \<Longrightarrow> accounts 0 q \<and> rq_bytes q \<le> kMaxInt"
proof (induction rule: rq_reachable.induct)
  case (add q data tsn)
  then show ?case using ReassemblyQueue_Add_accounts [of 0 q data tsn] by simp
next
  case (forward q tsn skipped)
  then show ?case using ReassemblyQueue_HandleForwardTsn_accounts [of 0 q tsn skipped] by simp
next
  case (leave q ids)
  then show ?case using ResetStreamsAndLeaveDeferredReset_accounts [of q ids] by simp
next
  case (get q)
  then show ?case using GetNextMessage_accounts [of q] by simp
qed (simp_all add: ReassemblyQueue_new_accounts EnterDeferredReset_accounts)

section \<open>Properties\<close>


definition sample_queue :: ReassemblyQueue where
  "sample_queue =
     ReassemblyQueue_Add 11 ((snd (sample_fragment 0 1))\<lparr>data_payload := replicate 19 0\<rparr>) (ReassemblyQueue_new 20 False)"

lemma sample_queue_reachable: "rq_reachable sample_queue"
  unfolding sample_queue_def
  by (intro rq_reachable.intros) (simp add: ReassemblyQueue_new_accounts Data_size_def kMaxInt_def)


text \<open>
  C13. Above the high watermark the receiver advertises a huge window: the subtraction of
  \<open>remaining_bytes\<close> wraps around, and the SACK carries the result modulo \<open>2 ^ 32\<close>. A queue that
  holds \<open>n\<close> bytes more than the watermark announces room for \<open>2 ^ 32 - n\<close> bytes.
\<close>

theorem window_wraps_above_watermark:
  assumes "rq_reachable q" and "n = unat (rq_queued_bytes q) - rq_watermark_bytes q" and "0 < n"
  shows "uint (sack_a_rwnd (fst (CreateSelectiveAck (unat (remaining_bytes q)) d))) = 2 ^ 32 - int n"
proof -
  have queued: "rq_queued_bytes q = of_nat (rq_bytes q)" and bound: "rq_bytes q \<le> kMaxInt"
    using rq_reachable_accounts [OF assms(1)] by (simp_all add: accounts_def)
  then have "unat (rq_queued_bytes q) = rq_bytes q"
    using unat_of_nat_word_eq [of "rq_bytes q", where 'a = 64] by (simp add: kMaxInt_def)
  then have n: "rq_bytes q = rq_watermark_bytes q + n" using assms(2,3) by simp
  then have "remaining_bytes q = word_of_int (- int n)" by (simp add: remaining_bytes_def queued)
  then have "int (unat (remaining_bytes q)) = (- int n) mod 2 ^ 64" using uint_word_of_int [of "- int n", where 'a = 64] by (simp del: of_int_minus)
  moreover have "uint (sack_a_rwnd (fst (CreateSelectiveAck k d))) = int k mod 2 ^ 32" for k
    by (simp add: CreateSelectiveAck_def unsigned_of_nat take_bit_eq_mod of_nat_mod)
  ultimately have "uint (sack_a_rwnd (fst (CreateSelectiveAck (unat (remaining_bytes q)) d))) = (- int n) mod 2 ^ 64 mod 2 ^ 32"
    by simp
  also have "\<dots> = (- int n + 2 ^ 32) mod 2 ^ 32" by (simp add: mod_mod_cancel)
  also have "\<dots> = 2 ^ 32 - int n"
    using assms(3) n bound by (intro mod_pos_pos_trivial [THEN trans]) (simp_all add: kMaxInt_def)
  finally show ?thesis .
qed

lemma sample_queue_values:
  "rq_watermark_bytes sample_queue = 18" "rq_max_size_bytes sample_queue = 20" "rq_queued_bytes sample_queue = 19"
proof -
  have "watermark_of 20 = 18"
    by (simp add: watermark_of_def round_to_float_def kHighWatermarkLimit_def bit_length.simps)
  moreover have "int32_cast 19 = 19" by (simp add: int32_cast_id)
  ultimately show "rq_watermark_bytes sample_queue = 18" "rq_max_size_bytes sample_queue = 20"
      "rq_queued_bytes sample_queue = 19"
    by (simp_all add: sample_queue_def ReassemblyQueue_Add_def ReassemblyQueue_new_def CreateStreams_def
        TraditionalReassemblyStreams_new_def TraditionalReassemblyStreams_Add_def sample_fragment_def
        OrderedStream_new_def OrderedStream_Add_def OrderedStream_TryToAssembleMessagesFastpath_def
        OrderedStream_emplace_def om_emplace_def om_at_def om_find_def Unwrap_def SeqNumUnwrapper_init_def
        Delta_def AheadOrAt_def ForwardDiff_def OrderedStream_TryToAssembleMessages.simps
        OrderedStream_TryToAssembleMessage_def Data_size_def Let_def)
qed

theorem window_wraps_above_watermark_witness:
  "rq_reachable sample_queue \<and> \<not> is_full sample_queue \<and>
   uint (sack_a_rwnd (fst (CreateSelectiveAck (unat (remaining_bytes sample_queue)) sample_tracker))) = 2 ^ 32 - 1"
  using window_wraps_above_watermark [OF sample_queue_reachable, of 1 sample_tracker] sample_queue_reachable
  by (simp add: sample_queue_values is_full_def)

end
