(* ===== verification/Outstanding_Data.thy ===== *)
theory Outstanding_Data
  imports Data_Chunks Sequence_Numbers Time_Units Ordered_Map
begin

text \<open>
  The chunks a sender has in flight, \<open>net/dcsctp/tx/outstanding_data.cc\<close>: acknowledging, nacking,
  scheduling for retransmission, abandoning and the FORWARD-TSN that follows. Access outside the
  queue of outstanding chunks (the debug assertions of \<open>GetItem\<close>) is \<^const>\<open>CheckFailed\<close>. The callback
  \<open>discard_from_send_queue\<close> is an argument; it works on a state of its own, the send queue.
\<close>

section \<open>Items\<close>

datatype ItemLifecycle = Item_Active | Item_ToBeRetransmitted | Item_Abandoned

datatype ItemAckState = Item_Unacked | Item_Acked | Item_Nacked

datatype NackAction = Nack_Nothing | Nack_Retransmit | Nack_Abandon

record Item =
  it_message_id :: u32
  it_time_sent :: Timestamp
  it_max_retransmissions :: u16
  it_lifecycle :: ItemLifecycle
  it_ack_state :: ItemAckState
  it_nack_count :: u8
  it_num_retransmissions :: u16
  it_expires_at :: Timestamp
  it_lifecycle_id :: u64
  it_data :: Data

definition MaxRetransmits_NoLimit :: u16 where
  "MaxRetransmits_NoLimit = 65535"

definition LifecycleId_IsSet :: "u64 \<Rightarrow> bool" where
  "LifecycleId_IsSet lifecycle_id \<longleftrightarrow> lifecycle_id \<noteq> 0"

definition Item_new ::
  "u32 \<Rightarrow> Data \<Rightarrow> Timestamp \<Rightarrow> u16 \<Rightarrow> Timestamp \<Rightarrow> u64 \<Rightarrow> Item" where
  "Item_new message_id data time_sent max_retransmissions expires_at lifecycle_id =
     \<lparr>it_message_id = message_id, it_time_sent = time_sent,
      it_max_retransmissions = max_retransmissions, it_lifecycle = Item_Active,
      it_ack_state = Item_Unacked, it_nack_count = 0, it_num_retransmissions = 0,
      it_expires_at = expires_at, it_lifecycle_id = lifecycle_id, it_data = data\<rparr>"

definition is_outstanding :: "Item \<Rightarrow> bool" where
  "is_outstanding item \<longleftrightarrow> it_ack_state item = Item_Unacked"

definition is_acked :: "Item \<Rightarrow> bool" where
  "is_acked item \<longleftrightarrow> it_ack_state item = Item_Acked"

definition is_nacked :: "Item \<Rightarrow> bool" where
  "is_nacked item \<longleftrightarrow> it_ack_state item = Item_Nacked"

definition is_abandoned :: "Item \<Rightarrow> bool" where
  "is_abandoned item \<longleftrightarrow> it_lifecycle item = Item_Abandoned"

definition should_be_retransmitted :: "Item \<Rightarrow> bool" where
  "should_be_retransmitted item \<longleftrightarrow> it_lifecycle item = Item_ToBeRetransmitted"

definition has_been_retransmitted :: "Item \<Rightarrow> bool" where
  "has_been_retransmitted item \<longleftrightarrow> it_num_retransmissions item > 0"

definition has_expired :: "Timestamp \<Rightarrow> Item \<Rightarrow> bool" where
  "has_expired now item \<longleftrightarrow> it_expires_at item \<le> now"

definition kNumberOfNacksForRetransmission :: u8 where
  "kNumberOfNacksForRetransmission = 3"

definition Item_Ack :: "Item \<Rightarrow> Item" where
  "Item_Ack item =
     (let item = (if it_lifecycle item \<noteq> Item_Abandoned then item\<lparr>it_lifecycle := Item_Active\<rparr> else item)
      in item\<lparr>it_ack_state := Item_Acked\<rparr>)"

definition Item_Abandon :: "Item \<Rightarrow> Item" where
  "Item_Abandon item = item\<lparr>it_lifecycle := Item_Abandoned\<rparr>"

definition Item_Nack :: "bool \<Rightarrow> Item \<Rightarrow> NackAction \<times> Item" where
  "Item_Nack retransmit_now item =
     (let item = item\<lparr>it_ack_state := Item_Nacked, it_nack_count := it_nack_count item + 1\<rparr> in
      if \<not> should_be_retransmitted item \<and> \<not> is_abandoned item \<and>
         (retransmit_now \<or> it_nack_count item \<ge> kNumberOfNacksForRetransmission) then
        if it_num_retransmissions item < it_max_retransmissions item then
          (Nack_Retransmit, item\<lparr>it_lifecycle := Item_ToBeRetransmitted\<rparr>)
        else (Nack_Abandon, Item_Abandon item)
      else (Nack_Nothing, item))"

definition Item_MarkAsRetransmitted :: "Item \<Rightarrow> Item" where
  "Item_MarkAsRetransmitted item =
     item\<lparr>it_lifecycle := Item_Active, it_ack_state := Item_Unacked, it_nack_count := 0,
          it_num_retransmissions := it_num_retransmissions item + 1\<rparr>"

section \<open>The queue\<close>

record OutstandingData =
  od_data_chunk_header_size :: nat
  od_last_cumulative_tsn_ack :: UnwrappedTSN
  od_outstanding_data :: "Item list"
  od_unacked_payload_bytes :: nat
  od_unacked_packet_bytes :: nat
  od_unacked_items :: nat
  od_to_be_fast_retransmitted :: "UnwrappedTSN set"
  od_to_be_retransmitted :: "UnwrappedTSN set"
  od_stream_reset_breakpoint_tsns :: "UnwrappedTSN set"

definition OutstandingData_new :: "nat \<Rightarrow> UnwrappedTSN \<Rightarrow> OutstandingData" where
  "OutstandingData_new data_chunk_header_size last_cumulative_tsn_ack =
     \<lparr>od_data_chunk_header_size = data_chunk_header_size,
      od_last_cumulative_tsn_ack = last_cumulative_tsn_ack, od_outstanding_data = [],
      od_unacked_payload_bytes = 0, od_unacked_packet_bytes = 0, od_unacked_items = 0,
      od_to_be_fast_retransmitted = {}, od_to_be_retransmitted = {},
      od_stream_reset_breakpoint_tsns = {}\<rparr>"

definition GetSerializedChunkSize :: "OutstandingData \<Rightarrow> Data \<Rightarrow> nat" where
  "GetSerializedChunkSize od data = RoundUpTo4 (od_data_chunk_header_size od + Data_size data)"

definition highest_outstanding_tsn :: "OutstandingData \<Rightarrow> UnwrappedTSN" where
  "highest_outstanding_tsn od =
     AddTo (od_last_cumulative_tsn_ack od) (int (length (od_outstanding_data od)))"

definition od_next_tsn :: "OutstandingData \<Rightarrow> UnwrappedTSN" where
  "od_next_tsn od = next_value (highest_outstanding_tsn od)"

definition has_data_to_be_fast_retransmitted :: "OutstandingData \<Rightarrow> bool" where
  "has_data_to_be_fast_retransmitted od \<longleftrightarrow> od_to_be_fast_retransmitted od \<noteq> {}"

definition has_data_to_be_retransmitted :: "OutstandingData \<Rightarrow> bool" where
  "has_data_to_be_retransmitted od \<longleftrightarrow>
     od_to_be_retransmitted od \<noteq> {} \<or> od_to_be_fast_retransmitted od \<noteq> {}"

text \<open>The position of a TSN in the queue.\<close>

definition GetItem :: "UnwrappedTSN \<Rightarrow> OutstandingData \<Rightarrow> nat outcome" where
  "GetItem tsn od =
     RTC_CHECK (tsn > od_last_cumulative_tsn_ack od)
       (RTC_CHECK (tsn < od_next_tsn od)
          (Value (nat (tsn - od_last_cumulative_tsn_ack od) - 1)))"

fun retransmitted_tsns :: "UnwrappedTSN \<Rightarrow> Item list \<Rightarrow> UnwrappedTSN set" where
  "retransmitted_tsns tsn [] = {}"
| "retransmitted_tsns tsn (item # items) =
     (let tsn = next_value tsn in
      if should_be_retransmitted item then insert tsn (retransmitted_tsns tsn items)
      else retransmitted_tsns tsn items)"

definition OutstandingData_IsConsistent :: "OutstandingData \<Rightarrow> bool" where
  "OutstandingData_IsConsistent od \<longleftrightarrow>
     (let outstanding = filter is_outstanding (od_outstanding_data od) in
      sum_list (map (Data_size \<circ> it_data) outstanding) = od_unacked_payload_bytes od \<and>
      sum_list (map (GetSerializedChunkSize od \<circ> it_data) outstanding) = od_unacked_packet_bytes od \<and>
      length outstanding = od_unacked_items od \<and>
      retransmitted_tsns (od_last_cumulative_tsn_ack od) (od_outstanding_data od) =
        od_to_be_retransmitted od \<union> od_to_be_fast_retransmitted od)"

section \<open>Acknowledging\<close>

record AckInfo =
  ai_bytes_acked :: nat
  ai_has_packet_loss :: bool
  ai_highest_tsn_acked :: UnwrappedTSN
  ai_acked_lifecycle_ids :: "u64 list"
  ai_abandoned_lifecycle_ids :: "u64 list"

definition AckInfo_new :: "UnwrappedTSN \<Rightarrow> AckInfo" where
  "AckInfo_new cumulative_tsn_ack =
     \<lparr>ai_bytes_acked = 0, ai_has_packet_loss = False, ai_highest_tsn_acked = cumulative_tsn_ack,
      ai_acked_lifecycle_ids = [], ai_abandoned_lifecycle_ids = []\<rparr>"

text \<open>The bookkeeping when an item that was in flight no longer is.\<close>

definition no_longer_outstanding :: "Item \<Rightarrow> OutstandingData \<Rightarrow> OutstandingData" where
  "no_longer_outstanding item od =
     (if is_outstanding item then
        od\<lparr>od_unacked_payload_bytes := od_unacked_payload_bytes od - Data_size (it_data item),
           od_unacked_packet_bytes := od_unacked_packet_bytes od - GetSerializedChunkSize od (it_data item),
           od_unacked_items := od_unacked_items od - 1\<rparr>
      else od)"

definition AckChunk ::
  "UnwrappedTSN \<Rightarrow> nat \<Rightarrow> AckInfo \<times> OutstandingData \<Rightarrow> AckInfo \<times> OutstandingData" where
  "AckChunk tsn i = (\<lambda>(ack_info, od).
     let item = od_outstanding_data od ! i in
     if \<not> is_acked item then
       let ack_info = ack_info\<lparr>ai_bytes_acked :=
             ai_bytes_acked ack_info + GetSerializedChunkSize od (it_data item)\<rparr>;
           od = no_longer_outstanding item od;
           od = (if should_be_retransmitted item
                 then od\<lparr>od_to_be_retransmitted := od_to_be_retransmitted od - {tsn}\<rparr> else od);
           od = od\<lparr>od_outstanding_data := (od_outstanding_data od)[i := Item_Ack item]\<rparr>;
           ack_info = ack_info\<lparr>ai_highest_tsn_acked := max (ai_highest_tsn_acked ack_info) tsn\<rparr>
       in (ack_info, od)
     else (ack_info, od))"

text \<open>One turn of the loop of \<open>RemoveAcked\<close>.\<close>

definition remove_front :: "AckInfo \<times> OutstandingData \<Rightarrow> AckInfo \<times> OutstandingData" where
  "remove_front = (\<lambda>(ack_info, od).
     let tsn = next_value (od_last_cumulative_tsn_ack od);
         (ack_info, od) = AckChunk tsn 0 (ack_info, od);
         item = hd (od_outstanding_data od);
         ack_info =
           (if LifecycleId_IsSet (it_lifecycle_id item) then
              if is_abandoned item
              then ack_info\<lparr>ai_abandoned_lifecycle_ids :=
                     ai_abandoned_lifecycle_ids ack_info @ [it_lifecycle_id item]\<rparr>
              else ack_info\<lparr>ai_acked_lifecycle_ids :=
                     ai_acked_lifecycle_ids ack_info @ [it_lifecycle_id item]\<rparr>
            else ack_info)
     in (ack_info, od\<lparr>od_outstanding_data := tl (od_outstanding_data od),
                      od_last_cumulative_tsn_ack := next_value (od_last_cumulative_tsn_ack od)\<rparr>))"

lemma AckChunk_length [simp]:
  "length (od_outstanding_data (snd (AckChunk tsn i s))) = length (od_outstanding_data (snd s))"
  by (cases s) (simp add: AckChunk_def no_longer_outstanding_def Let_def)

lemma remove_front_length [simp]:
  "length (od_outstanding_data (snd (remove_front s))) = length (od_outstanding_data (snd s)) - 1"
proof -
  obtain ai od where s: "s = (ai, od)" by fastforce
  obtain ai' od' where a: "AckChunk (next_value (od_last_cumulative_tsn_ack od)) 0 (ai, od) = (ai', od')"
    by fastforce
  have "length (od_outstanding_data od') = length (od_outstanding_data od)"
    using AckChunk_length [of "next_value (od_last_cumulative_tsn_ack od)" 0 "(ai, od)"] by (simp add: a)
  then show ?thesis by (simp add: remove_front_def s a Let_def)
qed

function RemoveAcked_loop ::
  "UnwrappedTSN \<Rightarrow> AckInfo \<times> OutstandingData \<Rightarrow> AckInfo \<times> OutstandingData" where
  "RemoveAcked_loop cumulative_tsn_ack s =
     (if od_outstanding_data (snd s) \<noteq> [] \<and> od_last_cumulative_tsn_ack (snd s) < cumulative_tsn_ack
      then RemoveAcked_loop cumulative_tsn_ack (remove_front s) else s)"
  by pat_completeness auto
termination
  by (relation "measure (\<lambda>(c, s). length (od_outstanding_data (snd s)))") auto

declare RemoveAcked_loop.simps [simp del]

definition RemoveAcked ::
  "UnwrappedTSN \<Rightarrow> AckInfo \<times> OutstandingData \<Rightarrow> AckInfo \<times> OutstandingData" where
  "RemoveAcked cumulative_tsn_ack s =
     (let (ack_info, od) = RemoveAcked_loop cumulative_tsn_ack s in
      (ack_info, od\<lparr>od_stream_reset_breakpoint_tsns :=
         Set.filter (\<lambda>t. \<not> t \<le> next_value cumulative_tsn_ack) (od_stream_reset_breakpoint_tsns od)\<rparr>))"

fun ack_tsns ::
  "UnwrappedTSN list \<Rightarrow> AckInfo \<times> OutstandingData \<Rightarrow> (AckInfo \<times> OutstandingData) outcome" where
  "ack_tsns [] s = Value s"
| "ack_tsns (tsn # tsns) s =
     (if tsn > od_last_cumulative_tsn_ack (snd s) \<and> tsn < od_next_tsn (snd s)
      then obind (GetItem tsn (snd s)) (\<lambda>i. ack_tsns tsns (AckChunk tsn i s))
      else ack_tsns tsns s)"

fun AckGapBlocks ::
  "UnwrappedTSN \<Rightarrow> GapAckBlock list \<Rightarrow> AckInfo \<times> OutstandingData \<Rightarrow>
   (AckInfo \<times> OutstandingData) outcome" where
  "AckGapBlocks cumulative_tsn_ack [] s = Value s"
| "AckGapBlocks cumulative_tsn_ack (block # gap_ack_blocks) s =
     (let start = AddTo cumulative_tsn_ack (uint (gab_start block));
          finish = AddTo cumulative_tsn_ack (uint (gab_end block))
      in obind (ack_tsns [start..finish] s) (AckGapBlocks cumulative_tsn_ack gap_ack_blocks))"

section \<open>Abandoning\<close>

fun AbandonAllFor_loop ::
  "u16 \<Rightarrow> u32 \<Rightarrow> UnwrappedTSN \<Rightarrow> Item list \<Rightarrow> UnwrappedTSN set \<times> UnwrappedTSN set \<Rightarrow>
   Item list \<times> UnwrappedTSN set \<times> UnwrappedTSN set" where
  "AbandonAllFor_loop stream_id message_id tsn [] sets = ([], sets)"
| "AbandonAllFor_loop stream_id message_id tsn (other # others) (fast, retransmit) =
     (let tsn = next_value tsn in
      if \<not> is_abandoned other \<and> data_stream_id (it_data other) = stream_id \<and>
         it_message_id other = message_id then
        let sets = (if should_be_retransmitted other then (fast - {tsn}, retransmit - {tsn})
                    else (fast, retransmit));
            (others, sets) = AbandonAllFor_loop stream_id message_id tsn others sets
        in (Item_Abandon other # others, sets)
      else
        let (others, sets) = AbandonAllFor_loop stream_id message_id tsn others (fast, retransmit)
        in (other # others, sets))"

definition end_placeholder :: "Item \<Rightarrow> Item" where
  "end_placeholder item =
     (let message_end = \<lparr>data_stream_id = data_stream_id (it_data item), data_ssn = data_ssn (it_data item),
            data_mid = data_mid (it_data item), data_fsn = data_fsn (it_data item),
            data_ppid = data_ppid (it_data item), data_payload = [], data_is_beginning = False,
            data_is_end = True, data_is_unordered = data_is_unordered (it_data item)\<rparr>
      in Item_Ack (Item_new (it_message_id item) message_end 0 0 PlusInfinity 0))"

type_synonym 's discard_callback = "u16 \<Rightarrow> u32 \<Rightarrow> 's \<Rightarrow> bool \<times> 's"

definition AbandonAllFor ::
  "'s discard_callback \<Rightarrow> Item \<Rightarrow> OutstandingData \<times> 's \<Rightarrow> OutstandingData \<times> 's" where
  "AbandonAllFor discard item = (\<lambda>(od, s).
     let (discarded, s) = discard (data_stream_id (it_data item)) (it_message_id item) s;
         od = (if discarded
               then od\<lparr>od_outstanding_data := od_outstanding_data od @ [end_placeholder item]\<rparr> else od);
         (items, fast, retransmit) =
           AbandonAllFor_loop (data_stream_id (it_data item)) (it_message_id item)
             (od_last_cumulative_tsn_ack od) (od_outstanding_data od)
             (od_to_be_fast_retransmitted od, od_to_be_retransmitted od)
     in (od\<lparr>od_outstanding_data := items, od_to_be_fast_retransmitted := fast,
            od_to_be_retransmitted := retransmit\<rparr>, s))"

section \<open>Nacking\<close>

definition NackItem ::
  "'s discard_callback \<Rightarrow> UnwrappedTSN \<Rightarrow> bool \<Rightarrow> bool \<Rightarrow> OutstandingData \<times> 's \<Rightarrow>
   (bool \<times> OutstandingData \<times> 's) outcome" where
  "NackItem discard tsn retransmit_now do_fast_retransmit = (\<lambda>(od, s).
     obind (GetItem tsn od) (\<lambda>i.
       let item = od_outstanding_data od ! i;
           od = no_longer_outstanding item od;
           (action, item) = Item_Nack retransmit_now item;
           od = od\<lparr>od_outstanding_data := (od_outstanding_data od)[i := item]\<rparr>
       in case action of
            Nack_Nothing \<Rightarrow> Value (False, od, s)
          | Nack_Retransmit \<Rightarrow>
              Value (True,
                (if do_fast_retransmit
                 then od\<lparr>od_to_be_fast_retransmitted := insert tsn (od_to_be_fast_retransmitted od)\<rparr>
                 else od\<lparr>od_to_be_retransmitted := insert tsn (od_to_be_retransmitted od)\<rparr>), s)
          | Nack_Abandon \<Rightarrow> Value (True, AbandonAllFor discard item (od, s))))"

fun nack_tsns ::
  "'s discard_callback \<Rightarrow> bool \<Rightarrow> bool \<Rightarrow> UnwrappedTSN list \<Rightarrow> bool \<times> OutstandingData \<times> 's \<Rightarrow>
   (bool \<times> OutstandingData \<times> 's) outcome" where
  "nack_tsns discard retransmit_now do_fast_retransmit [] r = Value r"
| "nack_tsns discard retransmit_now do_fast_retransmit (tsn # tsns) (loss, s) =
     obind (NackItem discard tsn retransmit_now do_fast_retransmit s) (\<lambda>(nacked, s).
     nack_tsns discard retransmit_now do_fast_retransmit tsns (loss \<or> nacked, s))"

fun nack_blocks ::
  "'s discard_callback \<Rightarrow> bool \<Rightarrow> UnwrappedTSN \<Rightarrow> UnwrappedTSN \<Rightarrow> UnwrappedTSN \<Rightarrow> GapAckBlock list \<Rightarrow>
   bool \<times> OutstandingData \<times> 's \<Rightarrow> (bool \<times> OutstandingData \<times> 's) outcome" where
  "nack_blocks discard is_in_fast_recovery cumulative_tsn_ack max_tsn_to_nack prev_block_last_acked [] r =
     Value r"
| "nack_blocks discard is_in_fast_recovery cumulative_tsn_ack max_tsn_to_nack prev_block_last_acked
       (block # gap_ack_blocks) r =
     (let cur_block_first_acked = AddTo cumulative_tsn_ack (uint (gab_start block)) in
      obind (nack_tsns discard False (\<not> is_in_fast_recovery)
               [next_value prev_block_last_acked..min (cur_block_first_acked - 1) max_tsn_to_nack] r)
        (nack_blocks discard is_in_fast_recovery cumulative_tsn_ack max_tsn_to_nack
           (AddTo cumulative_tsn_ack (uint (gab_end block))) gap_ack_blocks))"

definition NackBetweenAckBlocks ::
  "'s discard_callback \<Rightarrow> UnwrappedTSN \<Rightarrow> GapAckBlock list \<Rightarrow> bool \<Rightarrow>
   AckInfo \<times> OutstandingData \<times> 's \<Rightarrow> (AckInfo \<times> OutstandingData \<times> 's) outcome" where
  "NackBetweenAckBlocks discard cumulative_tsn_ack gap_ack_blocks is_in_fast_recovery = (\<lambda>(ack_info, od, s).
     let max_tsn_to_nack =
           (if is_in_fast_recovery \<and> cumulative_tsn_ack > od_last_cumulative_tsn_ack od
            then AddTo cumulative_tsn_ack
                   (if gap_ack_blocks = [] then 0 else uint (gab_end (last gap_ack_blocks)))
            else ai_highest_tsn_acked ack_info)
     in obind (nack_blocks discard is_in_fast_recovery cumulative_tsn_ack max_tsn_to_nack
                 cumulative_tsn_ack gap_ack_blocks (ai_has_packet_loss ack_info, od, s))
          (\<lambda>(loss, od, s). Value (ack_info\<lparr>ai_has_packet_loss := loss\<rparr>, od, s)))"

definition OutstandingData_HandleSack ::
  "'s discard_callback \<Rightarrow> UnwrappedTSN \<Rightarrow> GapAckBlock list \<Rightarrow> bool \<Rightarrow> OutstandingData \<times> 's \<Rightarrow>
   (AckInfo \<times> OutstandingData \<times> 's) outcome" where
  "OutstandingData_HandleSack discard cumulative_tsn_ack gap_ack_blocks is_in_fast_recovery = (\<lambda>(od, s).
     obind (AckGapBlocks cumulative_tsn_ack gap_ack_blocks
              (RemoveAcked cumulative_tsn_ack (AckInfo_new cumulative_tsn_ack, od))) (\<lambda>(ack_info, od).
     NackBetweenAckBlocks discard cumulative_tsn_ack gap_ack_blocks is_in_fast_recovery
       (ack_info, od, s)))"

fun unacked_tsns :: "UnwrappedTSN \<Rightarrow> Item list \<Rightarrow> UnwrappedTSN list" where
  "unacked_tsns tsn [] = []"
| "unacked_tsns tsn (item # items) =
     (let tsn = next_value tsn in
      if \<not> is_acked item then tsn # unacked_tsns tsn items else unacked_tsns tsn items)"

definition NackAll :: "'s discard_callback \<Rightarrow> OutstandingData \<times> 's \<Rightarrow> (OutstandingData \<times> 's) outcome" where
  "NackAll discard = (\<lambda>(od, s).
     obind (nack_tsns discard True False
              (unacked_tsns (od_last_cumulative_tsn_ack od) (od_outstanding_data od)) (False, od, s))
       (\<lambda>(_, r). Value r))"

section \<open>Retransmitting\<close>

fun extract_loop ::
  "UnwrappedTSN list \<Rightarrow> nat \<Rightarrow> OutstandingData \<Rightarrow>
   (UnwrappedTSN set \<times> (u32 \<times> Data) list \<times> OutstandingData) outcome" where
  "extract_loop [] max_size od = Value ({}, [], od)"
| "extract_loop (tsn # tsns) max_size od =
     obind (GetItem tsn od) (\<lambda>i.
       let item = od_outstanding_data od ! i;
           serialized_size = GetSerializedChunkSize od (it_data item);
           fits = (serialized_size \<le> max_size);
           od = (if fits then
                   od\<lparr>od_outstanding_data :=
                        (od_outstanding_data od)[i := Item_MarkAsRetransmitted item],
                      od_unacked_payload_bytes := od_unacked_payload_bytes od + Data_size (it_data item),
                      od_unacked_packet_bytes := od_unacked_packet_bytes od + serialized_size,
                      od_unacked_items := od_unacked_items od + 1\<rparr>
                 else od);
           max_size = (if fits then max_size - serialized_size else max_size);
           erased = (if fits then {tsn} else {});
           chunks = (if fits then [(Wrap tsn, it_data item)] else [])
       in if max_size \<le> od_data_chunk_header_size od then Value (erased, chunks, od)
          else obind (extract_loop tsns max_size od) (\<lambda>(erased', chunks', od).
                 Value (erased \<union> erased', chunks @ chunks', od)))"

definition GetChunksToBeFastRetransmitted ::
  "nat \<Rightarrow> OutstandingData \<Rightarrow> ((u32 \<times> Data) list \<times> OutstandingData) outcome" where
  "GetChunksToBeFastRetransmitted max_size od =
     obind (extract_loop (sorted_list_of_set (od_to_be_fast_retransmitted od)) max_size od)
       (\<lambda>(erased, chunks, od).
          let od = od\<lparr>od_to_be_fast_retransmitted := od_to_be_fast_retransmitted od - erased\<rparr> in
          if od_to_be_fast_retransmitted od \<noteq> {} then
            Value (chunks, od\<lparr>od_to_be_retransmitted :=
                                od_to_be_retransmitted od \<union> od_to_be_fast_retransmitted od,
                              od_to_be_fast_retransmitted := {}\<rparr>)
          else Value (chunks, od))"

definition GetChunksToBeRetransmitted ::
  "nat \<Rightarrow> OutstandingData \<Rightarrow> ((u32 \<times> Data) list \<times> OutstandingData) outcome" where
  "GetChunksToBeRetransmitted max_size od =
     obind (extract_loop (sorted_list_of_set (od_to_be_retransmitted od)) max_size od)
       (\<lambda>(erased, chunks, od).
          Value (chunks, od\<lparr>od_to_be_retransmitted := od_to_be_retransmitted od - erased\<rparr>))"

section \<open>Sending and expiring\<close>

definition OutstandingData_Insert ::
  "'s discard_callback \<Rightarrow> u32 \<Rightarrow> Data \<Rightarrow> Timestamp \<Rightarrow> u16 \<Rightarrow> Timestamp \<Rightarrow> u64 \<Rightarrow>
   OutstandingData \<times> 's \<Rightarrow> UnwrappedTSN option \<times> OutstandingData \<times> 's" where
  "OutstandingData_Insert discard message_id data time_sent max_retransmissions expires_at lifecycle_id =
     (\<lambda>(od, s).
        let chunk_size = GetSerializedChunkSize od data;
            od = od\<lparr>od_unacked_payload_bytes := od_unacked_payload_bytes od + Data_size data,
                    od_unacked_packet_bytes := od_unacked_packet_bytes od + chunk_size,
                    od_unacked_items := od_unacked_items od + 1\<rparr>;
            tsn = od_next_tsn od;
            item = Item_new message_id data time_sent max_retransmissions expires_at lifecycle_id;
            od = od\<lparr>od_outstanding_data := od_outstanding_data od @ [item]\<rparr>
        in if has_expired time_sent item then (None, AbandonAllFor discard item (od, s))
           else (Some tsn, od, s))"

text \<open>
  The loop of \<open>ExpireOutstandingChunks\<close> goes over the items that were in the queue when it began;
  \<open>AbandonAllFor\<close> may append to the queue meanwhile.
\<close>

fun expire_loop ::
  "'s discard_callback \<Rightarrow> Timestamp \<Rightarrow> nat \<Rightarrow> nat \<Rightarrow> OutstandingData \<times> 's \<Rightarrow> OutstandingData \<times> 's" where
  "expire_loop discard now i 0 = (\<lambda>s. s)"
| "expire_loop discard now i (Suc n) = (\<lambda>(od, s).
     let item = od_outstanding_data od ! i in
     if is_abandoned item then expire_loop discard now (i + 1) n (od, s)
     else if is_nacked item \<and> has_expired now item
     then expire_loop discard now (i + 1) n (AbandonAllFor discard item (od, s))
     else (od, s))"

definition ExpireOutstandingChunks ::
  "'s discard_callback \<Rightarrow> Timestamp \<Rightarrow> OutstandingData \<times> 's \<Rightarrow> OutstandingData \<times> 's" where
  "ExpireOutstandingChunks discard now s =
     expire_loop discard now 0 (length (od_outstanding_data (fst s))) s"

definition MeasureRTT :: "Timestamp \<Rightarrow> UnwrappedTSN \<Rightarrow> OutstandingData \<Rightarrow> TimeDelta outcome" where
  "MeasureRTT now tsn od =
     (if tsn > od_last_cumulative_tsn_ack od \<and> tsn < od_next_tsn od then
        obind (GetItem tsn od) (\<lambda>i.
          let item = od_outstanding_data od ! i in
          if \<not> has_been_retransmitted item then Value (unit_minus now (it_time_sent item))
          else Value PlusInfinity)
      else Value PlusInfinity)"

section \<open>FORWARD-TSN\<close>

definition ShouldSendForwardTsn :: "OutstandingData \<Rightarrow> bool" where
  "ShouldSendForwardTsn od \<longleftrightarrow>
     (if od_outstanding_data od \<noteq> [] then is_abandoned (hd (od_outstanding_data od)) else False)"

text \<open>
  The items that a FORWARD-TSN skips: abandoned, at the front of the queue, up to a TSN at which a
  stream reset has begun.
\<close>

fun skipped_items :: "UnwrappedTSN set \<Rightarrow> UnwrappedTSN \<Rightarrow> Item list \<Rightarrow> Item list" where
  "skipped_items breakpoints new_cumulative_ack [] = []"
| "skipped_items breakpoints new_cumulative_ack (item # items) =
     (let tsn = next_value new_cumulative_ack in
      if tsn \<in> breakpoints \<or> \<not> is_abandoned item then []
      else item # skipped_items breakpoints tsn items)"

definition skip_ordered :: "Item \<Rightarrow> (u16, u16) omap \<Rightarrow> (u16, u16) omap" where
  "skip_ordered item skipped_per_ordered_stream =
     (if \<not> data_is_unordered (it_data item) then
        let stream_id = data_stream_id (it_data item);
            skipped = om_at 0 stream_id skipped_per_ordered_stream
        in om_insert stream_id
             (if data_ssn (it_data item) > skipped then data_ssn (it_data item) else skipped)
             skipped_per_ordered_stream
      else skipped_per_ordered_stream)"

definition CreateForwardTsn :: "OutstandingData \<Rightarrow> AnyForwardTsnChunk" where
  "CreateForwardTsn od =
     (let items = skipped_items (od_stream_reset_breakpoint_tsns od) (od_last_cumulative_tsn_ack od)
                    (od_outstanding_data od);
          new_cumulative_ack = od_last_cumulative_tsn_ack od + int (length items);
          skipped_per_ordered_stream = fold skip_ordered items []
      in \<lparr>aft_new_cumulative_tsn = Wrap new_cumulative_ack,
          aft_skipped_streams =
            map (\<lambda>(stream_id, ssn).
                   \<lparr>ss_stream_id = stream_id, ss_ssn = ssn, ss_unordered = False, ss_mid = 0\<rparr>)
              skipped_per_ordered_stream\<rparr>)"

definition skip_message :: "Item \<Rightarrow> (bool \<times> u16, u32) omap \<Rightarrow> (bool \<times> u16, u32) omap" where
  "skip_message item skipped_per_stream =
     (let stream_id = (data_is_unordered (it_data item), data_stream_id (it_data item));
          skipped = om_at 0 stream_id skipped_per_stream
      in om_insert stream_id
           (if data_mid (it_data item) > skipped then data_mid (it_data item) else skipped)
           skipped_per_stream)"

definition CreateIForwardTsn :: "OutstandingData \<Rightarrow> AnyForwardTsnChunk" where
  "CreateIForwardTsn od =
     (let items = skipped_items (od_stream_reset_breakpoint_tsns od) (od_last_cumulative_tsn_ack od)
                    (od_outstanding_data od);
          new_cumulative_ack = od_last_cumulative_tsn_ack od + int (length items);
          skipped_per_stream = fold skip_message items []
      in \<lparr>aft_new_cumulative_tsn = Wrap new_cumulative_ack,
          aft_skipped_streams =
            map (\<lambda>((is_unordered, stream_id), mid).
                   \<lparr>ss_stream_id = stream_id, ss_ssn = 0, ss_unordered = is_unordered, ss_mid = mid\<rparr>)
              skipped_per_stream\<rparr>)"

definition OutstandingData_ResetSequenceNumbers :: "UnwrappedTSN \<Rightarrow> OutstandingData \<Rightarrow> OutstandingData" where
  "OutstandingData_ResetSequenceNumbers last_cumulative_tsn od =
     od\<lparr>od_last_cumulative_tsn_ack := last_cumulative_tsn\<rparr>"

definition OutstandingData_BeginResetStreams :: "OutstandingData \<Rightarrow> OutstandingData" where
  "OutstandingData_BeginResetStreams od =
     od\<lparr>od_stream_reset_breakpoint_tsns := insert (od_next_tsn od) (od_stream_reset_breakpoint_tsns od)\<rparr>"

section \<open>Consistency\<close>

text \<open>The counters as sums over the queue.\<close>

definition weight :: "(Item \<Rightarrow> nat) \<Rightarrow> Item list \<Rightarrow> nat" where
  "weight f items = sum_list (map (\<lambda>item. if is_outstanding item then f item else 0) items)"

lemma weight_simps [simp]:
  "weight f [] = 0"
  "weight f (item # items) = (if is_outstanding item then f item else 0) + weight f items"
  "weight f (xs @ ys) = weight f xs + weight f ys"
  by (simp_all add: weight_def)

lemma weight_filter: "sum_list (map f (filter is_outstanding items)) = weight f items"
  by (induction items) simp_all

lemma weight_length: "length (filter is_outstanding items) = weight (\<lambda>_. 1) items"
  by (induction items) simp_all

lemma weight_update:
  assumes "i < length items"
  shows "weight f (items[i := item]) + (if is_outstanding (items ! i) then f (items ! i) else 0) =
         weight f items + (if is_outstanding item then f item else 0)"
  using assms
proof (induction items arbitrary: i)
  case (Cons x xs)
  show ?case
  proof (cases i)
    case (Suc j)
    with Cons.IH [of j] Cons.prems show ?thesis by (auto split: if_splits)
  qed simp
qed simp

lemma weight_ge:
  assumes "i < length items" and "is_outstanding (items ! i)"
  shows "f (items ! i) \<le> weight f items"
  using assms
proof (induction items arbitrary: i)
  case (Cons x xs)
  then show ?case by (cases i) (auto intro: trans_le_add2)
qed simp

text \<open>The TSNs that are to be retransmitted.\<close>

lemma retransmitted_tsns_iff:
  "t \<in> retransmitted_tsns c items \<longleftrightarrow>
   (\<exists>i<length items. t = c + 1 + int i \<and> should_be_retransmitted (items ! i))"
proof (induction items arbitrary: c)
  case (Cons x xs)
  have "(\<exists>i<length (x # xs). t = c + 1 + int i \<and> should_be_retransmitted ((x # xs) ! i)) \<longleftrightarrow>
      (t = c + 1 \<and> should_be_retransmitted x) \<or>
      (\<exists>i<length xs. t = c + 1 + 1 + int i \<and> should_be_retransmitted (xs ! i))"
    by (simp add: Ex_less_Suc2 algebra_simps)
  with Cons show ?case by (auto simp: next_value_def Let_def)
qed simp

lemma retransmitted_tsns_bounds:
  "t \<in> retransmitted_tsns c items \<Longrightarrow> c < t \<and> t \<le> c + int (length items)"
  by (auto simp: retransmitted_tsns_iff)

lemma retransmitted_tsns_append:
  "retransmitted_tsns c (xs @ [x]) =
     retransmitted_tsns c xs \<union> (if should_be_retransmitted x then {c + 1 + int (length xs)} else {})"
  by (induction xs arbitrary: c) (auto simp: next_value_def Let_def algebra_simps)

lemma retransmitted_tsns_update:
  assumes "i < length items"
  shows "retransmitted_tsns c (items[i := item]) =
    (if should_be_retransmitted item then insert (c + 1 + int i) (retransmitted_tsns c items)
     else retransmitted_tsns c items - {c + 1 + int i})"
proof (rule set_eqI)
  fix t
  show "t \<in> retransmitted_tsns c (items[i := item]) \<longleftrightarrow> t \<in>
    (if should_be_retransmitted item then insert (c + 1 + int i) (retransmitted_tsns c items)
     else retransmitted_tsns c items - {c + 1 + int i})"
  proof (cases "t = c + 1 + int i")
    case True
    with assms show ?thesis by (auto simp: retransmitted_tsns_iff)
  next
    case False
    then have "t \<in> retransmitted_tsns c (items[i := item]) \<longleftrightarrow> t \<in> retransmitted_tsns c items"
      unfolding retransmitted_tsns_iff by (metis length_list_update nth_list_update_neq)
    with False show ?thesis by simp
  qed
qed

text \<open>Consistency with a given set of TSNs to be retransmitted.\<close>

definition consistent_with :: "UnwrappedTSN set \<Rightarrow> OutstandingData \<Rightarrow> bool" where
  "consistent_with S od \<longleftrightarrow>
     weight (Data_size \<circ> it_data) (od_outstanding_data od) = od_unacked_payload_bytes od \<and>
     weight (GetSerializedChunkSize od \<circ> it_data) (od_outstanding_data od) = od_unacked_packet_bytes od \<and>
     weight (\<lambda>_. 1) (od_outstanding_data od) = od_unacked_items od \<and>
     retransmitted_tsns (od_last_cumulative_tsn_ack od) (od_outstanding_data od) = S"

lemma IsConsistent_iff:
  "OutstandingData_IsConsistent od \<longleftrightarrow>
   consistent_with (od_to_be_retransmitted od \<union> od_to_be_fast_retransmitted od) od"
  by (simp add: OutstandingData_IsConsistent_def consistent_with_def Let_def weight_filter weight_length)

definition nacked_ok :: "OutstandingData \<Rightarrow> bool" where
  "nacked_ok od \<longleftrightarrow>
     (\<forall>item\<in>set (od_outstanding_data od). should_be_retransmitted item \<longrightarrow> is_nacked item)"

definition od_ok :: "OutstandingData \<Rightarrow> bool" where
  "od_ok od \<longleftrightarrow>
     OutstandingData_IsConsistent od \<and> nacked_ok od \<and>
     od_to_be_retransmitted od \<inter> od_to_be_fast_retransmitted od = {}"

lemma GetSerializedChunkSize_cong:
  "od_data_chunk_header_size od = od_data_chunk_header_size od' \<Longrightarrow>
   GetSerializedChunkSize od = GetSerializedChunkSize od'"
  by (simp add: GetSerializedChunkSize_def fun_eq_iff)

lemma GetItem_in_range:
  assumes "od_last_cumulative_tsn_ack od < tsn" and "tsn < od_next_tsn od"
  obtains i where "GetItem tsn od = Value i" and "i < length (od_outstanding_data od)"
    and "tsn = od_last_cumulative_tsn_ack od + 1 + int i"
proof
  let ?i = "nat (tsn - od_last_cumulative_tsn_ack od) - 1"
  show "GetItem tsn od = Value ?i" using assms by (simp add: GetItem_def)
  show "?i < length (od_outstanding_data od)" and "tsn = od_last_cumulative_tsn_ack od + 1 + int ?i"
    using assms by (auto simp: od_next_tsn_def highest_outstanding_tsn_def next_value_def AddTo_def)
qed

text \<open>Replacing one item, when counters and sets change with it.\<close>

lemma consistent_update:
  assumes "consistent_with S od" and "i < length (od_outstanding_data od)"
  defines "item \<equiv> od_outstanding_data od ! i"
  assumes frame: "od_data_chunk_header_size od' = od_data_chunk_header_size od"
      "od_last_cumulative_tsn_ack od' = od_last_cumulative_tsn_ack od"
    and items: "od_outstanding_data od' = (od_outstanding_data od)[i := item']"
    and data: "it_data item' = it_data item"
    and payload: "od_unacked_payload_bytes od' + (if is_outstanding item then Data_size (it_data item) else 0) =
      od_unacked_payload_bytes od + (if is_outstanding item' then Data_size (it_data item) else 0)"
    and packet: "od_unacked_packet_bytes od' +
        (if is_outstanding item then GetSerializedChunkSize od (it_data item) else 0) =
      od_unacked_packet_bytes od +
        (if is_outstanding item' then GetSerializedChunkSize od (it_data item) else 0)"
    and count: "od_unacked_items od' + (if is_outstanding item then 1 else 0) =
      od_unacked_items od + (if is_outstanding item' then 1 else 0)"
  shows "consistent_with
    (if should_be_retransmitted item' then insert (od_last_cumulative_tsn_ack od + 1 + int i) S
     else S - {od_last_cumulative_tsn_ack od + 1 + int i}) od'"
proof -
  have size: "GetSerializedChunkSize od' = GetSerializedChunkSize od"
    by (rule GetSerializedChunkSize_cong) (rule frame(1))
  note w = weight_update [OF assms(2), of _ item', folded item_def]
  have "weight (Data_size \<circ> it_data) (od_outstanding_data od') = od_unacked_payload_bytes od'"
    using w [of "Data_size \<circ> it_data"] payload data assms(1) unfolding items consistent_with_def
    by (simp split: if_splits)
  moreover have "weight (GetSerializedChunkSize od' \<circ> it_data) (od_outstanding_data od') = od_unacked_packet_bytes od'"
    using w [of "GetSerializedChunkSize od \<circ> it_data"] packet data assms(1)
    unfolding items consistent_with_def size by (simp split: if_splits)
  moreover have "weight (\<lambda>_. 1) (od_outstanding_data od') = od_unacked_items od'"
    using w [of "\<lambda>_. 1"] count assms(1) unfolding items consistent_with_def
    by (simp split: if_splits)
  ultimately show ?thesis
    using assms(1) retransmitted_tsns_update [OF assms(2)] unfolding consistent_with_def
    by (simp add: frame(2) items)
qed

lemma no_longer_outstanding_frame [simp]:
  "od_data_chunk_header_size (no_longer_outstanding item od) = od_data_chunk_header_size od"
  "od_last_cumulative_tsn_ack (no_longer_outstanding item od) = od_last_cumulative_tsn_ack od"
  "od_outstanding_data (no_longer_outstanding item od) = od_outstanding_data od"
  "od_to_be_fast_retransmitted (no_longer_outstanding item od) = od_to_be_fast_retransmitted od"
  "od_to_be_retransmitted (no_longer_outstanding item od) = od_to_be_retransmitted od"
  "od_stream_reset_breakpoint_tsns (no_longer_outstanding item od) = od_stream_reset_breakpoint_tsns od"
  by (simp_all add: no_longer_outstanding_def)

lemma no_longer_outstanding_counts:
  assumes "consistent_with S od" and "i < length (od_outstanding_data od)"
  defines "item \<equiv> od_outstanding_data od ! i"
  shows "od_unacked_payload_bytes (no_longer_outstanding item od) +
           (if is_outstanding item then Data_size (it_data item) else 0) = od_unacked_payload_bytes od"
    and "od_unacked_packet_bytes (no_longer_outstanding item od) +
           (if is_outstanding item then GetSerializedChunkSize od (it_data item) else 0) =
         od_unacked_packet_bytes od"
    and "od_unacked_items (no_longer_outstanding item od) + (if is_outstanding item then 1 else 0) =
         od_unacked_items od"
  using assms(1) weight_ge [OF assms(2), of "Data_size \<circ> it_data", folded item_def]
    weight_ge [OF assms(2), of "GetSerializedChunkSize od \<circ> it_data", folded item_def]
    weight_ge [OF assms(2), of "\<lambda>_. 1", folded item_def]
  unfolding consistent_with_def no_longer_outstanding_def by (simp_all del: One_nat_def)

text \<open>An item that is taken out of flight and replaced by one that is not in flight.\<close>

lemma consistent_out_of_flight:
  assumes "consistent_with S od" and "i < length (od_outstanding_data od)"
    and "it_data item' = it_data (od_outstanding_data od ! i)" and "\<not> is_outstanding item'"
    and "od_data_chunk_header_size od' = od_data_chunk_header_size od"
    and "od_last_cumulative_tsn_ack od' = od_last_cumulative_tsn_ack od"
    and "od_outstanding_data od' = (od_outstanding_data od)[i := item']"
    and "od_unacked_payload_bytes od' =
      od_unacked_payload_bytes (no_longer_outstanding (od_outstanding_data od ! i) od)"
    and "od_unacked_packet_bytes od' =
      od_unacked_packet_bytes (no_longer_outstanding (od_outstanding_data od ! i) od)"
    and "od_unacked_items od' = od_unacked_items (no_longer_outstanding (od_outstanding_data od ! i) od)"
  shows "consistent_with
    (if should_be_retransmitted item' then insert (od_last_cumulative_tsn_ack od + 1 + int i) S
     else S - {od_last_cumulative_tsn_ack od + 1 + int i}) od'"
  using assms no_longer_outstanding_counts [OF assms(1,2)]
  by (intro consistent_update [OF assms(1,2)]) simp_all

lemma should_iff_in:
  assumes "consistent_with S od" and "i < length (od_outstanding_data od)"
  shows "should_be_retransmitted (od_outstanding_data od ! i) \<longleftrightarrow>
    od_last_cumulative_tsn_ack od + 1 + int i \<in> S"
  using assms by (auto simp: consistent_with_def retransmitted_tsns_iff)

lemma nacked_ok_update:
  assumes "nacked_ok od" and "should_be_retransmitted item \<longrightarrow> is_nacked item"
    and "od_outstanding_data od' = (od_outstanding_data od)[i := item]"
  shows "nacked_ok od'"
  using assms set_update_subset_insert [of "od_outstanding_data od" i item]
  by (auto simp: nacked_ok_def)

lemma Item_Ack_simps [simp]:
  "it_data (Item_Ack item) = it_data item" "\<not> is_outstanding (Item_Ack item)"
  "is_acked (Item_Ack item)" "\<not> should_be_retransmitted (Item_Ack item)"
  "is_abandoned (Item_Ack item) = is_abandoned item"
  by (simp_all add: Item_Ack_def is_outstanding_def is_acked_def should_be_retransmitted_def
      is_abandoned_def Let_def)

text \<open>What acknowledging leaves alone.\<close>

definition same_queue :: "OutstandingData \<Rightarrow> OutstandingData \<Rightarrow> bool" where
  "same_queue od od' \<longleftrightarrow>
     od_data_chunk_header_size od' = od_data_chunk_header_size od \<and>
     od_last_cumulative_tsn_ack od' = od_last_cumulative_tsn_ack od \<and>
     length (od_outstanding_data od') = length (od_outstanding_data od) \<and>
     od_to_be_fast_retransmitted od' = od_to_be_fast_retransmitted od"

lemma same_queue_refl [simp]: "same_queue od od"
  by (simp add: same_queue_def)

lemma same_queue_trans: "same_queue a b \<Longrightarrow> same_queue b c \<Longrightarrow> same_queue a c"
  by (simp add: same_queue_def)

lemma same_queue_next_tsn: "same_queue od od' \<Longrightarrow> od_next_tsn od' = od_next_tsn od"
  by (simp add: same_queue_def od_next_tsn_def highest_outstanding_tsn_def)

lemma AckChunk_same_queue: "AckChunk tsn i (ai, od) = (ai', od') \<Longrightarrow> same_queue od od'"
  by (auto simp: AckChunk_def same_queue_def Let_def split: if_splits)

lemma AckChunk_highest:
  "AckChunk tsn i (ai, od) = (ai', od') \<Longrightarrow>
   ai_highest_tsn_acked ai' \<in> {ai_highest_tsn_acked ai, max (ai_highest_tsn_acked ai) tsn}"
  by (auto simp: AckChunk_def Let_def split: if_splits)

lemma AckChunk_ok:
  assumes "od_ok od" and "i < length (od_outstanding_data od)"
    and "tsn = od_last_cumulative_tsn_ack od + 1 + int i" and "tsn \<notin> od_to_be_fast_retransmitted od"
    and "AckChunk tsn i (ai, od) = (ai', od')"
  shows "od_ok od'" and "is_acked (od_outstanding_data od' ! i)"
proof -
  let ?item = "od_outstanding_data od ! i"
  let ?S = "od_to_be_retransmitted od \<union> od_to_be_fast_retransmitted od"
  have c: "consistent_with ?S od" using assms(1) by (simp add: od_ok_def IsConsistent_iff)
  have "od_ok od' \<and> is_acked (od_outstanding_data od' ! i)"
  proof (cases "is_acked ?item")
    case True
    with assms show ?thesis by (simp add: AckChunk_def Let_def)
  next
    case False
    have "od' = (let od = no_longer_outstanding ?item od;
           od = (if should_be_retransmitted ?item
                 then od\<lparr>od_to_be_retransmitted := od_to_be_retransmitted od - {tsn}\<rparr> else od)
         in od\<lparr>od_outstanding_data := (od_outstanding_data od)[i := Item_Ack ?item]\<rparr>)"
      using assms(5) False by (auto simp: AckChunk_def Let_def)
    then have od': "od_outstanding_data od' = (od_outstanding_data od)[i := Item_Ack ?item]"
      "od_to_be_retransmitted od' = (if should_be_retransmitted ?item
         then od_to_be_retransmitted od - {tsn} else od_to_be_retransmitted od)"
      "od_to_be_fast_retransmitted od' = od_to_be_fast_retransmitted od"
      and "od_data_chunk_header_size od' = od_data_chunk_header_size od"
      "od_last_cumulative_tsn_ack od' = od_last_cumulative_tsn_ack od"
      "od_unacked_payload_bytes od' = od_unacked_payload_bytes (no_longer_outstanding ?item od)"
      "od_unacked_packet_bytes od' = od_unacked_packet_bytes (no_longer_outstanding ?item od)"
      "od_unacked_items od' = od_unacked_items (no_longer_outstanding ?item od)"
      by (simp_all add: Let_def)
    then have "consistent_with (?S - {tsn}) od'"
      using consistent_out_of_flight [OF c assms(2), of "Item_Ack ?item" od'] od'(1)
      by (simp add: assms(3))
    moreover have "?S - {tsn} = od_to_be_retransmitted od' \<union> od_to_be_fast_retransmitted od'"
      using assms(4) should_iff_in [OF c assms(2)] by (auto simp: od' assms(3))
    moreover have "nacked_ok od'"
      using assms(1) by (intro nacked_ok_update [OF _ _ od'(1)]) (simp_all add: od_ok_def)
    ultimately show ?thesis
      using assms(1,2) by (auto simp: od_ok_def IsConsistent_iff od' split: if_splits)
  qed
  then show "od_ok od'" and "is_acked (od_outstanding_data od' ! i)" by simp_all
qed

section \<open>Cumulative acks and gap blocks\<close>

lemma remove_front_ok:
  assumes "od_ok od" and "od_outstanding_data od \<noteq> []" and "od_to_be_fast_retransmitted od = {}"
    and "remove_front (ai, od) = (ai', od')"
  shows "od_ok od'" and "od_last_cumulative_tsn_ack od' = od_last_cumulative_tsn_ack od + 1"
    and "od_to_be_fast_retransmitted od' = {}"
    and "ai_highest_tsn_acked ai' \<in> {ai_highest_tsn_acked ai,
           max (ai_highest_tsn_acked ai) (od_last_cumulative_tsn_ack od + 1)}"
proof -
  let ?tsn = "next_value (od_last_cumulative_tsn_ack od)"
  obtain ai1 od1 where a: "AckChunk ?tsn 0 (ai, od) = (ai1, od1)" by fastforce
  have od1: "od_ok od1" "is_acked (od_outstanding_data od1 ! 0)"
    using AckChunk_ok [OF assms(1) _ _ _ a] assms(2,3) by (simp_all add: next_value_def)
  note q = AckChunk_same_queue [OF a, unfolded same_queue_def]
  obtain x xs where xs: "od_outstanding_data od1 = x # xs"
    using q assms(2) by (metis length_0_conv neq_Nil_conv)
  have od': "od' = od1\<lparr>od_outstanding_data := xs, od_last_cumulative_tsn_ack := ?tsn\<rparr>"
    using assms(4) q by (auto simp: remove_front_def a Let_def xs)
  have x: "\<not> is_outstanding x" using od1(2) by (simp add: xs is_acked_def is_outstanding_def)
  have "\<not> should_be_retransmitted x"
    using od1 by (auto simp: xs od_ok_def nacked_ok_def is_acked_def is_nacked_def)
  then have "od_ok od1 \<longleftrightarrow> od_ok od'"
    using x q by (simp add: od' od_ok_def IsConsistent_iff consistent_with_def xs nacked_ok_def
        next_value_def GetSerializedChunkSize_cong [of od' od1] GetSerializedChunkSize_def [abs_def])
  with od1 show "od_ok od'" by simp
  show "od_last_cumulative_tsn_ack od' = od_last_cumulative_tsn_ack od + 1"
    and "od_to_be_fast_retransmitted od' = {}"
    using q assms(3) by (simp_all add: od' next_value_def)
  have "ai_highest_tsn_acked ai' = ai_highest_tsn_acked ai1"
    using assms(4) by (auto simp: remove_front_def a Let_def)
  with AckChunk_highest [OF a] show "ai_highest_tsn_acked ai' \<in> {ai_highest_tsn_acked ai,
      max (ai_highest_tsn_acked ai) (od_last_cumulative_tsn_ack od + 1)}"
    by (simp add: next_value_def)
qed

lemma RemoveAcked_loop_ok:
  assumes "od_ok od" and "od_to_be_fast_retransmitted od = {}"
    and "od_last_cumulative_tsn_ack od \<le> ack" and "ack \<le> highest_outstanding_tsn od"
    and "ai_highest_tsn_acked ai = ack" and "RemoveAcked_loop ack (ai, od) = (ai', od')"
  shows "od_ok od' \<and> od_last_cumulative_tsn_ack od' = ack \<and> od_to_be_fast_retransmitted od' = {} \<and>
    ai_highest_tsn_acked ai' = ack \<and> highest_outstanding_tsn od' = highest_outstanding_tsn od"
  using assms
proof (induction "length (od_outstanding_data od)" arbitrary: ai od)
  case 0
  then show ?case
    by (auto simp: RemoveAcked_loop.simps highest_outstanding_tsn_def AddTo_def)
next
  case (Suc n)
  show ?case
  proof (cases "od_last_cumulative_tsn_ack od < ack")
    case True
    obtain ai1 od1 where r: "remove_front (ai, od) = (ai1, od1)" by fastforce
    have ne: "od_outstanding_data od \<noteq> []" using Suc.hyps(2) by auto
    note f = remove_front_ok [OF Suc.prems(1) ne Suc.prems(2) r]
    have len: "length (od_outstanding_data od1) = length (od_outstanding_data od) - 1"
      using remove_front_length [of "(ai, od)"] by (simp add: r)
    have high: "highest_outstanding_tsn od1 = highest_outstanding_tsn od"
      using len f(2) Suc.hyps(2) by (simp add: highest_outstanding_tsn_def AddTo_def)
    have "ai_highest_tsn_acked ai1 = ack" using f(4) Suc.prems(5) True by auto
    moreover have "RemoveAcked_loop ack (ai1, od1) = (ai', od')"
      using Suc.prems(6) True ne by (subst (asm) RemoveAcked_loop.simps) (simp add: r)
    ultimately show ?thesis
      using Suc.hyps(1) [of od1 ai1] f len high True Suc.hyps(2) Suc.prems(4) by simp
  next
    case False
    with Suc.prems show ?thesis by (auto simp: RemoveAcked_loop.simps)
  qed
qed

lemma RemoveAcked_ok:
  assumes "od_ok od" and "od_to_be_fast_retransmitted od = {}"
    and "od_last_cumulative_tsn_ack od \<le> ack" and "ack \<le> highest_outstanding_tsn od"
    and "RemoveAcked ack (AckInfo_new ack, od) = (ai', od')"
  shows "od_ok od'" and "od_last_cumulative_tsn_ack od' = ack" and "od_to_be_fast_retransmitted od' = {}"
    and "ai_highest_tsn_acked ai' = ack" and "highest_outstanding_tsn od' = highest_outstanding_tsn od"
proof -
  obtain ai1 od1 where r: "RemoveAcked_loop ack (AckInfo_new ack, od) = (ai1, od1)" by fastforce
  have "od_ok (od1\<lparr>od_stream_reset_breakpoint_tsns := B\<rparr>) = od_ok od1" for B
    by (simp add: od_ok_def IsConsistent_iff consistent_with_def nacked_ok_def
        GetSerializedChunkSize_def [abs_def])
  moreover have "ai' = ai1" and "\<exists>B. od' = od1\<lparr>od_stream_reset_breakpoint_tsns := B\<rparr>"
    using assms(5) by (auto simp: RemoveAcked_def r)
  moreover have "ai_highest_tsn_acked (AckInfo_new ack) = ack" by (simp add: AckInfo_new_def)
  ultimately show "od_ok od'" and "od_last_cumulative_tsn_ack od' = ack"
    and "od_to_be_fast_retransmitted od' = {}" and "ai_highest_tsn_acked ai' = ack"
    and "highest_outstanding_tsn od' = highest_outstanding_tsn od"
    using RemoveAcked_loop_ok [OF assms(1-4) _ r] by (auto simp: highest_outstanding_tsn_def)
qed

text \<open>Acknowledging TSNs in the middle of the queue.\<close>

definition acks_to :: "AckInfo \<times> OutstandingData \<Rightarrow> AckInfo \<times> OutstandingData \<Rightarrow> bool" where
  "acks_to = (\<lambda>(ai, od) (ai', od').
     od_ok od' \<and> same_queue od od' \<and>
     ai_highest_tsn_acked ai \<le> ai_highest_tsn_acked ai' \<and>
     ai_highest_tsn_acked ai' \<le> max (ai_highest_tsn_acked ai) (highest_outstanding_tsn od))"

lemma acks_to_refl: "od_ok od \<Longrightarrow> acks_to (ai, od) (ai, od)"
  by (simp add: acks_to_def)

lemma acks_to_trans: "acks_to a b \<Longrightarrow> acks_to b c \<Longrightarrow> acks_to a c"
  by (auto simp: acks_to_def same_queue_def highest_outstanding_tsn_def)

lemma ack_tsns_ok:
  assumes "od_ok od" and "od_to_be_fast_retransmitted od = {}"
  shows "\<exists>r. ack_tsns tsns (ai, od) = Value r \<and> acks_to (ai, od) r"
  using assms
proof (induction tsns arbitrary: ai od)
  case Nil
  then show ?case by (simp add: acks_to_refl)
next
  case (Cons tsn tsns)
  show ?case
  proof (cases "od_last_cumulative_tsn_ack od < tsn \<and> tsn < od_next_tsn od")
    case True
    then obtain i where i: "GetItem tsn od = Value i" "i < length (od_outstanding_data od)"
      "tsn = od_last_cumulative_tsn_ack od + 1 + int i"
      using GetItem_in_range by blast
    obtain ai1 od1 where a: "AckChunk tsn i (ai, od) = (ai1, od1)" by fastforce
    have od1: "od_ok od1" using AckChunk_ok(1) [OF Cons.prems(1) i(2,3) _ a] Cons.prems(2) by simp
    have q: "same_queue od od1" by (rule AckChunk_same_queue [OF a])
    have "tsn \<le> highest_outstanding_tsn od" using i(2,3) by (simp add: highest_outstanding_tsn_def AddTo_def)
    then have "acks_to (ai, od) (ai1, od1)"
      using od1 q AckChunk_highest [OF a] by (auto simp: acks_to_def)
    moreover have fast: "od_to_be_fast_retransmitted od1 = {}"
      using Cons.prems(2) q by (simp add: same_queue_def)
    then obtain r where "ack_tsns tsns (ai1, od1) = Value r" "acks_to (ai1, od1) r"
      using Cons.IH [OF od1] by blast
    moreover from this(1) have "ack_tsns (tsn # tsns) (ai, od) = Value r" using True i(1) a by simp
    ultimately show ?thesis using acks_to_trans by blast
  next
    case False
    then have "ack_tsns (tsn # tsns) (ai, od) = ack_tsns tsns (ai, od)"
      by (simp only: ack_tsns.simps snd_conv if_False)
    with Cons.IH [OF Cons.prems] show ?thesis by simp
  qed
qed

lemma AckGapBlocks_ok:
  assumes "od_ok od" and "od_to_be_fast_retransmitted od = {}"
  shows "\<exists>r. AckGapBlocks ack blocks (ai, od) = Value r \<and> acks_to (ai, od) r"
  using assms
proof (induction blocks arbitrary: ai od)
  case Nil
  then show ?case by (simp add: acks_to_refl)
next
  case (Cons b blocks)
  obtain ai1 od1 where r: "ack_tsns [AddTo ack (uint (gab_start b))..AddTo ack (uint (gab_end b))] (ai, od) =
      Value (ai1, od1)" "acks_to (ai, od) (ai1, od1)"
    using ack_tsns_ok [OF Cons.prems] by (metis prod.collapse)
  from r(2) Cons.prems(2) have "od_ok od1" "od_to_be_fast_retransmitted od1 = {}"
    by (simp_all add: acks_to_def same_queue_def)
  then obtain r' where r': "AckGapBlocks ack blocks (ai1, od1) = Value r'" "acks_to (ai1, od1) r'"
    using Cons.IH by blast
  with r(1) have "AckGapBlocks ack (b # blocks) (ai, od) = Value r'" by (simp add: Let_def)
  with acks_to_trans [OF r(2) r'(2)] show ?case by blast
qed

section \<open>Abandoning and nacking\<close>

lemma Item_Abandon_simps [simp]:
  "it_data (Item_Abandon item) = it_data item" "is_outstanding (Item_Abandon item) = is_outstanding item"
  "is_nacked (Item_Abandon item) = is_nacked item" "is_abandoned (Item_Abandon item)"
  "\<not> should_be_retransmitted (Item_Abandon item)"
  by (simp_all add: Item_Abandon_def is_outstanding_def is_nacked_def is_abandoned_def
      should_be_retransmitted_def)

text \<open>
  The loop of \<open>AbandonAllFor\<close> keeps what is counted, and takes the TSNs it abandons out of the sets.
\<close>

lemma AbandonAllFor_loop_ok:
  assumes "AbandonAllFor_loop sid mid c items (fast, retx) = (items', fast', retx')"
  shows "length items' = length items \<and> (\<forall>f. weight (f \<circ> it_data) items' = weight (f \<circ> it_data) items) \<and>
    (\<forall>item\<in>set items'. should_be_retransmitted item \<longrightarrow> item \<in> set items) \<and>
    (\<exists>R. R \<subseteq> {c<..} \<and> fast' = fast - R \<and> retx' = retx - R \<and>
         retransmitted_tsns c items' = retransmitted_tsns c items - R)"
  using assms
proof (induction items arbitrary: c fast retx items' fast' retx')
  case Nil
  then show ?case by auto
next
  case (Cons x xs)
  define match where "match \<longleftrightarrow> \<not> is_abandoned x \<and> data_stream_id (it_data x) = sid \<and> it_message_id x = mid"
  define gone where "gone = (if match \<and> should_be_retransmitted x then {c + 1} else {})"
  obtain ys f r where rec: "AbandonAllFor_loop sid mid (c + 1) xs (fast - gone, retx - gone) = (ys, f, r)"
    by (metis prod.collapse)
  note IH = Cons.IH [OF rec]
  then obtain R where R: "R \<subseteq> {c + 1<..}" "f = fast - gone - R" "r = retx - gone - R"
    "retransmitted_tsns (c + 1) ys = retransmitted_tsns (c + 1) xs - R" by blast
  have result: "items' = (if match then Item_Abandon x else x) # ys" "fast' = f" "retx' = r"
    using Cons.prems rec by (auto simp: match_def gone_def Let_def next_value_def split: if_splits)
  have "c + 1 \<notin> R" using R(1) by auto
  moreover have "gone \<inter> retransmitted_tsns (c + 1) xs = {}"
    using retransmitted_tsns_bounds [of "c + 1" "c + 1" xs] by (auto simp: gone_def)
  ultimately have "retransmitted_tsns c items' = retransmitted_tsns c (x # xs) - (gone \<union> R)"
    by (auto simp: result gone_def Let_def next_value_def R(4))
  moreover have "gone \<union> R \<subseteq> {c<..}" using R(1) by (auto simp: gone_def)
  moreover have "fast' = fast - (gone \<union> R)" "retx' = retx - (gone \<union> R)" using R by (auto simp: result)
  ultimately have "\<exists>R. R \<subseteq> {c<..} \<and> fast' = fast - R \<and> retx' = retx - R \<and>
      retransmitted_tsns c items' = retransmitted_tsns c (x # xs) - R" by blast
  moreover have "length items' = length (x # xs)" using IH by (simp add: result)
  moreover have "\<forall>f. weight (f \<circ> it_data) items' = weight (f \<circ> it_data) (x # xs)"
  proof
    fix f
    have "weight (f \<circ> it_data) ys = weight (f \<circ> it_data) xs" using IH by blast
    then show "weight (f \<circ> it_data) items' = weight (f \<circ> it_data) (x # xs)" by (simp add: result)
  qed
  moreover have "\<forall>item\<in>set items'. should_be_retransmitted item \<longrightarrow> item \<in> set (x # xs)"
    using IH by (simp add: result)
  ultimately show ?case by blast
qed

text \<open>Operations that may abandon keep the queue's start and only add to its end.\<close>

definition extends :: "OutstandingData \<Rightarrow> OutstandingData \<Rightarrow> bool" where
  "extends od od' \<longleftrightarrow>
     od_data_chunk_header_size od' = od_data_chunk_header_size od \<and>
     od_last_cumulative_tsn_ack od' = od_last_cumulative_tsn_ack od \<and>
     length (od_outstanding_data od) \<le> length (od_outstanding_data od')"

lemma extends_refl [simp]: "extends od od"
  by (simp add: extends_def)

lemma extends_trans [trans]: "extends a b \<Longrightarrow> extends b c \<Longrightarrow> extends a c"
  by (simp add: extends_def)

lemma extends_next_tsn: "extends od od' \<Longrightarrow> od_next_tsn od \<le> od_next_tsn od'"
  by (simp add: extends_def od_next_tsn_def highest_outstanding_tsn_def next_value_def AddTo_def)

lemma end_placeholder_simps [simp]:
  "\<not> is_outstanding (end_placeholder item)" "\<not> should_be_retransmitted (end_placeholder item)"
  by (simp_all add: end_placeholder_def Let_def)

lemma AbandonAllFor_ok:
  assumes "od_ok od" and "AbandonAllFor discard item (od, s) = (od', s')"
  shows "od_ok od'" and "extends od od'"
    and "od_to_be_fast_retransmitted od' \<subseteq> od_to_be_fast_retransmitted od"
proof -
  obtain b s1 where d: "discard (data_stream_id (it_data item)) (it_message_id item) s = (b, s1)" by fastforce
  let ?items = "od_outstanding_data od @ (if b then [end_placeholder item] else [])"
  obtain items fast retx where loop: "AbandonAllFor_loop (data_stream_id (it_data item)) (it_message_id item)
      (od_last_cumulative_tsn_ack od) ?items (od_to_be_fast_retransmitted od, od_to_be_retransmitted od) =
      (items, fast, retx)"
    by (metis prod.collapse)
  have od': "od' = od\<lparr>od_outstanding_data := items, od_to_be_fast_retransmitted := fast,
      od_to_be_retransmitted := retx\<rparr>"
    using assms(2) loop by (cases b) (auto simp: AbandonAllFor_def d)
  note l = AbandonAllFor_loop_ok [OF loop]
  then obtain R where R: "fast = od_to_be_fast_retransmitted od - R" "retx = od_to_be_retransmitted od - R"
    "retransmitted_tsns (od_last_cumulative_tsn_ack od) items =
       retransmitted_tsns (od_last_cumulative_tsn_ack od) ?items - R" by blast
  have w: "weight (f \<circ> it_data) items = weight (f \<circ> it_data) (od_outstanding_data od)" for f
    using l by simp
  have "weight (\<lambda>_. 1) items = weight (\<lambda>_. 1) (od_outstanding_data od)"
    using w [of "\<lambda>_. 1"] by (simp add: comp_def)
  moreover have "retransmitted_tsns (od_last_cumulative_tsn_ack od) ?items =
      retransmitted_tsns (od_last_cumulative_tsn_ack od) (od_outstanding_data od)"
    by (simp add: retransmitted_tsns_append)
  moreover have "should_be_retransmitted x \<longrightarrow> x \<in> set (od_outstanding_data od)" if "x \<in> set items" for x
    using l that by (auto split: if_splits)
  moreover have "GetSerializedChunkSize od' = GetSerializedChunkSize od"
    by (rule GetSerializedChunkSize_cong) (simp add: od')
  ultimately show "od_ok od'"
    using assms(1) w R by (auto simp: od' od_ok_def IsConsistent_iff consistent_with_def nacked_ok_def)
  show "extends od od'" and "od_to_be_fast_retransmitted od' \<subseteq> od_to_be_fast_retransmitted od"
    using l R by (auto simp: od' extends_def)
qed

lemma Item_Nack_facts:
  assumes "Item_Nack now item = (action, item')"
  shows "it_data item' = it_data item" and "is_nacked item'" and "\<not> is_outstanding item'"
    and "action = Nack_Nothing \<Longrightarrow> should_be_retransmitted item' = should_be_retransmitted item"
    and "action = Nack_Retransmit \<Longrightarrow> should_be_retransmitted item' \<and> \<not> should_be_retransmitted item"
    and "action = Nack_Abandon \<Longrightarrow> \<not> should_be_retransmitted item' \<and> \<not> should_be_retransmitted item"
  using assms
  by (auto simp: Item_Nack_def Item_Abandon_def Let_def should_be_retransmitted_def is_abandoned_def
      is_nacked_def is_outstanding_def split: if_splits)

text \<open>The item at a position is nacked; the sets are adjusted afterwards.\<close>

definition nack_at :: "nat \<Rightarrow> Item \<Rightarrow> OutstandingData \<Rightarrow> OutstandingData" where
  "nack_at i item od =
     (no_longer_outstanding (od_outstanding_data od ! i) od)
       \<lparr>od_outstanding_data := (od_outstanding_data od)[i := item]\<rparr>"

lemma nack_at_frame [simp]:
  "od_data_chunk_header_size (nack_at i item od) = od_data_chunk_header_size od"
  "od_last_cumulative_tsn_ack (nack_at i item od) = od_last_cumulative_tsn_ack od"
  "od_outstanding_data (nack_at i item od) = (od_outstanding_data od)[i := item]"
  "od_to_be_fast_retransmitted (nack_at i item od) = od_to_be_fast_retransmitted od"
  "od_to_be_retransmitted (nack_at i item od) = od_to_be_retransmitted od"
  by (simp_all add: nack_at_def)

lemma nack_at_consistent:
  assumes "od_ok od" and "i < length (od_outstanding_data od)"
    and "Item_Nack now (od_outstanding_data od ! i) = (action, item)"
  defines "S \<equiv> od_to_be_retransmitted od \<union> od_to_be_fast_retransmitted od"
    and "tsn \<equiv> od_last_cumulative_tsn_ack od + 1 + int i"
  shows "consistent_with (if action = Nack_Retransmit then insert tsn S else S) (nack_at i item od)"
    and "nacked_ok (nack_at i item od)" and "action = Nack_Retransmit \<Longrightarrow> tsn \<notin> S"
proof -
  note n = Item_Nack_facts [OF assms(3)]
  have c: "consistent_with S od" using assms(1) by (simp add: od_ok_def IsConsistent_iff S_def)
  have *: "consistent_with (if should_be_retransmitted item then insert tsn S else S - {tsn}) (nack_at i item od)"
    using n unfolding tsn_def
    by (intro consistent_out_of_flight [OF c assms(2)]) (simp_all add: nack_at_def)
  have **: "should_be_retransmitted (od_outstanding_data od ! i) \<longleftrightarrow> tsn \<in> S"
    unfolding tsn_def by (rule should_iff_in [OF c assms(2)])
  show "nacked_ok (nack_at i item od)"
    by (rule nacked_ok_update [of od item _ i]) (use assms(1) n(2) in \<open>simp_all add: od_ok_def\<close>)
  show "consistent_with (if action = Nack_Retransmit then insert tsn S else S) (nack_at i item od)"
  proof -
    have "(if should_be_retransmitted item then insert tsn S else S - {tsn}) =
        (if action = Nack_Retransmit then insert tsn S else S)"
      using ** n(4-6) by (cases action; cases "tsn \<in> S") (simp_all add: insert_absorb)
    with * show ?thesis by simp
  qed
  show "tsn \<notin> S" if "action = Nack_Retransmit" using ** n(5) that by simp
qed

lemma NackItem_ok:
  assumes "od_ok od" and "od_last_cumulative_tsn_ack od < tsn" and "tsn < od_next_tsn od"
  shows "\<exists>b od' s'. NackItem discard tsn now fast (od, s) = Value (b, od', s') \<and> od_ok od' \<and> extends od od' \<and>
    (\<not> fast \<longrightarrow> od_to_be_fast_retransmitted od' \<subseteq> od_to_be_fast_retransmitted od)"
proof -
  obtain i where i: "GetItem tsn od = Value i" "i < length (od_outstanding_data od)"
    "tsn = od_last_cumulative_tsn_ack od + 1 + int i"
    using GetItem_in_range [OF assms(2,3)] .
  obtain action item where n: "Item_Nack now (od_outstanding_data od ! i) = (action, item)" by fastforce
  note k = nack_at_consistent [OF assms(1) i(2) n, folded i(3)]
  have e: "extends od (nack_at i item od)" by (simp add: extends_def)
  have eq: "NackItem discard tsn now fast (od, s) =
    (case action of
       Nack_Nothing \<Rightarrow> Value (False, nack_at i item od, s)
     | Nack_Retransmit \<Rightarrow> Value (True,
         (if fast then (nack_at i item od)\<lparr>od_to_be_fast_retransmitted := insert tsn (od_to_be_fast_retransmitted od)\<rparr>
          else (nack_at i item od)\<lparr>od_to_be_retransmitted := insert tsn (od_to_be_retransmitted od)\<rparr>), s)
     | Nack_Abandon \<Rightarrow> Value (True, AbandonAllFor discard item (nack_at i item od, s)))"
    by (simp add: NackItem_def i(1) n nack_at_def Let_def split: NackAction.split)
  have disj: "od_to_be_retransmitted od \<inter> od_to_be_fast_retransmitted od = {}"
    using assms(1) by (simp add: od_ok_def)
  show ?thesis
  proof (cases action)
    case Nack_Nothing
    then have "od_ok (nack_at i item od)"
      using k disj by (simp add: od_ok_def IsConsistent_iff)
    with Nack_Nothing eq e show ?thesis by auto
  next
    case Nack_Retransmit
    let ?od = "if fast then (nack_at i item od)\<lparr>od_to_be_fast_retransmitted := insert tsn (od_to_be_fast_retransmitted od)\<rparr>
          else (nack_at i item od)\<lparr>od_to_be_retransmitted := insert tsn (od_to_be_retransmitted od)\<rparr>"
    have "od_ok ?od"
      using k disj Nack_Retransmit
      by (auto simp: od_ok_def IsConsistent_iff consistent_with_def nacked_ok_def GetSerializedChunkSize_def [abs_def])
    moreover have "extends od ?od" by (simp add: extends_def)
    ultimately show ?thesis using Nack_Retransmit eq by auto
  next
    case Nack_Abandon
    then have ok: "od_ok (nack_at i item od)"
      using k disj by (simp add: od_ok_def IsConsistent_iff)
    obtain od' s' where a: "AbandonAllFor discard item (nack_at i item od, s) = (od', s')" by fastforce
    have "NackItem discard tsn now fast (od, s) = Value (True, od', s')"
      using Nack_Abandon eq a by simp
    moreover have "extends od od'" using extends_trans [OF e AbandonAllFor_ok(2) [OF ok a]] .
    ultimately show ?thesis using AbandonAllFor_ok(1,3) [OF ok a] by auto
  qed
qed

lemma nack_tsns_ok:
  assumes "od_ok od" and "\<forall>tsn\<in>set tsns. od_last_cumulative_tsn_ack od < tsn \<and> tsn < od_next_tsn od"
  shows "\<exists>b od' s'. nack_tsns discard now fast tsns (l, od, s) = Value (b, od', s') \<and> od_ok od' \<and>
    extends od od' \<and> (\<not> fast \<longrightarrow> od_to_be_fast_retransmitted od' \<subseteq> od_to_be_fast_retransmitted od)"
  using assms
proof (induction tsns arbitrary: l od s)
  case Nil
  then show ?case by simp
next
  case (Cons tsn tsns)
  obtain b od1 s1 where 1: "NackItem discard tsn now fast (od, s) = Value (b, od1, s1)" "od_ok od1"
    "extends od od1" "\<not> fast \<longrightarrow> od_to_be_fast_retransmitted od1 \<subseteq> od_to_be_fast_retransmitted od"
    using NackItem_ok [OF Cons.prems(1)] Cons.prems(2) by (metis list.set_intros(1))
  have "\<forall>t\<in>set tsns. od_last_cumulative_tsn_ack od1 < t \<and> t < od_next_tsn od1"
    using Cons.prems(2) extends_next_tsn [OF 1(3)] 1(3) by (auto simp: extends_def)
  then obtain b' od' s' where 2: "nack_tsns discard now fast tsns (l \<or> b, od1, s1) = Value (b', od', s')"
    "od_ok od'" "extends od1 od'" "\<not> fast \<longrightarrow> od_to_be_fast_retransmitted od' \<subseteq> od_to_be_fast_retransmitted od1"
    using Cons.IH [OF 1(2)] by metis
  have "nack_tsns discard now fast (tsn # tsns) (l, od, s) = Value (b', od', s')"
    by (simp add: 1(1) 2(1))
  with 1 2 extends_trans show ?case by blast
qed

lemma nack_blocks_ok:
  assumes "od_ok od" and "od_last_cumulative_tsn_ack od = ack" and "ack \<le> prev" and "max_tsn < od_next_tsn od"
  shows "\<exists>b od' s'. nack_blocks discard rec ack max_tsn prev blocks (l, od, s) = Value (b, od', s') \<and>
    od_ok od' \<and> extends od od'"
  using assms
proof (induction blocks arbitrary: prev l od s)
  case Nil
  then show ?case by simp
next
  case (Cons b blocks)
  let ?tsns = "[next_value prev..min (AddTo ack (uint (gab_start b)) - 1) max_tsn]"
  have "\<forall>tsn\<in>set ?tsns. od_last_cumulative_tsn_ack od < tsn \<and> tsn < od_next_tsn od"
    using Cons.prems by (auto simp: next_value_def)
  then obtain l1 od1 s1 where 1: "nack_tsns discard False (\<not> rec) ?tsns (l, od, s) = Value (l1, od1, s1)"
    "od_ok od1" "extends od od1"
    using nack_tsns_ok [OF Cons.prems(1)] by metis
  have "od_last_cumulative_tsn_ack od1 = ack" "max_tsn < od_next_tsn od1"
    using 1(3) Cons.prems(2,4) extends_next_tsn [OF 1(3)] by (simp_all add: extends_def)
  moreover have "ack \<le> AddTo ack (uint (gab_end b))" by (simp add: AddTo_def)
  ultimately obtain l2 od2 s2 where 2:
    "nack_blocks discard rec ack max_tsn (AddTo ack (uint (gab_end b))) blocks (l1, od1, s1) = Value (l2, od2, s2)"
    "od_ok od2" "extends od1 od2"
    using Cons.IH [OF 1(2)] by metis
  have "nack_blocks discard rec ack max_tsn prev (b # blocks) (l, od, s) = Value (l2, od2, s2)"
    by (simp add: Let_def 1(1) 2(1))
  with 1 2 extends_trans show ?case by blast
qed

text \<open>A SACK whose cumulative TSN lies within the queue.\<close>

definition sack_in_range :: "UnwrappedTSN \<Rightarrow> OutstandingData \<Rightarrow> bool" where
  "sack_in_range ack od \<longleftrightarrow> od_last_cumulative_tsn_ack od \<le> ack \<and> ack \<le> highest_outstanding_tsn od"

lemma acked_state:
  assumes "od_ok od" and "od_to_be_fast_retransmitted od = {}" and "sack_in_range ack od"
  obtains ai od1 where
    "AckGapBlocks ack blocks (RemoveAcked ack (AckInfo_new ack, od)) = Value (ai, od1)"
    and "od_ok od1" and "od_last_cumulative_tsn_ack od1 = ack"
    and "ai_highest_tsn_acked ai \<le> highest_outstanding_tsn od1"
    and "highest_outstanding_tsn od1 = highest_outstanding_tsn od"
    and "od_to_be_fast_retransmitted od1 = {}"
proof -
  obtain ai0 od0 where r: "RemoveAcked ack (AckInfo_new ack, od) = (ai0, od0)" by fastforce
  note R = RemoveAcked_ok [OF assms(1,2) _ _ r]
  have range: "od_last_cumulative_tsn_ack od \<le> ack" "ack \<le> highest_outstanding_tsn od"
    using assms(3) by (simp_all add: sack_in_range_def)
  obtain ai od1 where g: "AckGapBlocks ack blocks (ai0, od0) = Value (ai, od1)"
    "acks_to (ai0, od0) (ai, od1)"
    using AckGapBlocks_ok [OF R(1) R(3)] range by (metis prod.collapse)
  show thesis
  proof (rule that)
    show "AckGapBlocks ack blocks (RemoveAcked ack (AckInfo_new ack, od)) = Value (ai, od1)"
      by (simp add: r g)
    show "od_ok od1" "od_last_cumulative_tsn_ack od1 = ack" "od_to_be_fast_retransmitted od1 = {}"
      "highest_outstanding_tsn od1 = highest_outstanding_tsn od"
      using g(2) R range by (simp_all add: acks_to_def same_queue_def highest_outstanding_tsn_def)
    then show "ai_highest_tsn_acked ai \<le> highest_outstanding_tsn od1"
      using g(2) R(4,5) range by (simp add: acks_to_def)
  qed
qed

lemma HandleSack_ok:
  assumes "od_ok od" and "od_to_be_fast_retransmitted od = {}" and "sack_in_range ack od"
  shows "\<exists>ai od' s'. OutstandingData_HandleSack discard ack blocks rec (od, s) = Value (ai, od', s') \<and>
    od_ok od' \<and> od_last_cumulative_tsn_ack od' = ack \<and>
    highest_outstanding_tsn od \<le> highest_outstanding_tsn od'"
proof -
  obtain ai od1 where a: "AckGapBlocks ack blocks (RemoveAcked ack (AckInfo_new ack, od)) = Value (ai, od1)"
    "od_ok od1" "od_last_cumulative_tsn_ack od1 = ack" "ai_highest_tsn_acked ai \<le> highest_outstanding_tsn od1"
    "highest_outstanding_tsn od1 = highest_outstanding_tsn od"
    using acked_state [OF assms] by metis
  have "ai_highest_tsn_acked ai < od_next_tsn od1" using a(4) by (simp add: od_next_tsn_def next_value_def)
  then obtain l od' s' where n: "nack_blocks discard rec ack (ai_highest_tsn_acked ai) ack blocks
      (ai_has_packet_loss ai, od1, s) = Value (l, od', s')" "od_ok od'" "extends od1 od'"
    using nack_blocks_ok [OF a(2,3)] by (metis order_refl)
  have "OutstandingData_HandleSack discard ack blocks rec (od, s) =
      Value (ai\<lparr>ai_has_packet_loss := l\<rparr>, od', s')"
    by (simp add: OutstandingData_HandleSack_def a(1,3) NackBetweenAckBlocks_def n(1) Let_def)
  with n a show ?thesis by (auto simp: extends_def highest_outstanding_tsn_def AddTo_def)
qed

lemma unacked_tsns_range:
  "t \<in> set (unacked_tsns c items) \<Longrightarrow> c < t \<and> t \<le> c + int (length items)"
proof (induction items arbitrary: c)
  case (Cons x xs)
  then have "t = c + 1 \<or> t \<in> set (unacked_tsns (c + 1) xs)"
    by (auto simp: Let_def next_value_def split: if_splits)
  with Cons.IH [of "c + 1"] show ?case by auto
qed simp

lemma NackAll_ok:
  assumes "od_ok od"
  shows "\<exists>od' s'. NackAll discard (od, s) = Value (od', s') \<and> od_ok od' \<and> extends od od' \<and>
    od_to_be_fast_retransmitted od' \<subseteq> od_to_be_fast_retransmitted od"
proof -
  let ?tsns = "unacked_tsns (od_last_cumulative_tsn_ack od) (od_outstanding_data od)"
  have "\<forall>t\<in>set ?tsns. od_last_cumulative_tsn_ack od < t \<and> t < od_next_tsn od"
    using unacked_tsns_range by (fastforce simp: od_next_tsn_def highest_outstanding_tsn_def next_value_def AddTo_def)
  then obtain b od' s' where "nack_tsns discard True False ?tsns (False, od, s) = Value (b, od', s')"
    "od_ok od'" "extends od od'" "od_to_be_fast_retransmitted od' \<subseteq> od_to_be_fast_retransmitted od"
    using nack_tsns_ok [OF assms, of ?tsns discard True False False s] by auto
  then show ?thesis by (auto simp: NackAll_def)
qed

section \<open>Retransmitting, sending and expiring\<close>

lemma Item_MarkAsRetransmitted_simps [simp]:
  "it_data (Item_MarkAsRetransmitted item) = it_data item"
  "is_outstanding (Item_MarkAsRetransmitted item)"
  "\<not> should_be_retransmitted (Item_MarkAsRetransmitted item)"
  by (simp_all add: Item_MarkAsRetransmitted_def is_outstanding_def should_be_retransmitted_def)

text \<open>The item at a position is put back in flight.\<close>

definition resend_at :: "nat \<Rightarrow> OutstandingData \<Rightarrow> OutstandingData" where
  "resend_at i od =
     (let item = od_outstanding_data od ! i in
      od\<lparr>od_outstanding_data := (od_outstanding_data od)[i := Item_MarkAsRetransmitted item],
         od_unacked_payload_bytes := od_unacked_payload_bytes od + Data_size (it_data item),
         od_unacked_packet_bytes := od_unacked_packet_bytes od + GetSerializedChunkSize od (it_data item),
         od_unacked_items := od_unacked_items od + 1\<rparr>)"

lemma resend_at_ok:
  assumes "consistent_with S od" and "nacked_ok od" and "i < length (od_outstanding_data od)"
    and "od_last_cumulative_tsn_ack od + 1 + int i \<in> S"
  shows "consistent_with (S - {od_last_cumulative_tsn_ack od + 1 + int i}) (resend_at i od)"
    and "nacked_ok (resend_at i od)"
proof -
  let ?item = "od_outstanding_data od ! i"
  have "should_be_retransmitted ?item" using should_iff_in [OF assms(1,3)] assms(4) by simp
  then have "\<not> is_outstanding ?item"
    using assms(2,3) by (auto simp: nacked_ok_def is_nacked_def is_outstanding_def)
  then show "consistent_with (S - {od_last_cumulative_tsn_ack od + 1 + int i}) (resend_at i od)"
    using consistent_update [OF assms(1,3), of "resend_at i od" "Item_MarkAsRetransmitted ?item"]
    by (simp add: resend_at_def Let_def)
  show "nacked_ok (resend_at i od)"
    by (rule nacked_ok_update [OF assms(2), of "Item_MarkAsRetransmitted ?item" _ i])
      (simp_all add: resend_at_def Let_def)
qed

lemma obind_Value_right: "obind m (\<lambda>(a, b, c). Value (a, b, c)) = m" "obind m' Value = m'"
  by (cases m; auto) (cases m'; auto)

lemma extract_loop_Cons:
  assumes "GetItem tsn od = Value i"
  defines "chunk_size \<equiv> GetSerializedChunkSize od (it_data (od_outstanding_data od ! i))"
  shows "extract_loop (tsn # tsns) max_size od =
    (if chunk_size \<le> max_size then
       if max_size - chunk_size \<le> od_data_chunk_header_size od
       then Value ({tsn}, [(Wrap tsn, it_data (od_outstanding_data od ! i))], resend_at i od)
       else obind (extract_loop tsns (max_size - chunk_size) (resend_at i od)) (\<lambda>(erased, chunks, od').
              Value (insert tsn erased, (Wrap tsn, it_data (od_outstanding_data od ! i)) # chunks, od'))
     else if max_size \<le> od_data_chunk_header_size od then Value ({}, [], od)
     else extract_loop tsns max_size od)"
proof (cases "chunk_size \<le> max_size")
  case True
  with assms(1) show ?thesis by (simp add: chunk_size_def resend_at_def Let_def)
next
  case False
  with assms(1) show ?thesis by (simp add: chunk_size_def Let_def obind_Value_right)
qed

lemma resend_at_frame [simp]:
  "od_data_chunk_header_size (resend_at i od) = od_data_chunk_header_size od"
  "od_last_cumulative_tsn_ack (resend_at i od) = od_last_cumulative_tsn_ack od"
  "length (od_outstanding_data (resend_at i od)) = length (od_outstanding_data od)"
  "od_to_be_fast_retransmitted (resend_at i od) = od_to_be_fast_retransmitted od"
  "od_to_be_retransmitted (resend_at i od) = od_to_be_retransmitted od"
  by (simp_all add: resend_at_def Let_def)

text \<open>What is taken out for retransmission fits, and is put back in flight.\<close>

definition extracts ::
  "UnwrappedTSN set \<Rightarrow> UnwrappedTSN list \<Rightarrow> nat \<Rightarrow> OutstandingData \<Rightarrow>
   UnwrappedTSN set \<times> (u32 \<times> Data) list \<times> OutstandingData \<Rightarrow> bool" where
  "extracts S tsns max_size od = (\<lambda>(erased, chunks, od').
     consistent_with (S - erased) od' \<and> nacked_ok od' \<and> same_queue od od' \<and>
     od_to_be_retransmitted od' = od_to_be_retransmitted od \<and> erased \<subseteq> set tsns \<and>
     card erased = length chunks \<and>
     sum_list (map (GetSerializedChunkSize od \<circ> snd) chunks) \<le> max_size)"

lemma extract_loop_ok:
  assumes "consistent_with S od" and "nacked_ok od" and "set tsns \<subseteq> S" and "distinct tsns"
  shows "\<exists>r. extract_loop tsns max_size od = Value r \<and> extracts S tsns max_size od r"
  using assms
proof (induction tsns arbitrary: S max_size od)
  case Nil
  then show ?case by (simp add: extracts_def)
next
  case (Cons tsn tsns)
  have "tsn \<in> S" using Cons.prems(3) by simp
  then have "od_last_cumulative_tsn_ack od < tsn" and "tsn < od_next_tsn od"
    using Cons.prems(1) retransmitted_tsns_bounds [of tsn]
    by (auto simp: consistent_with_def od_next_tsn_def highest_outstanding_tsn_def next_value_def AddTo_def)
  then obtain i where i: "GetItem tsn od = Value i" "i < length (od_outstanding_data od)"
    "tsn = od_last_cumulative_tsn_ack od + 1 + int i"
    by (rule GetItem_in_range)
  let ?data = "it_data (od_outstanding_data od ! i)" and ?od = "resend_at i od"
  let ?size = "GetSerializedChunkSize od ?data"
  have re: "consistent_with (S - {tsn}) ?od" "nacked_ok ?od"
    using resend_at_ok [OF Cons.prems(1,2) i(2)] \<open>tsn \<in> S\<close> by (simp_all add: i(3))
  have sz: "GetSerializedChunkSize ?od = GetSerializedChunkSize od"
    by (rule GetSerializedChunkSize_cong) simp
  consider (full) "?size \<le> max_size" "max_size - ?size \<le> od_data_chunk_header_size od"
    | (more) "?size \<le> max_size" "\<not> max_size - ?size \<le> od_data_chunk_header_size od"
    | (stop) "\<not> ?size \<le> max_size" "max_size \<le> od_data_chunk_header_size od"
    | (skip) "\<not> ?size \<le> max_size" "\<not> max_size \<le> od_data_chunk_header_size od"
    by blast
  then show ?case
  proof cases
    case full
    then have "extract_loop (tsn # tsns) max_size od = Value ({tsn}, [(Wrap tsn, ?data)], ?od)"
      by (simp only: extract_loop_Cons [OF i(1)] if_True)
    with full re show ?thesis by (simp add: extracts_def same_queue_def)
  next
    case more
    have "set tsns \<subseteq> S - {tsn}" "distinct tsns" using Cons.prems(3,4) by auto
    then obtain E cs od' where r: "extract_loop tsns (max_size - ?size) ?od = Value (E, cs, od')"
      "extracts (S - {tsn}) tsns (max_size - ?size) ?od (E, cs, od')"
      using Cons.IH [OF re] by (metis prod.collapse)
    have "extract_loop (tsn # tsns) max_size od = Value (insert tsn E, (Wrap tsn, ?data) # cs, od')"
      using more by (simp only: extract_loop_Cons [OF i(1)] if_True if_False r(1)) simp
    moreover have "card (insert tsn E) = Suc (card E)"
      using r(2) Cons.prems(4) finite_subset [of E "set tsns"]
      by (intro card_insert_disjoint) (auto simp: extracts_def)
    moreover have "S - {tsn} - E = S - insert tsn E" by auto
    ultimately show ?thesis
      using r(2) more(1) by (auto simp: extracts_def sz same_queue_def)
  next
    case stop
    then have "extract_loop (tsn # tsns) max_size od = Value ({}, [], od)"
      by (simp only: extract_loop_Cons [OF i(1)] if_True if_False)
    with Cons.prems show ?thesis by (simp add: extracts_def)
  next
    case skip
    then have "extract_loop (tsn # tsns) max_size od = extract_loop tsns max_size od"
      by (simp only: extract_loop_Cons [OF i(1)] if_True if_False)
    moreover have "set tsns \<subseteq> S" "distinct tsns" using Cons.prems(3,4) by auto
    ultimately obtain r where "extract_loop (tsn # tsns) max_size od = Value r" "extracts S tsns max_size od r"
      using Cons.IH [OF Cons.prems(1,2)] by metis
    moreover from this(2) have "extracts S (tsn # tsns) max_size od r"
      by (auto simp: extracts_def split: prod.splits)
    ultimately show ?thesis by blast
  qed
qed

lemma finite_retransmitted: "finite (retransmitted_tsns c items)"
  by (induction items arbitrary: c) (simp_all add: Let_def)

lemma od_ok_finite:
  assumes "od_ok od"
  shows "finite (od_to_be_retransmitted od)" and "finite (od_to_be_fast_retransmitted od)"
proof -
  have "finite (od_to_be_retransmitted od \<union> od_to_be_fast_retransmitted od)"
    using assms finite_retransmitted unfolding od_ok_def IsConsistent_iff consistent_with_def by metis
  then show "finite (od_to_be_retransmitted od)" and "finite (od_to_be_fast_retransmitted od)" by simp_all
qed

lemma consistent_with_sets:
  "consistent_with S (od\<lparr>od_to_be_fast_retransmitted := A\<rparr>) = consistent_with S od"
  "consistent_with S (od\<lparr>od_to_be_retransmitted := A\<rparr>) = consistent_with S od"
  "consistent_with S (od\<lparr>od_stream_reset_breakpoint_tsns := A\<rparr>) = consistent_with S od"
  "nacked_ok (od\<lparr>od_to_be_fast_retransmitted := A\<rparr>) = nacked_ok od"
  "nacked_ok (od\<lparr>od_to_be_retransmitted := A\<rparr>) = nacked_ok od"
  "nacked_ok (od\<lparr>od_stream_reset_breakpoint_tsns := A\<rparr>) = nacked_ok od"
  by (simp_all add: consistent_with_def nacked_ok_def GetSerializedChunkSize_def [abs_def])

lemma extract_from_set:
  assumes "od_ok od" and "A \<subseteq> od_to_be_retransmitted od \<union> od_to_be_fast_retransmitted od"
  obtains E cs od' where "extract_loop (sorted_list_of_set A) max_size od = Value (E, cs, od')"
    and "consistent_with (od_to_be_retransmitted od \<union> od_to_be_fast_retransmitted od - E) od'"
    and "nacked_ok od'" and "same_queue od od'" and "od_to_be_retransmitted od' = od_to_be_retransmitted od"
    and "E \<subseteq> A" and "card E = length cs"
    and "sum_list (map (GetSerializedChunkSize od \<circ> snd) cs) \<le> max_size"
proof -
  let ?S = "od_to_be_retransmitted od \<union> od_to_be_fast_retransmitted od"
  have "finite A" using assms(2) od_ok_finite [OF assms(1)] finite_subset by auto
  then have "set (sorted_list_of_set A) = A" by simp
  moreover have "consistent_with ?S od" and "nacked_ok od"
    using assms(1) by (simp_all add: od_ok_def IsConsistent_iff)
  ultimately obtain r where "extract_loop (sorted_list_of_set A) max_size od = Value r"
    "extracts ?S (sorted_list_of_set A) max_size od r"
    using extract_loop_ok [of ?S od "sorted_list_of_set A" max_size] assms(2) by auto
  with \<open>set _ = A\<close> show thesis by (cases r) (auto simp: extracts_def intro: that)
qed

lemma GetChunksToBeFastRetransmitted_ok:
  assumes "od_ok od"
  shows "\<exists>cs od'. GetChunksToBeFastRetransmitted max_size od = Value (cs, od') \<and> od_ok od' \<and>
    od_to_be_fast_retransmitted od' = {} \<and> same_queue (od\<lparr>od_to_be_fast_retransmitted := {}\<rparr>) od' \<and>
    sum_list (map (GetSerializedChunkSize od \<circ> snd) cs) \<le> max_size"
proof -
  let ?F = "od_to_be_fast_retransmitted od" and ?R = "od_to_be_retransmitted od"
  obtain E cs od1 where e: "extract_loop (sorted_list_of_set ?F) max_size od = Value (E, cs, od1)"
    "consistent_with (?R \<union> ?F - E) od1" "nacked_ok od1" "same_queue od od1" "od_to_be_retransmitted od1 = ?R"
    "E \<subseteq> ?F" "card E = length cs" "sum_list (map (GetSerializedChunkSize od \<circ> snd) cs) \<le> max_size"
    by (rule extract_from_set [OF assms, of ?F max_size]) auto
  let ?od = "od1\<lparr>od_to_be_fast_retransmitted := {}, od_to_be_retransmitted := ?R \<union> (?F - E)\<rparr>"
  have "?R \<inter> E = {}" using assms e(6) by (auto simp: od_ok_def)
  then have "?R \<union> ?F - E = ?R \<union> (?F - E)" by auto
  then have "od_ok ?od"
    using e(2,3) by (simp add: od_ok_def IsConsistent_iff consistent_with_sets)
  moreover have "GetChunksToBeFastRetransmitted max_size od = Value (cs, ?od)"
  proof -
    have F: "od_to_be_fast_retransmitted od1 = ?F" using e(4) by (simp add: same_queue_def)
    have "od1\<lparr>od_to_be_fast_retransmitted := ?F - E\<rparr> = ?od" if "?F - E = {}"
      using that e(5) by (intro OutstandingData.equality) auto
    then show ?thesis
      by (auto simp: GetChunksToBeFastRetransmitted_def e(1,5) Let_def F)
  qed
  moreover have "same_queue (od\<lparr>od_to_be_fast_retransmitted := {}\<rparr>) ?od"
    using e(4) by (simp add: same_queue_def)
  ultimately show ?thesis using e(8) by auto
qed

lemma GetChunksToBeRetransmitted_ok:
  assumes "od_ok od"
  shows "\<exists>cs od'. GetChunksToBeRetransmitted max_size od = Value (cs, od') \<and> od_ok od' \<and>
    same_queue od od' \<and> sum_list (map (GetSerializedChunkSize od \<circ> snd) cs) \<le> max_size"
proof -
  let ?F = "od_to_be_fast_retransmitted od" and ?R = "od_to_be_retransmitted od"
  obtain E cs od1 where e: "extract_loop (sorted_list_of_set ?R) max_size od = Value (E, cs, od1)"
    "consistent_with (?R \<union> ?F - E) od1" "nacked_ok od1" "same_queue od od1" "od_to_be_retransmitted od1 = ?R"
    "E \<subseteq> ?R" "card E = length cs" "sum_list (map (GetSerializedChunkSize od \<circ> snd) cs) \<le> max_size"
    by (rule extract_from_set [OF assms, of ?R max_size]) auto
  let ?od = "od1\<lparr>od_to_be_retransmitted := ?R - E\<rparr>"
  have F: "od_to_be_fast_retransmitted od1 = ?F" using e(4) by (simp add: same_queue_def)
  have disj: "?R \<inter> ?F = {}" using assms by (simp add: od_ok_def)
  then have "?R \<union> ?F - E = (?R - E) \<union> ?F" using e(6) by auto
  then have "od_ok ?od"
    using e(2,3) F disj by (auto simp: od_ok_def IsConsistent_iff consistent_with_sets)
  moreover have "GetChunksToBeRetransmitted max_size od = Value (cs, ?od)"
    by (simp add: GetChunksToBeRetransmitted_def e(1,5))
  moreover have "same_queue od ?od" using e(4) by (simp add: same_queue_def)
  ultimately show ?thesis using e(8) by auto
qed

lemma Insert_ok:
  assumes "od_ok od" and "OutstandingData_Insert discard mid data now maxr expires lid (od, s) = (t, od', s')"
  shows "od_ok od'" and "extends od od'" and "od_to_be_fast_retransmitted od' \<subseteq> od_to_be_fast_retransmitted od"
    and "t = Some x \<Longrightarrow> x = od_next_tsn od"
proof -
  let ?item = "Item_new mid data now maxr expires lid"
  let ?od = "od\<lparr>od_unacked_payload_bytes := od_unacked_payload_bytes od + Data_size data,
    od_unacked_packet_bytes := od_unacked_packet_bytes od + GetSerializedChunkSize od data,
    od_unacked_items := od_unacked_items od + 1, od_outstanding_data := od_outstanding_data od @ [?item]\<rparr>"
  have item: "is_outstanding ?item" "\<not> should_be_retransmitted ?item" "it_data ?item = data"
    by (simp_all add: Item_new_def is_outstanding_def should_be_retransmitted_def)
  have ok: "od_ok ?od"
    using assms(1) item
    by (auto simp: od_ok_def IsConsistent_iff consistent_with_def nacked_ok_def retransmitted_tsns_append
        GetSerializedChunkSize_def [abs_def])
  have ext: "extends od ?od" by (simp add: extends_def)
  have next_same: "od_next_tsn (od\<lparr>od_unacked_payload_bytes := a, od_unacked_packet_bytes := b,
      od_unacked_items := c\<rparr>) = od_next_tsn od" for a b c
    by (simp add: od_next_tsn_def highest_outstanding_tsn_def)
  have "(t, od', s') = (if has_expired now ?item then (None, AbandonAllFor discard ?item (?od, s))
      else (Some (od_next_tsn od), ?od, s))"
    unfolding assms(2) [symmetric] by (simp add: OutstandingData_Insert_def Let_def next_same)
  then consider "AbandonAllFor discard ?item (?od, s) = (od', s')" "t = None"
    | "od' = ?od" "t = Some (od_next_tsn od)"
    by (simp split: if_splits)
  then have "od_ok od' \<and> extends od od' \<and> od_to_be_fast_retransmitted od' \<subseteq> od_to_be_fast_retransmitted od \<and>
      (t = Some x \<longrightarrow> x = od_next_tsn od)"
  proof cases
    case 1
    with AbandonAllFor_ok [OF ok 1(1)] extends_trans [OF ext] show ?thesis by simp
  next
    case 2
    with ok ext show ?thesis by simp
  qed
  then show "od_ok od'" and "extends od od'" and "od_to_be_fast_retransmitted od' \<subseteq> od_to_be_fast_retransmitted od"
    and "t = Some x \<Longrightarrow> x = od_next_tsn od" by simp_all
qed

lemma expire_loop_ok:
  assumes "od_ok od" and "expire_loop discard now i n (od, s) = (od', s')"
  shows "od_ok od' \<and> extends od od' \<and> od_to_be_fast_retransmitted od' \<subseteq> od_to_be_fast_retransmitted od"
  using assms
proof (induction n arbitrary: i od s)
  case (Suc n)
  let ?item = "od_outstanding_data od ! i"
  have step: "(od', s') = (if is_abandoned ?item then expire_loop discard now (i + 1) n (od, s)
      else if is_nacked ?item \<and> has_expired now ?item
      then expire_loop discard now (i + 1) n (AbandonAllFor discard ?item (od, s)) else (od, s))"
    unfolding Suc.prems(2) [symmetric] by (simp only: expire_loop.simps prod.case Let_def)
  consider "(od', s') = expire_loop discard now (i + 1) n (od, s)"
    | "(od', s') = expire_loop discard now (i + 1) n (AbandonAllFor discard ?item (od, s))"
    | "(od', s') = (od, s)"
    using step by (cases "is_abandoned ?item"; cases "is_nacked ?item \<and> has_expired now ?item")
      (simp_all only: if_True if_False simp_thms)
  then show ?case
  proof cases
    case 1
    show ?thesis by (rule Suc.IH [OF Suc.prems(1) 1 [symmetric]])
  next
    case 2
    obtain od1 s1 where a: "AbandonAllFor discard ?item (od, s) = (od1, s1)" by fastforce
    note A = AbandonAllFor_ok [OF Suc.prems(1) a]
    from Suc.IH [OF A(1) 2 [unfolded a, symmetric]] A(2,3) extends_trans show ?thesis by blast
  next
    case 3
    with Suc.prems(1) show ?thesis by simp
  qed
qed simp

lemma MeasureRTT_returns: "\<exists>d. MeasureRTT now tsn od = Value d"
proof (cases "od_last_cumulative_tsn_ack od < tsn \<and> tsn < od_next_tsn od")
  case True
  then obtain i where "GetItem tsn od = Value i" using GetItem_in_range by blast
  with True show ?thesis by (simp add: MeasureRTT_def Let_def)
next
  case False
  then show ?thesis by (auto simp: MeasureRTT_def)
qed

section \<open>Reachable states\<close>

text \<open>
  Chunks that are eligible for fast retransmission are fetched before the next SACK is processed
  and before anything else is retransmitted.
\<close>

inductive od_reachable :: "'s discard_callback \<Rightarrow> OutstandingData \<times> 's \<Rightarrow> bool" for discard where
  new: "od_reachable discard (OutstandingData_new header_size tsn, s)"
| insert: "od_reachable discard q \<Longrightarrow>
    od_reachable discard (snd (OutstandingData_Insert discard mid data now maxr expires lid q))"
| sack: "od_reachable discard q \<Longrightarrow> od_to_be_fast_retransmitted (fst q) = {} \<Longrightarrow>
    sack_in_range ack (fst q) \<Longrightarrow>
    OutstandingData_HandleSack discard ack blocks recovering q = Value (ai, q') \<Longrightarrow> od_reachable discard q'"
| nack_all: "od_reachable discard q \<Longrightarrow> NackAll discard q = Value q' \<Longrightarrow> od_reachable discard q'"
| fast: "od_reachable discard (od, s) \<Longrightarrow>
    GetChunksToBeFastRetransmitted max_size od = Value (chunks, od') \<Longrightarrow> od_reachable discard (od', s)"
| retransmit: "od_reachable discard (od, s) \<Longrightarrow> od_to_be_fast_retransmitted od = {} \<Longrightarrow>
    GetChunksToBeRetransmitted max_size od = Value (chunks, od') \<Longrightarrow> od_reachable discard (od', s)"
| expire: "od_reachable discard q \<Longrightarrow> od_reachable discard (ExpireOutstandingChunks discard now q)"
| begin_reset: "od_reachable discard (od, s) \<Longrightarrow>
    od_reachable discard (OutstandingData_BeginResetStreams od, s)"
| reset_sequence_numbers: "od_reachable discard (od, s) \<Longrightarrow> od_outstanding_data od = [] \<Longrightarrow>
    od_reachable discard (OutstandingData_ResetSequenceNumbers tsn od, s)"

lemma od_ok_new: "od_ok (OutstandingData_new header_size tsn)"
  by (simp add: OutstandingData_new_def od_ok_def IsConsistent_iff consistent_with_def nacked_ok_def)

lemma od_ok_BeginResetStreams: "od_ok od \<Longrightarrow> od_ok (OutstandingData_BeginResetStreams od)"
  by (simp add: OutstandingData_BeginResetStreams_def od_ok_def IsConsistent_iff consistent_with_sets)

lemma od_ok_ResetSequenceNumbers:
  "od_ok od \<Longrightarrow> od_outstanding_data od = [] \<Longrightarrow> od_ok (OutstandingData_ResetSequenceNumbers tsn od)"
  by (simp add: OutstandingData_ResetSequenceNumbers_def od_ok_def IsConsistent_iff consistent_with_def nacked_ok_def)

lemma od_reachable_ok: "od_reachable discard q \<Longrightarrow> od_ok (fst q)"
proof (induction rule: od_reachable.induct)
  case (insert q mid data now maxr expires lid)
  obtain od s where q: "q = (od, s)" by fastforce
  obtain t od' s' where i: "OutstandingData_Insert discard mid data now maxr expires lid (od, s) = (t, od', s')"
    by (metis prod.collapse)
  from insert.IH Insert_ok(1) [OF _ i] show ?case by (simp add: q i)
next
  case (sack q ack blocks recovering ai q')
  obtain od s where q: "q = (od, s)" by fastforce
  from sack HandleSack_ok [of od ack discard blocks recovering s] show ?case by (auto simp: q)
next
  case (nack_all q q')
  obtain od s where q: "q = (od, s)" by fastforce
  from nack_all NackAll_ok [of od discard s] show ?case by (auto simp: q)
next
  case (fast od s max_size chunks od')
  from fast GetChunksToBeFastRetransmitted_ok [of od max_size] show ?case by auto
next
  case (retransmit od s max_size chunks od')
  from retransmit GetChunksToBeRetransmitted_ok [of od max_size] show ?case by auto
next
  case (expire q now)
  obtain od s where q: "q = (od, s)" by fastforce
  obtain od' s' where e: "ExpireOutstandingChunks discard now q = (od', s')" by fastforce
  from expire.IH expire_loop_ok [of od discard now 0 _ s od' s'] e show ?case
    by (simp add: q ExpireOutstandingChunks_def)
qed (simp_all add: od_ok_new od_ok_BeginResetStreams od_ok_ResetSequenceNumbers)

section \<open>Properties\<close>


definition sample_data :: "u16 \<Rightarrow> Data" where
  "sample_data ssn = \<lparr>data_stream_id = 1, data_ssn = ssn, data_mid = 0, data_fsn = 0, data_ppid = 53,
     data_payload = [1, 2, 3], data_is_beginning = True, data_is_end = True, data_is_unordered = False\<rparr>"

definition never_discard :: "unit discard_callback" where
  "never_discard stream_id message_id s = (False, s)"

definition sample_outstanding :: "OutstandingData \<times> unit" where
  "sample_outstanding =
     snd (OutstandingData_Insert never_discard 2 (sample_data 0) 10 MaxRetransmits_NoLimit PlusInfinity 0
       (snd (OutstandingData_Insert never_discard 1 (sample_data 65535) 10 MaxRetransmits_NoLimit PlusInfinity 0
         (OutstandingData_new 16 0, ()))))"

lemma sample_outstanding_reachable: "od_reachable never_discard (fst sample_outstanding, ())"
proof -
  have "od_reachable never_discard sample_outstanding"
    unfolding sample_outstanding_def by (intro od_reachable.intros)
  moreover have "sample_outstanding = (fst sample_outstanding, ())" by (simp add: prod_eq_iff)
  ultimately show ?thesis by simp
qed


text \<open>
  Retransmission respects the space in the packet: what is taken out, for fast retransmission
  or otherwise, fits into the given size when serialized, and fast retransmission leaves nothing
  eligible for another one.
\<close>

lemma retransmission_fits:
  assumes "od_reachable discard (od, s)"
  shows "(\<forall>chunks od'. GetChunksToBeFastRetransmitted max_size od = Value (chunks, od') \<longrightarrow>
            sum_list (map (GetSerializedChunkSize od \<circ> snd) chunks) \<le> max_size \<and>
            \<not> has_data_to_be_fast_retransmitted od') \<and>
         (\<forall>chunks od'. GetChunksToBeRetransmitted max_size od = Value (chunks, od') \<longrightarrow>
            sum_list (map (GetSerializedChunkSize od \<circ> snd) chunks) \<le> max_size)"
proof -
  have ok: "od_ok od" using od_reachable_ok [OF assms] by simp
  from GetChunksToBeFastRetransmitted_ok [OF ok, of max_size] GetChunksToBeRetransmitted_ok [OF ok, of max_size]
  show ?thesis by (auto simp: has_data_to_be_fast_retransmitted_def)
qed

text \<open>
  C32. The rule for fast recovery is never applied: when the gap ack blocks are about to be nacked,
  the cumulative TSN of the SACK is already the last acknowledged one, so that the test whether the
  SACK advances it fails for every SACK within range.
\<close>

theorem fast_recovery_rule_never_applies:
  assumes "od_reachable discard (od, s)" and "od_to_be_fast_retransmitted od = {}"
    and "sack_in_range ack od"
    and "AckGapBlocks ack blocks (RemoveAcked ack (AckInfo_new ack, od)) = Value (ack_info, od')"
  shows "\<not> ack > od_last_cumulative_tsn_ack od'"
proof -
  have "od_ok od" using od_reachable_ok [OF assms(1)] by simp
  from acked_state [OF this assms(2,3), of blocks] assms(4) show ?thesis by auto
qed

theorem fast_recovery_rule_never_applies_witness:
  "\<exists>ack_info od'. AckGapBlocks 1 [] (RemoveAcked 1 (AckInfo_new 1, fst sample_outstanding)) = Value (ack_info, od') \<and>
     od_last_cumulative_tsn_ack (fst sample_outstanding) < 1 \<and> \<not> 1 > od_last_cumulative_tsn_ack od'"
proof -
  have fields: "od_last_cumulative_tsn_ack (fst sample_outstanding) = 0"
    "length (od_outstanding_data (fst sample_outstanding)) = 2"
    "od_to_be_fast_retransmitted (fst sample_outstanding) = {}"
    by (simp_all add: sample_outstanding_def OutstandingData_Insert_def OutstandingData_new_def
        has_expired_def Item_new_def PlusInfinity_def Let_def)
  have range: "sack_in_range 1 (fst sample_outstanding)"
    by (simp add: sack_in_range_def fields highest_outstanding_tsn_def AddTo_def)
  obtain ai od' where r: "AckGapBlocks 1 [] (RemoveAcked 1 (AckInfo_new 1, fst sample_outstanding)) = Value (ai, od')"
    by (metis AckGapBlocks.simps(1) prod.collapse)
  with fast_recovery_rule_never_applies [OF sample_outstanding_reachable fields(3) range r] fields show ?thesis by auto
qed



end
