(* ===== verification/Task_Queue_Timeout.thy ===== *)
theory Task_Queue_Timeout
  imports Timer
begin

text \<open>
  The \<open>Timeout\<close> interface and its implementation on a task queue,
  \<open>net/dcsctp/timer/task_queue_timeout.cc\<close>. A delayed task cannot be taken back from a task queue:
  a timeout keeps at most one live task, whose due time may lie before the timeout's, and disowns a
  task that is due too late by replacing its safety flag. The task queue itself is outside the
  sources; a task that has become due may run at any later time.
\<close>

section \<open>The implementation\<close>

text \<open>
  A safety flag is identified by a number; the flag in use is the only one that is alive. A posted
  task is the flag it holds and the time at which it is due.
\<close>

record TaskQueueTimeout =
  tq_time_ms :: int
  tq_pending_task_safety_flag :: nat
  tq_posted_task_expiration :: Timestamp
  tq_timeout_expiration :: Timestamp
  tq_timeout_id :: u64
  tq_tasks :: "(nat \<times> Timestamp) list"

definition TaskQueueTimeout_new :: "int \<Rightarrow> TaskQueueTimeout" where
  "TaskQueueTimeout_new now_ms =
     \<lparr>tq_time_ms = now_ms, tq_pending_task_safety_flag = 0,
      tq_posted_task_expiration = PlusInfinity, tq_timeout_expiration = PlusInfinity,
      tq_timeout_id = 0, tq_tasks = []\<rparr>"

definition tq_Now :: "TaskQueueTimeout \<Rightarrow> Timestamp" where
  "tq_Now q = Millis (tq_time_ms q)"

definition TaskQueueTimeout_Start :: "DurationMs \<Rightarrow> u64 \<Rightarrow> TaskQueueTimeout \<Rightarrow> TaskQueueTimeout" where
  "TaskQueueTimeout_Start duration_ms timeout_id q =
     (let q = q\<lparr>tq_timeout_expiration := unit_plus (tq_Now q) (ToTimeDelta duration_ms),
                tq_timeout_id := timeout_id\<rparr>
      in if tq_timeout_expiration q \<ge> tq_posted_task_expiration q then q
         else
           let q = (if tq_posted_task_expiration q \<noteq> PlusInfinity
                    then q\<lparr>tq_pending_task_safety_flag := tq_pending_task_safety_flag q + 1\<rparr> else q)
           in q\<lparr>tq_posted_task_expiration := tq_timeout_expiration q,
                tq_tasks := tq_tasks q @
                  [(tq_pending_task_safety_flag q, unit_plus (tq_Now q) (Millis duration_ms))]\<rparr>)"

definition TaskQueueTimeout_Stop :: "TaskQueueTimeout \<Rightarrow> TaskQueueTimeout" where
  "TaskQueueTimeout_Stop q = q\<lparr>tq_timeout_expiration := PlusInfinity\<rparr>"

text \<open>The closure that \<open>Start\<close> posts, with the identifier it reports to \<open>on_expired_\<close>.\<close>

definition TaskQueueTimeout_task ::
  "nat \<times> Timestamp \<Rightarrow> TaskQueueTimeout \<Rightarrow> u64 option \<times> TaskQueueTimeout" where
  "TaskQueueTimeout_task task q =
     (let q = q\<lparr>tq_tasks := remove1 task (tq_tasks q)\<rparr> in
      if fst task \<noteq> tq_pending_task_safety_flag q then (None, q)
      else
        let q = q\<lparr>tq_posted_task_expiration := PlusInfinity\<rparr> in
        if tq_timeout_expiration q = PlusInfinity then (None, q)
        else
          let remaining = unit_minus (tq_timeout_expiration q) (tq_Now q);
              q = q\<lparr>tq_timeout_expiration := PlusInfinity\<rparr>
          in if remaining > 0
             then (None, TaskQueueTimeout_Start (int32_cast (DivideRoundToNearest remaining 1000))
                           (tq_timeout_id q) q)
             else (Some (tq_timeout_id q), q))"

section \<open>The interface\<close>

text \<open>\<open>Timeout::Restart\<close> is not overridden: it stops and starts.\<close>

fun timeout_perform ::
  "(DurationMs \<Rightarrow> u64 \<Rightarrow> 's \<Rightarrow> 's) \<Rightarrow> ('s \<Rightarrow> 's) \<Rightarrow> TimeoutCall \<Rightarrow> 's \<Rightarrow> 's" where
  "timeout_perform start stop (Timeout_Start d i) s = start d i s"
| "timeout_perform start stop Timeout_Stop s = stop s"
| "timeout_perform start stop (Timeout_Restart d i) s = start d i (stop s)"

fun finite_call :: "TimeoutCall \<Rightarrow> bool" where
  "finite_call (Timeout_Start d i) \<longleftrightarrow> 0 \<le> d \<and> d < InfiniteDuration"
| "finite_call Timeout_Stop \<longleftrightarrow> True"
| "finite_call (Timeout_Restart d i) \<longleftrightarrow> 0 \<le> d \<and> d < InfiniteDuration"

definition pending_state :: "u64 option \<Rightarrow> timeout_state" where
  "pending_state p = (case p of None \<Rightarrow> Idle | Some i \<Rightarrow> Armed i)"

lemma timeout_step_Violated [simp]: "timeout_step c Violated = Violated"
  by (cases c) simp_all

lemma timeout_run_Violated [simp]: "timeout_run cs Violated = Violated"
  by (induction cs) simp_all

locale timeout_implementation =
  fixes start :: "DurationMs \<Rightarrow> u64 \<Rightarrow> 's \<Rightarrow> 's" and stop :: "'s \<Rightarrow> 's"
    and pending :: "'s \<Rightarrow> u64 option" and ok :: "'s \<Rightarrow> bool"
  assumes start_ok: "ok s \<Longrightarrow> 0 \<le> d \<Longrightarrow> d < InfiniteDuration \<Longrightarrow> ok (start d i s)"
    and start_pending: "ok s \<Longrightarrow> 0 \<le> d \<Longrightarrow> d < InfiniteDuration \<Longrightarrow> pending (start d i s) = Some i"
    and stop_ok: "ok s \<Longrightarrow> ok (stop s)"
    and stop_pending: "ok s \<Longrightarrow> pending (stop s) = None"
begin

lemma perform_step:
  assumes "ok s" and "finite_call c" and "timeout_step c (pending_state (pending s)) \<noteq> Violated"
  shows "ok (timeout_perform start stop c s) \<and>
         pending_state (pending (timeout_perform start stop c s)) =
           timeout_step c (pending_state (pending s))"
  using assms
  by (cases c; cases "pending s")
    (simp_all add: pending_state_def start_ok start_pending stop_ok stop_pending)

text \<open>Calls that keep to the protocol are carried out as the protocol says.\<close>

lemma perform_calls:
  assumes "ok s" and "list_all finite_call cs"
    and "timeout_run cs (pending_state (pending s)) \<noteq> Violated"
  shows "ok (fold (timeout_perform start stop) cs s) \<and>
         pending_state (pending (fold (timeout_perform start stop) cs s)) =
           timeout_run cs (pending_state (pending s))"
  using assms
proof (induction cs arbitrary: s)
  case (Cons c cs)
  then have "timeout_step c (pending_state (pending s)) \<noteq> Violated" by auto
  with Cons perform_step [of s c] show ?case by simp
qed simp

lemma drives:
  assumes "ok s" and "pending_state (pending s) = timer_timeout t" and "follows t t'"
    and "tm_timeout_calls t' = tm_timeout_calls t @ cs" and "list_all finite_call cs"
  shows "ok (fold (timeout_perform start stop) cs s) \<and>
         pending_state (pending (fold (timeout_perform start stop) cs s)) = timer_timeout t'"
proof -
  have "timeout_run cs (pending_state (pending s)) = timer_timeout t'"
    using follows_calls [OF assms(3,4)] assms(2) by simp
  moreover have "timer_timeout t' \<noteq> Violated" by (simp add: timer_timeout_def)
  ultimately show ?thesis using perform_calls [OF assms(1,5)] by simp
qed

end

section \<open>Correctness of the implementation\<close>

definition live_tasks :: "TaskQueueTimeout \<Rightarrow> (nat \<times> Timestamp) list" where
  "live_tasks q = filter (\<lambda>t. fst t = tq_pending_task_safety_flag q) (tq_tasks q)"

text \<open>
  The bound on the clock keeps finite times apart from infinity: \<open>2 ^ 52\<close> milliseconds are 140000
  years.
\<close>

definition tq_ok :: "TaskQueueTimeout \<Rightarrow> bool" where
  "tq_ok q \<longleftrightarrow>
     0 \<le> tq_time_ms q \<and> tq_time_ms q < 2 ^ 52 \<and>
     list_all (\<lambda>t. fst t \<le> tq_pending_task_safety_flag q) (tq_tasks q) \<and>
     live_tasks q = (if tq_posted_task_expiration q = PlusInfinity then []
                     else [(tq_pending_task_safety_flag q, tq_posted_task_expiration q)]) \<and>
     tq_posted_task_expiration q \<le> tq_timeout_expiration q \<and>
     (tq_timeout_expiration q \<noteq> PlusInfinity \<longrightarrow>
        (\<exists>d. tq_timeout_expiration q = Millis d \<and> d < tq_time_ms q + InfiniteDuration))"

definition tq_pending :: "TaskQueueTimeout \<Rightarrow> u64 option" where
  "tq_pending q = (if tq_timeout_expiration q = PlusInfinity then None else Some (tq_timeout_id q))"

lemma Millis_finite: "\<bar>x\<bar> < 2 ^ 53 \<Longrightarrow> Millis x \<noteq> PlusInfinity \<and> Millis x \<noteq> MinusInfinity \<and> Millis x < PlusInfinity"
  by (auto simp: Millis_def PlusInfinity_def MinusInfinity_def)

lemma unit_plus_Millis:
  "\<bar>x\<bar> < 2 ^ 53 \<Longrightarrow> \<bar>y\<bar> < 2 ^ 53 \<Longrightarrow> unit_plus (Millis x) (Millis y) = Millis (x + y)"
  using Millis_finite [of x] Millis_finite [of y] by (simp add: unit_plus_def Millis_def)

lemma unit_minus_Millis:
  "\<bar>x\<bar> < 2 ^ 53 \<Longrightarrow> \<bar>y\<bar> < 2 ^ 53 \<Longrightarrow> unit_minus (Millis x) (Millis y) = Millis (x - y)"
  using Millis_finite [of x] Millis_finite [of y] by (simp add: unit_minus_def Millis_def)

lemma Millis_diff_div: "(Millis x - Millis y) div 1000 = x - y"
proof -
  have "Millis x - Millis y = (x - y) * 1000" by (simp add: Millis_def left_diff_distrib)
  then show ?thesis by (simp only: nonzero_mult_div_cancel_right)
qed

lemma Start_expiration:
  assumes "0 \<le> tq_time_ms q" and "tq_time_ms q < 2 ^ 52" and "0 \<le> d" and "d < InfiniteDuration"
  shows "unit_plus (tq_Now q) (ToTimeDelta d) = Millis (tq_time_ms q + d)"
    and "unit_plus (tq_Now q) (Millis d) = Millis (tq_time_ms q + d)"
    and "Millis (tq_time_ms q + d) < PlusInfinity"
  using assms unit_plus_Millis [of "tq_time_ms q" d] Millis_finite [of "tq_time_ms q + d"]
  by (simp_all add: tq_Now_def ToTimeDelta_def InfiniteDuration_def)

lemma filter_fresh: "list_all (\<lambda>t. fst t \<le> n) ts \<Longrightarrow> filter (\<lambda>t. fst t = Suc n) ts = []"
  by (auto simp: list_all_iff filter_empty_conv)

lemma list_all_le_Suc: "list_all (\<lambda>t. fst t \<le> n) ts \<Longrightarrow> list_all (\<lambda>t. fst t \<le> Suc n) ts"
  by (auto simp: list_all_iff)

lemma Start_ok:
  assumes "tq_ok q" and "0 \<le> d" and "d < InfiniteDuration"
  shows "tq_ok (TaskQueueTimeout_Start d i q)"
    and "tq_timeout_expiration (TaskQueueTimeout_Start d i q) = Millis (tq_time_ms q + d)"
    and "tq_timeout_id (TaskQueueTimeout_Start d i q) = i"
    and "tq_time_ms (TaskQueueTimeout_Start d i q) = tq_time_ms q"
proof -
  have clock: "0 \<le> tq_time_ms q" "tq_time_ms q < 2 ^ 52"
    using assms(1) by (simp_all add: tq_ok_def)
  note e = Start_expiration [OF clock assms(2,3)]
  have now: "tq_Now (q\<lparr>tq_timeout_expiration := x, tq_timeout_id := y\<rparr>) = tq_Now q" for x y
    by (simp add: tq_Now_def)
  show "tq_timeout_expiration (TaskQueueTimeout_Start d i q) = Millis (tq_time_ms q + d)"
    and "tq_timeout_id (TaskQueueTimeout_Start d i q) = i"
    and "tq_time_ms (TaskQueueTimeout_Start d i q) = tq_time_ms q"
    using e by (simp_all add: TaskQueueTimeout_Start_def Let_def)
  have fin: "Millis (tq_time_ms q + d) \<noteq> PlusInfinity"
    "\<exists>d'. Millis (tq_time_ms q + d) = Millis d' \<and> d' < tq_time_ms q + InfiniteDuration"
    using e(3) assms(3) by auto
  show "tq_ok (TaskQueueTimeout_Start d i q)"
    using assms(1) e fin clock
    by (auto simp: TaskQueueTimeout_Start_def tq_ok_def live_tasks_def tq_Now_def Let_def
        filter_fresh list_all_le_Suc)
qed

lemma Stop_ok:
  assumes "tq_ok q"
  shows "tq_ok (TaskQueueTimeout_Stop q)" and "tq_pending (TaskQueueTimeout_Stop q) = None"
proof -
  have "tq_posted_task_expiration q \<le> PlusInfinity"
  proof (cases "tq_timeout_expiration q = PlusInfinity")
    case False
    then obtain d where "tq_timeout_expiration q = Millis d" "d < tq_time_ms q + InfiniteDuration"
      using assms by (auto simp: tq_ok_def)
    moreover from this have "Millis d < PlusInfinity"
      using assms by (auto simp: tq_ok_def Millis_def InfiniteDuration_def PlusInfinity_def)
    ultimately show ?thesis using assms by (simp add: tq_ok_def)
  qed (use assms in \<open>simp add: tq_ok_def\<close>)
  then show "tq_ok (TaskQueueTimeout_Stop q)"
    using assms by (simp add: TaskQueueTimeout_Stop_def tq_ok_def live_tasks_def)
  show "tq_pending (TaskQueueTimeout_Stop q) = None"
    by (simp add: TaskQueueTimeout_Stop_def tq_pending_def)
qed

lemma Start_pending:
  assumes "tq_ok q" and "0 \<le> d" and "d < InfiniteDuration"
  shows "tq_pending (TaskQueueTimeout_Start d i q) = Some i"
proof -
  have "0 \<le> tq_time_ms q" "tq_time_ms q < 2 ^ 52"
    using assms(1) by (simp_all add: tq_ok_def)
  then have "Millis (tq_time_ms q + d) \<noteq> PlusInfinity"
    using Start_expiration(3) [OF _ _ assms(2,3)] by (metis order_less_irrefl)
  with Start_ok [OF assms] show ?thesis by (simp add: tq_pending_def)
qed

interpretation tqt: timeout_implementation TaskQueueTimeout_Start TaskQueueTimeout_Stop tq_pending tq_ok
  by unfold_locales (simp_all add: Start_ok(1) Start_pending Stop_ok)

section \<open>Tasks\<close>

lemma remove1_live:
  assumes "task \<in> set ts" and "fst task = n" and "filter (\<lambda>t. fst t = n) ts = [(n, e)]"
  shows "filter (\<lambda>t. fst t = n) (remove1 task ts) = []" and "task = (n, e)"
proof -
  have "task \<in> set (filter (\<lambda>t. fst t = n) ts)" using assms(1,2) by simp
  then show task: "task = (n, e)" using assms(3) by simp
  have "filter (\<lambda>t. fst t = n) (remove1 task ts) = remove1 task (filter (\<lambda>t. fst t = n) ts)"
    using assms(2) by (simp add: filter_remove1)
  with assms(3) task show "filter (\<lambda>t. fst t = n) (remove1 task ts) = []" by simp
qed

lemma remove1_dead:
  "fst task \<noteq> n \<Longrightarrow> filter (\<lambda>t. fst t = n) (remove1 task ts) = filter (\<lambda>t. fst t = n) ts"
  by (induction ts) auto

lemma list_all_remove1: "list_all P ts \<Longrightarrow> list_all P (remove1 x ts)"
  by (auto simp: list_all_iff dest: notin_set_remove1)

text \<open>A disowned task does nothing; the live one fires the timeout, or waits for the rest of it.\<close>

lemma task_dead:
  assumes "tq_ok q" and "fst task \<noteq> tq_pending_task_safety_flag q"
  shows "TaskQueueTimeout_task task q = (None, q\<lparr>tq_tasks := remove1 task (tq_tasks q)\<rparr>)"
    and "tq_ok (q\<lparr>tq_tasks := remove1 task (tq_tasks q)\<rparr>)"
  using assms
  by (simp_all add: TaskQueueTimeout_task_def Let_def tq_ok_def live_tasks_def remove1_dead
      list_all_remove1)

definition task_taken :: "nat \<times> Timestamp \<Rightarrow> TaskQueueTimeout \<Rightarrow> TaskQueueTimeout" where
  "task_taken task q =
     q\<lparr>tq_tasks := remove1 task (tq_tasks q), tq_posted_task_expiration := PlusInfinity,
       tq_timeout_expiration := PlusInfinity\<rparr>"

lemma task_taken_ok:
  assumes "tq_ok q" and "task \<in> set (tq_tasks q)" and "fst task = tq_pending_task_safety_flag q"
  shows "tq_ok (task_taken task q)"
proof -
  have "filter (\<lambda>t. fst t = tq_pending_task_safety_flag q) (tq_tasks q) \<noteq> []"
    using assms(2,3) by (auto simp: filter_empty_conv)
  then have "filter (\<lambda>t. fst t = tq_pending_task_safety_flag q) (remove1 task (tq_tasks q)) = []"
    using assms by (intro remove1_live(1)) (auto simp: tq_ok_def live_tasks_def split: if_splits)
  then show ?thesis
    using assms(1) by (simp add: task_taken_def tq_ok_def live_tasks_def list_all_remove1)
qed

lemma task_live:
  assumes "tq_ok q" and "task \<in> set (tq_tasks q)" and "fst task = tq_pending_task_safety_flag q"
  shows "TaskQueueTimeout_task task q =
     (if tq_timeout_expiration q = PlusInfinity then (None, task_taken task q)
      else if tq_timeout_expiration q \<le> tq_Now q then (Some (tq_timeout_id q), task_taken task q)
      else (None, TaskQueueTimeout_Start ((tq_timeout_expiration q - tq_Now q) div 1000)
                    (tq_timeout_id q) (task_taken task q)))"
proof (cases "tq_timeout_expiration q = PlusInfinity")
  case True
  with assms(3) show ?thesis by (simp add: TaskQueueTimeout_task_def Let_def task_taken_def)
next
  case False
  then obtain e where e: "tq_timeout_expiration q = Millis e" "e < tq_time_ms q + InfiniteDuration"
    using assms(1) by (auto simp: tq_ok_def)
  have clock: "0 \<le> tq_time_ms q" "tq_time_ms q < 2 ^ 52"
    using assms(1) by (simp_all add: tq_ok_def)
  have now: "tq_Now q' = Millis (tq_time_ms q)" if "tq_time_ms q' = tq_time_ms q" for q'
    using that by (simp add: tq_Now_def)
  show ?thesis
  proof (cases "tq_timeout_expiration q \<le> tq_Now q")
    case True
    then have "unit_minus (Millis e) (Millis (tq_time_ms q)) \<le> 0"
      using e clock Millis_finite [of "tq_time_ms q"] False
      by (auto simp: unit_minus_def tq_Now_def MinusInfinity_def)
    with True False assms(3) e(1) show ?thesis
      by (simp add: TaskQueueTimeout_task_def Let_def now task_taken_def)
  next
    case late: False
    then have "tq_time_ms q < e" by (simp add: e(1) tq_Now_def Millis_def)
    then have r: "unit_minus (Millis e) (Millis (tq_time_ms q)) = Millis (e - tq_time_ms q)"
      and c: "int32_cast (e - tq_time_ms q) = e - tq_time_ms q"
      using e(2) clock by (simp_all add: unit_minus_Millis int32_cast_id InfiniteDuration_def)
    have d: "DivideRoundToNearest (Millis x) 1000 = x" for x by (simp add: Millis_def)
    have v: "(Millis e - Millis (tq_time_ms q)) div 1000 = e - tq_time_ms q"
      by (rule Millis_diff_div)
    have p: "Millis (e - tq_time_ms q) > 0" using \<open>tq_time_ms q < e\<close> by (simp add: Millis_def)
    from late False assms(3) e(1) r c d v p show ?thesis
      by (simp add: TaskQueueTimeout_task_def Let_def now task_taken_def)
  qed
qed

lemma task_waits:
  assumes "tq_ok q" and "tq_timeout_expiration q \<noteq> PlusInfinity"
    and "\<not> tq_timeout_expiration q \<le> tq_Now q" and "tq_ok (task_taken task q)"
  defines "q' \<equiv> TaskQueueTimeout_Start ((tq_timeout_expiration q - tq_Now q) div 1000)
                  (tq_timeout_id q) (task_taken task q)"
  shows "tq_ok q'" and "tq_timeout_expiration q' = tq_timeout_expiration q"
    and "tq_timeout_id q' = tq_timeout_id q"
proof -
  obtain e where e: "tq_timeout_expiration q = Millis e" "e < tq_time_ms q + InfiniteDuration"
    using assms(1,2) by (auto simp: tq_ok_def)
  have v: "(Millis e - Millis (tq_time_ms q)) div 1000 = e - tq_time_ms q"
    by (rule Millis_diff_div)
  have "0 \<le> e - tq_time_ms q" using assms(3) e(1) by (simp add: tq_Now_def Millis_def)
  moreover have "e - tq_time_ms q < InfiniteDuration" using e(2) by simp
  moreover have "tq_time_ms (task_taken task q) = tq_time_ms q" by (simp add: task_taken_def)
  ultimately show "tq_ok q'" and "tq_timeout_expiration q' = tq_timeout_expiration q"
    and "tq_timeout_id q' = tq_timeout_id q"
    using Start_ok [OF assms(4), of "e - tq_time_ms q" "tq_timeout_id q"]
    by (simp_all add: q'_def e(1) tq_Now_def v)
qed

lemma task_ok:
  assumes "tq_ok q" and "task \<in> set (tq_tasks q)" and "TaskQueueTimeout_task task q = (r, q')"
  shows "tq_ok q'"
    and "r = (if fst task = tq_pending_task_safety_flag q \<and> tq_timeout_expiration q \<noteq> PlusInfinity \<and>
                 tq_timeout_expiration q \<le> tq_Now q then Some (tq_timeout_id q) else None)"
    and "r = None \<Longrightarrow> tq_timeout_expiration q' = tq_timeout_expiration q \<and> tq_pending q' = tq_pending q"
    and "r \<noteq> None \<Longrightarrow> tq_pending q' = None"
proof -
  have "tq_ok q' \<and>
    r = (if fst task = tq_pending_task_safety_flag q \<and> tq_timeout_expiration q \<noteq> PlusInfinity \<and>
            tq_timeout_expiration q \<le> tq_Now q then Some (tq_timeout_id q) else None) \<and>
    (r = None \<longrightarrow> tq_timeout_expiration q' = tq_timeout_expiration q \<and> tq_pending q' = tq_pending q) \<and>
    (r \<noteq> None \<longrightarrow> tq_pending q' = None)"
  proof (cases "fst task = tq_pending_task_safety_flag q")
    case False
    with assms task_dead [OF assms(1) False] show ?thesis by (auto simp: tq_pending_def)
  next
    case True
    note taken = task_taken_ok [OF assms(1,2) True]
    have "tq_pending (task_taken task q) = None"
      by (simp add: tq_pending_def task_taken_def)
    with assms(3) task_live [OF assms(1,2) True] taken task_waits [OF assms(1) _ _ taken]
    show ?thesis
      by (cases "tq_timeout_expiration q = PlusInfinity"; cases "tq_timeout_expiration q \<le> tq_Now q")
        (auto simp: tq_pending_def task_taken_def True)
  qed
  then show "tq_ok q'"
    and "r = (if fst task = tq_pending_task_safety_flag q \<and> tq_timeout_expiration q \<noteq> PlusInfinity \<and>
                 tq_timeout_expiration q \<le> tq_Now q then Some (tq_timeout_id q) else None)"
    and "r = None \<Longrightarrow> tq_timeout_expiration q' = tq_timeout_expiration q \<and> tq_pending q' = tq_pending q"
    and "r \<noteq> None \<Longrightarrow> tq_pending q' = None"
    by blast+
qed

text \<open>The timeout among its events: calls, the clock, and tasks that are due.\<close>

inductive tq_reachable :: "TaskQueueTimeout \<Rightarrow> bool" where
  created: "0 \<le> n \<Longrightarrow> n < 2 ^ 52 \<Longrightarrow> tq_reachable (TaskQueueTimeout_new n)"
| started: "tq_reachable q \<Longrightarrow> 0 \<le> d \<Longrightarrow> d < InfiniteDuration \<Longrightarrow>
    tq_reachable (TaskQueueTimeout_Start d i q)"
| stopped: "tq_reachable q \<Longrightarrow> tq_reachable (TaskQueueTimeout_Stop q)"
| ticked: "tq_reachable q \<Longrightarrow> tq_time_ms q \<le> n \<Longrightarrow> n < 2 ^ 52 \<Longrightarrow> tq_reachable (q\<lparr>tq_time_ms := n\<rparr>)"
| ran: "tq_reachable q \<Longrightarrow> task \<in> set (tq_tasks q) \<Longrightarrow> snd task \<le> tq_Now q \<Longrightarrow>
    tq_reachable (snd (TaskQueueTimeout_task task q))"

lemma tq_ok_new: "0 \<le> n \<Longrightarrow> n < 2 ^ 52 \<Longrightarrow> tq_ok (TaskQueueTimeout_new n)"
  by (simp add: TaskQueueTimeout_new_def tq_ok_def live_tasks_def)

lemma tq_ok_tick:
  assumes "tq_ok q" and "tq_time_ms q \<le> n" and "n < 2 ^ 52"
  shows "tq_ok (q\<lparr>tq_time_ms := n\<rparr>)"
proof -
  have "tq_timeout_expiration q \<noteq> PlusInfinity \<longrightarrow>
      (\<exists>d. tq_timeout_expiration q = Millis d \<and> d < n + InfiniteDuration)"
    using assms(1,2) by (fastforce simp: tq_ok_def)
  with assms show ?thesis by (simp add: tq_ok_def live_tasks_def)
qed

lemma reachable_ok: "tq_reachable q \<Longrightarrow> tq_ok q"
proof (induction rule: tq_reachable.induct)
  case (created n)
  then show ?case by (rule tq_ok_new)
next
  case (started q d i)
  then show ?case by (simp add: Start_ok(1))
next
  case (stopped q)
  then show ?case by (simp add: Stop_ok(1))
next
  case (ticked q n)
  then show ?case by (simp add: tq_ok_tick)
next
  case (ran q task)
  then show ?case using task_ok(1) [OF ran.IH ran.hyps(2)] by (metis prod.collapse)
qed

lemma pending_live:
  assumes "tq_ok q" and "tq_pending q \<noteq> None"
  shows "(tq_pending_task_safety_flag q, tq_posted_task_expiration q) \<in> set (tq_tasks q)"
    and "tq_posted_task_expiration q \<le> tq_timeout_expiration q"
proof -
  have fin: "tq_timeout_expiration q \<noteq> PlusInfinity"
    using assms(2) by (simp add: tq_pending_def split: if_splits)
  show le: "tq_posted_task_expiration q \<le> tq_timeout_expiration q"
    using assms(1) by (simp add: tq_ok_def)
  obtain e where "tq_timeout_expiration q = Millis e" "e < tq_time_ms q + InfiniteDuration"
    "tq_time_ms q < 2 ^ 52"
    using assms(1) fin by (auto simp: tq_ok_def)
  then have "tq_timeout_expiration q < PlusInfinity"
    by (simp add: Millis_def InfiniteDuration_def PlusInfinity_def)
  with le have "tq_posted_task_expiration q \<noteq> PlusInfinity" by simp
  then have "live_tasks q = [(tq_pending_task_safety_flag q, tq_posted_task_expiration q)]"
    using assms(1) by (simp add: tq_ok_def)
  then have "(tq_pending_task_safety_flag q, tq_posted_task_expiration q) \<in> set (live_tasks q)"
    by simp
  then show "(tq_pending_task_safety_flag q, tq_posted_task_expiration q) \<in> set (tq_tasks q)"
    unfolding live_tasks_def by simp
qed

section \<open>Properties\<close>

text \<open>
  C15. A timeout on a task queue is neither lost nor early nor reported twice. In every reachable
  state a pending timeout has a live task that is due no later than the timeout; and a task that
  runs reports the timeout exactly if it is the live task and the timeout has expired. After the
  report nothing is pending; without a report the pending timeout and its expiry stay as they were.
\<close>

theorem task_queue_timeout_exact:
  assumes "tq_reachable q"
  shows "(tq_pending q \<noteq> None \<longrightarrow>
           (\<exists>task\<in>set (tq_tasks q). fst task = tq_pending_task_safety_flag q \<and>
              snd task \<le> tq_timeout_expiration q)) \<and>
         (\<forall>task\<in>set (tq_tasks q). \<forall>r q'. TaskQueueTimeout_task task q = (r, q') \<longrightarrow>
            r = (if fst task = tq_pending_task_safety_flag q \<and> tq_timeout_expiration q \<le> tq_Now q
                 then tq_pending q else None) \<and>
            (if r = None then tq_pending q' = tq_pending q \<and>
                              tq_timeout_expiration q' = tq_timeout_expiration q
             else tq_pending q' = None))"
proof (intro conjI impI ballI allI)
  assume "tq_pending q \<noteq> None"
  with pending_live [OF reachable_ok [OF assms]]
  show "\<exists>task\<in>set (tq_tasks q). fst task = tq_pending_task_safety_flag q \<and>
          snd task \<le> tq_timeout_expiration q"
    by (intro bexI [of _ "(tq_pending_task_safety_flag q, tq_posted_task_expiration q)"]) simp_all
next
  fix task r q'
  assume "task \<in> set (tq_tasks q)" and "TaskQueueTimeout_task task q = (r, q')"
  note facts = task_ok [OF reachable_ok [OF assms] this]
  show "r = (if fst task = tq_pending_task_safety_flag q \<and> tq_timeout_expiration q \<le> tq_Now q
             then tq_pending q else None)"
    unfolding facts(2) by (simp add: tq_pending_def)
  show "if r = None then tq_pending q' = tq_pending q \<and>
                         tq_timeout_expiration q' = tq_timeout_expiration q
        else tq_pending q' = None"
    using facts(3,4) by simp
qed

text \<open>Started for ten milliseconds, then restarted for two: the first task is disowned.\<close>

definition sample_timeout :: TaskQueueTimeout where
  "sample_timeout = TaskQueueTimeout_Start 2 9
     (TaskQueueTimeout_Stop (TaskQueueTimeout_Start 10 8 (TaskQueueTimeout_new 100)))"

lemma sample_timeout_reachable: "tq_reachable (sample_timeout\<lparr>tq_time_ms := 102\<rparr>)"
  unfolding sample_timeout_def
  by (intro ticked started stopped created)
    (simp_all add: InfiniteDuration_def TaskQueueTimeout_Start_def TaskQueueTimeout_Stop_def
      TaskQueueTimeout_new_def Let_def)

lemma sample_timeout_value:
  "sample_timeout\<lparr>tq_time_ms := 102\<rparr> =
     \<lparr>tq_time_ms = 102, tq_pending_task_safety_flag = 1, tq_posted_task_expiration = 102000,
      tq_timeout_expiration = 102000, tq_timeout_id = 9, tq_tasks = [(0, 110000), (1, 102000)]\<rparr>"
  by (simp add: sample_timeout_def TaskQueueTimeout_Start_def TaskQueueTimeout_Stop_def
      TaskQueueTimeout_new_def Let_def tq_Now_def ToTimeDelta_def InfiniteDuration_def Millis_def
      unit_plus_def PlusInfinity_def MinusInfinity_def)

theorem task_queue_timeout_exact_witness:
  "\<exists>q. tq_reachable q \<and> tq_pending q = Some 9 \<and>
       fst (TaskQueueTimeout_task (1, 102000) q) = Some 9 \<and>
       fst (TaskQueueTimeout_task (0, 110000) q) = None"
proof (intro exI conjI)
  let ?q = "sample_timeout\<lparr>tq_time_ms := 102\<rparr>"
  show "tq_reachable ?q" by (rule sample_timeout_reachable)
  show p: "tq_pending ?q = Some 9" by (simp add: sample_timeout_value tq_pending_def PlusInfinity_def)
  note exact = task_queue_timeout_exact [OF sample_timeout_reachable, THEN conjunct2, rule_format,
      OF _ prod.collapse [symmetric]]
  show "fst (TaskQueueTimeout_task (1, 102000) ?q) = Some 9"
    using exact [of "(1, 102000)"] p by (simp add: sample_timeout_value tq_Now_def Millis_def)
  show "fst (TaskQueueTimeout_task (0, 110000) ?q) = None"
    using exact [of "(0, 110000)"] by (simp add: sample_timeout_value)
qed



end
