(* ===== verification/Retransmission_Timing.thy ===== *)
theory Retransmission_Timing
  imports Time_Units Dcsctp_Options
begin

text \<open>
  The retransmission error counter and the retransmission timeout,
  \<open>net/dcsctp/tx/retransmission_error_counter.cc\<close> and \<open>retransmission_timeout.cc\<close>.
\<close>

section \<open>Error counter\<close>

record RetransmissionErrorCounter =
  rec_limit :: "int option"
  rec_counter :: int

definition RetransmissionErrorCounter_new :: "DcSctpOptions \<Rightarrow> RetransmissionErrorCounter" where
  "RetransmissionErrorCounter_new options =
     \<lparr>rec_limit = opts_max_retransmissions options, rec_counter = 0\<rparr>"

definition RetransmissionErrorCounter_Increment ::
  "RetransmissionErrorCounter \<Rightarrow> bool \<times> RetransmissionErrorCounter" where
  "RetransmissionErrorCounter_Increment c =
     (let c = c\<lparr>rec_counter := rec_counter c + 1\<rparr> in
      case rec_limit c of
        Some limit \<Rightarrow> if rec_counter c > limit then (False, c) else (True, c)
      | None \<Rightarrow> (True, c))"

definition RetransmissionErrorCounter_IsExhausted :: "RetransmissionErrorCounter \<Rightarrow> bool" where
  "RetransmissionErrorCounter_IsExhausted c =
     (case rec_limit c of Some limit \<Rightarrow> rec_counter c > limit | None \<Rightarrow> False)"

definition RetransmissionErrorCounter_Clear ::
  "RetransmissionErrorCounter \<Rightarrow> RetransmissionErrorCounter" where
  "RetransmissionErrorCounter_Clear c = (if rec_counter c > 0 then c\<lparr>rec_counter := 0\<rparr> else c)"

lemma Increment_exhausts:
  "RetransmissionErrorCounter_Increment c = (r, c') \<Longrightarrow>
   r = (\<not> RetransmissionErrorCounter_IsExhausted c') \<and> rec_counter c' = rec_counter c + 1 \<and>
   rec_limit c' = rec_limit c"
  by (auto simp: RetransmissionErrorCounter_Increment_def RetransmissionErrorCounter_IsExhausted_def
      Let_def split: option.splits if_splits)

lemma Clear_counter: "0 \<le> rec_counter c \<Longrightarrow> rec_counter (RetransmissionErrorCounter_Clear c) = 0"
  by (simp add: RetransmissionErrorCounter_Clear_def)

section \<open>Retransmission timeout\<close>

text \<open>
  The product of a duration and a \<open>double\<close> is rounded with \<open>llround\<close>, halves away from zero. The
  factors are fractions with small powers of two as denominators, so that the products of durations
  below \<open>2 ^ 50\<close> microseconds (35 years) are exact in double precision.
\<close>

definition llround_frac :: "int \<Rightarrow> int \<Rightarrow> int" where
  "llround_frac n d = (if n \<ge> 0 then (2 * n + d) div (2 * d) else - ((- 2 * n + d) div (2 * d)))"

definition kRtoAlpha_num :: int where "kRtoAlpha_num = 1"
definition kRtoAlpha_den :: int where "kRtoAlpha_den = 8"
definition kRtoBeta_num :: int where "kRtoBeta_num = 1"
definition kRtoBeta_den :: int where "kRtoBeta_den = 4"
definition kHeuristicVarianceAdjustment :: int where "kHeuristicVarianceAdjustment = 8"

record RetransmissionTimeout =
  rto_min_rto :: TimeDelta
  rto_max_rto :: TimeDelta
  rto_max_rtt :: TimeDelta
  rto_min_rtt_variance :: TimeDelta
  rto_first_measurement :: bool
  rto_srtt :: TimeDelta
  rto_rtt_var :: TimeDelta
  rto_rto :: TimeDelta

definition RetransmissionTimeout_new :: "DcSctpOptions \<Rightarrow> RetransmissionTimeout" where
  "RetransmissionTimeout_new options =
     \<lparr>rto_min_rto = ToTimeDelta (opts_rto_min options),
      rto_max_rto = ToTimeDelta (opts_rto_max options),
      rto_max_rtt = ToTimeDelta (opts_rtt_max options),
      rto_min_rtt_variance =
        llround_frac (ToTimeDelta (opts_min_rtt_variance options)) kHeuristicVarianceAdjustment,
      rto_first_measurement = True,
      rto_srtt = ToTimeDelta (opts_rto_initial options),
      rto_rtt_var = 0,
      rto_rto = ToTimeDelta (opts_rto_initial options)\<rparr>"

text \<open>\<open>std::clamp\<close>\<close>

definition clamp :: "int \<Rightarrow> int \<Rightarrow> int \<Rightarrow> int" where
  "clamp v lo hi = (if v < lo then lo else if hi < v then hi else v)"

definition RetransmissionTimeout_ObserveRTT ::
  "TimeDelta \<Rightarrow> RetransmissionTimeout \<Rightarrow> RetransmissionTimeout" where
  "RetransmissionTimeout_ObserveRTT rtt r =
     (if rtt < 0 \<or> rtt > rto_max_rtt r then r
      else
        let r = (if rto_first_measurement r then
                   r\<lparr>rto_srtt := rtt, rto_rtt_var := rtt div 2, rto_first_measurement := False\<rparr>
                 else
                   let rtt_diff = TimeDelta_Abs (unit_minus (rto_srtt r) rtt) in
                   r\<lparr>rto_rtt_var :=
                       unit_plus
                         (llround_frac ((kRtoBeta_den - kRtoBeta_num) * rto_rtt_var r) kRtoBeta_den)
                         (llround_frac (kRtoBeta_num * rtt_diff) kRtoBeta_den),
                     rto_srtt :=
                       unit_plus
                         (llround_frac ((kRtoAlpha_den - kRtoAlpha_num) * rto_srtt r) kRtoAlpha_den)
                         (llround_frac (kRtoAlpha_num * rtt) kRtoAlpha_den)\<rparr>);
            r = (if rto_rtt_var r < rto_min_rtt_variance r
                 then r\<lparr>rto_rtt_var := rto_min_rtt_variance r\<rparr> else r);
            r = r\<lparr>rto_rto := unit_plus (rto_srtt r) (4 * rto_rtt_var r)\<rparr>
        in r\<lparr>rto_rto := clamp (rto_rto r) (rto_min_rto r) (rto_max_rto r)\<rparr>)"

section \<open>Bounds\<close>

text \<open>The two roundings of the moving average add up to at most one microsecond too much.\<close>

lemma average_bounds:
  fixes s r lo hi :: int
  assumes "0 \<le> lo" and "lo \<le> s" and "s \<le> hi + 1" and "lo \<le> r" and "r \<le> hi"
  shows "lo \<le> llround_frac (7 * s) 8 + llround_frac r 8 \<and>
         llround_frac (7 * s) 8 + llround_frac r 8 \<le> hi + 1"
proof -
  have "0 \<le> 7 * s" and "0 \<le> r" using assms by linarith+
  then show ?thesis
    using assms by (simp add: llround_frac_def) linarith
qed

lemma clamp_bounds: "lo \<le> hi \<Longrightarrow> lo \<le> clamp v lo hi \<and> clamp v lo hi \<le> hi"
  by (simp add: clamp_def)

definition accepted :: "RetransmissionTimeout \<Rightarrow> TimeDelta \<Rightarrow> bool" where
  "accepted r rtt \<longleftrightarrow> 0 \<le> rtt \<and> rtt \<le> rto_max_rtt r"

text \<open>What is known of the estimator once it has accepted measurements between two bounds.\<close>

definition rto_ok :: "int \<Rightarrow> int \<Rightarrow> RetransmissionTimeout \<Rightarrow> bool" where
  "rto_ok lo hi r \<longleftrightarrow>
     \<not> rto_first_measurement r \<and> lo \<le> rto_srtt r \<and> rto_srtt r \<le> hi + 1 \<and>
     rto_min_rto r \<le> rto_rto r \<and> rto_rto r \<le> rto_max_rto r \<and>
     rto_min_rtt_variance r \<le> rto_rtt_var r"

lemma ObserveRTT_fixed [simp]:
  "rto_min_rto (RetransmissionTimeout_ObserveRTT rtt r) = rto_min_rto r"
  "rto_max_rto (RetransmissionTimeout_ObserveRTT rtt r) = rto_max_rto r"
  "rto_max_rtt (RetransmissionTimeout_ObserveRTT rtt r) = rto_max_rtt r"
  "rto_min_rtt_variance (RetransmissionTimeout_ObserveRTT rtt r) = rto_min_rtt_variance r"
  by (simp_all add: RetransmissionTimeout_ObserveRTT_def Let_def)

lemma ObserveRTT_rejected: "\<not> accepted r rtt \<Longrightarrow> RetransmissionTimeout_ObserveRTT rtt r = r"
  by (auto simp: accepted_def RetransmissionTimeout_ObserveRTT_def)

lemma ObserveRTT_srtt:
  assumes "accepted r rtt" and "0 \<le> rto_srtt r" and "rto_srtt r < 2 ^ 60" and "rtt < 2 ^ 60"
  shows "rto_srtt (RetransmissionTimeout_ObserveRTT rtt r) =
    (if rto_first_measurement r then rtt
     else llround_frac (7 * rto_srtt r) 8 + llround_frac rtt 8)"
proof -
  have "0 \<le> rtt" using assms(1) by (simp add: accepted_def)
  then have "0 \<le> llround_frac (7 * rto_srtt r) 8" "llround_frac (7 * rto_srtt r) 8 < 2 ^ 61"
    "0 \<le> llround_frac rtt 8" "llround_frac rtt 8 < 2 ^ 61"
    using assms(2-4) by (simp_all add: llround_frac_def)
  then have "unit_plus (llround_frac (7 * rto_srtt r) 8) (llround_frac rtt 8) =
      llround_frac (7 * rto_srtt r) 8 + llround_frac rtt 8"
    by (simp add: unit_plus_def PlusInfinity_def MinusInfinity_def)
  with assms(1) show ?thesis
    by (auto simp: RetransmissionTimeout_ObserveRTT_def accepted_def Let_def kRtoAlpha_num_def
        kRtoAlpha_den_def)
qed

lemma ObserveRTT_rto_ok:
  assumes "accepted r rtt" and "lo \<le> rtt" and "rtt \<le> hi" and "0 \<le> lo" and "hi < 2 ^ 59"
    and "rto_min_rto r \<le> rto_max_rto r"
    and "rto_ok lo hi r \<or> rto_first_measurement r \<and> 0 \<le> rto_srtt r \<and> rto_srtt r < 2 ^ 60"
  shows "rto_ok lo hi (RetransmissionTimeout_ObserveRTT rtt r)"
proof -
  let ?r = "RetransmissionTimeout_ObserveRTT rtt r"
  have "rtt < 2 ^ 60" "0 \<le> rto_srtt r" "rto_srtt r < 2 ^ 60"
    using assms by (auto simp: rto_ok_def)
  then have srtt: "rto_srtt ?r = (if rto_first_measurement r then rtt
      else llround_frac (7 * rto_srtt r) 8 + llround_frac rtt 8)"
    by (intro ObserveRTT_srtt [OF assms(1)])
  have "lo \<le> rto_srtt ?r \<and> rto_srtt ?r \<le> hi + 1"
  proof (cases "rto_first_measurement r")
    case True
    with srtt assms show ?thesis by simp
  next
    case False
    with srtt assms average_bounds [of lo "rto_srtt r" hi rtt] show ?thesis
      by (auto simp: rto_ok_def)
  qed
  moreover have "\<not> rto_first_measurement ?r" and "rto_min_rtt_variance r \<le> rto_rtt_var ?r"
    and "rto_rto ?r = clamp (unit_plus (rto_srtt ?r) (4 * rto_rtt_var ?r)) (rto_min_rto r) (rto_max_rto r)"
    using assms(1) by (auto simp: RetransmissionTimeout_ObserveRTT_def accepted_def Let_def)
  ultimately show ?thesis
    using clamp_bounds [OF assms(6)] by (simp add: rto_ok_def)
qed

lemma accepted_ObserveRTT [simp]:
  "accepted (RetransmissionTimeout_ObserveRTT x r) = accepted r"
  by (simp add: accepted_def fun_eq_iff)

lemma fold_ObserveRTT_ok:
  assumes "\<forall>x\<in>set rtts. accepted r x \<longrightarrow> lo \<le> x \<and> x \<le> hi" and "0 \<le> lo" and "hi < 2 ^ 59"
    and "rto_min_rto r \<le> rto_max_rto r"
    and "rto_ok lo hi r \<or>
      (\<exists>x\<in>set rtts. accepted r x) \<and> rto_first_measurement r \<and> 0 \<le> rto_srtt r \<and> rto_srtt r < 2 ^ 60"
  shows "rto_ok lo hi (fold RetransmissionTimeout_ObserveRTT rtts r)"
  using assms(1,4,5)
proof (induction rtts arbitrary: r)
  case (Cons x rtts)
  show ?case
  proof (cases "accepted r x")
    case True
    then have "rto_ok lo hi (RetransmissionTimeout_ObserveRTT x r)"
      using Cons.prems assms(2,3) by (intro ObserveRTT_rto_ok) auto
    with Cons show ?thesis by simp
  next
    case False
    with Cons show ?thesis by (simp add: ObserveRTT_rejected)
  qed
qed simp

lemma fold_ObserveRTT_none:
  "\<forall>x\<in>set rtts. \<not> accepted r x \<Longrightarrow> fold RetransmissionTimeout_ObserveRTT rtts r = r"
  by (induction rtts arbitrary: r) (simp_all add: ObserveRTT_rejected)

lemma ToTimeDelta_bounds:
  "0 \<le> d \<Longrightarrow> d < InfiniteDuration \<Longrightarrow> 0 \<le> ToTimeDelta d \<and> ToTimeDelta d < 2 ^ 42"
  by (simp add: ToTimeDelta_def Millis_def InfiniteDuration_def)

section \<open>Properties\<close>



end
