(* ===== verification/Stream_Scheduler.thy ===== *)
theory Stream_Scheduler
  imports Complex_Main Outstanding_Data Reassembly_Streams
begin

text \<open>
  The scheduler of outgoing streams, \<open>net/dcsctp/tx/stream_scheduler.{h,cc}\<close>: the active streams in
  the order of their virtual finish times, round-robin without message interleaving and weighted
  fair queueing with it. The producers behind the streams are arguments of \<open>Produce\<close>, with a state
  of their own. Virtual times are of type \<open>double\<close>; they are rationals here, and the rounding \<open>fl\<close>
  of each floating-point operation is an argument.
\<close>

section \<open>Data to send\<close>

record DataToSend =
  dts_message_id :: u32
  dts_data :: Data
  dts_max_retransmissions :: u16
  dts_expires_at :: Timestamp
  dts_lifecycle_id :: u64

section \<open>State\<close>

type_synonym VirtualTime = rat

definition InverseWeight :: "(rat \<Rightarrow> rat) \<Rightarrow> u16 \<Rightarrow> rat" where
  "InverseWeight fl priority = fl (1 / max (of_nat (unat priority)) (fl (1 / 1000000)))"

record SchedulerStream =
  sst_priority :: u16
  sst_inverse_weight :: rat
  sst_current_virtual_time :: VirtualTime
  sst_next_finish_time :: VirtualTime

definition SchedulerStream_new :: "(rat \<Rightarrow> rat) \<Rightarrow> u16 \<Rightarrow> SchedulerStream" where
  "SchedulerStream_new fl priority =
     \<lparr>sst_priority = priority, sst_inverse_weight = InverseWeight fl priority,
      sst_current_virtual_time = 0, sst_next_finish_time = 0\<rparr>"

definition no_stream :: SchedulerStream where
  "no_stream = \<lparr>sst_priority = 0, sst_inverse_weight = 0, sst_current_virtual_time = 0, sst_next_finish_time = 0\<rparr>"

text \<open>
  Streams are referred to by identifier; \<open>sch_streams\<close> holds the objects that \<open>CreateStream\<close> made.
\<close>

record StreamScheduler =
  sch_max_payload_bytes :: nat
  sch_virtual_time :: VirtualTime
  sch_current_stream :: "u16 option"
  sch_enable_message_interleaving :: bool
  sch_currently_sending_a_message :: bool
  sch_active_streams :: "u16 list"
  sch_streams :: "(u16, SchedulerStream) omap"

definition StreamScheduler_new :: "nat \<Rightarrow> StreamScheduler" where
  "StreamScheduler_new mtu =
     \<lparr>sch_max_payload_bytes = size_cast (int mtu - 12 - 20), sch_virtual_time = 0, sch_current_stream = None,
      sch_enable_message_interleaving = False, sch_currently_sending_a_message = False,
      sch_active_streams = [], sch_streams = []\<rparr>"

definition sch_stream :: "u16 \<Rightarrow> StreamScheduler \<Rightarrow> SchedulerStream" where
  "sch_stream stream_id sch = om_at no_stream stream_id (sch_streams sch)"

definition sch_update :: "u16 \<Rightarrow> (SchedulerStream \<Rightarrow> SchedulerStream) \<Rightarrow> StreamScheduler \<Rightarrow> StreamScheduler" where
  "sch_update stream_id f sch =
     sch\<lparr>sch_streams := om_insert stream_id (f (sch_stream stream_id sch)) (sch_streams sch)\<rparr>"

definition CreateStream :: "(rat \<Rightarrow> rat) \<Rightarrow> u16 \<Rightarrow> u16 \<Rightarrow> StreamScheduler \<Rightarrow> StreamScheduler" where
  "CreateStream fl stream_id priority sch =
     sch\<lparr>sch_streams := om_insert stream_id (SchedulerStream_new fl priority) (sch_streams sch)\<rparr>"

section \<open>Streams\<close>

definition SchedulerStream_SetPriority :: "(rat \<Rightarrow> rat) \<Rightarrow> u16 \<Rightarrow> u16 \<Rightarrow> StreamScheduler \<Rightarrow> StreamScheduler" where
  "SchedulerStream_SetPriority fl stream_id priority =
     sch_update stream_id (\<lambda>s. s\<lparr>sst_priority := priority, sst_inverse_weight := InverseWeight fl priority\<rparr>)"

definition CalculateFinishTime :: "(rat \<Rightarrow> rat) \<Rightarrow> nat \<Rightarrow> u16 \<Rightarrow> StreamScheduler \<Rightarrow> VirtualTime" where
  "CalculateFinishTime fl bytes_to_send_next stream_id sch =
     (let s = sch_stream stream_id sch in
      if sch_enable_message_interleaving sch
      then fl (sst_current_virtual_time s + fl (fl (of_nat bytes_to_send_next) * sst_inverse_weight s))
      else fl (sst_current_virtual_time s + 1))"

text \<open>The comparison of active streams: by virtual finish time, then by identifier.\<close>

definition active_before :: "StreamScheduler \<Rightarrow> u16 \<Rightarrow> u16 \<Rightarrow> bool" where
  "active_before sch a b =
     (let a_vft = sst_next_finish_time (sch_stream a sch); b_vft = sst_next_finish_time (sch_stream b sch)
      in if a_vft = b_vft then a < b else a_vft < b_vft)"

definition active_emplace :: "u16 \<Rightarrow> StreamScheduler \<Rightarrow> StreamScheduler" where
  "active_emplace stream_id sch =
     (let active = sch_active_streams sch;
          i = length (takeWhile (\<lambda>s. active_before sch s stream_id) active)
      in if i < length active \<and> \<not> active_before sch stream_id (active ! i) then sch
         else sch\<lparr>sch_active_streams := take i active @ stream_id # drop i active\<rparr>)"

definition MakeActive :: "(rat \<Rightarrow> rat) \<Rightarrow> u16 \<Rightarrow> nat \<Rightarrow> StreamScheduler \<Rightarrow> StreamScheduler" where
  "MakeActive fl stream_id bytes_to_send_next sch =
     (let sch = sch_update stream_id (\<lambda>s. s\<lparr>sst_current_virtual_time := sch_virtual_time sch\<rparr>) sch;
          next_finish_time =
            CalculateFinishTime fl (min bytes_to_send_next (sch_max_payload_bytes sch)) stream_id sch;
          sch = sch_update stream_id (\<lambda>s. s\<lparr>sst_next_finish_time := next_finish_time\<rparr>) sch
      in active_emplace stream_id sch)"

definition MaybeMakeActive :: "(rat \<Rightarrow> rat) \<Rightarrow> u16 \<Rightarrow> nat \<Rightarrow> StreamScheduler \<Rightarrow> StreamScheduler" where
  "MaybeMakeActive fl stream_id bytes_to_send_next sch =
     (if bytes_to_send_next = 0 then sch else MakeActive fl stream_id bytes_to_send_next sch)"

definition ForceMarkInactive :: "u16 \<Rightarrow> StreamScheduler \<Rightarrow> StreamScheduler" where
  "ForceMarkInactive stream_id = sch_update stream_id (\<lambda>s. s\<lparr>sst_next_finish_time := 0\<rparr>)"

definition MakeInactive :: "u16 \<Rightarrow> StreamScheduler \<Rightarrow> StreamScheduler" where
  "MakeInactive stream_id sch =
     (let sch = ForceMarkInactive stream_id sch
      in sch\<lparr>sch_active_streams := filter (\<lambda>s. s \<noteq> stream_id) (sch_active_streams sch)\<rparr>)"

definition ForceReschedule :: "StreamScheduler \<Rightarrow> StreamScheduler" where
  "ForceReschedule sch = sch\<lparr>sch_currently_sending_a_message := False\<rparr>"

definition StreamScheduler_EnableMessageInterleaving :: "bool \<Rightarrow> StreamScheduler \<Rightarrow> StreamScheduler" where
  "StreamScheduler_EnableMessageInterleaving enabled sch = sch\<lparr>sch_enable_message_interleaving := enabled\<rparr>"

section \<open>Producing\<close>

type_synonym 'g producer = "u16 \<Rightarrow> Timestamp \<Rightarrow> nat \<Rightarrow> 'g \<Rightarrow> DataToSend option \<times> 'g"

definition SchedulerStream_Produce ::
  "(rat \<Rightarrow> rat) \<Rightarrow> 'g producer \<Rightarrow> u16 \<Rightarrow> Timestamp \<Rightarrow> nat \<Rightarrow> StreamScheduler \<times> 'g \<Rightarrow>
   DataToSend option \<times> StreamScheduler \<times> 'g" where
  "SchedulerStream_Produce fl produce stream_id now max_size = (\<lambda>(sch, g).
     case produce stream_id now max_size g of
       (None, g) \<Rightarrow> (None, sch, g)
     | (Some data, g) \<Rightarrow>
         let new_current = CalculateFinishTime fl (Data_size (dts_data data)) stream_id sch
         in (Some data, sch_update stream_id (\<lambda>s. s\<lparr>sst_current_virtual_time := new_current\<rparr>) sch, g))"

text \<open>The loop of \<open>Produce\<close> when rescheduling: it takes the active streams one by one.\<close>

fun reschedule_loop ::
  "(rat \<Rightarrow> rat) \<Rightarrow> 'g producer \<Rightarrow> Timestamp \<Rightarrow> nat \<Rightarrow> u16 list \<Rightarrow> StreamScheduler \<times> 'g \<Rightarrow>
   DataToSend option \<times> StreamScheduler \<times> 'g" where
  "reschedule_loop fl produce now max_size [] (sch, g) = (None, sch, g)"
| "reschedule_loop fl produce now max_size (stream_id # active) (sch, g) =
     (let sch = sch\<lparr>sch_current_stream := Some stream_id, sch_active_streams := active\<rparr>;
          sch = ForceMarkInactive stream_id sch
      in case SchedulerStream_Produce fl produce stream_id now max_size (sch, g) of
           (Some data, sch, g) \<Rightarrow> (Some data, sch, g)
         | (None, sch, g) \<Rightarrow> reschedule_loop fl produce now max_size active (sch, g))"

text \<open>
  Otherwise it asks the current stream again and again; without a result it never ends, because
  nothing removes a stream from \<open>active_streams_\<close>.
\<close>

partial_function (option) keep_producing ::
  "(rat \<Rightarrow> rat) \<Rightarrow> 'g producer \<Rightarrow> u16 \<Rightarrow> Timestamp \<Rightarrow> nat \<Rightarrow> StreamScheduler \<times> 'g \<Rightarrow>
   (DataToSend \<times> StreamScheduler \<times> 'g) option" where
  "keep_producing fl produce stream_id now max_size s =
     (case SchedulerStream_Produce fl produce stream_id now max_size s of
        (Some data, s) \<Rightarrow> Some (data, s)
      | (None, s) \<Rightarrow> keep_producing fl produce stream_id now max_size s)"

declare keep_producing.simps [code]

definition finish_production ::
  "(rat \<Rightarrow> rat) \<Rightarrow> (u16 \<Rightarrow> 'g \<Rightarrow> nat) \<Rightarrow> bool \<Rightarrow> u16 \<Rightarrow> DataToSend \<Rightarrow> StreamScheduler \<times> 'g \<Rightarrow> StreamScheduler \<times> 'g" where
  "finish_production fl bytes_to_send rescheduling stream_id data = (\<lambda>(sch, g).
     let sch = sch\<lparr>sch_currently_sending_a_message := \<not> data_is_end (dts_data data),
                   sch_virtual_time := sst_current_virtual_time (sch_stream stream_id sch)\<rparr>;
         bytes_to_send_next = bytes_to_send stream_id g
     in (if rescheduling \<and> bytes_to_send_next > 0 then MakeActive fl stream_id bytes_to_send_next sch
         else if \<not> rescheduling \<and> bytes_to_send_next = 0 then MakeInactive stream_id sch
         else sch, g))"

definition StreamScheduler_Produce ::
  "(rat \<Rightarrow> rat) \<Rightarrow> 'g producer \<Rightarrow> (u16 \<Rightarrow> 'g \<Rightarrow> nat) \<Rightarrow> Timestamp \<Rightarrow> nat \<Rightarrow> StreamScheduler \<times> 'g \<Rightarrow>
   (DataToSend option \<times> StreamScheduler \<times> 'g) outcome" where
  "StreamScheduler_Produce fl produce bytes_to_send now max_size = (\<lambda>(sch, g).
     let rescheduling = (sch_enable_message_interleaving sch \<or> \<not> sch_currently_sending_a_message sch) in
     if rescheduling then
       (case reschedule_loop fl produce now max_size (sch_active_streams sch) (sch, g) of
          (None, sch, g) \<Rightarrow> Value (None, sch, g)
        | (Some data, sch, g) \<Rightarrow>
            Value (Some data, finish_production fl bytes_to_send True (the (sch_current_stream sch)) data (sch, g)))
     else
       (case sch_current_stream sch of
          None \<Rightarrow> CheckFailed
        | Some stream_id \<Rightarrow>
            if sch_active_streams sch = [] then Value (None, sch, g)
            else
              (case keep_producing fl produce stream_id now max_size (sch, g) of
                 None \<Rightarrow> Diverges
               | Some (data, s) \<Rightarrow>
                   Value (Some data, finish_production fl bytes_to_send False stream_id data s))))"

definition ActiveStreamsForTesting :: "StreamScheduler \<Rightarrow> u16 set" where
  "ActiveStreamsForTesting sch = set (sch_active_streams sch)"

definition StreamScheduler_IsConsistent :: "StreamScheduler \<Rightarrow> bool" where
  "StreamScheduler_IsConsistent sch \<longleftrightarrow>
     (\<forall>stream_id\<in>set (sch_active_streams sch). sst_next_finish_time (sch_stream stream_id sch) \<noteq> 0)"

section \<open>The order of the active streams\<close>

definition active_ok :: "StreamScheduler \<Rightarrow> bool" where
  "active_ok sch \<longleftrightarrow> om_ok (sch_streams sch) \<and> distinct (sch_active_streams sch) \<and>
     sorted_wrt (active_before sch) (sch_active_streams sch)"

lemma sch_stream_update:
  "om_ok (sch_streams sch) \<Longrightarrow>
   sch_stream i (sch_update j f sch) = (if i = j then f (sch_stream j sch) else sch_stream i sch)"
  by (simp add: sch_stream_def sch_update_def om_at_def om_find_insert)

lemma sch_update_fields [simp]:
  "sch_max_payload_bytes (sch_update j f sch) = sch_max_payload_bytes sch"
  "sch_virtual_time (sch_update j f sch) = sch_virtual_time sch"
  "sch_current_stream (sch_update j f sch) = sch_current_stream sch"
  "sch_enable_message_interleaving (sch_update j f sch) = sch_enable_message_interleaving sch"
  "sch_currently_sending_a_message (sch_update j f sch) = sch_currently_sending_a_message sch"
  "sch_active_streams (sch_update j f sch) = sch_active_streams sch"
  by (simp_all add: sch_update_def)

lemma sch_update_ok: "om_ok (sch_streams sch) \<Longrightarrow> om_ok (sch_streams (sch_update j f sch))"
  by (simp add: sch_update_def om_insert_ok)

lemma active_before_cong:
  "\<lbrakk>sst_next_finish_time (sch_stream a sch) = sst_next_finish_time (sch_stream a sch');
    sst_next_finish_time (sch_stream b sch) = sst_next_finish_time (sch_stream b sch')\<rbrakk> \<Longrightarrow>
   active_before sch a b = active_before sch' a b"
  by (simp add: active_before_def)

lemma active_before_fields [simp]:
  "active_before (sch\<lparr>sch_active_streams := active\<rparr>) = active_before sch"
  "active_before (sch\<lparr>sch_current_stream := current\<rparr>) = active_before sch"
  "active_before (sch\<lparr>sch_currently_sending_a_message := sending\<rparr>) = active_before sch"
  "active_before (sch\<lparr>sch_virtual_time := t\<rparr>) = active_before sch"
  "active_before (sch\<lparr>sch_enable_message_interleaving := enabled\<rparr>) = active_before sch"
  by (simp_all add: fun_eq_iff active_before_def sch_stream_def)

lemma active_before_trans: "active_before sch a b \<Longrightarrow> active_before sch b c \<Longrightarrow> active_before sch a c"
  by (auto simp: active_before_def Let_def split: if_splits)

lemma active_before_total: "a \<noteq> b \<Longrightarrow> \<not> active_before sch a b \<Longrightarrow> active_before sch b a"
  by (auto simp: active_before_def Let_def split: if_splits)

lemma active_ok_cong:
  assumes "active_ok sch" and "om_ok (sch_streams sch')" and "sch_active_streams sch' = sch_active_streams sch"
    and "\<And>i. i \<in> set (sch_active_streams sch) \<Longrightarrow>
          sst_next_finish_time (sch_stream i sch') = sst_next_finish_time (sch_stream i sch)"
  shows "active_ok sch'"
proof -
  have "sorted_wrt (active_before sch) (sch_active_streams sch) = sorted_wrt (active_before sch') (sch_active_streams sch)"
    using active_before_cong assms(4) by (metis sorted_wrt_mono_rel)
  with assms show ?thesis by (simp add: active_ok_def)
qed

lemma active_ok_sub:
  "active_ok sch \<Longrightarrow> active_ok (sch\<lparr>sch_active_streams := filter P (sch_active_streams sch)\<rparr>)"
  by (simp add: active_ok_def sorted_wrt_filter)

lemma active_emplace_ok:
  assumes "active_ok sch" and "i \<notin> set (sch_active_streams sch)"
  shows "\<exists>active. active_emplace i sch = sch\<lparr>sch_active_streams := active\<rparr> \<and>
           set active = insert i (set (sch_active_streams sch)) \<and> active_ok (active_emplace i sch)"
proof -
  let ?P = "\<lambda>s. active_before sch s i" and ?a = "sch_active_streams sch"
  let ?t = "takeWhile ?P ?a" and ?d = "dropWhile ?P ?a"
  have td: "take (length ?t) ?a = ?t" "drop (length ?t) ?a = ?d" "?t @ ?d = ?a"
    by (simp_all add: takeWhile_eq_take [symmetric] dropWhile_eq_drop [symmetric])
  have s: "sorted_wrt (active_before sch) ?t" "sorted_wrt (active_before sch) ?d"
      "\<forall>x\<in>set ?t. \<forall>y\<in>set ?d. active_before sch x y"
    using assms(1) sorted_wrt_append [of "active_before sch" ?t ?d] by (simp_all add: active_ok_def)
  have head: "active_before sch i (hd ?d)" if "?d \<noteq> []"
    using that hd_dropWhile [OF that] assms(2) active_before_total
    by (metis hd_in_set td(3) Un_iff set_append)
  have after: "\<forall>y\<in>set ?d. active_before sch i y"
  proof
    fix y assume "y \<in> set ?d"
    then have "?d \<noteq> []" "y = hd ?d \<or> active_before sch (hd ?d) y" using s(2) by (cases ?d; auto)+
    with head show "active_before sch i y" using active_before_trans by metis
  qed
  have pick: "length ?t < length ?a \<Longrightarrow> ?a ! length ?t = hd ?d"
    using td(2) by (metis hd_drop_conv_nth)
  have "length ?t < length ?a \<Longrightarrow> ?d \<noteq> []"
    by (metis td(2) drop_eq_Nil not_le)
  then have eq: "active_emplace i sch = sch\<lparr>sch_active_streams := ?t @ i # ?d\<rparr>"
    using head pick td by (auto simp: active_emplace_def Let_def)
  have "sorted_wrt (active_before sch) (?t @ i # ?d)"
  proof -
    have "\<forall>x\<in>set ?t. active_before sch x i" by (meson set_takeWhileD)
    with s after show ?thesis unfolding sorted_wrt_append sorted_wrt.simps by (metis set_ConsD)
  qed
  moreover have "distinct (?t @ i # ?d)"
  proof -
    have "distinct (?t @ ?d)" "i \<notin> set (?t @ ?d)" using assms td(3) by (simp_all add: active_ok_def)
    then show ?thesis by (simp only: distinct_append distinct.simps set_append list.simps(15)) auto
  qed
  ultimately have "active_ok (active_emplace i sch)"
    using assms(1) by (simp add: eq active_ok_def)
  moreover have "set (?t @ i # ?d) = insert i (set ?a)"
    using arg_cong [OF td(3), of set] by (simp only: set_append list.simps(15) Un_insert_right)
  ultimately show ?thesis using eq by blast
qed

definition same_flags :: "StreamScheduler \<Rightarrow> StreamScheduler \<Rightarrow> bool" where
  "same_flags sch sch' \<longleftrightarrow> sch_enable_message_interleaving sch' = sch_enable_message_interleaving sch \<and>
     sch_currently_sending_a_message sch' = sch_currently_sending_a_message sch"

lemma sch_update_active_ok:
  assumes "active_ok sch"
    and "j \<notin> set (sch_active_streams sch) \<or> (\<forall>s. sst_next_finish_time (f s) = sst_next_finish_time s)"
  shows "active_ok (sch_update j f sch)"
proof (rule active_ok_cong [OF assms(1)])
  show "om_ok (sch_streams (sch_update j f sch))" using assms(1) sch_update_ok active_ok_def by blast
  show "sst_next_finish_time (sch_stream i (sch_update j f sch)) = sst_next_finish_time (sch_stream i sch)"
    if "i \<in> set (sch_active_streams sch)" for i
    using assms that sch_stream_update [of sch i j f] by (auto simp: active_ok_def)
qed simp

lemma MakeActive_ok:
  assumes "active_ok sch" and "i \<notin> set (sch_active_streams sch)"
  shows "active_ok (MakeActive fl i n sch) \<and>
         set (sch_active_streams (MakeActive fl i n sch)) = insert i (set (sch_active_streams sch)) \<and>
         sch_current_stream (MakeActive fl i n sch) = sch_current_stream sch \<and> same_flags sch (MakeActive fl i n sch)"
proof -
  define sch1 where "sch1 = sch_update i (\<lambda>s. s\<lparr>sst_current_virtual_time := sch_virtual_time sch\<rparr>) sch"
  define sch2 where "sch2 = sch_update i
    (\<lambda>s. s\<lparr>sst_next_finish_time := CalculateFinishTime fl (min n (sch_max_payload_bytes sch1)) i sch1\<rparr>) sch1"
  have eq: "MakeActive fl i n sch = active_emplace i sch2"
    by (simp add: MakeActive_def Let_def sch1_def sch2_def)
  have "active_ok sch2" "i \<notin> set (sch_active_streams sch2)"
    using assms unfolding sch1_def sch2_def by (simp_all add: sch_update_active_ok)
  from active_emplace_ok [OF this] obtain active where "active_emplace i sch2 = sch2\<lparr>sch_active_streams := active\<rparr>"
      "set active = insert i (set (sch_active_streams sch2))" "active_ok (active_emplace i sch2)"
    by blast
  then show ?thesis by (simp add: eq same_flags_def) (simp add: sch1_def sch2_def)
qed

lemma MakeInactive_ok:
  assumes "active_ok sch"
  shows "active_ok (MakeInactive i sch) \<and>
         set (sch_active_streams (MakeInactive i sch)) = set (sch_active_streams sch) - {i} \<and>
         sch_current_stream (MakeInactive i sch) = sch_current_stream sch \<and> same_flags sch (MakeInactive i sch)"
proof -
  let ?f = "\<lambda>s. s\<lparr>sst_next_finish_time := 0\<rparr>"
  let ?sch = "sch\<lparr>sch_active_streams := filter (\<lambda>s. s \<noteq> i) (sch_active_streams sch)\<rparr>"
  have eq: "MakeInactive i sch = sch_update i ?f ?sch"
    by (simp add: MakeInactive_def ForceMarkInactive_def Let_def sch_update_def sch_stream_def)
  have "active_ok ?sch" using active_ok_sub [OF assms] .
  then have "active_ok (sch_update i ?f ?sch)" by (rule sch_update_active_ok) simp
  then show ?thesis by (auto simp: eq same_flags_def)
qed

section \<open>The interface to the producers\<close>

text \<open>
  The contract of \<open>StreamProducer\<close>. A producer that has bytes to send either gives a fragment or
  has none left; a fragment that does not end its message leaves the message partially sent, and
  the rest of a partially sent message is always available. Producing concerns one stream only.
\<close>

inductive skips :: "'g producer \<Rightarrow> Timestamp \<Rightarrow> nat \<Rightarrow> 'g \<Rightarrow> 'g \<Rightarrow> bool"
  for produce :: "'g producer" and now :: Timestamp and max_size :: nat where
  skips_none: "skips produce now max_size g g"
| skips_one: "\<lbrakk>produce stream_id now max_size g = (None, h); skips produce now max_size h h'\<rbrakk> \<Longrightarrow>
    skips produce now max_size g h'"

lemma SchedulerStream_Produce_None:
  "produce i now n g = (None, g') \<Longrightarrow> SchedulerStream_Produce fl produce i now n (sch, g) = (None, sch, g')"
  by (simp add: SchedulerStream_Produce_def)

lemma SchedulerStream_Produce_Some:
  assumes "produce i now n g = (Some d, g')"
  obtains f where "SchedulerStream_Produce fl produce i now n (sch, g) = (Some d, sch_update i f sch, g')"
    and "\<forall>s. sst_next_finish_time (f s) = sst_next_finish_time s"
  using assms by (simp add: SchedulerStream_Produce_def Let_def)

locale stream_producer =
  fixes produce :: "'g producer" and bytes_left :: "u16 \<Rightarrow> 'g \<Rightarrow> nat"
    and inv :: "'g \<Rightarrow> bool" and partial :: "u16 \<Rightarrow> 'g \<Rightarrow> bool"
  assumes produce_none:
      "\<lbrakk>inv g; 0 < bytes_left i g; 0 < n; produce i now n g = (None, g')\<rbrakk> \<Longrightarrow>
       inv g' \<and> bytes_left i g' = 0 \<and> \<not> partial i g \<and> \<not> partial i g'"
    and produce_some:
      "\<lbrakk>inv g; 0 < bytes_left i g; 0 < n; produce i now n g = (Some d, g')\<rbrakk> \<Longrightarrow>
       inv g' \<and> (if data_is_end (dts_data d) then \<not> partial i g' else partial i g' \<and> 0 < bytes_left i g')"
    and produce_other:
      "\<lbrakk>inv g; 0 < bytes_left i g; 0 < n; produce i now n g = (r, g'); j \<noteq> i\<rbrakk> \<Longrightarrow>
       bytes_left j g' = bytes_left j g \<and> partial j g' = partial j g"
begin

definition sends_current :: "StreamScheduler \<Rightarrow> 'g \<Rightarrow> bool" where
  "sends_current sch g \<longleftrightarrow>
     (sch_currently_sending_a_message sch \<longrightarrow>
      (\<exists>i. sch_current_stream sch = Some i \<and> partial i g \<and> 0 < bytes_left i g))"

definition scheduled :: "StreamScheduler \<times> 'g \<Rightarrow> bool" where
  "scheduled = (\<lambda>(sch, g). active_ok sch \<and> inv g \<and> sends_current sch g \<and>
     (\<forall>i. i \<in> set (sch_active_streams sch) \<longleftrightarrow> 0 < bytes_left i g))"

text \<open>Where the data comes from: the stream \<open>i\<close>, once the streams before it turned out empty.\<close>

definition produced_by :: "u16 \<Rightarrow> Timestamp \<Rightarrow> nat \<Rightarrow> DataToSend \<Rightarrow> 'g \<Rightarrow> 'g \<Rightarrow> bool" where
  "produced_by i now n d g g' \<longleftrightarrow>
     (\<exists>h. skips produce now n g h \<and> inv h \<and> 0 < bytes_left i h \<and> partial i h = partial i g \<and>
        produce i now n h = (Some d, g'))"

lemma produced_by_inv:
  assumes "produced_by i now n d g g'" and "0 < n"
  shows "inv g' \<and> (if data_is_end (dts_data d) then \<not> partial i g' else partial i g' \<and> 0 < bytes_left i g')"
  using assms produce_some unfolding produced_by_def by blast

lemma loop_scheduled:
  assumes "reschedule_loop fl produce now n active (sch, g) = (r, sch', g')"
    and "active_ok sch" and "sch_active_streams sch = active" and "inv g" and "0 < n"
    and "\<forall>i. i \<in> set active \<longleftrightarrow> 0 < bytes_left i g"
  shows "active_ok sch' \<and> same_flags sch sch' \<and> inv g' \<and>
    (case r of
       None \<Rightarrow> sch_active_streams sch' = [] \<and> (\<forall>i. bytes_left i g' = 0) \<and>
         (\<forall>i. 0 < bytes_left i g \<longrightarrow> \<not> partial i g) \<and> (\<forall>i. partial i g' = partial i g) \<and>
         skips produce now n g g'
     | Some d \<Rightarrow> \<exists>i. sch_current_stream sch' = Some i \<and> produced_by i now n d g g' \<and>
         (\<forall>j. j \<in> set (sch_active_streams sch') \<longleftrightarrow> j \<noteq> i \<and> 0 < bytes_left j g') \<and>
         (\<forall>j. j \<noteq> i \<longrightarrow> partial j g' = partial j g))"
  using assms
proof (induction active arbitrary: sch g)
  case Nil
  then show ?case by (auto simp: same_flags_def skips_none)
next
  case (Cons i active)
  define sch1 where "sch1 = ForceMarkInactive i
    (sch\<lparr>sch_current_stream := Some i, sch_active_streams := active\<rparr>)"
  have i: "i \<notin> set active" and "distinct active" and b: "0 < bytes_left i g"
    using Cons.prems(2,3,6) by (auto simp: active_ok_def)
  have "active_ok (sch\<lparr>sch_current_stream := Some i, sch_active_streams := active\<rparr>)"
    using Cons.prems(2,3) by (simp add: active_ok_def)
  then have ok1: "active_ok sch1" and a1: "sch_active_streams sch1 = active"
      "sch_current_stream sch1 = Some i" "same_flags sch sch1"
    using i unfolding sch1_def ForceMarkInactive_def by (simp_all add: sch_update_active_ok same_flags_def)
  obtain r1 g1 where p: "produce i now n g = (r1, g1)" by fastforce
  have other: "bytes_left j g1 = bytes_left j g \<and> partial j g1 = partial j g" if "j \<noteq> i" for j
    using produce_other [OF Cons.prems(4) b Cons.prems(5) p that] .
  have act: "j \<in> set active \<longleftrightarrow> j \<noteq> i \<and> 0 < bytes_left j g1" for j
    using Cons.prems(6) i other by (metis set_ConsD list.set_intros)
  show ?case
  proof (cases r1)
    case (Some d)
    have "produced_by i now n d g g1" unfolding produced_by_def
      by (intro exI [of _ g] conjI skips_none Cons.prems(4) b refl) (simp add: p Some)
    moreover obtain f where f:
        "SchedulerStream_Produce fl produce i now n (sch1, g) = (Some d, sch_update i f sch1, g1)"
        "\<forall>s. sst_next_finish_time (f s) = sst_next_finish_time s"
      using SchedulerStream_Produce_Some [of produce i now n g d g1] p Some by blast
    moreover from f(1) Cons.prems(1) have "r = Some d" "g' = g1" "sch' = sch_update i f sch1"
      by (simp_all add: sch1_def Let_def)
    ultimately show ?thesis
      using act other a1 sch_update_active_ok [OF ok1] produced_by_inv [OF _ Cons.prems(5)]
      by (simp add: same_flags_def)
  next
    case None
    have n: "inv g1" "bytes_left i g1 = 0" "\<not> partial i g" "\<not> partial i g1"
      using produce_none [OF Cons.prems(4) b Cons.prems(5)] p None by auto
    then have same: "partial j g1 = partial j g" for j using other by metis
    have "reschedule_loop fl produce now n active (sch1, g1) = (r, sch', g')"
      using Cons.prems(1) p None SchedulerStream_Produce_None [of produce i now n g g1 fl sch1]
      by (simp add: Let_def sch1_def)
    note IH = Cons.IH [OF this ok1 a1(1) n(1) Cons.prems(5)]
    have "\<forall>j. j \<in> set active \<longleftrightarrow> 0 < bytes_left j g1" using act n(2) by (metis less_irrefl)
    note IH = IH [OF this]
    have extend: "produced_by k now n d g g'" if "produced_by k now n d g1 g'" for k d
      using that skips_one p None same unfolding produced_by_def by metis
    have "same_flags sch sch'" using IH a1(3) by (simp add: same_flags_def)
    moreover have "\<forall>k. 0 < bytes_left k g \<longrightarrow> \<not> partial k g" if "\<forall>k. 0 < bytes_left k g1 \<longrightarrow> \<not> partial k g1"
      using that other n(3) by metis
    moreover have "skips produce now n g g'" if "skips produce now n g1 g'"
      using that skips_one p None by metis
    ultimately show ?thesis using IH extend same by (cases r) auto
  qed
qed

end

context stream_producer
begin

lemma keep_producing_returns:
  assumes "inv g" and "0 < bytes_left i g" and "partial i g" and "0 < n"
  obtains f d g' where "keep_producing fl produce i now n (sch, g) = Some (d, sch_update i f sch, g')"
    and "\<forall>s. sst_next_finish_time (f s) = sst_next_finish_time s" and "produced_by i now n d g g'"
    and "produce i now n g = (Some d, g')"
proof -
  obtain r g' where p: "produce i now n g = (r, g')" by fastforce
  then obtain d where d: "r = Some d"
    using produce_none [OF assms(1,2,4), of now g'] assms(3) by (cases r) auto
  have by_i: "produced_by i now n d g g'" unfolding produced_by_def
    by (intro exI [of _ g] conjI skips_none assms refl) (simp add: p d)
  obtain f where "SchedulerStream_Produce fl produce i now n (sch, g) = (Some d, sch_update i f sch, g')"
      and "\<forall>s. sst_next_finish_time (f s) = sst_next_finish_time s"
    using SchedulerStream_Produce_Some [of produce i now n g d g'] p d by blast
  with by_i that p d show ?thesis by (simp add: keep_producing.simps)
qed

lemma finish_scheduled:
  assumes "active_ok sch" and "inv g" and "finish_production fl bytes_left rescheduling i d (sch, g) = (sch', g')"
    and "\<forall>j. j \<noteq> i \<longrightarrow> (j \<in> set (sch_active_streams sch) \<longleftrightarrow> 0 < bytes_left j g)"
    and "i \<in> set (sch_active_streams sch) \<longleftrightarrow> \<not> rescheduling" and "sch_current_stream sch = Some i"
    and "\<not> data_is_end (dts_data d) \<Longrightarrow> partial i g \<and> 0 < bytes_left i g"
  shows "scheduled (sch', g) \<and> g' = g \<and> sch_current_stream sch' = Some i \<and>
    sch_currently_sending_a_message sch' = (\<not> data_is_end (dts_data d)) \<and>
    sch_enable_message_interleaving sch' = sch_enable_message_interleaving sch"
proof -
  define sch1 where "sch1 = sch\<lparr>sch_currently_sending_a_message := \<not> data_is_end (dts_data d),
    sch_virtual_time := sst_current_virtual_time (sch_stream i sch)\<rparr>"
  have ok: "active_ok sch1" using assms(1) by (simp add: sch1_def active_ok_def)
  have eq: "g' = g" "sch' = (if rescheduling \<and> bytes_left i g > 0 then MakeActive fl i (bytes_left i g) sch1
      else if \<not> rescheduling \<and> bytes_left i g = 0 then MakeInactive i sch1 else sch1)"
    using assms(3) unfolding finish_production_def Let_def sch1_def by auto
  have sch1: "sch_active_streams sch1 = sch_active_streams sch" "sch_current_stream sch1 = Some i"
      "sch_currently_sending_a_message sch1 = (\<not> data_is_end (dts_data d))"
      "sch_enable_message_interleaving sch1 = sch_enable_message_interleaving sch"
    using assms(6) by (simp_all add: sch1_def)
  have "active_ok sch' \<and> sch_current_stream sch' = sch_current_stream sch1 \<and> same_flags sch1 sch' \<and>
      (\<forall>j. j \<in> set (sch_active_streams sch') \<longleftrightarrow> 0 < bytes_left j g)"
  proof (cases "rescheduling \<longleftrightarrow> 0 < bytes_left i g")
    case True
    have i: "i \<in> set (sch_active_streams sch1) \<longleftrightarrow> \<not> rescheduling" using assms(5) sch1(1) by simp
    show ?thesis
    proof (cases rescheduling)
      case r: True
      with True have "sch' = MakeActive fl i (bytes_left i g) sch1" by (simp add: eq(2))
      with MakeActive_ok [OF ok, of i fl "bytes_left i g"] r True i assms(4) sch1(1) show ?thesis by auto
    next
      case r: False
      with True have "sch' = MakeInactive i sch1" by (simp add: eq(2))
      moreover have "j \<in> set (sch_active_streams sch) - {i} \<longleftrightarrow> 0 < bytes_left j g" for j
        using r True assms(4) by (cases "j = i") auto
      ultimately show ?thesis using MakeInactive_ok [OF ok, of i] sch1(1) by simp
    qed
  next
    case False
    then have "sch' = sch1" unfolding eq(2) by (cases rescheduling) simp_all
    moreover have "j \<in> set (sch_active_streams sch) \<longleftrightarrow> 0 < bytes_left j g" for j
      using False assms(4,5) by (cases "j = i") auto
    ultimately show ?thesis using ok sch1(1) by (simp add: same_flags_def)
  qed
  with assms(2,7) sch1 eq(1) show ?thesis by (auto simp: scheduled_def sends_current_def same_flags_def)
qed

text \<open>
  \<open>Produce\<close> returns: the loop without rescheduling is only entered with a partially sent message,
  the rest of which its stream delivers. Without interleaving, that message is continued.
\<close>

definition production ::
  "Timestamp \<Rightarrow> nat \<Rightarrow> StreamScheduler \<times> 'g \<Rightarrow> DataToSend option \<times> StreamScheduler \<times> 'g \<Rightarrow> bool" where
  "production now n = (\<lambda>(sch, g) (r, sch', g').
     scheduled (sch', g') \<and> sch_enable_message_interleaving sch' = sch_enable_message_interleaving sch \<and>
     (case r of
        None \<Rightarrow> (\<forall>i. bytes_left i g' = 0 \<and> partial i g' = partial i g) \<and>
          \<not> sch_currently_sending_a_message sch \<and> \<not> sch_currently_sending_a_message sch' \<and>
          skips produce now n g g'
      | Some d \<Rightarrow> \<exists>i. sch_current_stream sch' = Some i \<and> produced_by i now n d g g' \<and>
          sch_currently_sending_a_message sch' = (\<not> data_is_end (dts_data d)) \<and>
          (\<forall>j. j \<noteq> i \<longrightarrow> partial j g' = partial j g) \<and>
          (sch_currently_sending_a_message sch \<and> \<not> sch_enable_message_interleaving sch \<longrightarrow>
           sch_current_stream sch = Some i)))"

lemma Produce_rescheduling:
  assumes "scheduled (sch, g)" and "0 < n"
    and resched: "sch_enable_message_interleaving sch \<or> \<not> sch_currently_sending_a_message sch"
  shows "\<exists>r. StreamScheduler_Produce fl produce bytes_left now n (sch, g) = Value r \<and> production now n (sch, g) r"
proof -
  have s: "active_ok sch" "inv g" "\<forall>i. i \<in> set (sch_active_streams sch) \<longleftrightarrow> 0 < bytes_left i g" "sends_current sch g"
    using assms(1) by (simp_all add: scheduled_def)
  obtain r sch1 g1 where l: "reschedule_loop fl produce now n (sch_active_streams sch) (sch, g) = (r, sch1, g1)"
    by (metis prod_cases3)
  note loop = loop_scheduled [OF l s(1) refl s(2) assms(2) s(3)]
  show ?thesis
  proof (cases r)
    case None
    with loop s(4) have "\<not> sch_currently_sending_a_message sch"
      unfolding sends_current_def by fastforce
    with None loop l resched show ?thesis
      by (simp add: StreamScheduler_Produce_def production_def scheduled_def sends_current_def same_flags_def)
  next
    case (Some d)
    with loop obtain i where i: "sch_current_stream sch1 = Some i" "produced_by i now n d g g1"
        "\<forall>j. j \<in> set (sch_active_streams sch1) \<longleftrightarrow> j \<noteq> i \<and> 0 < bytes_left j g1"
        "\<forall>j. j \<noteq> i \<longrightarrow> partial j g1 = partial j g"
      by auto
    obtain sch' g' where f: "finish_production fl bytes_left True i d (sch1, g1) = (sch', g')" by fastforce
    have p: "\<not> data_is_end (dts_data d) \<Longrightarrow> partial i g1 \<and> 0 < bytes_left i g1"
      using produced_by_inv [OF i(2) assms(2)] by simp
    have "active_ok sch1" "inv g1" "same_flags sch sch1" using loop by simp_all
    with finish_scheduled [OF _ _ f _ _ i(1) p] i(3) have
      "scheduled (sch', g1) \<and> g' = g1 \<and> sch_current_stream sch' = Some i \<and>
       sch_currently_sending_a_message sch' = (\<not> data_is_end (dts_data d)) \<and>
       sch_enable_message_interleaving sch' = sch_enable_message_interleaving sch"
      by (simp add: same_flags_def)
    moreover have "StreamScheduler_Produce fl produce bytes_left now n (sch, g) = Value (Some d, sch', g')"
      using Some l f i(1) resched by (simp add: StreamScheduler_Produce_def)
    ultimately show ?thesis
      using i resched by (intro exI [of _ "(Some d, sch', g1)"]) (simp add: production_def, blast)
  qed
qed

lemma Produce_continuing:
  assumes "scheduled (sch, g)" and "0 < n"
    and continuing: "\<not> (sch_enable_message_interleaving sch \<or> \<not> sch_currently_sending_a_message sch)"
  shows "\<exists>r. StreamScheduler_Produce fl produce bytes_left now n (sch, g) = Value r \<and> production now n (sch, g) r"
proof -
  have s: "active_ok sch" "inv g" "\<forall>i. i \<in> set (sch_active_streams sch) \<longleftrightarrow> 0 < bytes_left i g" "sends_current sch g"
    using assms(1) by (simp_all add: scheduled_def)
  then obtain i where i: "sch_current_stream sch = Some i" "partial i g" "0 < bytes_left i g"
    using continuing by (auto simp: sends_current_def)
  obtain h d g1 where k: "keep_producing fl produce i now n (sch, g) = Some (d, sch_update i h sch, g1)"
      "\<forall>s. sst_next_finish_time (h s) = sst_next_finish_time s" "produced_by i now n d g g1"
      "produce i now n g = (Some d, g1)"
    by (rule keep_producing_returns [OF s(2) i(3,2) assms(2)])
  obtain sch' g' where f: "finish_production fl bytes_left False i d (sch_update i h sch, g1) = (sch', g')"
    by fastforce
  have other: "bytes_left j g1 = bytes_left j g \<and> partial j g1 = partial j g" if "j \<noteq> i" for j
    using produce_other [OF s(2) i(3) assms(2) k(4) that] .
  have p: "inv g1" "\<not> data_is_end (dts_data d) \<Longrightarrow> partial i g1 \<and> 0 < bytes_left i g1"
    using produced_by_inv [OF k(3) assms(2)] by simp_all
  have "active_ok (sch_update i h sch)" using sch_update_active_ok [OF s(1)] k(2) by blast
  from finish_scheduled [OF this p(1) f _ _ _ p(2)] s(3) i(1,3) other have
    "scheduled (sch', g1) \<and> g' = g1 \<and> sch_current_stream sch' = Some i \<and>
     sch_currently_sending_a_message sch' = (\<not> data_is_end (dts_data d)) \<and>
     sch_enable_message_interleaving sch' = sch_enable_message_interleaving sch"
    by simp
  moreover have "sch_active_streams sch \<noteq> []" using s(3) i(3) by fastforce
  then have "StreamScheduler_Produce fl produce bytes_left now n (sch, g) = Value (Some d, sch', g')"
    using continuing i(1) k(1) f by (simp add: StreamScheduler_Produce_def)
  ultimately show ?thesis
    using i(1) k(3) other by (intro exI [of _ "(Some d, sch', g1)"]) (simp add: production_def)
qed

lemma Produce_scheduled:
  assumes "scheduled q" and "0 < n"
  shows "\<exists>r. StreamScheduler_Produce fl produce bytes_left now n q = Value r \<and> production now n q r"
  using Produce_rescheduling [of "fst q" "snd q" n fl now] Produce_continuing [of "fst q" "snd q" n fl now] assms
  by (cases "sch_enable_message_interleaving (fst q) \<or> \<not> sch_currently_sending_a_message (fst q)") simp_all

end

end
