(* ===== verification/Send_Queue.thy ===== *)
theory Send_Queue
  imports Stream_Scheduler
begin

text \<open>
  The send queue, \<open>net/dcsctp/tx/rr_send_queue.{h,cc}\<close>: messages wait per stream, are cut into
  fragments when the scheduler asks for data, expire, and are dropped or rewound when a stream is
  reset. Its state is the scheduler and the rest of the object; the callbacks to the client are
  recorded in order.
\<close>

section \<open>State\<close>

datatype SendQueueCallback =
    OnBufferedAmountLow u16
  | OnTotalBufferedAmountLow
  | OnLifecycleMessageExpired u64 bool
  | OnLifecycleEnd u64

record MessageAttributes =
  ma_unordered :: bool
  ma_max_retransmissions :: u16
  ma_expires_at :: Timestamp
  ma_lifecycle_id :: u64

record ThresholdWatcher =
  tw_value :: nat
  tw_low_threshold :: nat

datatype PauseState = kNotPaused | kPending | kPaused | kResetting

record QueuedItem =
  qi_message_id :: u32
  qi_message :: DcSctpMessage
  qi_attributes :: MessageAttributes
  qi_remaining_offset :: nat
  qi_remaining_size :: nat
  qi_mid :: "u32 option"
  qi_ssn :: "u16 option"
  qi_current_fsn :: u32

record OutgoingStream =
  ogs_pause_state :: PauseState
  ogs_next_unordered_mid :: u32
  ogs_next_ordered_mid :: u32
  ogs_next_ssn :: u16
  ogs_items :: "QueuedItem list"
  ogs_buffered_amount :: ThresholdWatcher

record SendQueueState =
  sq_default_priority :: u16
  sq_current_message_id :: u32
  sq_total_buffered_amount :: ThresholdWatcher
  sq_streams :: "(u16, OutgoingStream) omap"
  sq_callbacks :: "SendQueueCallback list"

type_synonym RRSendQueue = "StreamScheduler \<times> SendQueueState"

record SendOptions =
  so_unordered :: bool
  so_lifetime :: "DurationMs option"
  so_max_retransmissions :: "nat option"
  so_lifecycle_id :: u64

definition QueuedItem_new :: "u32 \<Rightarrow> DcSctpMessage \<Rightarrow> MessageAttributes \<Rightarrow> QueuedItem" where
  "QueuedItem_new message_id msg attributes =
     \<lparr>qi_message_id = message_id, qi_message = msg, qi_attributes = attributes, qi_remaining_offset = 0,
      qi_remaining_size = length (msg_payload msg), qi_mid = None, qi_ssn = None, qi_current_fsn = 0\<rparr>"

section \<open>Thresholds\<close>

text \<open>Each operation tells whether \<open>on_threshold_reached\<close> is called.\<close>

definition ThresholdWatcher_Increase :: "nat \<Rightarrow> ThresholdWatcher \<Rightarrow> ThresholdWatcher" where
  "ThresholdWatcher_Increase bytes w = w\<lparr>tw_value := tw_value w + bytes\<rparr>"

definition ThresholdWatcher_Decrease :: "nat \<Rightarrow> ThresholdWatcher \<Rightarrow> bool \<times> ThresholdWatcher" where
  "ThresholdWatcher_Decrease bytes w =
     (let old_value = tw_value w;
          w = w\<lparr>tw_value := old_value - bytes\<rparr>
      in (old_value > tw_low_threshold w \<and> tw_value w \<le> tw_low_threshold w, w))"

definition ThresholdWatcher_SetLowThreshold :: "nat \<Rightarrow> ThresholdWatcher \<Rightarrow> bool \<times> ThresholdWatcher" where
  "ThresholdWatcher_SetLowThreshold low_threshold w =
     (tw_low_threshold w < tw_value w \<and> low_threshold \<ge> tw_value w, w\<lparr>tw_low_threshold := low_threshold\<rparr>)"

definition callback_if :: "bool \<Rightarrow> SendQueueCallback \<Rightarrow> SendQueueState \<Rightarrow> SendQueueState" where
  "callback_if b c g = (if b then g\<lparr>sq_callbacks := sq_callbacks g @ [c]\<rparr> else g)"

text \<open>\<open>buffered_amount_.Decrease\<close> followed by \<open>parent_.total_buffered_amount_.Decrease\<close>.\<close>

definition decrease_buffered ::
  "u16 \<Rightarrow> nat \<Rightarrow> OutgoingStream \<times> SendQueueState \<Rightarrow> OutgoingStream \<times> SendQueueState" where
  "decrease_buffered stream_id bytes = (\<lambda>(s, g).
     let (low, w) = ThresholdWatcher_Decrease bytes (ogs_buffered_amount s);
         g = callback_if low (OnBufferedAmountLow stream_id) g;
         (total_low, total) = ThresholdWatcher_Decrease bytes (sq_total_buffered_amount g)
     in (s\<lparr>ogs_buffered_amount := w\<rparr>,
         callback_if total_low OnTotalBufferedAmountLow (g\<lparr>sq_total_buffered_amount := total\<rparr>)))"

section \<open>A stream\<close>

definition OutgoingStream_new :: "HandoverOutgoingStream option \<Rightarrow> OutgoingStream" where
  "OutgoingStream_new state =
     \<lparr>ogs_pause_state = kNotPaused,
      ogs_next_unordered_mid = (case state of None \<Rightarrow> 0 | Some s \<Rightarrow> hos_next_unordered_mid s),
      ogs_next_ordered_mid = (case state of None \<Rightarrow> 0 | Some s \<Rightarrow> hos_next_ordered_mid s),
      ogs_next_ssn = (case state of None \<Rightarrow> 0 | Some s \<Rightarrow> ucast (hos_next_ssn s)),
      ogs_items = [], ogs_buffered_amount = \<lparr>tw_value = 0, tw_low_threshold = 0\<rparr>\<rparr>"

definition bytes_to_send_in_next_message :: "OutgoingStream \<Rightarrow> nat" where
  "bytes_to_send_in_next_message s =
     (if ogs_pause_state s = kPaused \<or> ogs_pause_state s = kResetting then 0
      else case ogs_items s of [] \<Rightarrow> 0 | item # _ \<Rightarrow> qi_remaining_size item)"

definition OutgoingStream_IsConsistent :: "OutgoingStream \<Rightarrow> bool" where
  "OutgoingStream_IsConsistent s \<longleftrightarrow>
     sum_list (map qi_remaining_size (ogs_items s)) = tw_value (ogs_buffered_amount s)"

definition HandleMessageExpired ::
  "u16 \<Rightarrow> QueuedItem \<Rightarrow> OutgoingStream \<times> SendQueueState \<Rightarrow> OutgoingStream \<times> SendQueueState" where
  "HandleMessageExpired stream_id item sg =
     (let (s, g) = decrease_buffered stream_id (qi_remaining_size item) sg;
          lifecycle_id = ma_lifecycle_id (qi_attributes item)
      in (s, if LifecycleId_IsSet lifecycle_id
             then g\<lparr>sq_callbacks := sq_callbacks g @
                     [OnLifecycleMessageExpired lifecycle_id False, OnLifecycleEnd lifecycle_id]\<rparr>
             else g))"

definition OutgoingStream_Add ::
  "DcSctpMessage \<Rightarrow> MessageAttributes \<Rightarrow> OutgoingStream \<times> SendQueueState \<Rightarrow> OutgoingStream \<times> SendQueueState" where
  "OutgoingStream_Add message attributes = (\<lambda>(s, g).
     (s\<lparr>ogs_buffered_amount := ThresholdWatcher_Increase (length (msg_payload message)) (ogs_buffered_amount s),
        ogs_items := ogs_items s @ [QueuedItem_new (sq_current_message_id g) message attributes]\<rparr>,
      g\<lparr>sq_total_buffered_amount :=
          ThresholdWatcher_Increase (length (msg_payload message)) (sq_total_buffered_amount g),
        sq_current_message_id := sq_current_message_id g + 1\<rparr>))"

text \<open>The turns of the loop of \<open>Produce\<close> that pass over expired messages.\<close>

fun drop_expired ::
  "u16 \<Rightarrow> Timestamp \<Rightarrow> QueuedItem list \<Rightarrow> OutgoingStream \<times> SendQueueState \<Rightarrow> OutgoingStream \<times> SendQueueState" where
  "drop_expired stream_id now [] sg = sg"
| "drop_expired stream_id now (item # items) sg =
     (if qi_mid item = None \<and> ma_expires_at (qi_attributes item) \<le> now then
        let (s, g) = HandleMessageExpired stream_id item sg
        in drop_expired stream_id now items (s\<lparr>ogs_items := items\<rparr>, g)
      else sg)"

text \<open>The message identifier and the stream sequence number are allocated with the first fragment.\<close>

definition allocate_ids :: "QueuedItem \<Rightarrow> OutgoingStream \<Rightarrow> QueuedItem \<times> OutgoingStream" where
  "allocate_ids item s =
     (let is_unordered = ma_unordered (qi_attributes item);
          (item, s) =
            (if qi_mid item = None then
               if is_unordered
               then (item\<lparr>qi_mid := Some (ogs_next_unordered_mid s)\<rparr>,
                     s\<lparr>ogs_next_unordered_mid := ogs_next_unordered_mid s + 1\<rparr>)
               else (item\<lparr>qi_mid := Some (ogs_next_ordered_mid s)\<rparr>,
                     s\<lparr>ogs_next_ordered_mid := ogs_next_ordered_mid s + 1\<rparr>)
             else (item, s))
      in if \<not> is_unordered \<and> qi_ssn item = None
         then (item\<lparr>qi_ssn := Some (ogs_next_ssn s)\<rparr>, s\<lparr>ogs_next_ssn := ogs_next_ssn s + 1\<rparr>)
         else (item, s))"

text \<open>
  The flags are computed from pointers into the payload, which is not empty: a fragment is the
  first one if it starts at offset zero and the last one if it reaches the end.
\<close>

definition next_fragment :: "nat \<Rightarrow> QueuedItem \<Rightarrow> DataToSend" where
  "next_fragment max_size item =
     (let message = qi_message item;
          chunk_payload = subview (msg_payload message) (qi_remaining_offset item) max_size;
          is_beginning = (qi_remaining_offset item = 0);
          is_end = (qi_remaining_offset item + length chunk_payload = length (msg_payload message));
          attributes = qi_attributes item
      in \<lparr>dts_message_id = qi_message_id item,
          dts_data =
            \<lparr>data_stream_id = msg_stream_id message,
             data_ssn = (case qi_ssn item of None \<Rightarrow> 0 | Some ssn \<Rightarrow> ssn),
             data_mid = (case qi_mid item of None \<Rightarrow> 0 | Some mid \<Rightarrow> mid),
             data_fsn = qi_current_fsn item, data_ppid = msg_ppid message,
             data_payload = (if is_beginning \<and> is_end then msg_payload message else chunk_payload),
             data_is_beginning = is_beginning, data_is_end = is_end,
             data_is_unordered = ma_unordered attributes\<rparr>,
          dts_max_retransmissions = ma_max_retransmissions attributes,
          dts_expires_at = ma_expires_at attributes,
          dts_lifecycle_id = (if is_end then ma_lifecycle_id attributes else 0)\<rparr>)"

definition OutgoingStream_Produce ::
  "u16 \<Rightarrow> Timestamp \<Rightarrow> nat \<Rightarrow> OutgoingStream \<times> SendQueueState \<Rightarrow>
   DataToSend option \<times> OutgoingStream \<times> SendQueueState" where
  "OutgoingStream_Produce stream_id now max_size = (\<lambda>(s, g).
     let (s, g) = drop_expired stream_id now (ogs_items s) (s, g) in
     case ogs_items s of
       [] \<Rightarrow> (None, s, g)
     | item # items \<Rightarrow>
         let (item, s) = allocate_ids item s;
             chunk = next_fragment max_size item;
             n = Data_size (dts_data chunk);
             (s, g) = decrease_buffered stream_id n (s, g)
         in (Some chunk,
             if data_is_end (dts_data chunk)
             then s\<lparr>ogs_items := items,
                    ogs_pause_state := (if ogs_pause_state s = kPending then kPaused else ogs_pause_state s)\<rparr>
             else s\<lparr>ogs_items :=
                      item\<lparr>qi_current_fsn := qi_current_fsn item + 1,
                           qi_remaining_offset := qi_remaining_offset item + n,
                           qi_remaining_size := qi_remaining_size item - n\<rparr> # items\<rparr>,
             g))"

definition has_partially_sent_message :: "OutgoingStream \<Rightarrow> bool" where
  "has_partially_sent_message s = (case ogs_items s of [] \<Rightarrow> False | item # _ \<Rightarrow> qi_mid item \<noteq> None)"

text \<open>The loop of \<open>Pause\<close>, over the items in order.\<close>

fun drop_unsent ::
  "u16 \<Rightarrow> QueuedItem list \<Rightarrow> OutgoingStream \<times> SendQueueState \<Rightarrow> QueuedItem list \<times> OutgoingStream \<times> SendQueueState" where
  "drop_unsent stream_id [] sg = ([], sg)"
| "drop_unsent stream_id (item # items) sg =
     (if qi_remaining_offset item = 0 then drop_unsent stream_id items (HandleMessageExpired stream_id item sg)
      else let (kept, sg) = drop_unsent stream_id items sg in (item # kept, sg))"

text \<open>The flag tells whether the stream is to be made inactive.\<close>

definition OutgoingStream_Pause ::
  "u16 \<Rightarrow> OutgoingStream \<times> SendQueueState \<Rightarrow> bool \<times> OutgoingStream \<times> SendQueueState" where
  "OutgoingStream_Pause stream_id = (\<lambda>(s, g).
     if ogs_pause_state s \<noteq> kNotPaused then (False, s, g)
     else
       let had_pending_items = (ogs_items s \<noteq> []);
           (items, s, g) = drop_unsent stream_id (ogs_items s) (s, g);
           s = s\<lparr>ogs_items := items,
                 ogs_pause_state :=
                   (if items = [] \<or> qi_remaining_offset (hd items) = 0 then kPaused else kPending)\<rparr>
       in (had_pending_items \<and> ogs_pause_state s = kPaused, s, g))"

text \<open>The flag tells whether the stream may become active.\<close>

definition OutgoingStream_Reset ::
  "OutgoingStream \<times> SendQueueState \<Rightarrow> bool \<times> OutgoingStream \<times> SendQueueState" where
  "OutgoingStream_Reset = (\<lambda>(s, g).
     let old_pause_state = ogs_pause_state s;
         s = s\<lparr>ogs_pause_state := kNotPaused, ogs_next_ordered_mid := 0, ogs_next_unordered_mid := 0,
               ogs_next_ssn := 0\<rparr>
     in case ogs_items s of
          [] \<Rightarrow> (False, s, g)
        | item # items \<Rightarrow>
            let sent = length (msg_payload (qi_message item)) - qi_remaining_size item;
                s = s\<lparr>ogs_buffered_amount := ThresholdWatcher_Increase sent (ogs_buffered_amount s),
                      ogs_items :=
                        item\<lparr>qi_remaining_offset := 0,
                             qi_remaining_size := length (msg_payload (qi_message item)),
                             qi_mid := None, qi_ssn := None, qi_current_fsn := 0\<rparr> # items\<rparr>;
                g = g\<lparr>sq_total_buffered_amount := ThresholdWatcher_Increase sent (sq_total_buffered_amount g)\<rparr>
            in (old_pause_state = kPaused \<or> old_pause_state = kResetting, s, g))"

section \<open>The queue\<close>

definition RRSendQueue_new :: "nat \<Rightarrow> u16 \<Rightarrow> nat \<Rightarrow> RRSendQueue" where
  "RRSendQueue_new mtu default_priority total_buffered_amount_low_threshold =
     (StreamScheduler_new mtu,
      \<lparr>sq_default_priority = default_priority, sq_current_message_id = 0,
       sq_total_buffered_amount = \<lparr>tw_value = 0, tw_low_threshold = total_buffered_amount_low_threshold\<rparr>,
       sq_streams = [], sq_callbacks = []\<rparr>)"

definition sq_stream :: "u16 \<Rightarrow> SendQueueState \<Rightarrow> OutgoingStream" where
  "sq_stream stream_id g = om_at (OutgoingStream_new None) stream_id (sq_streams g)"

definition sq_store :: "u16 \<Rightarrow> OutgoingStream \<times> SendQueueState \<Rightarrow> SendQueueState" where
  "sq_store stream_id = (\<lambda>(s, g). g\<lparr>sq_streams := om_insert stream_id s (sq_streams g)\<rparr>)"

definition bytes_to_send :: "u16 \<Rightarrow> SendQueueState \<Rightarrow> nat" where
  "bytes_to_send stream_id g = bytes_to_send_in_next_message (sq_stream stream_id g)"

definition GetOrCreateStreamInfo :: "(rat \<Rightarrow> rat) \<Rightarrow> u16 \<Rightarrow> RRSendQueue \<Rightarrow> RRSendQueue" where
  "GetOrCreateStreamInfo fl stream_id = (\<lambda>(sch, g).
     if om_find (sq_streams g) stream_id \<noteq> None then (sch, g)
     else (CreateStream fl stream_id (sq_default_priority g) sch,
           sq_store stream_id (OutgoingStream_new None, g)))"

definition RRSendQueue_Add ::
  "(rat \<Rightarrow> rat) \<Rightarrow> Timestamp \<Rightarrow> DcSctpMessage \<Rightarrow> SendOptions \<Rightarrow> RRSendQueue \<Rightarrow> RRSendQueue" where
  "RRSendQueue_Add fl now message send_options q =
     (let attributes =
            \<lparr>ma_unordered = so_unordered send_options,
             ma_max_retransmissions =
               (case so_max_retransmissions send_options of Some n \<Rightarrow> of_nat n | None \<Rightarrow> MaxRetransmits_NoLimit),
             ma_expires_at =
               (case so_lifetime send_options of
                  Some lifetime \<Rightarrow> unit_plus (unit_plus now (ToTimeDelta lifetime)) (Millis 1)
                | None \<Rightarrow> PlusInfinity),
             ma_lifecycle_id = so_lifecycle_id send_options\<rparr>;
          stream_id = msg_stream_id message;
          (sch, g) = GetOrCreateStreamInfo fl stream_id q;
          was_active = (bytes_to_send stream_id g > 0);
          g = sq_store stream_id (OutgoingStream_Add message attributes (sq_stream stream_id g, g))
      in (if \<not> was_active then MaybeMakeActive fl stream_id (bytes_to_send stream_id g) sch else sch, g))"

definition IsEmpty :: "RRSendQueue \<Rightarrow> bool" where
  "IsEmpty q \<longleftrightarrow> tw_value (sq_total_buffered_amount (snd q)) = 0"

definition produce_from :: "SendQueueState producer" where
  "produce_from stream_id now max_size g =
     (let (data, sg) = OutgoingStream_Produce stream_id now max_size (sq_stream stream_id g, g)
      in (data, sq_store stream_id sg))"

definition RRSendQueue_Produce ::
  "(rat \<Rightarrow> rat) \<Rightarrow> Timestamp \<Rightarrow> nat \<Rightarrow> RRSendQueue \<Rightarrow> (DataToSend option \<times> RRSendQueue) outcome" where
  "RRSendQueue_Produce fl = StreamScheduler_Produce fl produce_from bytes_to_send"

definition RRSendQueue_Discard :: "(rat \<Rightarrow> rat) \<Rightarrow> u16 \<Rightarrow> u32 \<Rightarrow> RRSendQueue \<Rightarrow> bool \<times> RRSendQueue" where
  "RRSendQueue_Discard fl stream_id message_id q =
     (let (sch, g) = GetOrCreateStreamInfo fl stream_id q;
          s = sq_stream stream_id g
      in case ogs_items s of
           [] \<Rightarrow> (False, sch, g)
         | item # items \<Rightarrow>
             if qi_message_id item \<noteq> message_id then (False, sch, g)
             else
               let (s, g) = HandleMessageExpired stream_id item (s, g);
                   s = s\<lparr>ogs_items := items\<rparr>;
                   sch = ForceReschedule sch
               in if ogs_pause_state s = kPending
                  then (True, MakeInactive stream_id sch, sq_store stream_id (s\<lparr>ogs_pause_state := kPaused\<rparr>, g))
                  else
                    (True, if bytes_to_send_in_next_message s = 0 then MakeInactive stream_id sch else sch,
                     sq_store stream_id (s, g)))"

definition RRSendQueue_PrepareResetStream :: "(rat \<Rightarrow> rat) \<Rightarrow> u16 \<Rightarrow> RRSendQueue \<Rightarrow> RRSendQueue" where
  "RRSendQueue_PrepareResetStream fl stream_id q =
     (let (sch, g) = GetOrCreateStreamInfo fl stream_id q;
          (inactive, sg) = OutgoingStream_Pause stream_id (sq_stream stream_id g, g)
      in (if inactive then MakeInactive stream_id sch else sch, sq_store stream_id sg))"

definition HasStreamsReadyToBeReset :: "RRSendQueue \<Rightarrow> bool" where
  "HasStreamsReadyToBeReset q = list_ex (\<lambda>p. ogs_pause_state (snd p) = kPaused) (sq_streams (snd q))"

definition GetStreamsReadyToBeReset :: "RRSendQueue \<Rightarrow> u16 list \<times> RRSendQueue" where
  "GetStreamsReadyToBeReset = (\<lambda>(sch, g).
     (map fst (filter (\<lambda>p. ogs_pause_state (snd p) = kPaused) (sq_streams g)), sch,
      g\<lparr>sq_streams :=
          map (\<lambda>(stream_id, s).
                 (stream_id, if ogs_pause_state s = kPaused then s\<lparr>ogs_pause_state := kResetting\<rparr> else s))
            (sq_streams g)\<rparr>))"

definition reset_outgoing :: "(rat \<Rightarrow> rat) \<Rightarrow> u16 \<Rightarrow> RRSendQueue \<Rightarrow> RRSendQueue" where
  "reset_outgoing fl stream_id = (\<lambda>(sch, g).
     let (active, sg) = OutgoingStream_Reset (sq_stream stream_id g, g);
         g = sq_store stream_id sg
     in (if active then MaybeMakeActive fl stream_id (bytes_to_send stream_id g) sch else sch, g))"

definition resume_outgoing :: "(rat \<Rightarrow> rat) \<Rightarrow> u16 \<Rightarrow> RRSendQueue \<Rightarrow> RRSendQueue" where
  "resume_outgoing fl stream_id = (\<lambda>(sch, g).
     let g = sq_store stream_id ((sq_stream stream_id g)\<lparr>ogs_pause_state := kNotPaused\<rparr>, g)
     in (MaybeMakeActive fl stream_id (bytes_to_send stream_id g) sch, g))"

definition resetting_streams :: "SendQueueState \<Rightarrow> u16 list" where
  "resetting_streams g = map fst (filter (\<lambda>p. ogs_pause_state (snd p) = kResetting) (sq_streams g))"

definition CommitResetStreams :: "(rat \<Rightarrow> rat) \<Rightarrow> RRSendQueue \<Rightarrow> RRSendQueue" where
  "CommitResetStreams fl q = fold (reset_outgoing fl) (resetting_streams (snd q)) q"

definition RollbackResetStreams :: "(rat \<Rightarrow> rat) \<Rightarrow> RRSendQueue \<Rightarrow> RRSendQueue" where
  "RollbackResetStreams fl q = fold (resume_outgoing fl) (resetting_streams (snd q)) q"

definition RRSendQueue_Reset :: "(rat \<Rightarrow> rat) \<Rightarrow> RRSendQueue \<Rightarrow> RRSendQueue" where
  "RRSendQueue_Reset fl q =
     (let (sch, g) = fold (reset_outgoing fl) (map fst (sq_streams (snd q))) q
      in (ForceReschedule sch, g))"

definition buffered_amount :: "u16 \<Rightarrow> RRSendQueue \<Rightarrow> nat" where
  "buffered_amount stream_id q =
     (case om_find (sq_streams (snd q)) stream_id of None \<Rightarrow> 0 | Some s \<Rightarrow> tw_value (ogs_buffered_amount s))"

definition SetBufferedAmountLowThreshold :: "(rat \<Rightarrow> rat) \<Rightarrow> u16 \<Rightarrow> nat \<Rightarrow> RRSendQueue \<Rightarrow> RRSendQueue" where
  "SetBufferedAmountLowThreshold fl stream_id bytes q =
     (let (sch, g) = GetOrCreateStreamInfo fl stream_id q;
          s = sq_stream stream_id g;
          (reached, w) = ThresholdWatcher_SetLowThreshold bytes (ogs_buffered_amount s)
      in (sch, sq_store stream_id (s\<lparr>ogs_buffered_amount := w\<rparr>,
                 callback_if reached (OnBufferedAmountLow stream_id) g)))"

definition RRSendQueue_EnableMessageInterleaving :: "bool \<Rightarrow> RRSendQueue \<Rightarrow> RRSendQueue" where
  "RRSendQueue_EnableMessageInterleaving enabled = (\<lambda>(sch, g).
     (StreamScheduler_EnableMessageInterleaving enabled sch, g))"

definition SetStreamPriority :: "(rat \<Rightarrow> rat) \<Rightarrow> u16 \<Rightarrow> u16 \<Rightarrow> RRSendQueue \<Rightarrow> RRSendQueue" where
  "SetStreamPriority fl stream_id priority q =
     (let (sch, g) = GetOrCreateStreamInfo fl stream_id q
      in (SchedulerStream_SetPriority fl stream_id priority sch, g))"

definition RRSendQueue_IsConsistent :: "RRSendQueue \<Rightarrow> bool" where
  "RRSendQueue_IsConsistent = (\<lambda>(sch, g).
     {stream_id. \<exists>s. (stream_id, s) \<in> set (sq_streams g) \<and> bytes_to_send_in_next_message s > 0} =
       ActiveStreamsForTesting sch \<and>
     sum_list (map (\<lambda>p. tw_value (ogs_buffered_amount (snd p))) (sq_streams g)) =
       tw_value (sq_total_buffered_amount g))"

section \<open>Handover\<close>

definition RRSendQueue_GetHandoverReadiness :: "RRSendQueue \<Rightarrow> HandoverReadinessStatus" where
  "RRSendQueue_GetHandoverReadiness q =
     (if \<not> IsEmpty q then HandoverReadinessStatus_Add kSendQueueNotEmpty HandoverReadinessStatus_none
      else HandoverReadinessStatus_none)"

definition RRSendQueue_AddHandoverState ::
  "RRSendQueue \<Rightarrow> DcSctpSocketHandoverState \<Rightarrow> DcSctpSocketHandoverState" where
  "RRSendQueue_AddHandoverState = (\<lambda>(sch, g) state.
     state\<lparr>hs_tx := (hs_tx state)\<lparr>ht_streams := ht_streams (hs_tx state) @
       map (\<lambda>(stream_id, s).
              \<lparr>hos_id = ucast stream_id, hos_next_ssn = ucast (ogs_next_ssn s),
               hos_next_unordered_mid = ogs_next_unordered_mid s,
               hos_next_ordered_mid = ogs_next_ordered_mid s,
               hos_priority = sst_priority (sch_stream stream_id sch)\<rparr>)
         (sq_streams g)\<rparr>\<rparr>)"

definition restore_outgoing :: "(rat \<Rightarrow> rat) \<Rightarrow> HandoverOutgoingStream \<Rightarrow> RRSendQueue \<Rightarrow> RRSendQueue" where
  "restore_outgoing fl state_stream = (\<lambda>(sch, g).
     let stream_id = ucast (hos_id state_stream) in
     if om_find (sq_streams g) stream_id \<noteq> None then (sch, g)
     else (CreateStream fl stream_id (hos_priority state_stream) sch,
           sq_store stream_id (OutgoingStream_new (Some state_stream), g)))"

definition RRSendQueue_RestoreFromState ::
  "(rat \<Rightarrow> rat) \<Rightarrow> DcSctpSocketHandoverState \<Rightarrow> RRSendQueue \<Rightarrow> RRSendQueue" where
  "RRSendQueue_RestoreFromState fl state = fold (restore_outgoing fl) (ht_streams (hs_tx state))"

definition buffered_amount_low_threshold :: "u16 \<Rightarrow> RRSendQueue \<Rightarrow> nat" where
  "buffered_amount_low_threshold stream_id q =
     (case om_find (sq_streams (snd q)) stream_id of None \<Rightarrow> 0 | Some s \<Rightarrow> tw_low_threshold (ogs_buffered_amount s))"

definition GetStreamPriority :: "u16 \<Rightarrow> RRSendQueue \<Rightarrow> u16" where
  "GetStreamPriority stream_id = (\<lambda>(sch, g).
     case om_find (sq_streams g) stream_id of
       None \<Rightarrow> sq_default_priority g
     | Some _ \<Rightarrow> sst_priority (sch_stream stream_id sch))"

section \<open>Well-formed streams\<close>

text \<open>
  Only the first message of a stream can be partially sent; a stream with a pause pending is in the
  middle of a message, and one that is paused is not.
\<close>

definition unsent :: "QueuedItem \<Rightarrow> bool" where
  "unsent item \<longleftrightarrow> qi_mid item = None \<and> qi_ssn item = None \<and> qi_remaining_offset item = 0 \<and> qi_current_fsn item = 0"

definition started :: "QueuedItem \<Rightarrow> bool" where
  "started item \<longleftrightarrow> qi_mid item \<noteq> None \<and> 0 < qi_remaining_offset item \<and>
     (qi_ssn item = None \<longleftrightarrow> ma_unordered (qi_attributes item))"

definition item_ok :: "u16 \<Rightarrow> QueuedItem \<Rightarrow> bool" where
  "item_ok stream_id item \<longleftrightarrow> msg_stream_id (qi_message item) = stream_id \<and> 0 < qi_remaining_size item \<and>
     qi_remaining_offset item + qi_remaining_size item = length (msg_payload (qi_message item))"

definition items_ok :: "u16 \<Rightarrow> QueuedItem list \<Rightarrow> bool" where
  "items_ok stream_id items \<longleftrightarrow> (\<forall>item\<in>set items. item_ok stream_id item) \<and>
     (\<forall>item\<in>set (tl items). unsent item) \<and> (items = [] \<or> unsent (hd items) \<or> started (hd items))"

definition ogs_ok :: "u16 \<Rightarrow> OutgoingStream \<Rightarrow> bool" where
  "ogs_ok stream_id s \<longleftrightarrow> items_ok stream_id (ogs_items s) \<and> OutgoingStream_IsConsistent s \<and>
     (ogs_pause_state s = kPending \<longrightarrow> has_partially_sent_message s) \<and>
     (ogs_pause_state s \<in> {kPaused, kResetting} \<longrightarrow> \<not> has_partially_sent_message s)"

definition queued_bytes :: "QueuedItem list \<Rightarrow> nat" where
  "queued_bytes items = sum_list (map qi_remaining_size items)"

definition ogs_value :: "OutgoingStream \<Rightarrow> nat" where
  "ogs_value s = tw_value (ogs_buffered_amount s)"

definition sq_total :: "SendQueueState \<Rightarrow> nat" where
  "sq_total g = tw_value (sq_total_buffered_amount g)"

lemma queued_bytes_simps [simp]:
  "queued_bytes [] = 0" "queued_bytes (item # items) = qi_remaining_size item + queued_bytes items"
  "queued_bytes (items @ items') = queued_bytes items + queued_bytes items'"
  by (simp_all add: queued_bytes_def)

lemma queued_bytes_split: "queued_bytes (take k items) + queued_bytes (drop k items) = queued_bytes items"
  by (metis append_take_drop_id queued_bytes_simps(3))

lemma ogs_value_consistent: "OutgoingStream_IsConsistent s \<longleftrightarrow> ogs_value s = queued_bytes (ogs_items s)"
  by (auto simp: OutgoingStream_IsConsistent_def ogs_value_def queued_bytes_def)

lemma items_ok_Nil [simp]: "items_ok i []"
  by (simp add: items_ok_def)

lemma items_ok_Cons:
  "items_ok i (item # items) \<longleftrightarrow> item_ok i item \<and> (unsent item \<or> started item) \<and>
     (\<forall>x\<in>set items. item_ok i x \<and> unsent x)"
  by (auto simp: items_ok_def)

lemma items_ok_unsent: "(\<forall>x\<in>set items. item_ok i x \<and> unsent x) \<Longrightarrow> items_ok i items"
  by (cases items) (simp_all add: items_ok_Cons)

lemma items_ok_tl: "items_ok i (item # items) \<Longrightarrow> items_ok i items"
  by (simp add: items_ok_Cons items_ok_unsent)

lemma items_ok_drop: "items_ok i items \<Longrightarrow> items_ok i (drop k items)"
proof (induction items arbitrary: k)
  case (Cons item items)
  then show ?case using items_ok_tl by (cases k) auto
qed simp

section \<open>Charging bytes\<close>

definition stream_charge :: "nat \<Rightarrow> OutgoingStream \<Rightarrow> OutgoingStream" where
  "stream_charge n s = s\<lparr>ogs_buffered_amount := (ogs_buffered_amount s)\<lparr>tw_value := ogs_value s - n\<rparr>\<rparr>"

definition queue_charge :: "nat \<Rightarrow> SendQueueCallback list \<Rightarrow> SendQueueState \<Rightarrow> SendQueueState" where
  "queue_charge n cs g =
     g\<lparr>sq_total_buffered_amount := (sq_total_buffered_amount g)\<lparr>tw_value := sq_total g - n\<rparr>,
       sq_callbacks := sq_callbacks g @ cs\<rparr>"

lemma stream_charge_simps [simp]:
  "ogs_value (stream_charge n s) = ogs_value s - n" "ogs_items (stream_charge n s) = ogs_items s"
  "ogs_pause_state (stream_charge n s) = ogs_pause_state s" "ogs_next_ssn (stream_charge n s) = ogs_next_ssn s"
  "ogs_next_ordered_mid (stream_charge n s) = ogs_next_ordered_mid s"
  "ogs_next_unordered_mid (stream_charge n s) = ogs_next_unordered_mid s"
  "stream_charge m (stream_charge n s) = stream_charge (n + m) s" "stream_charge 0 s = s"
  by (simp_all add: stream_charge_def ogs_value_def)

lemma stream_charge_items: "stream_charge n (s\<lparr>ogs_items := items\<rparr>) = (stream_charge n s)\<lparr>ogs_items := items\<rparr>"
  by (simp add: stream_charge_def ogs_value_def)

lemma queue_charge_simps [simp]:
  "sq_total (queue_charge n cs g) = sq_total g - n" "sq_streams (queue_charge n cs g) = sq_streams g"
  "sq_default_priority (queue_charge n cs g) = sq_default_priority g"
  "sq_current_message_id (queue_charge n cs g) = sq_current_message_id g"
  "queue_charge m ds (queue_charge n cs g) = queue_charge (n + m) (cs @ ds) g" "queue_charge 0 [] g = g"
  by (simp_all add: queue_charge_def sq_total_def)

lemma callback_if_eq: "callback_if b c g = g\<lparr>sq_callbacks := sq_callbacks g @ (if b then [c] else [])\<rparr>"
  by (simp add: callback_if_def)

lemma decrease_buffered_eq:
  "\<exists>cs. decrease_buffered i n (s, g) = (stream_charge n s, queue_charge n cs g)"
  by (cases g) (simp add: decrease_buffered_def ThresholdWatcher_Decrease_def callback_if_eq stream_charge_def
      queue_charge_def ogs_value_def sq_total_def Let_def)

lemma HandleMessageExpired_eq:
  "\<exists>cs. HandleMessageExpired i item (s, g) =
     (stream_charge (qi_remaining_size item) s, queue_charge (qi_remaining_size item) cs g)"
proof -
  let ?n = "qi_remaining_size item"
  obtain cs where "decrease_buffered i ?n (s, g) = (stream_charge ?n s, queue_charge ?n cs g)"
    using decrease_buffered_eq by blast
  then show ?thesis
    by (auto simp: HandleMessageExpired_def Let_def queue_charge_def
        intro: exI [of _ "cs @ [OnLifecycleMessageExpired (ma_lifecycle_id (qi_attributes item)) False,
          OnLifecycleEnd (ma_lifecycle_id (qi_attributes item))]"])
qed

lemma drop_expired_eq:
  assumes "ogs_items s = items"
  shows "\<exists>k cs. k \<le> length items \<and> (\<forall>x\<in>set (take k items). qi_mid x = None \<and> ma_expires_at (qi_attributes x) \<le> now) \<and>
    drop_expired i now items (s, g) =
      ((stream_charge (queued_bytes (take k items)) s)\<lparr>ogs_items := drop k items\<rparr>,
       queue_charge (queued_bytes (take k items)) cs g)"
  using assms
proof (induction items arbitrary: s g)
  case Nil
  then show ?case by (intro exI [of _ 0] exI [of _ "[]"]) simp
next
  case (Cons item items)
  show ?case
  proof (cases "qi_mid item = None \<and> ma_expires_at (qi_attributes item) \<le> now")
    case False
    then have "drop_expired i now (item # items) (s, g) = (s, g)" by (simp only: drop_expired.simps if_False)
    then show ?thesis using Cons.prems by (intro exI [of _ 0] exI [of _ "[]"]) simp
  next
    case True
    let ?n = "qi_remaining_size item" and ?s = "(stream_charge (qi_remaining_size item) s)\<lparr>ogs_items := items\<rparr>"
    obtain cs where e: "HandleMessageExpired i item (s, g) = (stream_charge ?n s, queue_charge ?n cs g)"
      using HandleMessageExpired_eq by blast
    obtain k ds where IH: "k \<le> length items" "\<forall>x\<in>set (take k items). qi_mid x = None \<and> ma_expires_at (qi_attributes x) \<le> now"
        "drop_expired i now items (?s, queue_charge ?n cs g) =
          ((stream_charge (queued_bytes (take k items)) ?s)\<lparr>ogs_items := drop k items\<rparr>,
           queue_charge (queued_bytes (take k items)) ds (queue_charge ?n cs g))"
      using Cons.IH [of ?s "queue_charge ?n cs g"] by auto
    show ?thesis using True e IH
      by (intro exI [of _ "Suc k"] exI [of _ "cs @ ds"]) (simp add: stream_charge_items)
  qed
qed

section \<open>Producing from a stream\<close>

lemma allocate_ids_item:
  assumes "allocate_ids item s = (item', s')"
  shows "qi_message item' = qi_message item \<and> qi_attributes item' = qi_attributes item \<and>
    qi_message_id item' = qi_message_id item \<and> qi_remaining_offset item' = qi_remaining_offset item \<and>
    qi_remaining_size item' = qi_remaining_size item \<and> qi_current_fsn item' = qi_current_fsn item \<and>
    qi_mid item' \<noteq> None \<and>
    (unsent item \<or> started item \<longrightarrow> (qi_ssn item' = None \<longleftrightarrow> ma_unordered (qi_attributes item)))"
  using assms by (auto simp: allocate_ids_def Let_def unsent_def started_def split: if_splits)

lemma allocate_ids_stream:
  assumes "allocate_ids item s = (item', s')"
  shows "ogs_items s' = ogs_items s \<and> ogs_pause_state s' = ogs_pause_state s \<and>
    ogs_buffered_amount s' = ogs_buffered_amount s \<and> ogs_value s' = ogs_value s"
  using assms by (auto simp: allocate_ids_def Let_def ogs_value_def split: if_splits)

lemma allocate_ids_unsent:
  "unsent item \<Longrightarrow> \<not> ma_unordered (qi_attributes item) \<Longrightarrow>
   allocate_ids item s = (item\<lparr>qi_mid := Some (ogs_next_ordered_mid s), qi_ssn := Some (ogs_next_ssn s)\<rparr>,
     s\<lparr>ogs_next_ordered_mid := ogs_next_ordered_mid s + 1, ogs_next_ssn := ogs_next_ssn s + 1\<rparr>)"
  by (simp add: allocate_ids_def unsent_def Let_def)

lemma allocate_ids_started: "started item \<Longrightarrow> allocate_ids item s = (item, s)"
  by (auto simp: allocate_ids_def started_def Let_def)

lemma next_fragment_data:
  assumes "item_ok i item"
  shows "data_payload (dts_data (next_fragment n item)) =
      take n (drop (qi_remaining_offset item) (msg_payload (qi_message item)))"
    and "Data_size (dts_data (next_fragment n item)) = min n (qi_remaining_size item)"
    and "data_is_end (dts_data (next_fragment n item)) \<longleftrightarrow> qi_remaining_size item \<le> n"
    and "data_is_beginning (dts_data (next_fragment n item)) \<longleftrightarrow> qi_remaining_offset item = 0"
proof -
  let ?p = "msg_payload (qi_message item)"
  have l: "length ?p - qi_remaining_offset item = qi_remaining_size item"
      "qi_remaining_offset item + qi_remaining_size item = length ?p"
    using assms by (auto simp: item_ok_def)
  have e: "length (take n (drop (qi_remaining_offset item) ?p)) = min n (qi_remaining_size item)"
    using l by simp
  show p: "data_payload (dts_data (next_fragment n item)) = take n (drop (qi_remaining_offset item) ?p)"
    using e l by (auto simp: next_fragment_def Let_def)
  show "Data_size (dts_data (next_fragment n item)) = min n (qi_remaining_size item)"
    using p e by (simp add: Data_size_def)
  show "data_is_end (dts_data (next_fragment n item)) \<longleftrightarrow> qi_remaining_size item \<le> n"
    using e l by (auto simp: next_fragment_def Let_def min_def)
  show "data_is_beginning (dts_data (next_fragment n item)) \<longleftrightarrow> qi_remaining_offset item = 0"
    by (simp add: next_fragment_def Let_def)
qed

text \<open>The first message of a stream after it has given its next fragment \<open>d\<close>.\<close>

definition advance_item :: "DataToSend \<Rightarrow> QueuedItem \<Rightarrow> QueuedItem" where
  "advance_item d item = item\<lparr>qi_current_fsn := qi_current_fsn item + 1,
     qi_remaining_offset := qi_remaining_offset item + Data_size (dts_data d),
     qi_remaining_size := qi_remaining_size item - Data_size (dts_data d)\<rparr>"

definition after_fragment :: "DataToSend \<Rightarrow> QueuedItem \<Rightarrow> QueuedItem list \<Rightarrow> OutgoingStream \<Rightarrow> OutgoingStream" where
  "after_fragment d item items s =
     (if data_is_end (dts_data d)
      then s\<lparr>ogs_items := items,
             ogs_pause_state := (if ogs_pause_state s = kPending then kPaused else ogs_pause_state s)\<rparr>
      else s\<lparr>ogs_items := advance_item d item # items\<rparr>)"

lemma OutgoingStream_Produce_cases:
  assumes "OutgoingStream_Produce i now n (s, g) = (r, s', g')"
  obtains
    (none) cs where "r = None" and "\<forall>x\<in>set (ogs_items s). qi_mid x = None \<and> ma_expires_at (qi_attributes x) \<le> now"
      and "s' = (stream_charge (queued_bytes (ogs_items s)) s)\<lparr>ogs_items := []\<rparr>"
      and "g' = queue_charge (queued_bytes (ogs_items s)) cs g"
  | (some) k item s1 d cs where "k < length (ogs_items s)" and "\<forall>x\<in>set (take k (ogs_items s)). qi_mid x = None \<and> ma_expires_at (qi_attributes x) \<le> now"
      and "allocate_ids (ogs_items s ! k) s = (item, s1)" and "d = next_fragment n item" and "r = Some d"
      and "s' = after_fragment d item (drop (Suc k) (ogs_items s))
             (stream_charge (queued_bytes (take k (ogs_items s)) + Data_size (dts_data d)) s1)"
      and "g' = queue_charge (queued_bytes (take k (ogs_items s)) + Data_size (dts_data d)) cs g"
proof -
  let ?items = "ogs_items s"
  obtain k cs where k: "k \<le> length ?items" "\<forall>x\<in>set (take k ?items). qi_mid x = None \<and> ma_expires_at (qi_attributes x) \<le> now"
      "drop_expired i now ?items (s, g) =
        ((stream_charge (queued_bytes (take k ?items)) s)\<lparr>ogs_items := drop k ?items\<rparr>,
         queue_charge (queued_bytes (take k ?items)) cs g)"
    using drop_expired_eq [OF refl] by blast
  show ?thesis
  proof (cases "k = length ?items")
    case True
    with assms k(2,3) show ?thesis by (intro none [of cs]) (simp_all add: OutgoingStream_Produce_def)
  next
    case False
    let ?s = "(stream_charge (queued_bytes (take k ?items)) s)\<lparr>ogs_items := drop k ?items\<rparr>"
    have c: "drop k ?items = ?items ! k # drop (Suc k) ?items" using False k(1) by (simp add: Cons_nth_drop_Suc)
    obtain item s1 where a: "allocate_ids (?items ! k) s = (item, s1)" by fastforce
    then have a': "allocate_ids (?items ! k) ?s =
        (item, (stream_charge (queued_bytes (take k ?items)) s1)\<lparr>ogs_items := drop k ?items\<rparr>)"
      by (auto simp: allocate_ids_def Let_def stream_charge_def ogs_value_def split: if_splits)
    define d where "d = next_fragment n item"
    obtain ds where dec: "decrease_buffered i (Data_size (dts_data d))
        ((stream_charge (queued_bytes (take k ?items)) s1)\<lparr>ogs_items := drop k ?items\<rparr>,
         queue_charge (queued_bytes (take k ?items)) cs g) =
        (stream_charge (Data_size (dts_data d)) ((stream_charge (queued_bytes (take k ?items)) s1)\<lparr>ogs_items := drop k ?items\<rparr>),
         queue_charge (Data_size (dts_data d)) ds (queue_charge (queued_bytes (take k ?items)) cs g))"
      using decrease_buffered_eq by blast
    have "OutgoingStream_Produce i now n (s, g) =
      (Some d, after_fragment d item (drop (Suc k) ?items)
         (stream_charge (queued_bytes (take k ?items) + Data_size (dts_data d)) s1),
       queue_charge (queued_bytes (take k ?items) + Data_size (dts_data d)) (cs @ ds) g)"
      using k(3) c a' dec
      by (simp add: OutgoingStream_Produce_def d_def after_fragment_def advance_item_def stream_charge_items Let_def)
    with assms some [of k item s1 d "cs @ ds"] False k a d_def show ?thesis by simp
  qed
qed

lemma unsent_not_started: "unsent item \<Longrightarrow> \<not> started item"
  by (simp add: unsent_def started_def)

lemma has_partially_Cons:
  "ogs_items s = item # items \<Longrightarrow> has_partially_sent_message s \<longleftrightarrow> qi_mid item \<noteq> None"
  by (simp add: has_partially_sent_message_def)

lemma items_ok_at:
  assumes "items_ok i items" and "k < length items"
  shows "item_ok i (items ! k) \<and> (unsent (items ! k) \<or> started (items ! k)) \<and>
         (\<forall>x\<in>set (drop (Suc k) items). item_ok i x \<and> unsent x)"
  using items_ok_drop [OF assms(1), of k] assms(2) by (simp add: Cons_nth_drop_Suc [symmetric] items_ok_Cons)

lemma unsent_no_partial:
  "\<forall>x\<in>set (ogs_items s). unsent x \<Longrightarrow> \<not> has_partially_sent_message s"
  by (cases "ogs_items s") (auto simp: has_partially_sent_message_def unsent_def)

text \<open>What an operation on a stream owes to the totals of the queue.\<close>

definition balanced :: "OutgoingStream \<times> SendQueueState \<Rightarrow> OutgoingStream \<times> SendQueueState \<Rightarrow> bool" where
  "balanced = (\<lambda>(s, g) (s', g'). sq_streams g' = sq_streams g \<and> sq_total g' + ogs_value s = sq_total g + ogs_value s')"

lemma balanced_charge:
  assumes "n \<le> ogs_value s" and "ogs_value s \<le> sq_total g" and "ogs_value s' = ogs_value s - n"
  shows "balanced (s, g) (s', queue_charge n cs g)"
  using assms by (simp add: balanced_def)

lemma advance_item_ok:
  assumes "item_ok i item" and "d = next_fragment n item" and "\<not> data_is_end (dts_data d)" and "0 < n"
    and "qi_mid item \<noteq> None" and "qi_ssn item = None \<longleftrightarrow> ma_unordered (qi_attributes item)"
  shows "item_ok i (advance_item d item) \<and> started (advance_item d item) \<and>
    qi_remaining_size (advance_item d item) = qi_remaining_size item - Data_size (dts_data d) \<and>
    Data_size (dts_data d) < qi_remaining_size item"
proof -
  have "Data_size (dts_data d) = min n (qi_remaining_size item)" "n < qi_remaining_size item"
    using assms(2,3) next_fragment_data(2,3) [OF assms(1)] by auto
  with assms show ?thesis by (auto simp: advance_item_def item_ok_def started_def)
qed

lemma OutgoingStream_Produce_ok:
  assumes "ogs_ok i s" and "0 < bytes_to_send_in_next_message s" and "ogs_value s \<le> sq_total g" and "0 < n"
    and "OutgoingStream_Produce i now n (s, g) = (r, s', g')"
  shows "ogs_ok i s' \<and> balanced (s, g) (s', g') \<and>
    (case r of
       None \<Rightarrow> ogs_items s' = [] \<and> \<not> has_partially_sent_message s
     | Some d \<Rightarrow> if data_is_end (dts_data d) then \<not> has_partially_sent_message s'
         else has_partially_sent_message s' \<and> 0 < bytes_to_send_in_next_message s')"
  using assms(5)
proof (cases rule: OutgoingStream_Produce_cases)
  case (none cs)
  have v: "ogs_value s = queued_bytes (ogs_items s)" using assms(1) by (simp add: ogs_ok_def ogs_value_consistent)
  have p: "\<not> has_partially_sent_message s"
    using none(2) by (cases "ogs_items s") (auto simp: has_partially_sent_message_def)
  then have "ogs_pause_state s \<noteq> kPending" using assms(1) by (auto simp: ogs_ok_def)
  moreover have "ogs_value s' = 0" using none(3) v by (simp add: ogs_value_def stream_charge_def)
  ultimately show ?thesis
    using none v p balanced_charge [of "queued_bytes (ogs_items s)" s g s' cs] assms(3)
    by (auto simp: ogs_ok_def ogs_value_consistent has_partially_sent_message_def)
next
  case (some k item s1 d cs)
  let ?items = "ogs_items s" and ?n = "Data_size (dts_data d)"
  let ?m = "queued_bytes (take k ?items)" and ?rest = "drop (Suc k) ?items"
  have v: "ogs_value s = queued_bytes ?items" and it: "items_ok i ?items"
    using assms(1) by (simp_all add: ogs_ok_def ogs_value_consistent)
  have b: "queued_bytes ?items = ?m + qi_remaining_size (?items ! k) + queued_bytes ?rest"
    using queued_bytes_split [of k ?items] some(1) by (simp add: Cons_nth_drop_Suc [symmetric])
  have st: "ogs_pause_state s1 = ogs_pause_state s" "ogs_value s1 = ogs_value s"
    using allocate_ids_stream [OF some(3)] by simp_all
  have ok: "item_ok i item" "qi_remaining_size item = qi_remaining_size (?items ! k)" "qi_mid item \<noteq> None"
      "qi_ssn item = None \<longleftrightarrow> ma_unordered (qi_attributes item)"
    using allocate_ids_item [OF some(3)] items_ok_at [OF it some(1)] by (auto simp: item_ok_def)
  have rest: "\<forall>x\<in>set ?rest. item_ok i x \<and> unsent x" using items_ok_at [OF it some(1)] by blast
  have le: "?n \<le> qi_remaining_size item" using next_fragment_data(2) [OF ok(1)] some(4) by simp
  have pause: "ogs_pause_state s = kNotPaused \<or> ogs_pause_state s = kPending"
    using assms(2) by (cases "ogs_pause_state s") (auto simp: bytes_to_send_in_next_message_def)
  have val: "ogs_value s' = ogs_value s - (?m + ?n)"
    using some(6) st by (simp add: after_fragment_def ogs_value_def stream_charge_def)
  have bal: "balanced (s, g) (s', g')"
    unfolding some(7) by (rule balanced_charge) (use v b le ok(2) assms(3) val in simp_all)
  show ?thesis
  proof (cases "data_is_end (dts_data d)")
    case True
    then have "?n = qi_remaining_size item" using next_fragment_data(2,3) [OF ok(1)] some(4) by simp
    moreover have "ogs_items s' = ?rest" "ogs_pause_state s' \<noteq> kPending"
      using some(6) True pause st by (auto simp: after_fragment_def)
    moreover from this(1) rest have "\<not> has_partially_sent_message s'" using unsent_no_partial by metis
    ultimately show ?thesis
      using val v b ok(2) bal some(5) True rest items_ok_unsent by (simp add: ogs_ok_def ogs_value_consistent)
  next
    case False
    note adv = advance_item_ok [OF ok(1) some(4) False assms(4) ok(3,4)]
    have s': "ogs_items s' = advance_item d item # ?rest" "ogs_pause_state s' = ogs_pause_state s"
      using some(6) False st by (simp_all add: after_fragment_def)
    have "has_partially_sent_message s'" using adv s'(1) by (simp add: has_partially_Cons started_def)
    moreover have "0 < bytes_to_send_in_next_message s'"
      using s' adv pause by (auto simp: bytes_to_send_in_next_message_def)
    ultimately show ?thesis
      using val v b ok(2) bal some(5) False rest adv s' pause
      by (auto simp: ogs_ok_def ogs_value_consistent items_ok_Cons)
  qed
qed

section \<open>Well-formed queues\<close>

definition sq_ok :: "SendQueueState \<Rightarrow> bool" where
  "sq_ok g \<longleftrightarrow> om_ok (sq_streams g) \<and> (\<forall>i. ogs_ok i (sq_stream i g)) \<and> om_weight ogs_value (sq_streams g) = sq_total g"

definition partially_sent :: "u16 \<Rightarrow> SendQueueState \<Rightarrow> bool" where
  "partially_sent i g \<longleftrightarrow> has_partially_sent_message (sq_stream i g)"

lemma new_stream_ok [simp]:
  "ogs_ok i (OutgoingStream_new state)" "ogs_value (OutgoingStream_new state) = 0"
  "ogs_items (OutgoingStream_new state) = []" "ogs_pause_state (OutgoingStream_new state) = kNotPaused"
  "\<not> has_partially_sent_message (OutgoingStream_new state)"
  by (simp_all add: OutgoingStream_new_def ogs_ok_def ogs_value_consistent ogs_value_def has_partially_sent_message_def)

lemma sq_stream_store:
  "om_ok (sq_streams g) \<Longrightarrow> sq_stream j (sq_store i (s, g)) = (if j = i then s else sq_stream j g)"
  by (simp add: sq_stream_def sq_store_def om_at_def om_find_insert)

lemma sq_stream_cong: "sq_streams g' = sq_streams g \<Longrightarrow> sq_stream j g' = sq_stream j g"
  by (simp add: sq_stream_def)

lemma sq_store_total [simp]: "sq_total (sq_store i (s, g)) = sq_total g"
  by (simp add: sq_store_def sq_total_def)

lemma sq_value_le: "sq_ok g \<Longrightarrow> ogs_value (sq_stream i g) \<le> sq_total g"
  using om_weight_at_le [of ogs_value "OutgoingStream_new None" i "sq_streams g"]
  by (simp add: sq_ok_def sq_stream_def)

lemma sq_store_ok:
  assumes "sq_ok g" and "ogs_ok i s'" and "balanced (sq_stream i g, g) (s', g')"
  shows "sq_ok (sq_store i (s', g'))"
    and "sq_stream j (sq_store i (s', g')) = (if j = i then s' else sq_stream j g)"
proof -
  have st: "sq_streams g' = sq_streams g" and bal: "sq_total g' + ogs_value (sq_stream i g) = sq_total g + ogs_value s'"
    using assms(3) by (simp_all add: balanced_def)
  have om: "om_ok (sq_streams g)" using assms(1) by (simp add: sq_ok_def)
  show s: "sq_stream j (sq_store i (s', g')) = (if j = i then s' else sq_stream j g)" for j
    using sq_stream_store [of g' j i s'] om st sq_stream_cong [OF st] by simp
  have "om_weight ogs_value (om_insert i s' (sq_streams g)) + ogs_value (sq_stream i g) =
      om_weight ogs_value (sq_streams g) + ogs_value s'"
    using om_weight_insert [OF om, of ogs_value "OutgoingStream_new None" i s'] by (simp add: sq_stream_def)
  then have "om_weight ogs_value (om_insert i s' (sq_streams g)) = sq_total g'"
    using bal assms(1) by (simp add: sq_ok_def)
  then show "sq_ok (sq_store i (s', g'))"
    using assms(1,2) s om om_insert_ok st by (auto simp: sq_ok_def) (simp_all add: sq_store_def om_insert_ok)
qed

lemma produce_from_ok:
  assumes "sq_ok g" and "0 < bytes_to_send i g" and "0 < n" and "produce_from i now n g = (r, g')"
  shows "sq_ok g' \<and> (\<forall>j. j \<noteq> i \<longrightarrow> sq_stream j g' = sq_stream j g) \<and>
    (case r of
       None \<Rightarrow> bytes_to_send i g' = 0 \<and> \<not> partially_sent i g \<and> \<not> partially_sent i g'
     | Some d \<Rightarrow> if data_is_end (dts_data d) then \<not> partially_sent i g'
         else partially_sent i g' \<and> 0 < bytes_to_send i g')"
proof -
  obtain s' g1 where p: "OutgoingStream_Produce i now n (sq_stream i g, g) = (r, s', g1)"
      and g': "g' = sq_store i (s', g1)"
    using assms(4) by (auto simp: produce_from_def split: prod.splits)
  have "ogs_ok i (sq_stream i g)" "0 < bytes_to_send_in_next_message (sq_stream i g)"
    using assms(1,2) by (simp_all add: sq_ok_def bytes_to_send_def)
  note P = OutgoingStream_Produce_ok [OF this sq_value_le [OF assms(1)] assms(3) p]
  then have "ogs_ok i s'" "balanced (sq_stream i g, g) (s', g1)" by blast+
  note st = sq_store_ok [OF assms(1) this]
  have "ogs_items s' = [] \<Longrightarrow> bytes_to_send_in_next_message s' = 0 \<and> \<not> has_partially_sent_message s'"
    by (simp add: bytes_to_send_in_next_message_def has_partially_sent_message_def)
  with P st show ?thesis
    by (cases r) (auto simp: g' partially_sent_def bytes_to_send_def)
qed

lemma produce_from_laws:
  assumes "sq_ok g" and "0 < bytes_to_send i g" and "0 < n"
  shows "produce_from i now n g = (None, g') \<Longrightarrow>
      sq_ok g' \<and> bytes_to_send i g' = 0 \<and> \<not> partially_sent i g \<and> \<not> partially_sent i g'"
    and "produce_from i now n g = (Some d, g') \<Longrightarrow>
      sq_ok g' \<and> (if data_is_end (dts_data d) then \<not> partially_sent i g' else partially_sent i g' \<and> 0 < bytes_to_send i g')"
    and "produce_from i now n g = (r, g') \<Longrightarrow> j \<noteq> i \<Longrightarrow>
      bytes_to_send j g' = bytes_to_send j g \<and> partially_sent j g' = partially_sent j g"
  using produce_from_ok [OF assms, of now] by (fastforce simp: bytes_to_send_def partially_sent_def)+

interpretation sq: stream_producer produce_from bytes_to_send sq_ok partially_sent
  by unfold_locales (rule produce_from_laws; assumption)+

text \<open>
  The streams with bytes to send are the active ones. That the scheduler continues a partially
  sent message is kept apart, because it is broken for a while in \<open>Reset\<close>.
\<close>

definition placed :: "RRSendQueue \<Rightarrow> bool" where
  "placed = (\<lambda>(sch, g). active_ok sch \<and> sq_ok g \<and>
     (\<forall>i. i \<in> set (sch_active_streams sch) \<longleftrightarrow> 0 < bytes_to_send i g))"

lemma scheduled_iff: "sq.scheduled (sch, g) \<longleftrightarrow> placed (sch, g) \<and> sq.sends_current sch g"
  by (auto simp: sq.scheduled_def placed_def)

lemma placed_change:
  assumes "placed (sch, g)" and "sq_ok g'" and "\<forall>j. j \<noteq> i \<longrightarrow> sq_stream j g' = sq_stream j g" and "active_ok sch'"
    and "set (sch_active_streams sch') =
      (if 0 < bytes_to_send i g' then insert i (set (sch_active_streams sch)) else set (sch_active_streams sch) - {i})"
  shows "placed (sch', g')"
proof -
  have "j \<in> set (sch_active_streams sch') \<longleftrightarrow> 0 < bytes_to_send j g'" for j
    using assms(1,3,5) by (cases "j = i") (auto simp: placed_def bytes_to_send_def)
  with assms(2,4) show ?thesis by (simp add: placed_def)
qed

text \<open>A message that is being sent keeps being sent if its stream is left alone.\<close>

lemma sends_current_change:
  assumes "sq.sends_current sch g" and "\<forall>j. j \<noteq> i \<longrightarrow> sq_stream j g' = sq_stream j g"
    and "sch_current_stream sch' = sch_current_stream sch" and "same_flags sch sch'"
    and "partially_sent i g \<Longrightarrow> 0 < bytes_to_send i g \<Longrightarrow> partially_sent i g' \<and> 0 < bytes_to_send i g'"
  shows "sq.sends_current sch' g'"
proof -
  have "partially_sent j g' \<and> 0 < bytes_to_send j g'" if "partially_sent j g" "0 < bytes_to_send j g" for j
    using that assms(2,5) by (cases "j = i") (auto simp: partially_sent_def bytes_to_send_def)
  with assms(1,3,4) show ?thesis by (auto simp: sq.sends_current_def same_flags_def)
qed

lemma MaybeMakeActive_ok:
  assumes "active_ok sch" and "0 < n \<Longrightarrow> i \<notin> set (sch_active_streams sch)"
  shows "active_ok (MaybeMakeActive fl i n sch) \<and>
         set (sch_active_streams (MaybeMakeActive fl i n sch)) =
           (if 0 < n then insert i (set (sch_active_streams sch)) else set (sch_active_streams sch)) \<and>
         sch_current_stream (MaybeMakeActive fl i n sch) = sch_current_stream sch \<and>
         same_flags sch (MaybeMakeActive fl i n sch)"
  using assms MakeActive_ok [OF assms(1), of i fl n] by (auto simp: MaybeMakeActive_def same_flags_def)

section \<open>Every operation keeps the queue well-formed\<close>

lemma create_missing_ok:
  assumes "placed (sch, g)" and "om_find (sq_streams g) i = None"
    and "sch' = CreateStream fl i p sch" and "g' = sq_store i (OutgoingStream_new state, g)"
  shows "placed (sch', g')" and "sq.sends_current sch g \<Longrightarrow> sq.sends_current sch' g'"
    and "\<forall>j. j \<noteq> i \<longrightarrow> sq_stream j g' = sq_stream j g" and "sq_stream i g' = OutgoingStream_new state"
proof -
  have ok: "sq_ok g" "active_ok sch" "\<forall>i. i \<in> set (sch_active_streams sch) \<longleftrightarrow> 0 < bytes_to_send i g"
    using assms(1) by (simp_all add: placed_def)
  have i: "sq_stream i g = OutgoingStream_new None" using assms(2) by (simp add: sq_stream_def om_at_def)
  then have bal: "balanced (sq_stream i g, g) (OutgoingStream_new state, g)" by (simp add: balanced_def)
  note st = sq_store_ok [OF ok(1) new_stream_ok(1) bal, folded assms(4)]
  show o: "\<forall>j. j \<noteq> i \<longrightarrow> sq_stream j g' = sq_stream j g" and n: "sq_stream i g' = OutgoingStream_new state"
    using st(2) by simp_all
  have b: "bytes_to_send i g' = 0" "bytes_to_send i g = 0" "\<not> partially_sent i g"
    using n i by (simp_all add: bytes_to_send_def bytes_to_send_in_next_message_def partially_sent_def)
  have "i \<notin> set (sch_active_streams sch)" using ok(3) b(2) by simp
  moreover have "sch' = sch_update i (\<lambda>_. SchedulerStream_new fl p) sch"
    by (simp add: assms(3) CreateStream_def sch_update_def)
  ultimately have s: "active_ok sch'" "sch_active_streams sch' = sch_active_streams sch"
      "sch_current_stream sch' = sch_current_stream sch" "same_flags sch sch'" "i \<notin> set (sch_active_streams sch)"
    using sch_update_active_ok [OF ok(2)] by (simp_all add: same_flags_def)
  show "placed (sch', g')" by (rule placed_change [OF assms(1) st(1) o s(1)]) (use s b in simp)
  show "sq.sends_current sch' g'" if "sq.sends_current sch g"
    by (rule sends_current_change [OF that o s(3,4)]) (use b in simp)
qed

lemma GetOrCreateStreamInfo_ok:
  assumes "sq.scheduled (sch, g)" and "GetOrCreateStreamInfo fl i (sch, g) = (sch', g')"
  shows "sq.scheduled (sch', g')" and "sq_stream j g' = sq_stream j g" and "om_find (sq_streams g') i \<noteq> None"
proof -
  have om: "om_ok (sq_streams g)" using assms(1) by (simp add: sq.scheduled_def sq_ok_def)
  show "sq.scheduled (sch', g')"
    using assms create_missing_ok(1,2) by (auto simp: GetOrCreateStreamInfo_def scheduled_iff split: if_splits)
  show "sq_stream j g' = sq_stream j g"
    using assms(2) sq_stream_store [OF om, of j i "OutgoingStream_new None"]
    by (auto simp: GetOrCreateStreamInfo_def split: if_splits) (simp add: sq_stream_def om_at_def)
  show "om_find (sq_streams g') i \<noteq> None"
    using assms(2) om by (auto simp: GetOrCreateStreamInfo_def sq_store_def om_find_insert split: if_splits)
qed

lemma placed_stream_change:
  assumes "placed (sch, g)" and "ogs_ok i s'" and "balanced (sq_stream i g, g) (s', g1)" and "active_ok sch'"
    and "set (sch_active_streams sch') =
      (if 0 < bytes_to_send_in_next_message s' then insert i (set (sch_active_streams sch))
       else set (sch_active_streams sch) - {i})"
  shows "placed (sch', sq_store i (s', g1))"
proof -
  have "sq_ok g" using assms(1) by (simp add: placed_def)
  note st = sq_store_ok [OF this assms(2,3)]
  show ?thesis by (rule placed_change [where i = i, OF assms(1) st(1) _ assms(4)]) (use st(2) assms(5) in \<open>simp_all add: bytes_to_send_def\<close>)
qed

lemma sends_current_stream_change:
  assumes "sq.sends_current sch g" and "placed (sch, g)" and "ogs_ok i s'" and "balanced (sq_stream i g, g) (s', g1)"
    and "sch_current_stream sch' = sch_current_stream sch" and "same_flags sch sch'"
    and "has_partially_sent_message (sq_stream i g) \<Longrightarrow> 0 < bytes_to_send_in_next_message (sq_stream i g) \<Longrightarrow>
      has_partially_sent_message s' \<and> 0 < bytes_to_send_in_next_message s'"
  shows "sq.sends_current sch' (sq_store i (s', g1))"
proof -
  have "sq_ok g" using assms(2) by (simp add: placed_def)
  note st = sq_store_ok [OF this assms(3,4)]
  show ?thesis
    by (rule sends_current_change [where i = i, OF assms(1) _ assms(5,6)])
      (use st(2) assms(7) in \<open>simp_all add: bytes_to_send_def partially_sent_def\<close>)
qed

lemma stream_facts:
  assumes "placed (sch, g)"
  shows "ogs_ok i (sq_stream i g)" and "ogs_value (sq_stream i g) \<le> sq_total g"
    and "ogs_value (sq_stream i g) = queued_bytes (ogs_items (sq_stream i g))"
    and "items_ok i (ogs_items (sq_stream i g))"
    and "i \<in> set (sch_active_streams sch) \<longleftrightarrow> 0 < bytes_to_send_in_next_message (sq_stream i g)"
  using assms sq_value_le [of g i]
  by (auto simp: placed_def sq_ok_def ogs_ok_def ogs_value_consistent bytes_to_send_def)

lemma bytes_positive:
  assumes "items_ok i (ogs_items s)"
  shows "0 < bytes_to_send_in_next_message s \<longleftrightarrow> ogs_items s \<noteq> [] \<and> ogs_pause_state s \<notin> {kPaused, kResetting}"
  using assms by (cases "ogs_items s") (auto simp: bytes_to_send_in_next_message_def items_ok_Cons item_ok_def)

lemma items_ok_snoc: "items_ok i items \<Longrightarrow> item_ok i item \<Longrightarrow> unsent item \<Longrightarrow> items_ok i (items @ [item])"
  by (cases items) (auto simp: items_ok_Cons)

lemma RRSendQueue_Add_ok:
  assumes "sq.scheduled q" and "msg_payload message \<noteq> []"
  shows "sq.scheduled (RRSendQueue_Add fl now message options q)"
proof -
  let ?i = "msg_stream_id message"
  obtain sch0 g0 where q: "q = (sch0, g0)" by fastforce
  obtain sch g where c: "GetOrCreateStreamInfo fl ?i (sch0, g0) = (sch, g)" by fastforce
  have ok: "sq.scheduled (sch, g)" using GetOrCreateStreamInfo_ok(1) assms(1) q c by blast
  then have pl: "placed (sch, g)" and se: "sq.sends_current sch g" by (simp_all add: scheduled_iff)
  note f = stream_facts [OF pl, of ?i]
  have act: "active_ok sch" using pl by (simp add: placed_def)
  define s where "s = sq_stream ?i g"
  obtain attributes s' g1 where a: "OutgoingStream_Add message attributes (s, g) = (s', g1)" and
      r: "RRSendQueue_Add fl now message options q =
        (if \<not> 0 < bytes_to_send ?i g then MaybeMakeActive fl ?i (bytes_to_send ?i (sq_store ?i (s', g1))) sch else sch,
         sq_store ?i (s', g1))"
    using c q unfolding RRSendQueue_Add_def s_def by (simp only: Let_def prod.case) (metis surj_pair)
  have s': "ogs_items s' = ogs_items s @ [QueuedItem_new (sq_current_message_id g) message attributes]"
      "ogs_value s' = ogs_value s + length (msg_payload message)" "ogs_pause_state s' = ogs_pause_state s"
      "sq_total g1 = sq_total g + length (msg_payload message)" "sq_streams g1 = sq_streams g"
    using a by (auto simp: OutgoingStream_Add_def ThresholdWatcher_Increase_def ogs_value_def sq_total_def)
  have new: "item_ok ?i (QueuedItem_new (sq_current_message_id g) message attributes)"
      "unsent (QueuedItem_new (sq_current_message_id g) message attributes)"
    using assms(2) by (simp_all add: item_ok_def QueuedItem_new_def unsent_def)
  have it: "items_ok ?i (ogs_items s')" using f(4) new items_ok_snoc s'(1) by (simp add: s_def)
  have hp: "has_partially_sent_message s' = has_partially_sent_message s"
    using s'(1) new(2) by (cases "ogs_items s") (auto simp: has_partially_sent_message_def unsent_def)
  have ok': "ogs_ok ?i s'"
    using f(1,3) it hp s' by (auto simp: ogs_ok_def ogs_value_consistent s_def QueuedItem_new_def)
  have bal: "balanced (sq_stream ?i g, g) (s', g1)" using s' by (simp add: balanced_def s_def)
  have b: "bytes_to_send ?i (sq_store ?i (s', g1)) = bytes_to_send_in_next_message s'"
    using sq_store_ok(2) [OF _ ok' bal, of ?i] pl by (simp add: placed_def bytes_to_send_def)
  have stay: "0 < bytes_to_send_in_next_message s \<Longrightarrow> 0 < bytes_to_send_in_next_message s'"
    using bytes_positive [OF it] bytes_positive [of ?i s] f(4) s' by (auto simp: s_def)
  let ?sch = "if \<not> 0 < bytes_to_send ?i g then MaybeMakeActive fl ?i (bytes_to_send_in_next_message s') sch else sch"
  have "active_ok ?sch \<and> set (sch_active_streams ?sch) =
      (if 0 < bytes_to_send_in_next_message s' then insert ?i (set (sch_active_streams sch))
       else set (sch_active_streams sch) - {?i}) \<and> sch_current_stream ?sch = sch_current_stream sch \<and> same_flags sch ?sch"
    using MaybeMakeActive_ok [OF act, of "bytes_to_send_in_next_message s'" ?i fl] act f(5) stay
    by (auto simp: bytes_to_send_def s_def same_flags_def)
  then show ?thesis unfolding r b scheduled_iff
    using placed_stream_change [OF pl ok' bal] sends_current_stream_change [OF se pl ok' bal] hp stay s_def by metis
qed

lemma RRSendQueue_Discard_ok:
  assumes "sq.scheduled q"
  shows "sq.scheduled (snd (RRSendQueue_Discard fl i message_id q))"
proof -
  obtain sch0 g0 where q: "q = (sch0, g0)" by fastforce
  obtain sch g where c: "GetOrCreateStreamInfo fl i (sch0, g0) = (sch, g)" by fastforce
  have ok: "sq.scheduled (sch, g)" using GetOrCreateStreamInfo_ok(1) assms(1) q c by blast
  then have pl: "placed (sch, g)" by (simp add: scheduled_iff)
  note f = stream_facts [OF pl, of i]
  define s where "s = sq_stream i g"
  show ?thesis
  proof (cases "ogs_items s = [] \<or> qi_message_id (hd (ogs_items s)) \<noteq> message_id")
    case True
    then have "snd (RRSendQueue_Discard fl i message_id q) = (sch, g)"
      using q c by (auto simp: RRSendQueue_Discard_def s_def Let_def split: list.splits)
    with ok show ?thesis by simp
  next
    case False
    then obtain item items where it: "ogs_items s = item # items" "qi_message_id item = message_id"
      by (cases "ogs_items s") auto
    let ?n = "qi_remaining_size item"
    obtain cs where e: "HandleMessageExpired i item (s, g) = (stream_charge ?n s, queue_charge ?n cs g)"
      using HandleMessageExpired_eq by blast
    define s' where "s' = (if ogs_pause_state s = kPending
      then (stream_charge ?n s)\<lparr>ogs_items := items, ogs_pause_state := kPaused\<rparr>
      else (stream_charge ?n s)\<lparr>ogs_items := items\<rparr>)"
    define sch' where "sch' = (if bytes_to_send_in_next_message s' = 0 then MakeInactive i (ForceReschedule sch)
      else ForceReschedule sch)"
    have r: "snd (RRSendQueue_Discard fl i message_id q) = (sch', sq_store i (s', queue_charge ?n cs g))"
      using q c it e
      by (simp add: RRSendQueue_Discard_def s_def [symmetric] s'_def sch'_def Let_def bytes_to_send_in_next_message_def)
    have un: "\<forall>x\<in>set items. item_ok i x \<and> unsent x" and pos: "0 < ?n"
      using f(4) it by (simp_all add: s_def items_ok_Cons item_ok_def)
    have hp: "\<not> has_partially_sent_message s'" using un by (intro unsent_no_partial) (simp add: s'_def)
    have v: "ogs_value s' = ogs_value s - ?n" "ogs_value s = ?n + queued_bytes items"
      using f(3) it by (simp_all add: s'_def s_def stream_charge_def ogs_value_def)
    have ok': "ogs_ok i s'"
      using hp v un items_ok_unsent by (simp add: ogs_ok_def ogs_value_consistent s'_def)
    have bal: "balanced (sq_stream i g, g) (s', queue_charge ?n cs g)"
      by (rule balanced_charge) (use v f(2) in \<open>simp_all add: s_def\<close>)
    have act: "active_ok (ForceReschedule sch)" "sch_active_streams (ForceReschedule sch) = sch_active_streams sch"
      using pl by (simp_all add: placed_def ForceReschedule_def active_ok_def)
    have "i \<in> set (sch_active_streams sch)" if "0 < bytes_to_send_in_next_message s'"
      using that f(4,5) it bytes_positive [of i s] bytes_positive [of i s'] ok'
      by (auto simp: ogs_ok_def s'_def s_def split: if_splits)
    then have a: "active_ok sch'" "set (sch_active_streams sch') =
        (if 0 < bytes_to_send_in_next_message s' then insert i (set (sch_active_streams sch))
         else set (sch_active_streams sch) - {i})" "\<not> sch_currently_sending_a_message sch'"
      using MakeInactive_ok [OF act(1), of i] act by (auto simp: sch'_def same_flags_def ForceReschedule_def)
    show ?thesis unfolding r scheduled_iff
      using placed_stream_change [OF pl ok' bal a(1,2)] a(3) by (simp add: sq.sends_current_def)
  qed
qed

lemma drop_unsent_eq:
  "\<exists>cs. drop_unsent i items (s, g) =
     (filter (\<lambda>x. qi_remaining_offset x \<noteq> 0) items,
      stream_charge (queued_bytes (filter (\<lambda>x. qi_remaining_offset x = 0) items)) s,
      queue_charge (queued_bytes (filter (\<lambda>x. qi_remaining_offset x = 0) items)) cs g)"
proof (induction items arbitrary: s g)
  case Nil
  show ?case by (intro exI [of _ "[]"]) simp
next
  case (Cons item items)
  show ?case
  proof (cases "qi_remaining_offset item = 0")
    case True
    obtain cs where e: "HandleMessageExpired i item (s, g) =
        (stream_charge (qi_remaining_size item) s, queue_charge (qi_remaining_size item) cs g)"
      using HandleMessageExpired_eq by blast
    from Cons.IH [of "stream_charge (qi_remaining_size item) s" "queue_charge (qi_remaining_size item) cs g"]
    obtain ds where "drop_unsent i items (HandleMessageExpired i item (s, g)) =
      (filter (\<lambda>x. qi_remaining_offset x \<noteq> 0) items,
       stream_charge (qi_remaining_size item + queued_bytes (filter (\<lambda>x. qi_remaining_offset x = 0) items)) s,
       queue_charge (qi_remaining_size item + queued_bytes (filter (\<lambda>x. qi_remaining_offset x = 0) items)) (cs @ ds) g)"
      using e by auto
    with True show ?thesis by auto
  next
    case False
    with Cons.IH [of s g] show ?thesis by auto
  qed
qed

lemma queued_bytes_filter:
  "queued_bytes (filter P items) + queued_bytes (filter (\<lambda>x. \<not> P x) items) = queued_bytes items"
  by (induction items) auto

lemma OutgoingStream_Pause_ok:
  assumes "ogs_ok i s" and "ogs_value s \<le> sq_total g" and "OutgoingStream_Pause i (s, g) = (inactive, s', g')"
  shows "ogs_ok i s' \<and> balanced (s, g) (s', g') \<and> (inactive \<longrightarrow> bytes_to_send_in_next_message s' = 0) \<and>
    (\<not> inactive \<longrightarrow> (0 < bytes_to_send_in_next_message s' \<longleftrightarrow> 0 < bytes_to_send_in_next_message s)) \<and>
    (has_partially_sent_message s \<longrightarrow> has_partially_sent_message s' \<and> \<not> inactive)"
proof (cases "ogs_pause_state s = kNotPaused")
  case False
  with assms show ?thesis by (auto simp: OutgoingStream_Pause_def balanced_def)
next
  case True
  let ?items = "ogs_items s" and ?P = "\<lambda>x. qi_remaining_offset x = 0"
  let ?n = "queued_bytes (filter ?P ?items)"
  obtain cs where d: "drop_unsent i ?items (s, g) =
      (filter (\<lambda>x. \<not> ?P x) ?items, stream_charge ?n s, queue_charge ?n cs g)"
    using drop_unsent_eq by blast
  have it: "items_ok i ?items" and v: "ogs_value s = queued_bytes ?items"
    using assms(1) by (simp_all add: ogs_ok_def ogs_value_consistent)
  have keep: "filter (\<lambda>x. \<not> ?P x) ?items = (if has_partially_sent_message s then [hd ?items] else [])"
    and started: "has_partially_sent_message s \<Longrightarrow> ?items \<noteq> [] \<and> item_ok i (hd ?items) \<and> started (hd ?items)"
    using it by (cases ?items; auto simp: items_ok_Cons has_partially_sent_message_def unsent_def started_def)+
  have s': "s' = (stream_charge ?n s)\<lparr>ogs_items := filter (\<lambda>x. \<not> ?P x) ?items,
        ogs_pause_state := (if has_partially_sent_message s then kPending else kPaused)\<rparr>"
      "g' = queue_charge ?n cs g" "inactive \<longleftrightarrow> ?items \<noteq> [] \<and> \<not> has_partially_sent_message s"
    using assms(3) True d keep started by (auto simp: OutgoingStream_Pause_def Let_def started_def)
  have "ogs_value s' = queued_bytes (ogs_items s')" "ogs_value s' = ogs_value s - ?n" "?n \<le> ogs_value s"
    using v queued_bytes_filter [of ?P ?items] s'(1) by (simp_all add: ogs_value_def stream_charge_def)
  moreover from this(2,3) assms(2) s'(2) have "balanced (s, g) (s', g')" using balanced_charge by blast
  moreover have "has_partially_sent_message s' = has_partially_sent_message s"
    using s'(1) keep started by (auto simp: has_partially_sent_message_def started_def)
  moreover have "items_ok i (ogs_items s')" using s'(1) keep started by (auto simp: items_ok_Cons)
  ultimately show ?thesis
    using True s' keep started it bytes_positive [OF it]
    by (auto simp: ogs_ok_def ogs_value_consistent bytes_to_send_in_next_message_def item_ok_def)
qed

lemma RRSendQueue_PrepareResetStream_ok:
  assumes "sq.scheduled q"
  shows "sq.scheduled (RRSendQueue_PrepareResetStream fl i q)"
proof -
  obtain sch0 g0 where q: "q = (sch0, g0)" by fastforce
  obtain sch g where c: "GetOrCreateStreamInfo fl i (sch0, g0) = (sch, g)" by fastforce
  have ok: "sq.scheduled (sch, g)" using GetOrCreateStreamInfo_ok(1) assms(1) q c by blast
  then have pl: "placed (sch, g)" and se: "sq.sends_current sch g" by (simp_all add: scheduled_iff)
  note f = stream_facts [OF pl, of i]
  have act: "active_ok sch" using pl by (simp add: placed_def)
  obtain inactive s' g1 where p: "OutgoingStream_Pause i (sq_stream i g, g) = (inactive, s', g1)"
    by (metis prod_cases3)
  note P = OutgoingStream_Pause_ok [OF f(1,2) p]
  then have ok': "ogs_ok i s'" and bal: "balanced (sq_stream i g, g) (s', g1)" by blast+
  let ?sch = "if inactive then MakeInactive i sch else sch"
  have r: "RRSendQueue_PrepareResetStream fl i q = (?sch, sq_store i (s', g1))"
    using q c p by (simp add: RRSendQueue_PrepareResetStream_def)
  have bs: "inactive \<Longrightarrow> bytes_to_send_in_next_message s' = 0"
      "\<not> inactive \<Longrightarrow> i \<in> set (sch_active_streams sch) \<longleftrightarrow> 0 < bytes_to_send_in_next_message s'"
    using P f(5) by (metis, metis)
  have s: "active_ok ?sch" "set (sch_active_streams ?sch) =
      (if 0 < bytes_to_send_in_next_message s' then insert i (set (sch_active_streams sch))
       else set (sch_active_streams sch) - {i})" "sch_current_stream ?sch = sch_current_stream sch" "same_flags sch ?sch"
    using MakeInactive_ok [OF act, of i] act bs by (cases inactive; auto simp: same_flags_def)+
  show ?thesis unfolding r scheduled_iff
    using placed_stream_change [OF pl ok' bal s(1,2)] sends_current_stream_change [OF se pl ok' bal s(3,4)] P by blast
qed

lemma GetStreamsReadyToBeReset_ok:
  assumes "sq.scheduled q"
  shows "sq.scheduled (snd (GetStreamsReadyToBeReset q))"
proof -
  obtain sch g where q: "q = (sch, g)" by fastforce
  let ?f = "\<lambda>s. if ogs_pause_state s = kPaused then s\<lparr>ogs_pause_state := kResetting\<rparr> else s"
  define g' where g': "g' = g\<lparr>sq_streams := map (\<lambda>(i, s). (i, ?f s)) (sq_streams g)\<rparr>"
  have r: "snd (GetStreamsReadyToBeReset q) = (sch, g')" by (simp add: GetStreamsReadyToBeReset_def q g')
  have find: "om_find (sq_streams g') i = map_option ?f (om_find (sq_streams g) i)" for i
    unfolding g' om_find_def by (simp add: map_of_map)
  have st: "sq_stream i g' = ?f (sq_stream i g)" for i
    using find [of i] by (simp add: sq_stream_def om_at_def split: option.splits)
  have "om_ok (sq_streams g')" "om_weight ogs_value (sq_streams g') = om_weight ogs_value (sq_streams g)"
    using assms unfolding g'
    by (simp_all add: om_ok_def om_weight_def q sq.scheduled_def sq_ok_def comp_def split_def ogs_value_def if_distrib cong: if_cong)
  moreover have "sq_total g' = sq_total g" by (simp add: g' sq_total_def)
  moreover have "has_partially_sent_message (?f s) = has_partially_sent_message s"
      "bytes_to_send_in_next_message (?f s) = bytes_to_send_in_next_message s" for s
    by (auto simp: has_partially_sent_message_def bytes_to_send_in_next_message_def)
  moreover from this(1) have "ogs_ok i s \<Longrightarrow> ogs_ok i (?f s)" for i s
    by (auto simp: ogs_ok_def OutgoingStream_IsConsistent_def has_partially_sent_message_def)
  ultimately show ?thesis using assms st unfolding r
    by (simp add: q sq.scheduled_def sq_ok_def sq.sends_current_def partially_sent_def bytes_to_send_def)
qed

lemma OutgoingStream_Reset_ok:
  assumes "ogs_ok i s" and "OutgoingStream_Reset (s, g) = (active, s', g')"
  shows "ogs_ok i s' \<and> balanced (s, g) (s', g') \<and> \<not> has_partially_sent_message s' \<and>
    (0 < bytes_to_send_in_next_message s' \<longleftrightarrow> ogs_items s \<noteq> []) \<and>
    (active \<longleftrightarrow> ogs_items s \<noteq> [] \<and> ogs_pause_state s \<in> {kPaused, kResetting})"
proof (cases "ogs_items s")
  case Nil
  with assms show ?thesis
    by (auto simp: OutgoingStream_Reset_def ogs_ok_def ogs_value_consistent ogs_value_def balanced_def
        has_partially_sent_message_def bytes_to_send_in_next_message_def)
next
  case (Cons item items)
  with assms(1) have it: "item_ok i item" "\<forall>x\<in>set items. item_ok i x \<and> unsent x"
      and v: "ogs_value s = qi_remaining_size item + queued_bytes items"
    by (simp_all add: ogs_ok_def ogs_value_consistent items_ok_Cons)
  let ?n = "length (msg_payload (qi_message item))"
  let ?item = "item\<lparr>qi_remaining_offset := 0, qi_remaining_size := ?n, qi_mid := None, qi_ssn := None, qi_current_fsn := 0\<rparr>"
  have s': "ogs_items s' = ?item # items" "ogs_pause_state s' = kNotPaused"
      "ogs_value s' = ogs_value s + (?n - qi_remaining_size item)"
      "sq_total g' = sq_total g + (?n - qi_remaining_size item)" "sq_streams g' = sq_streams g"
      "active \<longleftrightarrow> ogs_pause_state s \<in> {kPaused, kResetting}"
    using assms(2) Cons
    by (auto simp: OutgoingStream_Reset_def Let_def ThresholdWatcher_Increase_def ogs_value_def sq_total_def)
  have "item_ok i ?item" "unsent ?item" "qi_remaining_size item \<le> ?n" "0 < ?n"
    using it(1) by (auto simp: item_ok_def unsent_def)
  with it v s' Cons show ?thesis
    by (auto simp: ogs_ok_def ogs_value_consistent items_ok_Cons balanced_def has_partially_sent_message_def
        bytes_to_send_in_next_message_def)
qed

lemma reset_outgoing_ok:
  assumes "placed (sch, g)" and "reset_outgoing fl i (sch, g) = (sch', g')"
  shows "placed (sch', g')" and "\<forall>j. j \<noteq> i \<longrightarrow> sq_stream j g' = sq_stream j g"
    and "sq.sends_current sch g \<Longrightarrow> \<not> partially_sent i g \<Longrightarrow> sq.sends_current sch' g'"
proof -
  note f = stream_facts [OF assms(1), of i]
  have act: "active_ok sch" and sq: "sq_ok g" using assms(1) by (simp_all add: placed_def)
  obtain active s' g1 where p: "OutgoingStream_Reset (sq_stream i g, g) = (active, s', g1)" by (metis prod_cases3)
  note P = OutgoingStream_Reset_ok [OF f(1) p]
  then have ok': "ogs_ok i s'" and bal: "balanced (sq_stream i g, g) (s', g1)" by blast+
  note st = sq_store_ok [OF sq ok' bal]
  have b: "bytes_to_send i (sq_store i (s', g1)) = bytes_to_send_in_next_message s'"
    using st(2) by (simp add: bytes_to_send_def)
  have r: "sch' = (if active then MaybeMakeActive fl i (bytes_to_send_in_next_message s') sch else sch)"
      "g' = sq_store i (s', g1)"
    using assms(2) p b by (auto simp: reset_outgoing_def Let_def)
  have "active \<Longrightarrow> i \<notin> set (sch_active_streams sch)" "\<not> active \<Longrightarrow> i \<in> set (sch_active_streams sch) \<longleftrightarrow> 0 < bytes_to_send_in_next_message s'"
    using P f(5) bytes_positive [OF f(4)] by auto
  then have s: "active_ok sch'" "set (sch_active_streams sch') =
      (if 0 < bytes_to_send_in_next_message s' then insert i (set (sch_active_streams sch))
       else set (sch_active_streams sch) - {i})" "sch_current_stream sch' = sch_current_stream sch" "same_flags sch sch'"
    using MaybeMakeActive_ok [OF act, of "bytes_to_send_in_next_message s'" i fl] act
    by (auto simp: r same_flags_def)
  show "placed (sch', g')" using placed_stream_change [OF assms(1) ok' bal s(1,2)] r(2) by simp
  show "\<forall>j. j \<noteq> i \<longrightarrow> sq_stream j g' = sq_stream j g" using st(2) r(2) by simp
  show "sq.sends_current sch' g'" if "sq.sends_current sch g" "\<not> partially_sent i g"
    using sends_current_stream_change [OF that(1) assms(1) ok' bal s(3,4)] that(2) r(2) by (simp add: partially_sent_def)
qed

lemma resume_outgoing_ok:
  assumes "placed (sch, g)" and "bytes_to_send i g = 0" and "\<not> partially_sent i g"
    and "resume_outgoing fl i (sch, g) = (sch', g')"
  shows "placed (sch', g')" and "\<forall>j. j \<noteq> i \<longrightarrow> sq_stream j g' = sq_stream j g"
    and "sq.sends_current sch g \<Longrightarrow> sq.sends_current sch' g'"
proof -
  note f = stream_facts [OF assms(1), of i]
  have act: "active_ok sch" and sq: "sq_ok g" using assms(1) by (simp_all add: placed_def)
  let ?s = "(sq_stream i g)\<lparr>ogs_pause_state := kNotPaused\<rparr>"
  have ok': "ogs_ok i ?s" using f(1) by (simp add: ogs_ok_def OutgoingStream_IsConsistent_def)
  have bal: "balanced (sq_stream i g, g) (?s, g)" by (simp add: balanced_def ogs_value_def)
  note st = sq_store_ok [OF sq ok' bal]
  have r: "sch' = MaybeMakeActive fl i (bytes_to_send_in_next_message ?s) sch" "g' = sq_store i (?s, g)"
    using assms(4) st(2) [of i] by (auto simp: resume_outgoing_def Let_def bytes_to_send_def)
  have "i \<notin> set (sch_active_streams sch)" using f(5) assms(2) by (simp add: bytes_to_send_def)
  with MaybeMakeActive_ok [OF act, of "bytes_to_send_in_next_message ?s" i fl] r(1)
  have s: "active_ok sch'" "set (sch_active_streams sch') =
      (if 0 < bytes_to_send_in_next_message ?s then insert i (set (sch_active_streams sch))
       else set (sch_active_streams sch) - {i})" "sch_current_stream sch' = sch_current_stream sch" "same_flags sch sch'"
    by auto
  show "placed (sch', g')" using placed_stream_change [OF assms(1) ok' bal s(1,2)] r(2) by simp
  show "\<forall>j. j \<noteq> i \<longrightarrow> sq_stream j g' = sq_stream j g" using st(2) r(2) by simp
  show "sq.sends_current sch' g'" if "sq.sends_current sch g"
    using sends_current_stream_change [OF that assms(1) ok' bal s(3,4)] assms(3) r(2) by (simp add: partially_sent_def)
qed

lemma fold_streams:
  assumes "distinct ids" and "Q q" and "\<forall>i\<in>set ids. P (sq_stream i (snd q))"
    and "\<And>i q. Q q \<Longrightarrow> P (sq_stream i (snd q)) \<Longrightarrow>
      Q (f i q) \<and> (\<forall>j. j \<noteq> i \<longrightarrow> sq_stream j (snd (f i q)) = sq_stream j (snd q))"
  shows "Q (fold f ids q)"
  using assms(1,2,3)
proof (induction ids arbitrary: q)
  case (Cons i ids)
  from Cons.prems(3) have P: "P (sq_stream i (snd q))" by simp
  note step = assms(4) [OF Cons.prems(2) P]
  have "P (sq_stream j (snd (f i q)))" if "j \<in> set ids" for j
    using step Cons.prems(1,3) that by (metis distinct.simps(2) list.set_intros(2))
  with Cons.IH [of "f i q"] Cons.prems(1) step show ?case by simp
qed simp

lemma resetting_streams_mem:
  assumes "placed (sch, g)"
  shows "distinct (resetting_streams g)" and "distinct (map fst (sq_streams g))"
    and "\<forall>i\<in>set (resetting_streams g). ogs_pause_state (sq_stream i g) = kResetting \<and> ogs_ok i (sq_stream i g)"
proof -
  have om: "om_ok (sq_streams g)" and ok: "\<forall>i. ogs_ok i (sq_stream i g)"
    using assms by (simp_all add: placed_def sq_ok_def)
  show "distinct (map fst (sq_streams g))" using om_ok_distinct [OF om] .
  then show "distinct (resetting_streams g)" by (simp add: resetting_streams_def distinct_map_filter)
  show "\<forall>i\<in>set (resetting_streams g). ogs_pause_state (sq_stream i g) = kResetting \<and> ogs_ok i (sq_stream i g)"
    using ok om_in_find [OF om] by (auto simp: resetting_streams_def sq_stream_def om_at_def)
qed

lemma resetting_idle:
  "ogs_ok i s \<Longrightarrow> ogs_pause_state s = kResetting \<Longrightarrow>
   bytes_to_send_in_next_message s = 0 \<and> \<not> has_partially_sent_message s"
  by (auto simp: ogs_ok_def bytes_to_send_in_next_message_def)

lemma CommitResetStreams_ok: "sq.scheduled q \<Longrightarrow> sq.scheduled (CommitResetStreams fl q)"
proof -
  assume "sq.scheduled q"
  then have s: "sq.scheduled (fst q, snd q)" by simp
  then have pl: "placed (fst q, snd q)" by (simp only: scheduled_iff)
  show ?thesis unfolding CommitResetStreams_def
  proof (rule fold_streams [where P = "\<lambda>s. \<not> has_partially_sent_message s"])
    show "distinct (resetting_streams (snd q))" using resetting_streams_mem(1) [OF pl] .
    show "\<forall>i\<in>set (resetting_streams (snd q)). \<not> has_partially_sent_message (sq_stream i (snd q))"
      using resetting_streams_mem(3) [OF pl] resetting_idle by blast
    fix i p assume a: "sq.scheduled p" "\<not> has_partially_sent_message (sq_stream i (snd p))"
    obtain sch g where p: "p = (sch, g)" by fastforce
    obtain sch' g' where r: "reset_outgoing fl i (sch, g) = (sch', g')" by fastforce
    from a p have "placed (sch, g)" "sq.sends_current sch g" "\<not> partially_sent i g"
      by (simp_all add: scheduled_iff partially_sent_def)
    with reset_outgoing_ok [OF this(1) r] show "sq.scheduled (reset_outgoing fl i p) \<and>
        (\<forall>j. j \<noteq> i \<longrightarrow> sq_stream j (snd (reset_outgoing fl i p)) = sq_stream j (snd p))"
      by (simp add: p r scheduled_iff)
  qed fact
qed

lemma RollbackResetStreams_ok: "sq.scheduled q \<Longrightarrow> sq.scheduled (RollbackResetStreams fl q)"
proof -
  assume "sq.scheduled q"
  then have s: "sq.scheduled (fst q, snd q)" by simp
  then have pl: "placed (fst q, snd q)" by (simp only: scheduled_iff)
  show ?thesis unfolding RollbackResetStreams_def
  proof (rule fold_streams [where P = "\<lambda>s. bytes_to_send_in_next_message s = 0 \<and> \<not> has_partially_sent_message s"])
    show "distinct (resetting_streams (snd q))" using resetting_streams_mem(1) [OF pl] .
    show "\<forall>i\<in>set (resetting_streams (snd q)). bytes_to_send_in_next_message (sq_stream i (snd q)) = 0 \<and>
        \<not> has_partially_sent_message (sq_stream i (snd q))"
      using resetting_streams_mem(3) [OF pl] resetting_idle by blast
    fix i p assume a: "sq.scheduled p"
      "bytes_to_send_in_next_message (sq_stream i (snd p)) = 0 \<and> \<not> has_partially_sent_message (sq_stream i (snd p))"
    obtain sch g where p: "p = (sch, g)" by fastforce
    obtain sch' g' where r: "resume_outgoing fl i (sch, g) = (sch', g')" by fastforce
    from a p have "placed (sch, g)" "sq.sends_current sch g" "bytes_to_send i g = 0" "\<not> partially_sent i g"
      by (simp_all add: scheduled_iff partially_sent_def bytes_to_send_def)
    with resume_outgoing_ok [OF this(1,3,4) r] show "sq.scheduled (resume_outgoing fl i p) \<and>
        (\<forall>j. j \<noteq> i \<longrightarrow> sq_stream j (snd (resume_outgoing fl i p)) = sq_stream j (snd p))"
      by (simp add: p r scheduled_iff)
  qed fact
qed

lemma RRSendQueue_Reset_ok: "sq.scheduled q \<Longrightarrow> sq.scheduled (RRSendQueue_Reset fl q)"
proof -
  assume "sq.scheduled q"
  then have "sq.scheduled (fst q, snd q)" by simp
  then have pl: "placed (fst q, snd q)" by (simp only: scheduled_iff)
  have "placed (fold (reset_outgoing fl) (map fst (sq_streams (snd q))) q)"
  proof (rule fold_streams [where P = "\<lambda>_. True"])
    show "distinct (map fst (sq_streams (snd q)))" using resetting_streams_mem(2) [OF pl] .
    fix i p assume "placed p"
    then show "placed (reset_outgoing fl i p) \<and>
        (\<forall>j. j \<noteq> i \<longrightarrow> sq_stream j (snd (reset_outgoing fl i p)) = sq_stream j (snd p))"
      using reset_outgoing_ok(1,2) by (metis prod.collapse)
  qed (use pl in simp_all)
  then show ?thesis
    by (auto simp: RRSendQueue_Reset_def scheduled_iff sq.sends_current_def ForceReschedule_def placed_def active_ok_def
        split: prod.splits)
qed

lemma SetBufferedAmountLowThreshold_ok:
  assumes "sq.scheduled q"
  shows "sq.scheduled (SetBufferedAmountLowThreshold fl i n q)"
proof -
  obtain sch0 g0 where q: "q = (sch0, g0)" by fastforce
  obtain sch g where c: "GetOrCreateStreamInfo fl i (sch0, g0) = (sch, g)" by fastforce
  have "sq.scheduled (sch, g)" using GetOrCreateStreamInfo_ok(1) assms(1) q c by blast
  then have pl: "placed (sch, g)" and se: "sq.sends_current sch g" by (simp_all add: scheduled_iff)
  note f = stream_facts [OF pl, of i]
  have act: "active_ok sch" using pl by (simp add: placed_def)
  let ?s = "(sq_stream i g)\<lparr>ogs_buffered_amount := (ogs_buffered_amount (sq_stream i g))\<lparr>tw_low_threshold := n\<rparr>\<rparr>"
  obtain b where r: "SetBufferedAmountLowThreshold fl i n q =
      (sch, sq_store i (?s, callback_if b (OnBufferedAmountLow i) g))"
    using q c by (auto simp: SetBufferedAmountLowThreshold_def ThresholdWatcher_SetLowThreshold_def Let_def)
  have hp: "has_partially_sent_message ?s = has_partially_sent_message (sq_stream i g)"
      "bytes_to_send_in_next_message ?s = bytes_to_send_in_next_message (sq_stream i g)"
    by (simp_all add: has_partially_sent_message_def bytes_to_send_in_next_message_def)
  have ok': "ogs_ok i ?s" using f(1) hp(1) by (simp add: ogs_ok_def OutgoingStream_IsConsistent_def)
  have bal: "balanced (sq_stream i g, g) (?s, callback_if b (OnBufferedAmountLow i) g)"
    by (simp add: balanced_def callback_if_def ogs_value_def sq_total_def)
  have set_eq: "set (sch_active_streams sch) = (if 0 < bytes_to_send_in_next_message ?s
      then insert i (set (sch_active_streams sch)) else set (sch_active_streams sch) - {i})"
    using f(5) unfolding hp(2) by auto
  show ?thesis unfolding r scheduled_iff
    using placed_stream_change [OF pl ok' bal act set_eq] sends_current_stream_change [OF se pl ok' bal] hp
    by (simp add: same_flags_def)
qed

lemma SetStreamPriority_ok:
  assumes "sq.scheduled q"
  shows "sq.scheduled (SetStreamPriority fl i p q)"
proof -
  obtain sch0 g0 where q: "q = (sch0, g0)" by fastforce
  obtain sch g where c: "GetOrCreateStreamInfo fl i (sch0, g0) = (sch, g)" by fastforce
  have "sq.scheduled (sch, g)" using GetOrCreateStreamInfo_ok(1) assms(1) q c by blast
  then show ?thesis
    using c sch_update_active_ok [of sch i]
    by (simp add: q SetStreamPriority_def SchedulerStream_SetPriority_def sq.scheduled_def sq.sends_current_def)
qed

lemma EnableMessageInterleaving_ok: "sq.scheduled q \<Longrightarrow> sq.scheduled (RRSendQueue_EnableMessageInterleaving b q)"
  by (cases q) (simp add: RRSendQueue_EnableMessageInterleaving_def StreamScheduler_EnableMessageInterleaving_def
      sq.scheduled_def sq.sends_current_def active_ok_def)

lemma RestoreFromState_ok: "sq.scheduled q \<Longrightarrow> sq.scheduled (RRSendQueue_RestoreFromState fl state q)"
proof -
  have one: "sq.scheduled (restore_outgoing fl st p)" if "sq.scheduled p" for st p
    using that create_missing_ok(1,2) by (cases p) (auto simp: restore_outgoing_def scheduled_iff Let_def)
  have "sq.scheduled (fold (restore_outgoing fl) sts q)" if "sq.scheduled q" for sts
    using that by (induction sts arbitrary: q) (simp_all add: one)
  then show "sq.scheduled q \<Longrightarrow> ?thesis" by (simp add: RRSendQueue_RestoreFromState_def)
qed

lemma RRSendQueue_new_ok: "sq.scheduled (RRSendQueue_new mtu p t)"
  by (auto simp: RRSendQueue_new_def StreamScheduler_new_def sq.scheduled_def sq.sends_current_def active_ok_def sq_ok_def
      sq_stream_def om_at_def om_find_def sq_total_def bytes_to_send_def bytes_to_send_in_next_message_def)

section \<open>Runs\<close>

text \<open>
  A run is a sequence of calls; its result is the sequence of chunks that \<open>Produce\<close> returned and the
  final state.
\<close>

datatype QueueCall =
    CallAdd Timestamp DcSctpMessage SendOptions
  | CallProduce Timestamp nat
  | CallDiscard u16 u32
  | CallPrepareResetStream u16
  | CallGetStreamsReadyToBeReset
  | CallCommitResetStreams
  | CallRollbackResetStreams
  | CallReset
  | CallSetBufferedAmountLowThreshold u16 nat
  | CallSetStreamPriority u16 u16
  | CallEnableMessageInterleaving bool
  | CallRestoreFromState DcSctpSocketHandoverState

fun sq_call :: "(rat \<Rightarrow> rat) \<Rightarrow> QueueCall \<Rightarrow> RRSendQueue \<Rightarrow> (DataToSend list \<times> RRSendQueue) outcome" where
  "sq_call fl (CallAdd now message options) q = Value ([], RRSendQueue_Add fl now message options q)"
| "sq_call fl (CallProduce now max_size) q =
     obind (RRSendQueue_Produce fl now max_size q)
       (\<lambda>(data, q). Value (case data of None \<Rightarrow> [] | Some d \<Rightarrow> [d], q))"
| "sq_call fl (CallDiscard i message_id) q = Value ([], snd (RRSendQueue_Discard fl i message_id q))"
| "sq_call fl (CallPrepareResetStream i) q = Value ([], RRSendQueue_PrepareResetStream fl i q)"
| "sq_call fl CallGetStreamsReadyToBeReset q = Value ([], snd (GetStreamsReadyToBeReset q))"
| "sq_call fl CallCommitResetStreams q = Value ([], CommitResetStreams fl q)"
| "sq_call fl CallRollbackResetStreams q = Value ([], RollbackResetStreams fl q)"
| "sq_call fl CallReset q = Value ([], RRSendQueue_Reset fl q)"
| "sq_call fl (CallSetBufferedAmountLowThreshold i n) q = Value ([], SetBufferedAmountLowThreshold fl i n q)"
| "sq_call fl (CallSetStreamPriority i p) q = Value ([], SetStreamPriority fl i p q)"
| "sq_call fl (CallEnableMessageInterleaving b) q = Value ([], RRSendQueue_EnableMessageInterleaving b q)"
| "sq_call fl (CallRestoreFromState state) q = Value ([], RRSendQueue_RestoreFromState fl state q)"

fun sq_run :: "(rat \<Rightarrow> rat) \<Rightarrow> QueueCall list \<Rightarrow> RRSendQueue \<Rightarrow> (DataToSend list \<times> RRSendQueue) outcome" where
  "sq_run fl [] q = Value ([], q)"
| "sq_run fl (c # cs) q =
     obind (sq_call fl c q) (\<lambda>(ds, q). obind (sq_run fl cs q) (\<lambda>(ds', q). Value (ds @ ds', q)))"

text \<open>What the callers guarantee: messages are not empty and fragments have room for a byte.\<close>

fun call_ok :: "QueueCall \<Rightarrow> bool" where
  "call_ok (CallAdd now message options) \<longleftrightarrow> msg_payload message \<noteq> []"
| "call_ok (CallProduce now max_size) \<longleftrightarrow> 0 < max_size"
| "call_ok _ \<longleftrightarrow> True"

lemma sq_call_ok:
  assumes "sq.scheduled q" and "call_ok c"
  shows "\<exists>ds q'. sq_call fl c q = Value (ds, q') \<and> sq.scheduled q'"
proof (cases c)
  case (CallProduce now n)
  with assms obtain r where r: "RRSendQueue_Produce fl now n q = Value r" "sq.production now n q r"
    using sq.Produce_scheduled [of q n fl now] by (auto simp: RRSendQueue_Produce_def)
  then have "sq.scheduled (snd r)" by (auto simp: sq.production_def split: prod.splits)
  with r(1) CallProduce show ?thesis by (cases r) simp
qed (use assms in \<open>simp_all add: RRSendQueue_Add_ok RRSendQueue_Discard_ok RRSendQueue_PrepareResetStream_ok
    GetStreamsReadyToBeReset_ok CommitResetStreams_ok RollbackResetStreams_ok RRSendQueue_Reset_ok
    SetBufferedAmountLowThreshold_ok SetStreamPriority_ok EnableMessageInterleaving_ok RestoreFromState_ok\<close>)

lemma sq_run_ok:
  assumes "sq.scheduled q" and "\<forall>c\<in>set cs. call_ok c"
  shows "\<exists>ds q'. sq_run fl cs q = Value (ds, q') \<and> sq.scheduled q'"
  using assms
proof (induction cs arbitrary: q)
  case (Cons c cs)
  obtain ds q1 where 1: "sq_call fl c q = Value (ds, q1)" "sq.scheduled q1"
    using sq_call_ok Cons.prems by (meson list.set_intros(1))
  with Cons.IH [OF 1(2)] Cons.prems(2) obtain ds' q2 where "sq_run fl cs q1 = Value (ds', q2)" "sq.scheduled q2"
    by auto
  with 1 show ?case by simp
qed simp

lemma sq_stream_mem: "om_ok (sq_streams g) \<Longrightarrow> (i, s) \<in> set (sq_streams g) \<Longrightarrow> sq_stream i g = s"
  by (simp add: sq_stream_def om_at_def om_in_find)

lemma bytes_to_send_mem: "0 < bytes_to_send i g \<Longrightarrow> (i, sq_stream i g) \<in> set (sq_streams g)"
  by (cases "om_find (sq_streams g) i")
    (auto simp: bytes_to_send_def sq_stream_def om_at_def bytes_to_send_in_next_message_def dest: om_find_Some)

lemma scheduled_consistent:
  assumes "sq.scheduled q"
  shows "RRSendQueue_IsConsistent q"
proof -
  obtain sch g where q: "q = (sch, g)" by fastforce
  have g: "om_ok (sq_streams g)" "om_weight ogs_value (sq_streams g) = sq_total g"
      "\<forall>i. i \<in> set (sch_active_streams sch) \<longleftrightarrow> 0 < bytes_to_send i g"
    using assms by (simp_all add: q sq.scheduled_def sq_ok_def)
  have "(\<exists>s. (i, s) \<in> set (sq_streams g) \<and> 0 < bytes_to_send_in_next_message s) \<longleftrightarrow> 0 < bytes_to_send i g" for i
    using bytes_to_send_mem [of i g] sq_stream_mem [OF g(1)] by (auto simp: bytes_to_send_def)
  with g show ?thesis
    by (auto simp: q RRSendQueue_IsConsistent_def ActiveStreamsForTesting_def om_weight_def ogs_value_def sq_total_def)
qed

section \<open>Properties\<close>

text \<open>
  C5. The send queue never gets stuck and stays consistent: after any sequence of calls, in any
  order and with any rounding of the virtual times, every call has returned, the active streams of
  the scheduler are exactly the streams with bytes to send, the total of the buffered bytes is the
  sum over the streams, and the buffered bytes of a stream are those of its messages.
\<close>

theorem send_queue_consistent:
  assumes "\<forall>c\<in>set calls. call_ok c"
  shows "\<exists>ds q. sq_run fl calls (RRSendQueue_new mtu priority threshold) = Value (ds, q) \<and>
    RRSendQueue_IsConsistent q \<and> list_all (\<lambda>p. OutgoingStream_IsConsistent (snd p)) (sq_streams (snd q))"
proof -
  obtain ds q where r: "sq_run fl calls (RRSendQueue_new mtu priority threshold) = Value (ds, q)" "sq.scheduled q"
    using sq_run_ok [OF RRSendQueue_new_ok assms] by blast
  then have "om_ok (sq_streams (snd q))" "\<forall>i. ogs_ok i (sq_stream i (snd q))"
    by (auto simp: sq.scheduled_def sq_ok_def split: prod.splits)
  then have "list_all (\<lambda>p. OutgoingStream_IsConsistent (snd p)) (sq_streams (snd q))"
    using sq_stream_mem by (fastforce simp: list_all_iff ogs_ok_def)
  with r scheduled_consistent show ?thesis by blast
qed

definition sample_message :: "u16 \<Rightarrow> nat \<Rightarrow> DcSctpMessage" where
  "sample_message i n = \<lparr>msg_stream_id = i, msg_ppid = 53, msg_payload = replicate n 7\<rparr>"

definition sample_options :: SendOptions where
  "sample_options = \<lparr>so_unordered = False, so_lifetime = None, so_max_retransmissions = None, so_lifecycle_id = 0\<rparr>"

definition sample_calls :: "QueueCall list" where
  "sample_calls =
     [CallAdd (Millis 5) (sample_message 1 30) sample_options, CallAdd (Millis 5) (sample_message 2 10) sample_options,
      CallProduce (Millis 5) 20, CallPrepareResetStream 1, CallProduce (Millis 6) 20, CallGetStreamsReadyToBeReset,
      CallCommitResetStreams, CallProduce (Millis 6) 20]"

theorem send_queue_consistent_witness:
  "\<exists>ds q. sq_run (\<lambda>x. x) sample_calls (RRSendQueue_new 1200 256 0) = Value (ds, q) \<and>
    RRSendQueue_IsConsistent q \<and> list_all (\<lambda>p. OutgoingStream_IsConsistent (snd p)) (sq_streams (snd q))"
  by (rule send_queue_consistent) (simp add: sample_calls_def sample_message_def)

text \<open>
  C9. The data of the send queue is well-formed in every reachable state: the queued messages of a
  stream belong to it and are not used up, their sent and remaining parts make up the payload, only
  the first one can be partially sent, a stream with a pending pause is in the middle of a message
  and a paused or resetting stream is not.
\<close>

theorem send_queue_well_formed:
  assumes "\<forall>c\<in>set calls. call_ok c"
    and "sq_run fl calls (RRSendQueue_new mtu priority threshold) = Value (ds, q)"
    and "(i, s) \<in> set (sq_streams (snd q))"
  shows "items_ok i (ogs_items s) \<and>
    (ogs_pause_state s = kPending \<longrightarrow> has_partially_sent_message s) \<and>
    (ogs_pause_state s \<in> {kPaused, kResetting} \<longrightarrow> \<not> has_partially_sent_message s)"
proof -
  have "sq.scheduled q" using sq_run_ok [OF RRSendQueue_new_ok assms(1), of fl] assms(2) by (metis outcome.inject prod.inject)
  then have "ogs_ok i s" using sq_stream_mem assms(3) by (fastforce simp: sq.scheduled_def sq_ok_def split: prod.splits)
  then show ?thesis by (simp add: ogs_ok_def)
qed

definition sample_run :: "(DataToSend list \<times> RRSendQueue) outcome" where
  "sample_run = sq_run (\<lambda>x. x) (take 4 sample_calls) (RRSendQueue_new 1200 256 0)"

lemma sample_run_pauses:
  "case sample_run of
     Value (ds, q) \<Rightarrow> map (\<lambda>p. ogs_pause_state (snd p)) (sq_streams (snd q)) = [kPending, kNotPaused]
   | _ \<Rightarrow> False"
  by code_simp

theorem send_queue_well_formed_witness:
  "\<exists>ds q i s. sample_run = Value (ds, q) \<and> (i, s) \<in> set (sq_streams (snd q)) \<and> ogs_pause_state s = kPending \<and>
     items_ok i (ogs_items s) \<and> has_partially_sent_message s"
proof -
  obtain ds q where r: "sample_run = Value (ds, q)"
      "map (\<lambda>p. ogs_pause_state (snd p)) (sq_streams (snd q)) = [kPending, kNotPaused]"
    using sample_run_pauses by (auto split: outcome.splits)
  then have "kPending \<in> (\<lambda>p. ogs_pause_state (snd p)) ` set (sq_streams (snd q))"
    by (simp flip: set_map)
  then obtain i s where s: "(i, s) \<in> set (sq_streams (snd q))" "ogs_pause_state s = kPending"
    by auto
  have "\<forall>c\<in>set (take 4 sample_calls). call_ok c" by (simp add: sample_calls_def sample_message_def)
  from send_queue_well_formed [OF this r(1) [unfolded sample_run_def] s(1)] r(1) s show ?thesis by blast
qed

end
