(* ===== verification/Message_Transfer.thy ===== *)
theory Message_Transfer
  imports Send_Queue Traditional_Reassembly "HOL-Library.Sublist"
begin

text \<open>
  From the send queue to the receiver: how the chunks that \<open>RRSendQueue::Produce\<close> returns make up
  the messages that were added, when message interleaving is off and no message expires. The chunks
  of a stream are, in order, the fragments of its messages; the fragments of a message have
  consecutive TSNs, because the scheduler finishes a message before it turns to another stream.
\<close>

section \<open>Numbering\<close>

text \<open>Chunks are given consecutive TSNs in the order in which they are produced.\<close>

fun number_from :: "int \<Rightarrow> DataToSend list \<Rightarrow> Fragment list" where
  "number_from t [] = []"
| "number_from t (d # ds) = (t, dts_data d) # number_from (t + 1) ds"

definition stream_fragments :: "u16 \<Rightarrow> Fragment list \<Rightarrow> Fragment list" where
  "stream_fragments i = filter (\<lambda>f. data_stream_id (snd f) = i \<and> \<not> data_is_unordered (snd f))"

fun message_added :: "u16 \<Rightarrow> QueueCall \<Rightarrow> DcSctpMessage list" where
  "message_added i (CallAdd now message options) =
     (if msg_stream_id message = i \<and> \<not> so_unordered options then [message] else [])"
| "message_added i _ = []"

definition messages_added :: "u16 \<Rightarrow> QueueCall list \<Rightarrow> DcSctpMessage list" where
  "messages_added i calls = concat (map (message_added i) calls)"

text \<open>The calls under which nothing is abandoned.\<close>

fun reliable_call :: "QueueCall \<Rightarrow> bool" where
  "reliable_call (CallAdd now message options) \<longleftrightarrow>
     msg_payload message \<noteq> [] \<and> length (msg_payload message) \<le> kMaxInt \<and> so_lifetime options = None"
| "reliable_call (CallProduce now max_size) \<longleftrightarrow> 0 < max_size \<and> now < PlusInfinity"
| "reliable_call (CallSetBufferedAmountLowThreshold i n) \<longleftrightarrow> True"
| "reliable_call (CallSetStreamPriority i p) \<longleftrightarrow> True"
| "reliable_call _ \<longleftrightarrow> False"

lemma number_from_append:
  "number_from t (ds @ es) = number_from t ds @ number_from (t + int (length ds)) es"
  by (induction t ds rule: number_from.induct) (auto simp: ac_simps)

lemma stream_fragments_append: "stream_fragments i (fs @ gs) = stream_fragments i fs @ stream_fragments i gs"
  by (simp add: stream_fragments_def)

lemma reliable_call_ok: "reliable_call c \<Longrightarrow> call_ok c"
  by (cases c) auto

section \<open>The fragments of a message\<close>

definition fragment_of :: "QueuedItem \<Rightarrow> nat \<Rightarrow> Data \<Rightarrow> bool" where
  "fragment_of item k d \<longleftrightarrow>
     data_stream_id d = msg_stream_id (qi_message item) \<and> data_ppid d = msg_ppid (qi_message item) \<and>
     data_ssn d = (case qi_ssn item of None \<Rightarrow> 0 | Some ssn \<Rightarrow> ssn) \<and>
     data_is_unordered d = ma_unordered (qi_attributes item) \<and> data_payload d \<noteq> [] \<and>
     (data_is_beginning d \<longleftrightarrow> k = 0)"

definition sent_part :: "QueuedItem \<Rightarrow> Data list \<Rightarrow> bool" where
  "sent_part item ds \<longleftrightarrow> (ds = [] \<longleftrightarrow> qi_remaining_offset item = 0) \<and>
     concat (map data_payload ds) = take (qi_remaining_offset item) (msg_payload (qi_message item)) \<and>
     (\<forall>k<length ds. fragment_of item k (ds ! k) \<and> \<not> data_is_end (ds ! k))"

lemma next_fragment_step:
  assumes "sent_part item ds" and "item_ok i item" and "0 < n" and "d = next_fragment n item"
  shows "fragment_of item (length ds) (dts_data d)"
    and "data_is_end (dts_data d) \<Longrightarrow> concat (map data_payload (ds @ [dts_data d])) = msg_payload (qi_message item)"
    and "\<not> data_is_end (dts_data d) \<Longrightarrow> sent_part (advance_item d item) (ds @ [dts_data d])"
proof -
  note nf = next_fragment_data [OF assms(2), of n, folded assms(4)]
  let ?p = "msg_payload (qi_message item)" and ?o = "qi_remaining_offset item"
  have l: "?o + qi_remaining_size item = length ?p" "0 < qi_remaining_size item"
    using assms(2) by (simp_all add: item_ok_def)
  have "data_payload (dts_data d) \<noteq> []" using nf(1) l assms(3) by auto
  moreover have "data_is_beginning (dts_data d) \<longleftrightarrow> length ds = 0"
    using nf(4) assms(1) by (simp add: sent_part_def)
  ultimately show f: "fragment_of item (length ds) (dts_data d)"
    by (simp add: fragment_of_def) (simp add: assms(4) next_fragment_def Let_def)
  have c: "concat (map data_payload (ds @ [dts_data d])) = take (?o + n) ?p"
    using assms(1) nf(1) by (simp add: sent_part_def take_add)
  show "concat (map data_payload (ds @ [dts_data d])) = ?p" if "data_is_end (dts_data d)"
    using c that nf(3) l(1) by simp
  show "sent_part (advance_item d item) (ds @ [dts_data d])" if "\<not> data_is_end (dts_data d)"
  proof -
    have "Data_size (dts_data d) = n" using that nf(2,3) by simp
    moreover have "fragment_of (advance_item d item) k x = fragment_of item k x" for k x
      by (simp add: fragment_of_def advance_item_def)
    ultimately show ?thesis
      using c f that assms(1,3) by (auto simp: sent_part_def advance_item_def nth_append less_Suc_eq)
  qed
qed

section \<open>The history of a run\<close>

definition front_ssn :: "OutgoingStream \<Rightarrow> u16 option" where
  "front_ssn s = (case ogs_items s of [] \<Rightarrow> None | item # _ \<Rightarrow> qi_ssn item)"

text \<open>\<open>n\<close> ordered messages have been sent completely: their sequence numbers are used up.\<close>

definition numbered :: "nat \<Rightarrow> OutgoingStream \<Rightarrow> bool" where
  "numbered n s \<longleftrightarrow> ogs_next_ssn s = of_nat (n + (if front_ssn s = None then 0 else 1)) \<and>
     (\<forall>x. front_ssn s = Some x \<longrightarrow> x = of_nat n)"

definition lasting :: "QueuedItem \<Rightarrow> bool" where
  "lasting item \<longleftrightarrow> ma_expires_at (qi_attributes item) = PlusInfinity \<and> length (msg_payload (qi_message item)) \<le> kMaxInt"

definition ordered_items :: "OutgoingStream \<Rightarrow> DcSctpMessage list" where
  "ordered_items s = map qi_message (filter (\<lambda>item. \<not> ma_unordered (qi_attributes item)) (ogs_items s))"

text \<open>
  \<open>sent i\<close> are the ordered messages of stream \<open>i\<close> that are completely sent, \<open>part\<close> the fragments of
  the message that is being sent, \<open>added i\<close> the ordered messages added to stream \<open>i\<close>, \<open>t\<close> the TSN of
  the next chunk.
\<close>

definition part_ok :: "int \<Rightarrow> Fragment list \<Rightarrow> StreamScheduler \<Rightarrow> SendQueueState \<Rightarrow> bool" where
  "part_ok t part sch g \<longleftrightarrow>
     (\<forall>k<length part. fst (part ! k) = t - int (length part) + int k) \<and>
     (if sch_currently_sending_a_message sch
      then \<exists>i item items. sch_current_stream sch = Some i \<and> ogs_items (sq_stream i g) = item # items \<and>
             sent_part item (map snd part)
      else part = [])"

definition history ::
  "int \<Rightarrow> Fragment list \<Rightarrow> (u16 \<Rightarrow> Fragment list list) \<Rightarrow> Fragment list \<Rightarrow> (u16 \<Rightarrow> DcSctpMessage list) \<Rightarrow> RRSendQueue \<Rightarrow> bool" where
  "history t fs sent part added = (\<lambda>(sch, g). \<not> sch_enable_message_interleaving sch \<and> part_ok t part sch g \<and>
     (\<forall>i. partially_sent i g \<longrightarrow> sch_currently_sending_a_message sch \<and> sch_current_stream sch = Some i) \<and>
     (\<forall>i. stream_fragments i fs = concat (sent i) @ stream_fragments i part \<and>
        (\<forall>j<length (sent i). ordered_message j (sent i ! j)) \<and>
        map (snd \<circ> message_of) (sent i) @ ordered_items (sq_stream i g) = added i \<and>
        numbered (length (sent i)) (sq_stream i g) \<and> list_all lasting (ogs_items (sq_stream i g))))"

lemma part_ok_append:
  assumes "part_ok t part sch g" and "same_flags sch sch'" and "sch_current_stream sch' = sch_current_stream sch"
    and "\<And>j. \<exists>more. ogs_items (sq_stream j g') = ogs_items (sq_stream j g) @ more"
  shows "part_ok t part sch' g'"
proof -
  have "\<exists>i item items. sch_current_stream sch' = Some i \<and> ogs_items (sq_stream i g') = item # items \<and>
      sent_part item (map snd part)" if sending: "sch_currently_sending_a_message sch"
  proof -
    obtain i item items where "sch_current_stream sch = Some i" "ogs_items (sq_stream i g) = item # items"
        "sent_part item (map snd part)"
      using assms(1) sending unfolding part_ok_def by auto
    moreover obtain more where "ogs_items (sq_stream i g') = ogs_items (sq_stream i g) @ more" using assms(4) by blast
    ultimately show ?thesis using assms(3) by simp
  qed
  with assms(1,2) show ?thesis by (simp add: part_ok_def same_flags_def)
qed

lemma history_cong:
  assumes "history t fs sent part added (sch, g)" and "same_flags sch sch'"
    and "sch_current_stream sch' = sch_current_stream sch"
    and "\<And>i. ogs_items (sq_stream i g') = ogs_items (sq_stream i g)"
    and "\<And>i. ogs_next_ssn (sq_stream i g') = ogs_next_ssn (sq_stream i g)"
  shows "history t fs sent part added (sch', g')"
proof -
  have "part_ok t part sch' g'"
    by (rule part_ok_append [where g = g, OF _ assms(2,3)]) (use assms(1,4) in \<open>simp_all add: history_def\<close>)
  moreover have "partially_sent i g' = partially_sent i g" "ordered_items (sq_stream i g') = ordered_items (sq_stream i g)"
      "numbered n (sq_stream i g') = numbered n (sq_stream i g)" for i n
    using assms(4,5) [of i]
    by (simp_all add: partially_sent_def has_partially_sent_message_def ordered_items_def numbered_def front_ssn_def)
  ultimately show ?thesis using assms by (simp add: history_def same_flags_def)
qed

lemma ordered_items_append: "ogs_items s' = ogs_items s @ [item] \<Longrightarrow>
   ordered_items s' = ordered_items s @ (if ma_unordered (qi_attributes item) then [] else [qi_message item])"
  by (simp add: ordered_items_def)

lemma front_append_unsent:
  assumes "ogs_items s' = ogs_items s @ [item]" and "unsent item"
  shows "front_ssn s' = front_ssn s" and "has_partially_sent_message s' = has_partially_sent_message s"
  using assms by (cases "ogs_items s"; simp add: front_ssn_def has_partially_sent_message_def unsent_def)+

lemma RRSendQueue_Add_effect:
  assumes "sq.scheduled (sch, g)" and "RRSendQueue_Add fl now message options (sch, g) = (sch', g')"
    and "so_lifetime options = None"
  shows "same_flags sch sch' \<and> sch_current_stream sch' = sch_current_stream sch \<and>
    (\<exists>item. unsent item \<and> qi_message item = message \<and> ma_unordered (qi_attributes item) = so_unordered options \<and>
       ma_expires_at (qi_attributes item) = PlusInfinity \<and>
       (\<forall>j. ogs_next_ssn (sq_stream j g') = ogs_next_ssn (sq_stream j g) \<and>
          ogs_items (sq_stream j g') =
            (if j = msg_stream_id message then ogs_items (sq_stream j g) @ [item] else ogs_items (sq_stream j g))))"
proof -
  let ?i = "msg_stream_id message"
  obtain sch1 g1 where c: "GetOrCreateStreamInfo fl ?i (sch, g) = (sch1, g1)" by fastforce
  note C = GetOrCreateStreamInfo_ok [OF assms(1) c]
  have om: "om_ok (sq_streams g1)" using C(1) by (simp add: sq.scheduled_def sq_ok_def)
  have flags: "same_flags sch sch1" "sch_current_stream sch1 = sch_current_stream sch"
    using c by (auto simp: GetOrCreateStreamInfo_def CreateStream_def same_flags_def split: if_splits)
  define attributes where "attributes = \<lparr>ma_unordered = so_unordered options,
    ma_max_retransmissions = (case so_max_retransmissions options of Some n \<Rightarrow> of_nat n | None \<Rightarrow> MaxRetransmits_NoLimit),
    ma_expires_at = PlusInfinity, ma_lifecycle_id = so_lifecycle_id options\<rparr>"
  define item where "item = QueuedItem_new (sq_current_message_id g1) message attributes"
  obtain s' g2 where a: "OutgoingStream_Add message attributes (sq_stream ?i g1, g1) = (s', g2)" by fastforce
  then have s': "ogs_items s' = ogs_items (sq_stream ?i g1) @ [item]" "ogs_next_ssn s' = ogs_next_ssn (sq_stream ?i g1)"
      "sq_streams g2 = sq_streams g1"
    by (auto simp: OutgoingStream_Add_def item_def)
  have g': "g' = sq_store ?i (s', g2)" and
      sch': "sch' = sch1 \<or> (\<exists>n. sch' = MaybeMakeActive fl ?i n sch1 \<and> \<not> 0 < bytes_to_send ?i g1)"
    using assms(2,3) c a by (auto simp: RRSendQueue_Add_def Let_def attributes_def split: if_splits)
  have "sq_stream j g' = (if j = ?i then s' else sq_stream j g)" for j
    using sq_stream_store [of g2 j ?i s'] om s'(3) C(2) sq_stream_cong [OF s'(3)] by (simp add: g')
  then have st: "\<forall>j. ogs_next_ssn (sq_stream j g') = ogs_next_ssn (sq_stream j g) \<and>
      ogs_items (sq_stream j g') = (if j = ?i then ogs_items (sq_stream j g) @ [item] else ogs_items (sq_stream j g))"
    using s' C(2) by simp
  have "active_ok sch1" "\<not> 0 < bytes_to_send ?i g1 \<Longrightarrow> ?i \<notin> set (sch_active_streams sch1)"
    using C(1) by (simp_all add: sq.scheduled_def)
  with sch' flags MaybeMakeActive_ok [of sch1 _ ?i fl]
  have "same_flags sch sch' \<and> sch_current_stream sch' = sch_current_stream sch"
    by (auto simp: same_flags_def)
  moreover have "unsent item \<and> qi_message item = message \<and> ma_unordered (qi_attributes item) = so_unordered options \<and>
      ma_expires_at (qi_attributes item) = PlusInfinity"
    by (simp add: item_def QueuedItem_new_def unsent_def attributes_def)
  ultimately show ?thesis using st by blast
qed

lemma history_Add:
  assumes "history t fs sent part added q" and "sq.scheduled q" and "reliable_call (CallAdd now message options)"
  shows "history t fs sent part (\<lambda>i. added i @ message_added i (CallAdd now message options))
           (RRSendQueue_Add fl now message options q)"
proof -
  obtain sch g where q: "q = (sch, g)" by fastforce
  obtain sch' g' where r: "RRSendQueue_Add fl now message options (sch, g) = (sch', g')" by fastforce
  obtain item where item: "unsent item" "qi_message item = message"
      "ma_unordered (qi_attributes item) = so_unordered options" "ma_expires_at (qi_attributes item) = PlusInfinity"
      and st: "\<And>j. ogs_next_ssn (sq_stream j g') = ogs_next_ssn (sq_stream j g)"
      "\<And>j. ogs_items (sq_stream j g') =
        (if j = msg_stream_id message then ogs_items (sq_stream j g) @ [item] else ogs_items (sq_stream j g))"
      and flags: "same_flags sch sch'" "sch_current_stream sch' = sch_current_stream sch"
    using RRSendQueue_Add_effect [OF assms(2) [unfolded q] r] assms(3) by auto
  have h: "part_ok t part sch g" "\<not> sch_enable_message_interleaving sch"
    "\<forall>i. partially_sent i g \<longrightarrow> sch_currently_sending_a_message sch \<and> sch_current_stream sch = Some i"
    using assms(1) by (simp_all add: q history_def)
  have same: "front_ssn (sq_stream j g') = front_ssn (sq_stream j g)"
      "partially_sent j g' = partially_sent j g" for j
    using front_append_unsent [OF _ item(1), of "sq_stream j g'" "sq_stream j g"] st(2) [of j]
    by (cases "j = msg_stream_id message"; simp add: partially_sent_def front_ssn_def has_partially_sent_message_def)+
  have "part_ok t part sch' g'" by (rule part_ok_append [OF h(1) flags]) (use st(2) in auto)
  moreover have "ordered_items (sq_stream j g') = ordered_items (sq_stream j g) @ message_added j (CallAdd now message options)"
    for j using st(2) [of j] ordered_items_append [of "sq_stream j g'" "sq_stream j g" item] item(2,3)
    by (auto simp: ordered_items_def)
  moreover have "list_all lasting (ogs_items (sq_stream j g'))" if "list_all lasting (ogs_items (sq_stream j g))" for j
    using that st(2) [of j] item assms(3) by (simp add: lasting_def split: if_splits)
  ultimately show ?thesis
    using assms(1) h flags same st(1) unfolding q r
    by (auto simp: history_def numbered_def same_flags_def append.assoc [symmetric] simp del: message_added.simps append.assoc)
qed

section \<open>Producing\<close>

lemma lasting_not_expired:
  "list_all lasting items \<Longrightarrow> now < PlusInfinity \<Longrightarrow> item \<in> set items \<Longrightarrow> \<not> ma_expires_at (qi_attributes item) \<le> now"
  by (auto simp: list_all_iff lasting_def)

lemma produce_none_lasting:
  assumes "om_ok (sq_streams g)" and "\<forall>j. list_all lasting (ogs_items (sq_stream j g))" and "now < PlusInfinity"
    and "produce_from i now n g = (None, h)"
  shows "om_ok (sq_streams h) \<and> (\<forall>j. sq_stream j h = sq_stream j g)"
proof -
  obtain s' g1 where p: "OutgoingStream_Produce i now n (sq_stream i g, g) = (None, s', g1)"
      and h: "h = sq_store i (s', g1)"
    using assms(4) by (auto simp: produce_from_def split: prod.splits)
  have st: "s' = sq_stream i g \<and> sq_streams g1 = sq_streams g" using p
  proof (cases rule: OutgoingStream_Produce_cases)
    case (none cs)
    have "ogs_items (sq_stream i g) = []"
      using none(2) lasting_not_expired assms(2,3) by (metis list.set_intros(1) neq_Nil_conv)
    with none(3,4) show ?thesis by simp
  qed auto
  then have "sq_stream j h = sq_stream j g" for j
    using sq_stream_store [of g1 j i s'] assms(1) sq_stream_cong [of g1 g] by (simp add: h)
  moreover have "om_ok (sq_streams h)" using st assms(1) by (simp add: h sq_store_def om_insert_ok)
  ultimately show ?thesis by blast
qed

lemma skips_lasting:
  assumes "skips produce_from now n g h" and "om_ok (sq_streams g)"
    and "\<forall>j. list_all lasting (ogs_items (sq_stream j g))" and "now < PlusInfinity"
  shows "\<forall>j. sq_stream j h = sq_stream j g"
  using assms
proof (induction rule: skips.induct)
  case (skips_one i g h h')
  from produce_none_lasting [OF skips_one.prems skips_one.hyps(1)] skips_one.IH skips_one.prems show ?case by simp
qed simp

lemma produce_some_lasting:
  assumes "sq_ok g" and "0 < bytes_to_send i g" and "0 < n" and "\<forall>j. list_all lasting (ogs_items (sq_stream j g))"
    and "now < PlusInfinity" and "produce_from i now n g = (Some d, g')"
  obtains item0 items item s1 where "ogs_items (sq_stream i g) = item0 # items"
    and "allocate_ids item0 (sq_stream i g) = (item, s1)" and "d = next_fragment n item"
    and "ogs_next_ssn (sq_stream i g') = ogs_next_ssn s1"
    and "ogs_items (sq_stream i g') = (if data_is_end (dts_data d) then items else advance_item d item # items)"
    and "\<forall>j. j \<noteq> i \<longrightarrow> sq_stream j g' = sq_stream j g"
proof -
  obtain s' g1 where p: "OutgoingStream_Produce i now n (sq_stream i g, g) = (Some d, s', g1)"
      and g': "g' = sq_store i (s', g1)"
    using assms(6) by (auto simp: produce_from_def split: prod.splits)
  have "ogs_ok i (sq_stream i g)" "0 < bytes_to_send_in_next_message (sq_stream i g)"
    using assms(1,2) by (simp_all add: sq_ok_def bytes_to_send_def)
  from OutgoingStream_Produce_ok [OF this sq_value_le [OF assms(1)] assms(3) p]
  have "ogs_ok i s'" "balanced (sq_stream i g, g) (s', g1)" by blast+
  note st = sq_store_ok(2) [OF assms(1) this, folded g']
  from p show ?thesis
  proof (cases rule: OutgoingStream_Produce_cases)
    case (some k item s1 d1 cs)
    let ?items = "ogs_items (sq_stream i g)"
    have "k = 0"
    proof (rule ccontr)
      assume "k \<noteq> 0"
      then have "?items ! 0 \<in> set (take k ?items)" using some(1) by (auto simp: in_set_conv_nth)
      with some(2) lasting_not_expired assms(4,5) show False by (meson in_set_takeD)
    qed
    with some have "?items = ?items ! 0 # tl ?items" "drop (Suc k) ?items = tl ?items" "d1 = d"
      by (cases ?items; simp)+
    with some \<open>k = 0\<close> that [of "?items ! 0" "tl ?items" item s1] st show ?thesis
      by (simp add: after_fragment_def)
  qed simp
qed

lemma allocate_ids_numbered:
  assumes "numbered m s" and "ogs_items s = item0 # items" and "unsent item0 \<or> started item0"
    and "allocate_ids item0 s = (item, s1)"
  shows "qi_ssn item = (if ma_unordered (qi_attributes item0) then None else Some (of_nat m)) \<and>
         ogs_next_ssn s1 = of_nat (m + (if ma_unordered (qi_attributes item0) then 0 else 1))"
proof (cases "unsent item0")
  case True
  then have "front_ssn s = None" using assms(2) by (simp add: front_ssn_def unsent_def)
  with True assms show ?thesis by (auto simp: numbered_def allocate_ids_def unsent_def Let_def split: if_splits)
next
  case False
  with assms(3) have st: "started item0" by blast
  then have "front_ssn s = None \<longleftrightarrow> ma_unordered (qi_attributes item0)" "front_ssn s = qi_ssn item0"
    using assms(2) by (simp_all add: front_ssn_def started_def)
  moreover have "item = item0" "s1 = s" using assms(4) allocate_ids_started [OF st] by simp_all
  ultimately show ?thesis using assms(1) by (auto simp: numbered_def)
qed

lemma whole_message:
  assumes "part \<noteq> []" and "\<forall>k<length part. fst (part ! k) = c + int k"
    and "\<forall>k<length part. fragment_of item k (snd (part ! k)) \<and> (data_is_end (snd (part ! k)) \<longleftrightarrow> Suc k = length part)"
    and "concat (map data_payload (map snd part)) = msg_payload (qi_message item)"
    and "length (msg_payload (qi_message item)) \<le> kMaxInt" and "qi_ssn item = Some (of_nat j)"
  shows "ordered_message j part \<and> snd (message_of part) = qi_message item"
proof -
  have "chunk_bytes part = length (concat (map data_payload (map snd part)))"
    by (simp add: chunk_bytes_sum length_concat comp_def Data_size_def)
  then have "chunk_bytes part \<le> kMaxInt" using assms(4,5) by simp
  moreover have "fst (part ! 0) = c" using spec [OF assms(2), of 0] assms(1) by simp
  then have "\<forall>k<length part. fst (part ! k) = fst (part ! 0) + int k" using assms(2) by presburger
  moreover have "\<forall>k<length part. data_ssn (snd (part ! k)) = of_nat j \<and> data_payload (snd (part ! k)) \<noteq> [] \<and>
      (data_is_beginning (snd (part ! k)) \<longleftrightarrow> k = 0) \<and> (data_is_end (snd (part ! k)) \<longleftrightarrow> Suc k = length part)"
    using assms(3,6) by (simp add: fragment_of_def)
  ultimately have "ordered_message j part"
    using assms(1) unfolding ordered_message_def by blast
  moreover have "fragment_of item 0 (snd (hd part))" using assms(1,3) by (simp add: hd_conv_nth)
  then have "snd (message_of part) = qi_message item"
    using assms(4) by (simp add: message_of_def fragment_of_def comp_def)
  ultimately show ?thesis by blast
qed

lemma front_part:
  assumes "history t fs sent part added (sch, g)" and "sq.scheduled (sch, g)"
    and "sch_currently_sending_a_message sch \<longrightarrow> sch_current_stream sch = Some i"
    and "ogs_items (sq_stream i g) = item0 # items" and "allocate_ids item0 (sq_stream i g) = (item, s1)"
  shows "sent_part item (map snd part) \<and> item_ok i item \<and> (unsent item0 \<or> started item0) \<and> lasting item \<and>
    (\<forall>x\<in>set items. unsent x)"
proof -
  have "ogs_ok i (sq_stream i g)" using assms(2) by (simp add: sq.scheduled_def sq_ok_def)
  then have it: "item_ok i item0" "unsent item0 \<or> started item0" "\<forall>x\<in>set items. unsent x"
    using assms(4) by (auto simp: ogs_ok_def items_ok_Cons)
  have la: "lasting item0" using assms(1,4) by (auto simp: history_def dest: spec [of _ i])
  note a = allocate_ids_item [OF assms(5)]
  have "sent_part item (map snd part)"
  proof (cases "sch_currently_sending_a_message sch")
    case True
    with assms(1,3,4) have "sent_part item0 (map snd part)" by (simp add: history_def part_ok_def)
    moreover have "partially_sent i g" using assms(2,3) True by (auto simp: sq.scheduled_def sq.sends_current_def)
    then have "started item0" using it(2) assms(4) by (auto simp: partially_sent_def has_partially_Cons unsent_def)
    ultimately show ?thesis using assms(5) allocate_ids_started by simp
  next
    case False
    then have "part = []" "\<not> partially_sent i g" using assms(1) by (auto simp: history_def part_ok_def)
    then have "unsent item0" using it(2) assms(4) by (auto simp: partially_sent_def has_partially_Cons started_def)
    with a \<open>part = []\<close> show ?thesis by (simp add: sent_part_def unsent_def)
  qed
  with a it la show ?thesis by (simp add: item_ok_def lasting_def)
qed

lemma stream_fragments_uniform:
  assumes "\<forall>k<length part. data_stream_id (snd (part ! k)) = i \<and> data_is_unordered (snd (part ! k)) = u"
  shows "stream_fragments j part = (if j = i \<and> \<not> u then part else [])"
proof -
  have "\<forall>f\<in>set part. data_stream_id (snd f) = i \<and> data_is_unordered (snd f) = u"
    using assms by (metis in_set_conv_nth)
  then show ?thesis by (auto simp: stream_fragments_def filter_id_conv filter_empty_conv)
qed

lemma extend_part:
  assumes "sent_part item (map snd part)" and "item_ok i item" and "0 < n" and "d = next_fragment n item"
    and "\<forall>k<length part. fst (part ! k) = t - int (length part) + int k" and "part1 = part @ [(t, dts_data d)]"
  shows "\<forall>k<length part1. fst (part1 ! k) = t - int (length part) + int k"
    and "\<forall>k<length part1. fragment_of item k (snd (part1 ! k)) \<and>
      (data_is_end (snd (part1 ! k)) \<longleftrightarrow> Suc k = length part1 \<and> data_is_end (dts_data d))"
    and "stream_fragments j part1 = (if j = i \<and> \<not> ma_unordered (qi_attributes item) then part1 else [])"
proof -
  note f = next_fragment_step(1) [OF assms(1-4)]
  show "\<forall>k<length part1. fst (part1 ! k) = t - int (length part) + int k"
    using assms(5) unfolding assms(6) by (auto simp: nth_append less_Suc_eq)
  show fr: "\<forall>k<length part1. fragment_of item k (snd (part1 ! k)) \<and>
      (data_is_end (snd (part1 ! k)) \<longleftrightarrow> Suc k = length part1 \<and> data_is_end (dts_data d))"
    using assms(1) f unfolding assms(6) sent_part_def by (auto simp: nth_append less_Suc_eq)
  show "stream_fragments j part1 = (if j = i \<and> \<not> ma_unordered (qi_attributes item) then part1 else [])"
    by (rule stream_fragments_uniform) (use fr assms(2) in \<open>auto simp: fragment_of_def item_ok_def\<close>)
qed

text \<open>
  One more chunk: stream \<open>i\<close> gives \<open>d\<close>, the next fragment of its first message, which continues the
  message that is being sent or begins a new one.
\<close>

definition next_chunk ::
  "u16 \<Rightarrow> nat \<Rightarrow> DataToSend \<Rightarrow> QueuedItem \<Rightarrow> QueuedItem list \<Rightarrow> RRSendQueue \<Rightarrow> RRSendQueue \<Rightarrow> bool" where
  "next_chunk i n d item items = (\<lambda>(sch, g) (sch', g').
     (sch_currently_sending_a_message sch \<longrightarrow> sch_current_stream sch = Some i) \<and>
     (\<exists>item0 s1. ogs_items (sq_stream i g) = item0 # items \<and>
        allocate_ids item0 (sq_stream i g) = (item, s1) \<and> ogs_next_ssn (sq_stream i g') = ogs_next_ssn s1) \<and>
     d = next_fragment n item \<and> 0 < n \<and>
     ogs_items (sq_stream i g') = (if data_is_end (dts_data d) then items else advance_item d item # items) \<and>
     (\<forall>j. j \<noteq> i \<longrightarrow> sq_stream j g' = sq_stream j g) \<and>
     sch_current_stream sch' = Some i \<and> sch_currently_sending_a_message sch' = (\<not> data_is_end (dts_data d)) \<and>
     \<not> sch_enable_message_interleaving sch' \<and>
     (\<forall>j. partially_sent j g' \<longrightarrow> \<not> data_is_end (dts_data d) \<and> j = i))"

lemma historyD:
  assumes "history t fs sent part added (sch, g)"
  shows "stream_fragments j fs = concat (sent j) @ stream_fragments j part"
    and "\<forall>k<length (sent j). ordered_message k (sent j ! k)"
    and "map (snd \<circ> message_of) (sent j) @ ordered_items (sq_stream j g) = added j"
    and "numbered (length (sent j)) (sq_stream j g)" and "list_all lasting (ogs_items (sq_stream j g))"
  using assms by (simp_all add: history_def)

lemma next_chunk_facts:
  assumes h: "history t fs sent part added (sch, g)" and s: "sq.scheduled (sch, g)"
    and nc: "next_chunk i n d item items (sch, g) (sch', g')" and part1: "part1 = part @ [(t, dts_data d)]"
  shows "sent_part item (map snd part)" and "item_ok i item" and "lasting item" and "\<forall>x\<in>set items. unsent x"
    and "\<forall>k<length part1. fst (part1 ! k) = t - int (length part) + int k"
    and "\<forall>k<length part1. fragment_of item k (snd (part1 ! k)) \<and>
      (data_is_end (snd (part1 ! k)) \<longleftrightarrow> Suc k = length part1 \<and> data_is_end (dts_data d))"
    and "stream_fragments j (fs @ [(t, dts_data d)]) =
      concat (sent j) @ (if j = i \<and> \<not> ma_unordered (qi_attributes item) then part1 else [])"
    and "qi_ssn item = (if ma_unordered (qi_attributes item) then None else Some (of_nat (length (sent i))))"
    and "ogs_next_ssn (sq_stream i g') = of_nat (length (sent i) + (if ma_unordered (qi_attributes item) then 0 else 1))"
    and "ordered_items (sq_stream i g) = (if ma_unordered (qi_attributes item) then [] else [qi_message item]) @
      map qi_message (filter (\<lambda>x. \<not> ma_unordered (qi_attributes x)) items)"
    and "list_all lasting items"
proof -
  obtain item0 s1 where items: "ogs_items (sq_stream i g) = item0 # items"
      "allocate_ids item0 (sq_stream i g) = (item, s1)" "ogs_next_ssn (sq_stream i g') = ogs_next_ssn s1"
    using nc unfolding next_chunk_def prod.case by blast
  have d: "d = next_fragment n item" "0 < n"
      and cur: "sch_currently_sending_a_message sch \<longrightarrow> sch_current_stream sch = Some i"
    using nc by (simp_all add: next_chunk_def)
  note fp = front_part [OF h s cur items(1,2)] and a = allocate_ids_item [OF items(2)]
  then show sp: "sent_part item (map snd part)" and ok: "item_ok i item" and "lasting item" and "\<forall>x\<in>set items. unsent x"
    by blast+
  have "\<forall>k<length part. fst (part ! k) = t - int (length part) + int k" using h by (simp add: history_def part_ok_def)
  note ex = extend_part [OF sp ok d(2,1) this part1]
  show "\<forall>k<length part1. fst (part1 ! k) = t - int (length part) + int k" using ex(1) .
  show "\<forall>k<length part1. fragment_of item k (snd (part1 ! k)) \<and>
      (data_is_end (snd (part1 ! k)) \<longleftrightarrow> Suc k = length part1 \<and> data_is_end (dts_data d))" using ex(2) .
  show "stream_fragments j (fs @ [(t, dts_data d)]) =
      concat (sent j) @ (if j = i \<and> \<not> ma_unordered (qi_attributes item) then part1 else [])"
    using historyD(1) [OF h, of j] ex(3) [of j] by (simp add: stream_fragments_append part1)
  show "qi_ssn item = (if ma_unordered (qi_attributes item) then None else Some (of_nat (length (sent i))))"
      "ogs_next_ssn (sq_stream i g') = of_nat (length (sent i) + (if ma_unordered (qi_attributes item) then 0 else 1))"
    using allocate_ids_numbered [OF historyD(4) [OF h] items(1) _ items(2)] fp a items(3) by simp_all
  show "ordered_items (sq_stream i g) = (if ma_unordered (qi_attributes item) then [] else [qi_message item]) @
      map qi_message (filter (\<lambda>x. \<not> ma_unordered (qi_attributes x)) items)"
    using items(1) a by (simp add: ordered_items_def)
  show "list_all lasting items" using historyD(5) [OF h, of i] items(1) by simp
qed

lemma history_last_chunk:
  assumes h: "history t fs sent part added (sch, g)" and s: "sq.scheduled (sch, g)"
    and nc: "next_chunk i n d item items (sch, g) (sch', g')" and e: "data_is_end (dts_data d)"
  shows "\<exists>sent'. history (t + 1) (fs @ [(t, dts_data d)]) sent' [] added (sch', g')"
proof -
  let ?u = "ma_unordered (qi_attributes item)" and ?m = "length (sent i)"
  define part1 where "part1 = part @ [(t, dts_data d)]"
  define sent' where "sent' = (if ?u then sent else sent(i := sent i @ [part1]))"
  note F = next_chunk_facts [OF h s nc part1_def] and H = historyD [OF h]
  have g': "ogs_items (sq_stream i g') = items" "\<forall>j. j \<noteq> i \<longrightarrow> sq_stream j g' = sq_stream j g"
    using nc e by (simp_all add: next_chunk_def)
  have "front_ssn (sq_stream i g') = None" using g'(1) F(4) by (cases items) (auto simp: front_ssn_def unsent_def)
  then have num: "numbered (length (sent' i)) (sq_stream i g')" using F(9) by (simp add: numbered_def sent'_def)
  have "concat (map data_payload (map snd part @ [dts_data d])) = msg_payload (qi_message item)"
    using next_fragment_step(2) [OF F(1,2) _ _ e] nc by (simp add: next_chunk_def)
  then have wm: "ordered_message ?m part1 \<and> snd (message_of part1) = qi_message item" if "\<not> ?u"
    by (intro whole_message [OF _ F(5)])
      (use F(3,6,8) e that in \<open>simp_all add: part1_def lasting_def\<close>)
  have "stream_fragments j (fs @ [(t, dts_data d)]) = concat (sent' j) \<and> (\<forall>k<length (sent' j). ordered_message k (sent' j ! k)) \<and>
      map (snd \<circ> message_of) (sent' j) @ ordered_items (sq_stream j g') = added j \<and>
      numbered (length (sent' j)) (sq_stream j g') \<and> list_all lasting (ogs_items (sq_stream j g'))" for j
  proof (cases "j = i")
    case j: True
    have "\<forall>k<length (sent' i). ordered_message k (sent' i ! k)"
      using H(2) [of i] wm by (auto simp: sent'_def nth_append less_Suc_eq)
    moreover have "map (snd \<circ> message_of) (sent' i) @ ordered_items (sq_stream i g') = added i"
      using H(3) [of i] F(10) wm g'(1) by (cases ?u) (simp_all add: sent'_def ordered_items_def)
    ultimately show ?thesis using j num F(7) [of i] F(11) g'(1) by (simp add: sent'_def)
  next
    case False
    with H [of j] F(7) [of j] g'(2) show ?thesis by (simp add: sent'_def)
  qed
  with nc e have "history (t + 1) (fs @ [(t, dts_data d)]) sent' [] added (sch', g')"
    by (simp add: next_chunk_def history_def part_ok_def stream_fragments_def)
  then show ?thesis by blast
qed

lemma history_inner_chunk:
  assumes h: "history t fs sent part added (sch, g)" and s: "sq.scheduled (sch, g)"
    and nc: "next_chunk i n d item items (sch, g) (sch', g')" and e: "\<not> data_is_end (dts_data d)"
  shows "history (t + 1) (fs @ [(t, dts_data d)]) sent (part @ [(t, dts_data d)]) added (sch', g')"
proof -
  define part1 where "part1 = part @ [(t, dts_data d)]"
  note F = next_chunk_facts [OF h s nc part1_def] and H = historyD [OF h]
  have g': "ogs_items (sq_stream i g') = advance_item d item # items" "\<forall>j. j \<noteq> i \<longrightarrow> sq_stream j g' = sq_stream j g"
      "sch_current_stream sch' = Some i" "sch_currently_sending_a_message sch'"
      "\<forall>j. partially_sent j g' \<longrightarrow> j = i" "\<not> sch_enable_message_interleaving sch'"
    using nc e by (simp_all add: next_chunk_def)
  have st: "sent_part (advance_item d item) (map snd part @ [dts_data d])"
    using next_fragment_step(3) [OF F(1,2) _ _ e] nc by (simp add: next_chunk_def)
  have sf: "stream_fragments j part1 = (if j = i \<and> \<not> ma_unordered (qi_attributes item) then part1 else [])" for j
    by (rule stream_fragments_uniform) (use F(2,6) in \<open>auto simp: fragment_of_def item_ok_def\<close>)
  have "front_ssn (sq_stream i g') = qi_ssn item" using g'(1) by (simp add: front_ssn_def advance_item_def)
  then have num: "numbered (length (sent i)) (sq_stream i g')" using F(8,9) by (simp add: numbered_def)
  have oi: "ordered_items (sq_stream i g') = ordered_items (sq_stream i g)"
    unfolding F(10) using g'(1) by (simp add: ordered_items_def advance_item_def)
  have la: "list_all lasting (ogs_items (sq_stream i g'))"
    using g'(1) F(3,11) by (simp add: lasting_def advance_item_def)
  have po: "part_ok (t + 1) part1 sch' g'"
    using F(5) g' st by (simp add: part_ok_def part1_def)
  have "stream_fragments j (fs @ [(t, dts_data d)]) = concat (sent j) @ stream_fragments j part1 \<and>
      (\<forall>k<length (sent j). ordered_message k (sent j ! k)) \<and>
      map (snd \<circ> message_of) (sent j) @ ordered_items (sq_stream j g') = added j \<and>
      numbered (length (sent j)) (sq_stream j g') \<and> list_all lasting (ogs_items (sq_stream j g'))" for j
    using H [of j] F(7) [of j] sf [of j] num oi la g'(2) by (cases "j = i") simp_all
  with po g' show ?thesis by (simp add: history_def part1_def)
qed

lemma history_Produce:
  assumes h: "history t fs sent part added q" and s: "sq.scheduled q" and n: "0 < n" "now < PlusInfinity"
    and p: "RRSendQueue_Produce fl now n q = Value (r, q')"
  shows "\<exists>sent' part'. history (t + int (length (case r of None \<Rightarrow> [] | Some d \<Rightarrow> [d])))
           (fs @ number_from t (case r of None \<Rightarrow> [] | Some d \<Rightarrow> [d])) sent' part' added q'"
proof -
  obtain sch g sch' g' where q: "q = (sch, g)" "q' = (sch', g')" by fastforce
  have prod: "sq.production now n (sch, g) (r, sch', g')"
    using sq.Produce_scheduled [OF s n(1), of fl now] p q by (auto simp: RRSendQueue_Produce_def)
  have H: "\<not> sch_enable_message_interleaving sch" "\<forall>j. list_all lasting (ogs_items (sq_stream j g))"
      "\<forall>j. partially_sent j g \<longrightarrow> sch_currently_sending_a_message sch \<and> sch_current_stream sch = Some j"
    using h q by (simp_all add: history_def)
  have om: "om_ok (sq_streams g)" using s q by (simp add: sq.scheduled_def sq_ok_def)
  show ?thesis
  proof (cases r)
    case None
    with prod have "skips produce_from now n g g'" "\<not> sch_currently_sending_a_message sch"
        "\<not> sch_currently_sending_a_message sch'" "\<forall>j. partially_sent j g' = partially_sent j g"
        "\<not> sch_enable_message_interleaving sch'"
      using H(1) by (simp_all add: sq.production_def)
    with skips_lasting [OF this(1) om H(2) n(2)] None h q show ?thesis
      by (intro exI [of _ sent] exI [of _ part]) (simp add: history_def part_ok_def)
  next
    case (Some d)
    with prod obtain i where i: "sch_current_stream sch' = Some i" "sq.produced_by i now n d g g'"
        "sch_currently_sending_a_message sch' = (\<not> data_is_end (dts_data d))"
        "\<forall>j. j \<noteq> i \<longrightarrow> partially_sent j g' = partially_sent j g"
        "sch_currently_sending_a_message sch \<longrightarrow> sch_current_stream sch = Some i"
        "\<not> sch_enable_message_interleaving sch'"
      using H(1) by (auto simp: sq.production_def)
    then obtain h' where h': "skips produce_from now n g h'" "sq_ok h'" "0 < bytes_to_send i h'"
        "produce_from i now n h' = (Some d, g')"
      by (auto simp: sq.produced_by_def)
    note same = skips_lasting [OF h'(1) om H(2) n(2)]
    have "\<forall>j. list_all lasting (ogs_items (sq_stream j h'))" using same H(2) by simp
    then obtain item0 items item s1 where I: "ogs_items (sq_stream i h') = item0 # items"
      "allocate_ids item0 (sq_stream i h') = (item, s1)" "d = next_fragment n item"
      "ogs_next_ssn (sq_stream i g') = ogs_next_ssn s1"
      "ogs_items (sq_stream i g') = (if data_is_end (dts_data d) then items else advance_item d item # items)"
      "\<forall>j. j \<noteq> i \<longrightarrow> sq_stream j g' = sq_stream j h'"
      by (rule produce_some_lasting [OF h'(2,3) n(1) _ n(2) h'(4)])
    have "\<not> data_is_end (dts_data d) \<and> j = i" if "partially_sent j g'" for j
      using that i(4,5) H(3) sq.produced_by_inv [OF i(2) n(1)] by (metis option.inject)
    then have "next_chunk i n d item items (sch, g) (sch', g')"
      unfolding next_chunk_def prod.case
      using i(1,3,5,6) I [unfolded spec [OF same]] n(1) by blast
    from history_last_chunk [OF h [unfolded q] s [unfolded q] this]
      history_inner_chunk [OF h [unfolded q] s [unfolded q] this] Some q(2)
    show ?thesis by (cases "data_is_end (dts_data d)") auto
  qed
qed

lemma history_call:
  assumes h: "history t fs sent part added q" and s: "sq.scheduled q" and c: "reliable_call c"
    and r: "sq_call fl c q = Value (ds, q')"
  shows "\<exists>sent' part'. history (t + int (length ds)) (fs @ number_from t ds) sent' part'
           (\<lambda>i. added i @ message_added i c) q'"
proof (cases c)
  case (CallAdd now message options)
  then have "history t fs sent part (\<lambda>i. added i @ message_added i c) q'" "ds = []"
    using history_Add [OF h s, of now message options fl] c r by simp_all
  then show ?thesis by auto
next
  case (CallProduce now n)
  then obtain d where d: "RRSendQueue_Produce fl now n q = Value (d, q')" "ds = (case d of None \<Rightarrow> [] | Some d \<Rightarrow> [d])"
    using r by (cases "RRSendQueue_Produce fl now n q") auto
  from history_Produce [OF h s _ _ d(1)] c CallProduce d(2) show ?thesis by auto
next
  case (CallSetBufferedAmountLowThreshold i n)
  obtain sch g where q: "q = (sch, g)" by fastforce
  obtain sch1 g1 where c: "GetOrCreateStreamInfo fl i (sch, g) = (sch1, g1)" by fastforce
  note C = GetOrCreateStreamInfo_ok [OF s [unfolded q] c]
  have om: "om_ok (sq_streams g1)" using C(1) by (simp add: sq.scheduled_def sq_ok_def)
  obtain b where q': "q' = (sch1, sq_store i
      ((sq_stream i g1)\<lparr>ogs_buffered_amount := (ogs_buffered_amount (sq_stream i g1))\<lparr>tw_low_threshold := n\<rparr>\<rparr>,
       callback_if b (OnBufferedAmountLow i) g1))" and "ds = []"
    using r q c CallSetBufferedAmountLowThreshold
    by (auto simp: SetBufferedAmountLowThreshold_def ThresholdWatcher_SetLowThreshold_def Let_def)
  have cb: "sq_streams (callback_if b (OnBufferedAmountLow i) g1) = sq_streams g1" by (simp add: callback_if_def)
  have "ogs_items (sq_stream j (snd q')) = ogs_items (sq_stream j g) \<and>
      ogs_next_ssn (sq_stream j (snd q')) = ogs_next_ssn (sq_stream j g)" for j
    unfolding q' snd_conv C(2) [of j, symmetric] by (subst (1 2) sq_stream_store) (simp_all add: cb om sq_stream_cong [OF cb])
  moreover have "same_flags sch sch1" "sch_current_stream sch1 = sch_current_stream sch"
    using c by (auto simp: GetOrCreateStreamInfo_def CreateStream_def same_flags_def split: if_splits)
  ultimately have "history t fs sent part added q'"
    using history_cong [OF h [unfolded q], of sch1 "snd q'"] by (simp add: q')
  with CallSetBufferedAmountLowThreshold \<open>ds = []\<close> show ?thesis by auto
next
  case (CallSetStreamPriority i p)
  obtain sch g where q: "q = (sch, g)" by fastforce
  obtain sch1 g1 where c: "GetOrCreateStreamInfo fl i (sch, g) = (sch1, g1)" by fastforce
  note C = GetOrCreateStreamInfo_ok [OF s [unfolded q] c]
  have "same_flags sch sch1" "sch_current_stream sch1 = sch_current_stream sch"
    using c by (auto simp: GetOrCreateStreamInfo_def CreateStream_def same_flags_def split: if_splits)
  then have "history t fs sent part added (SchedulerStream_SetPriority fl i p sch1, g1)"
    using C(2) by (intro history_cong [OF h [unfolded q]]) (simp_all add: SchedulerStream_SetPriority_def same_flags_def)
  with CallSetStreamPriority r q c show ?thesis by (auto simp: SetStreamPriority_def)
qed (use c in simp_all)

lemma history_run:
  assumes "history t fs sent part added q" and "sq.scheduled q" and "\<forall>c\<in>set calls. reliable_call c"
    and "sq_run fl calls q = Value (ds, q')"
  shows "\<exists>sent' part'. history (t + int (length ds)) (fs @ number_from t ds) sent' part'
           (\<lambda>i. added i @ messages_added i calls) q'"
  using assms
proof (induction calls arbitrary: t fs sent part added q ds)
  case (Cons c calls)
  have "reliable_call c" using Cons.prems(3) by simp
  then obtain ds1 q1 where 1: "sq_call fl c q = Value (ds1, q1)" "sq.scheduled q1"
    using sq_call_ok [OF Cons.prems(2) reliable_call_ok] by blast
  obtain ds2 where 2: "sq_run fl calls q1 = Value (ds2, q')" "ds = ds1 @ ds2"
    using Cons.prems(4) 1 by (cases "sq_run fl calls q1") auto
  obtain sent1 part1 where "history (t + int (length ds1)) (fs @ number_from t ds1) sent1 part1
      (\<lambda>i. added i @ message_added i c) q1"
    using history_call [OF Cons.prems(1,2) \<open>reliable_call c\<close> 1(1)] by blast
  from Cons.IH [OF this 1(2) _ 2(1)] Cons.prems(3) 2(2) show ?case
    by (simp add: number_from_append messages_added_def add.assoc)
qed (simp add: messages_added_def, blast)

lemma history_new:
  "history t [] (\<lambda>_. []) [] (\<lambda>_. []) (RRSendQueue_new mtu p threshold)"
  by (simp add: history_def part_ok_def RRSendQueue_new_def StreamScheduler_new_def sq_stream_def om_at_def om_find_def
      partially_sent_def has_partially_sent_message_def stream_fragments_def ordered_items_def numbered_def front_ssn_def
      OutgoingStream_new_def)

section \<open>The chunks of a stream make up its messages\<close>

lemma part_continues:
  assumes h: "history t fs sent part added (sch, g)" and s: "sq.scheduled (sch, g)" and ne: "stream_fragments i part \<noteq> []"
  obtains rest item items where "ogs_items (sq_stream i g) = item # items" and "\<not> ma_unordered (qi_attributes item)"
    and "stream_fragments i part = part" and "ordered_message (length (sent i)) (part @ [(t, rest)])"
    and "snd (message_of (part @ [(t, rest)])) = qi_message item"
proof -
  have "part \<noteq> []" using ne by (auto simp: stream_fragments_def)
  then have sending: "sch_currently_sending_a_message sch"
    using h by (auto simp: history_def part_ok_def split: if_splits)
  then obtain k item items where k: "sch_current_stream sch = Some k" "ogs_items (sq_stream k g) = item # items"
      "sent_part item (map snd part)" and pt: "\<forall>x<length part. fst (part ! x) = t - int (length part) + int x"
    using h by (auto simp: history_def part_ok_def)
  have "partially_sent k g" using s sending k(1) by (auto simp: sq.scheduled_def sq.sends_current_def)
  moreover have "ogs_ok k (sq_stream k g)" using s by (simp add: sq.scheduled_def sq_ok_def)
  ultimately have it: "item_ok k item" "started item"
    using k(2) by (auto simp: ogs_ok_def items_ok_Cons partially_sent_def has_partially_Cons unsent_def)
  define d where "d = next_fragment (qi_remaining_size item) item"
  define part1 where "part1 = part @ [(t, dts_data d)]"
  have pos: "0 < qi_remaining_size item" using it(1) by (simp add: item_ok_def)
  note ex = extend_part [OF k(3) it(1) pos d_def pt part1_def]
  have e: "data_is_end (dts_data d)" using next_fragment_data(3) [OF it(1)] by (simp add: d_def)
  have fr: "data_stream_id (snd (part ! x)) = k \<and> data_is_unordered (snd (part ! x)) = ma_unordered (qi_attributes item)"
    if "x < length part" for x
    using k(3) it(1) that by (auto simp: sent_part_def fragment_of_def item_ok_def)
  with ne have ik: "i = k" and ord: "\<not> ma_unordered (qi_attributes item)" and sf: "stream_fragments i part = part"
    using stream_fragments_uniform [of part k "ma_unordered (qi_attributes item)" i] by (auto split: if_splits)
  have "qi_ssn item = Some (of_nat (length (sent i)))"
    using historyD(4) [OF h, of i] k(2) it(2) ord ik by (auto simp: numbered_def front_ssn_def started_def)
  moreover have "concat (map data_payload (map snd part1)) = msg_payload (qi_message item)"
    using next_fragment_step(2) [OF k(3) it(1) pos d_def e] by (simp add: part1_def)
  moreover have "lasting item" using historyD(5) [OF h, of k] k(2) by simp
  ultimately have "ordered_message (length (sent i)) part1 \<and> snd (message_of part1) = qi_message item"
    by (intro whole_message [OF _ ex(1)]) (use ex(2) e in \<open>simp_all add: part1_def lasting_def\<close>)
  with that k(2) ik ord sf part1_def show ?thesis by blast
qed

lemma history_messages:
  assumes h: "history t fs sent part added (sch, g)" and s: "sq.scheduled (sch, g)"
  shows "\<exists>ms. (\<forall>j<length ms. ordered_message j (ms ! j)) \<and> prefix (stream_fragments i fs) (concat ms) \<and>
    prefix (map (snd \<circ> message_of) ms) (added i) \<and>
    (ogs_items (sq_stream i g) = [] \<longrightarrow> concat ms = stream_fragments i fs \<and> map (snd \<circ> message_of) ms = added i)"
proof (cases "stream_fragments i part = []")
  case True
  then show ?thesis using historyD(1,2,3) [OF h, of i]
    by (intro exI [of _ "sent i"]) (auto simp: ordered_items_def intro: prefixI [OF sym])
next
  case False
  obtain rest item items where p: "ogs_items (sq_stream i g) = item # items" "\<not> ma_unordered (qi_attributes item)"
      "stream_fragments i part = part" "ordered_message (length (sent i)) (part @ [(t, rest)])"
      "snd (message_of (part @ [(t, rest)])) = qi_message item"
    by (rule part_continues [OF h s False])
  let ?ms = "sent i @ [part @ [(t, rest)]]"
  have "\<forall>j<length ?ms. ordered_message j (?ms ! j)"
    using historyD(2) [OF h, of i] p(4) by (auto simp: nth_append less_Suc_eq)
  moreover have "prefix (stream_fragments i fs) (concat ?ms)"
    using historyD(1) [OF h, of i] p(3) by (simp add: prefix_def)
  moreover have "prefix (map (snd \<circ> message_of) ?ms) (added i)"
    unfolding historyD(3) [OF h, of i, symmetric] using p(1,2,5) by (simp add: prefix_def ordered_items_def)
  ultimately show ?thesis using p(1) by (intro exI [of _ ?ms]) simp
qed

lemma run_messages:
  assumes "\<forall>c\<in>set calls. reliable_call c"
    and "sq_run fl calls (RRSendQueue_new mtu priority threshold) = Value (ds, q)"
  shows "\<exists>ms. (\<forall>j<length ms. ordered_message j (ms ! j)) \<and>
    prefix (stream_fragments i (number_from t ds)) (concat ms) \<and>
    prefix (map (snd \<circ> message_of) ms) (messages_added i calls) \<and>
    (IsEmpty q \<longrightarrow> concat ms = stream_fragments i (number_from t ds) \<and> map (snd \<circ> message_of) ms = messages_added i calls)"
proof -
  obtain sch g where q: "q = (sch, g)" by fastforce
  have "\<forall>c\<in>set calls. call_ok c" using assms(1) reliable_call_ok by blast
  then have s: "sq.scheduled (sch, g)"
    using sq_run_ok [OF RRSendQueue_new_ok, of calls fl mtu priority threshold] assms(2) q by auto
  obtain sent part where h: "history (t + int (length ds)) (number_from t ds) sent part (\<lambda>i. messages_added i calls) (sch, g)"
    using history_run [OF history_new RRSendQueue_new_ok assms, of t] q by auto
  have "ogs_items (sq_stream i g) = []" if "IsEmpty q"
  proof -
    have pl: "placed (sch, g)" using s by (simp add: scheduled_iff)
    have "queued_bytes (ogs_items (sq_stream i g)) = 0"
      using stream_facts(2,3) [OF pl, of i] that by (simp add: q IsEmpty_def sq_total_def)
    then show ?thesis
      using stream_facts(4) [OF pl, of i] by (cases "ogs_items (sq_stream i g)") (auto simp: items_ok_Cons item_ok_def)
  qed
  with history_messages [OF h s, of i] show ?thesis by auto
qed

section \<open>Positions\<close>

text \<open>Which message, and which of its fragments, stands at a position of the chunks of a stream.\<close>

fun locate :: "'a list list \<Rightarrow> nat \<Rightarrow> nat \<times> nat" where
  "locate [] x = (0, x)"
| "locate (m # ms) x = (if x < length m then (0, x) else case locate ms (x - length m) of (j, k) \<Rightarrow> (Suc j, k))"

lemma locate_bounds:
  "x < length (concat ms) \<Longrightarrow> locate ms x = (j, k) \<Longrightarrow>
   j < length ms \<and> k < length (ms ! j) \<and> ms ! j ! k = concat ms ! x \<and> x = length (concat (take j ms)) + k"
proof (induction ms arbitrary: x j k)
  case (Cons m ms)
  show ?case
  proof (cases "x < length m")
    case True
    with Cons.prems show ?thesis by (auto simp: nth_append)
  next
    case False
    obtain j' k' where l: "locate ms (x - length m) = (j', k')" by fastforce
    have "x - length m < length (concat ms)" using Cons.prems(1) False by simp
    note IH = Cons.IH [OF this l]
    have "j = Suc j'" "k = k'" using Cons.prems(2) False l by simp_all
    moreover have "x = length m + (x - length m)" using False by simp
    ultimately show ?thesis using IH False by (simp add: nth_append)
  qed
qed simp

lemma locate_inverse:
  "j < length ms \<Longrightarrow> k < length (ms ! j) \<Longrightarrow> length (concat (take j ms)) + k < length (concat ms) \<and>
   locate ms (length (concat (take j ms)) + k) = (j, k)"
proof (induction ms arbitrary: j)
  case (Cons m ms)
  then show ?case by (cases j) auto
qed simp

definition message_number :: "Fragment list \<Rightarrow> nat \<Rightarrow> nat" where
  "message_number fs x = length (filter (\<lambda>f. data_is_end (snd f)) (take x fs))"

lemma ordered_message_ends:
  assumes "ordered_message j m" and "x \<le> length m"
  shows "length (filter (\<lambda>f. data_is_end (snd f)) (take x m)) = (if x = length m then 1 else 0)"
proof -
  have "data_is_end (snd (m ! i)) \<longleftrightarrow> i = length m - 1" if "i < length m" for i
    using ordered_message_at(5) [OF assms(1) that] that by arith
  then have "{i. i < x \<and> data_is_end (snd (m ! i))} = (if x = length m then {length m - 1} else {})"
    using ordered_message_whole [OF assms(1)] assms(2) by (auto split: if_splits)
  moreover have "{i. i < x \<and> data_is_end (snd (take x m ! i))} = {i. i < x \<and> data_is_end (snd (m ! i))}" by auto
  ultimately show ?thesis using assms(2) by (simp add: length_filter_conv_card)
qed

lemma locate_message_number:
  assumes "\<forall>j<length ms. \<exists>n. ordered_message n (ms ! j)" and "x < length (concat ms)"
  shows "message_number (concat ms) x = fst (locate ms x)"
  using assms
proof (induction ms arbitrary: x)
  case (Cons m ms)
  obtain n where m: "ordered_message n m" using Cons.prems(1) by fastforce
  show ?case
  proof (cases "x < length m")
    case True
    then show ?thesis using ordered_message_ends [OF m, of x] by (simp add: message_number_def)
  next
    case False
    have "\<forall>j<length ms. \<exists>n. ordered_message n (ms ! j)"
      using Cons.prems(1) by (metis Suc_less_eq nth_Cons_Suc length_Cons)
    moreover have "x - length m < length (concat ms)" using Cons.prems(2) False by simp
    ultimately have "message_number (concat ms) (x - length m) = fst (locate ms (x - length m))" by (rule Cons.IH)
    with False ordered_message_ends [OF m, of "length m"] show ?thesis
      by (simp add: message_number_def split: prod.splits)
  qed
qed simp

text \<open>The messages of a finite list, continued by messages that are never sent.\<close>

definition sent_messages :: "Fragment list list \<Rightarrow> nat \<Rightarrow> Fragment list" where
  "sent_messages ms j =
     (if j < length ms then ms ! j
      else [(0, \<lparr>data_stream_id = 0, data_ssn = of_nat j, data_mid = 0, data_fsn = 0, data_ppid = 0, data_payload = [0],
                data_is_beginning = True, data_is_end = True, data_is_unordered = False\<rparr>)])"

lemma sent_messages_ordered:
  assumes "\<forall>j<length ms. ordered_message j (ms ! j)"
  shows "ordered_message j (sent_messages ms j)"
proof (cases "j < length ms")
  case True
  with assms show ?thesis by (simp add: sent_messages_def)
next
  case False
  then show ?thesis by (simp add: sent_messages_def ordered_message_def chunk_bytes_sum Data_size_def kMaxInt_def)
qed

lemma messages_arrive:
  assumes ms: "\<forall>j<length ms. ordered_message j (ms ! j)" and cs: "prefix cs (concat ms)"
    and arrivals: "distinct arrivals" "\<forall>x\<in>set arrivals. x < length cs"
    and near: "small_steps (2 ^ 15) 0 (map (\<lambda>x. int (message_number cs x)) arrivals)"
    and r: "add_all OrderedStream_Add (map ((!) cs) arrivals) (OrderedStream_new 0) = (received, s)"
  shows "\<exists>k. map snd received = take k (map (snd \<circ> message_of) ms) \<and>
    (cs = concat ms \<and> length arrivals = length cs \<longrightarrow> length ms \<le> k)"
proof -
  let ?a = "map (locate ms) arrivals" and ?sent = "sent_messages ms"
  have x: "x < length (concat ms)" "cs ! x = concat ms ! x" "message_number cs x = message_number (concat ms) x"
    if "x \<in> set arrivals" for x
    using arrivals(2) that cs by (auto simp: prefix_def nth_append message_number_def)
  have loc: "fst (locate ms x) < length ms" "snd (locate ms x) < length (ms ! fst (locate ms x))"
      "ms ! fst (locate ms x) ! snd (locate ms x) = cs ! x" "message_number cs x = fst (locate ms x)"
    if "x \<in> set arrivals" for x
    using locate_bounds [OF x(1) [OF that]] x [OF that] locate_message_number [OF _ x(1) [OF that]] ms
    by (metis prod.collapse)+
  have "inj_on (locate ms) (set arrivals)"
    by (rule inj_onI) (metis locate_bounds x(1) prod.collapse)
  then have "in_flight ?sent ?a"
    using arrivals(1) loc by (auto simp: in_flight_def distinct_map sent_messages_def)
  moreover have "map (\<lambda>(j, k). ?sent j ! k) ?a = map ((!) cs) arrivals"
    using loc by (auto simp: sent_messages_def split_def)
  moreover have "map (int \<circ> fst) ?a = map (\<lambda>x. int (message_number cs x)) arrivals" using loc(4) by auto
  moreover have "\<forall>j. ordered_message j (?sent j)" using sent_messages_ordered [OF ms] by blast
  note new = os_simulates_new [OF this]
  ultimately obtain k where k: "received = map (message_of \<circ> ?sent) [0..<k]"
      "\<forall>j<k. complete ?sent (set ?a) j" "\<not> complete ?sent (set ?a) k"
    using ordered_stream.delivers_in_order [OF new(1), of ?a received s] near r unfolding new(2) by metis
  have "(length ms, 0) \<notin> set ?a"
    using loc(1) by (metis fst_conv imageE less_irrefl list.set_map)
  then have "\<not> complete ?sent (set ?a) (length ms)" by (simp add: complete_def sent_messages_def)
  then have "k \<le> length ms" using k(2) by (meson not_le)
  then have "received = map message_of (take k ms)"
    by (intro nth_equalityI) (simp_all add: k(1) sent_messages_def)
  moreover have "length ms \<le> k" if all: "cs = concat ms" "length arrivals = length cs"
  proof (rule ccontr)
    assume "\<not> length ms \<le> k"
    have "card (set arrivals) = length cs" using all(2) arrivals(1) by (simp add: distinct_card)
    then have "set arrivals = {..<length cs}"
      using arrivals(2) by (intro card_subset_eq) auto
    then have "(k, i) \<in> set ?a" if "i < length (ms ! k)" for i
      using locate_inverse [of k ms i] \<open>\<not> length ms \<le> k\<close> that all(1)
      by (metis image_eqI lessThan_iff list.set_map not_le)
    with k(3) \<open>\<not> length ms \<le> k\<close> show False unfolding complete_def sent_messages_def by auto
  qed
  ultimately show ?thesis by (intro exI [of _ k]) (auto simp: take_map)
qed

section \<open>Properties\<close>

text \<open>
  C8. Fragmentation loses nothing: when no message expires or is abandoned and message interleaving
  is off, the chunks produced for the ordered messages of a stream are, in order, the fragments of
  the messages added to it, whatever the sizes asked for and however many streams there are. Each
  message has one stream sequence number, in the order of adding, its fragments have consecutive
  TSNs, only the first is marked as the beginning and only the last as the end, and their payloads
  concatenate to its payload. Only the last message can be unfinished, and none is once the queue is
  empty.
\<close>

theorem send_queue_fragments:
  assumes "\<forall>c\<in>set calls. reliable_call c"
    and "sq_run fl calls (RRSendQueue_new mtu priority threshold) = Value (ds, q)"
  shows "\<exists>ms. (\<forall>j<length ms. ordered_message j (ms ! j)) \<and>
    prefix (stream_fragments i (number_from t ds)) (concat ms) \<and>
    prefix (map (snd \<circ> message_of) ms) (messages_added i calls) \<and>
    (IsEmpty q \<longrightarrow> concat ms = stream_fragments i (number_from t ds) \<and> map (snd \<circ> message_of) ms = messages_added i calls)"
  using run_messages [OF assms] .

definition transfer_calls :: "QueueCall list" where
  "transfer_calls =
     [CallAdd (Millis 5) (sample_message 1 30) sample_options, CallAdd (Millis 5) (sample_message 2 10) sample_options,
      CallAdd (Millis 6) (sample_message 1 5) sample_options, CallProduce (Millis 6) 20, CallProduce (Millis 6) 20,
      CallProduce (Millis 6) 20, CallProduce (Millis 7) 20]"

definition transfer_run :: "(DataToSend list \<times> RRSendQueue) outcome" where
  "transfer_run = sq_run (\<lambda>x. x) transfer_calls (RRSendQueue_new 1200 256 0)"

lemma transfer_calls_reliable: "\<forall>c\<in>set transfer_calls. reliable_call c"
  by (simp add: transfer_calls_def sample_message_def sample_options_def kMaxInt_def Millis_def PlusInfinity_def)

lemma transfer_run_eval:
  "case transfer_run of
     Value (ds, q) \<Rightarrow> IsEmpty q \<and>
       map (\<lambda>f. (fst f, length (data_payload (snd f)), data_is_end (snd f))) (stream_fragments 1 (number_from 100 ds)) =
         [(100, 20, False), (101, 10, True), (103, 5, True)] \<and>
       map (message_number (stream_fragments 1 (number_from 100 ds))) [2, 0, 1] = [1, 0, 0]
   | _ \<Rightarrow> False"
  by code_simp

theorem send_queue_fragments_witness:
  "\<exists>ds q ms. transfer_run = Value (ds, q) \<and> length (stream_fragments 1 (number_from 100 ds)) = 3 \<and>
     concat ms = stream_fragments 1 (number_from 100 ds) \<and>
     map (snd \<circ> message_of) ms = [sample_message 1 30, sample_message 1 5]"
proof -
  obtain ds q where r: "transfer_run = Value (ds, q)" "IsEmpty q"
      "length (stream_fragments 1 (number_from 100 ds)) = 3"
    using transfer_run_eval by (auto split: outcome.splits)
  have "messages_added 1 transfer_calls = [sample_message 1 30, sample_message 1 5]"
    by (simp add: messages_added_def transfer_calls_def sample_message_def sample_options_def)
  with send_queue_fragments [OF transfer_calls_reliable r(1) [unfolded transfer_run_def], of 1 100] r show ?thesis
    by metis
qed

end
