(* ===== verification/Retransmission_Queue.thy ===== *)
theory Retransmission_Queue
  imports Send_Queue Timer Dcsctp_Options
begin

text \<open>
  The retransmission queue, \<open>net/dcsctp/tx/retransmission_queue.{h,cc}\<close>: it moves data from the send
  queue to the outstanding data as the congestion window and the receiver window allow, handles
  SACKs and the expiry of the retransmission timer, and keeps the congestion control state.

  The send queue is reached through the two operations \<open>produce\<close> and \<open>discard\<close> of its interface
  (\<open>net/dcsctp/tx/send_queue.h\<close>), which are arguments and work on a state of their own. The timer
  \<open>t3_rtx\<close> is part of the state. \<open>on_new_rtt\<close> changes the duration of this timer in the client; that
  effect is an argument, and the calls of the client are recorded in order.

  Sizes are natural numbers. Where a difference of type \<open>size_t\<close> is stored without a guard the
  wrap-around is written out.
\<close>

section \<open>State\<close>

datatype RtxCallback =
    Rtx_OnNewRtt TimeDelta
  | Rtx_OnClearRetransmissionCounter
  | Rtx_OnLifecycleMessageFullySent u64
  | Rtx_OnLifecycleMessageDelivered u64
  | Rtx_OnLifecycleMessageExpired u64 bool
  | Rtx_OnLifecycleEnd u64

datatype CongestionAlgorithmPhase = kSlowStart | kCongestionAvoidance

record RetransmissionQueue =
  rq_options :: DcSctpOptions
  rq_partial_reliability :: bool
  rq_data_chunk_header_size :: nat
  rq_t3_rtx :: Timer
  rq_tsn_unwrapper :: "u32 SeqNumUnwrapper"
  rq_cwnd :: nat
  rq_rwnd :: nat
  rq_ssthresh :: nat
  rq_partial_bytes_acked :: nat
  rq_rtx_packets_count :: nat
  rq_rtx_bytes_count :: nat
  rq_fast_recovery_exit_tsn :: "UnwrappedTSN option"
  rq_outstanding_data :: OutstandingData
  rq_callbacks :: "RtxCallback list"

text \<open>\<open>size_t\<close>\<close>

definition size_sub :: "nat \<Rightarrow> nat \<Rightarrow> nat" where
  "size_sub a b = (if b \<le> a then a - b else nat (int a + 2 ^ 64 - int b))"

definition size_wrap :: "nat \<Rightarrow> nat" where
  "size_wrap a = nat (int a mod 2 ^ 64)"

lemma size_wrap_eq: "size_wrap a = a mod 2 ^ 64"
  by (simp add: size_wrap_def nat_mod_distrib)

definition RetransmissionQueue_new ::
  "u32 \<Rightarrow> nat \<Rightarrow> Timer \<Rightarrow> DcSctpOptions \<Rightarrow> bool \<Rightarrow> bool \<Rightarrow> RetransmissionQueue" where
  "RetransmissionQueue_new my_initial_tsn a_rwnd t3_rtx options supports_partial_reliability use_message_interleaving =
     (let data_chunk_header_size =
            (if use_message_interleaving then kHeaderSize IDataChunkConfig else kHeaderSize DataChunkConfig);
          (tsn, unwrapper) = Unwrap (my_initial_tsn - 1) SeqNumUnwrapper_init
      in \<lparr>rq_options = options, rq_partial_reliability = supports_partial_reliability,
          rq_data_chunk_header_size = data_chunk_header_size, rq_t3_rtx = t3_rtx,
          rq_tsn_unwrapper = unwrapper, rq_cwnd = opts_cwnd_mtus_initial options * opts_mtu options,
          rq_rwnd = a_rwnd, rq_ssthresh = a_rwnd, rq_partial_bytes_acked = 0, rq_rtx_packets_count = 0,
          rq_rtx_bytes_count = 0, rq_fast_recovery_exit_tsn = None,
          rq_outstanding_data = OutstandingData_new data_chunk_header_size tsn, rq_callbacks = []\<rparr>)"

definition rq_GetSerializedChunkSize :: "RetransmissionQueue \<Rightarrow> Data \<Rightarrow> nat" where
  "rq_GetSerializedChunkSize rq data = RoundUpTo4 (rq_data_chunk_header_size rq + Data_size data)"

definition rq_callback :: "RtxCallback list \<Rightarrow> RetransmissionQueue \<Rightarrow> RetransmissionQueue" where
  "rq_callback cs rq = rq\<lparr>rq_callbacks := rq_callbacks rq @ cs\<rparr>"

definition is_in_fast_recovery :: "RetransmissionQueue \<Rightarrow> bool" where
  "is_in_fast_recovery rq \<longleftrightarrow> rq_fast_recovery_exit_tsn rq \<noteq> None"

definition rq_phase :: "RetransmissionQueue \<Rightarrow> CongestionAlgorithmPhase" where
  "rq_phase rq = (if rq_cwnd rq \<le> rq_ssthresh rq then kSlowStart else kCongestionAvoidance)"

definition rq_next_tsn :: "RetransmissionQueue \<Rightarrow> u32" where
  "rq_next_tsn rq = Wrap (od_next_tsn (rq_outstanding_data rq))"

definition rq_last_assigned_tsn :: "RetransmissionQueue \<Rightarrow> u32" where
  "rq_last_assigned_tsn rq = Wrap (AddTo (od_next_tsn (rq_outstanding_data rq)) (- 1))"

definition rq_set_cwnd :: "nat \<Rightarrow> RetransmissionQueue \<Rightarrow> RetransmissionQueue" where
  "rq_set_cwnd cwnd rq = rq\<lparr>rq_cwnd := cwnd\<rparr>"

section \<open>Congestion control\<close>

definition MaybeExitFastRecovery :: "UnwrappedTSN \<Rightarrow> RetransmissionQueue \<Rightarrow> RetransmissionQueue" where
  "MaybeExitFastRecovery cumulative_tsn_ack rq =
     (case rq_fast_recovery_exit_tsn rq of
        None \<Rightarrow> rq
      | Some exit_tsn \<Rightarrow>
          if cumulative_tsn_ack \<ge> exit_tsn then rq\<lparr>rq_fast_recovery_exit_tsn := None\<rparr> else rq)"

definition HandleIncreasedCumulativeTsnAck ::
  "nat \<Rightarrow> nat \<Rightarrow> RetransmissionQueue \<Rightarrow> RetransmissionQueue" where
  "HandleIncreasedCumulativeTsnAck unacked_packet_bytes total_bytes_acked rq =
     (let mtu = opts_mtu (rq_options rq);
          is_fully_utilized = (unacked_packet_bytes + mtu \<ge> rq_cwnd rq)
      in case rq_phase rq of
           kSlowStart \<Rightarrow>
             if is_fully_utilized \<and> \<not> is_in_fast_recovery rq
             then rq\<lparr>rq_cwnd := rq_cwnd rq + min total_bytes_acked mtu\<rparr> else rq
         | kCongestionAvoidance \<Rightarrow>
             let rq = rq\<lparr>rq_partial_bytes_acked := rq_partial_bytes_acked rq + total_bytes_acked\<rparr> in
             if rq_partial_bytes_acked rq \<ge> rq_cwnd rq \<and> is_fully_utilized
             then rq\<lparr>rq_partial_bytes_acked := rq_partial_bytes_acked rq - rq_cwnd rq,
                     rq_cwnd := rq_cwnd rq + mtu\<rparr>
             else rq)"

definition HandlePacketLoss :: "RetransmissionQueue \<Rightarrow> RetransmissionQueue" where
  "HandlePacketLoss rq =
     (if \<not> is_in_fast_recovery rq then
        let ssthresh = max (rq_cwnd rq div 2) (opts_cwnd_mtus_min (rq_options rq) * opts_mtu (rq_options rq))
        in rq\<lparr>rq_ssthresh := ssthresh, rq_cwnd := ssthresh, rq_partial_bytes_acked := 0,
              rq_fast_recovery_exit_tsn := Some (highest_outstanding_tsn (rq_outstanding_data rq))\<rparr>
      else rq)"

definition UpdateReceiverWindow :: "u32 \<Rightarrow> RetransmissionQueue \<Rightarrow> RetransmissionQueue" where
  "UpdateReceiverWindow a_rwnd rq =
     (let unacked = od_unacked_payload_bytes (rq_outstanding_data rq)
      in rq\<lparr>rq_rwnd := (if unacked \<ge> unat a_rwnd then 0 else unat a_rwnd - unacked)\<rparr>)"

definition start_t3_if_stopped :: "RetransmissionQueue \<Rightarrow> RetransmissionQueue" where
  "start_t3_if_stopped rq =
     (if \<not> tm_is_running (rq_t3_rtx rq) then rq\<lparr>rq_t3_rtx := Timer_Start (rq_t3_rtx rq)\<rparr> else rq)"

definition StartT3RtxTimerIfOutstandingData :: "RetransmissionQueue \<Rightarrow> RetransmissionQueue" where
  "StartT3RtxTimerIfOutstandingData rq =
     (if od_outstanding_data (rq_outstanding_data rq) = [] then rq else start_t3_if_stopped rq)"

definition IsSackValid :: "SackChunk \<Rightarrow> RetransmissionQueue \<Rightarrow> bool" where
  "IsSackValid sack rq \<longleftrightarrow>
     (let cumulative_tsn_ack = PeekUnwrap (sack_cumulative_tsn_ack sack) (rq_tsn_unwrapper rq);
          od = rq_outstanding_data rq
      in if cumulative_tsn_ack < od_last_cumulative_tsn_ack od then False
         else if cumulative_tsn_ack > highest_outstanding_tsn od then False
         else True)"

definition UpdateRTT ::
  "(TimeDelta \<Rightarrow> Timer \<Rightarrow> Timer) \<Rightarrow> Timestamp \<Rightarrow> UnwrappedTSN \<Rightarrow> RetransmissionQueue \<Rightarrow> RetransmissionQueue outcome" where
  "UpdateRTT on_new_rtt now cumulative_tsn_ack rq =
     obind (MeasureRTT now cumulative_tsn_ack (rq_outstanding_data rq)) (\<lambda>rtt.
       Value (if \<not> IsInfinite rtt
              then rq_callback [Rtx_OnNewRtt rtt] (rq\<lparr>rq_t3_rtx := on_new_rtt rtt (rq_t3_rtx rq)\<rparr>) else rq))"

text \<open>The lifecycle events of the messages that a SACK settles.\<close>

definition ack_callbacks :: "AckInfo \<Rightarrow> RtxCallback list" where
  "ack_callbacks ack_info =
     concat (map (\<lambda>i. [Rtx_OnLifecycleMessageDelivered i, Rtx_OnLifecycleEnd i]) (ai_acked_lifecycle_ids ack_info)) @
     concat (map (\<lambda>i. [Rtx_OnLifecycleMessageExpired i True, Rtx_OnLifecycleEnd i])
       (ai_abandoned_lifecycle_ids ack_info))"

definition RetransmissionQueue_HandleSack ::
  "(TimeDelta \<Rightarrow> Timer \<Rightarrow> Timer) \<Rightarrow> 's discard_callback \<Rightarrow> Timestamp \<Rightarrow> SackChunk \<Rightarrow>
   RetransmissionQueue \<times> 's \<Rightarrow> (bool \<times> RetransmissionQueue \<times> 's) outcome" where
  "RetransmissionQueue_HandleSack on_new_rtt discard now sack = (\<lambda>(rq, s).
     if \<not> IsSackValid sack rq then Value (False, rq, s)
     else
       let old_last_cumulative_tsn_ack = od_last_cumulative_tsn_ack (rq_outstanding_data rq);
           old_unacked_packet_bytes = od_unacked_packet_bytes (rq_outstanding_data rq);
           (cumulative_tsn_ack, unwrapper) = Unwrap (sack_cumulative_tsn_ack sack) (rq_tsn_unwrapper rq);
           rq = rq\<lparr>rq_tsn_unwrapper := unwrapper\<rparr>
       in obind (if sack_gap_ack_blocks sack = [] then UpdateRTT on_new_rtt now cumulative_tsn_ack rq else Value rq)
            (\<lambda>rq.
          let rq = MaybeExitFastRecovery cumulative_tsn_ack rq in
          obind (OutstandingData_HandleSack discard cumulative_tsn_ack (sack_gap_ack_blocks sack)
                   (is_in_fast_recovery rq) (rq_outstanding_data rq, s)) (\<lambda>(ack_info, od, s).
            let rq = rq_callback (ack_callbacks ack_info) (rq\<lparr>rq_outstanding_data := od\<rparr>);
                rq = UpdateReceiverWindow (sack_a_rwnd sack) rq;
                rq = (if cumulative_tsn_ack > old_last_cumulative_tsn_ack
                      then HandleIncreasedCumulativeTsnAck old_unacked_packet_bytes (ai_bytes_acked ack_info)
                             (rq\<lparr>rq_t3_rtx := Timer_Stop (rq_t3_rtx rq)\<rparr>)
                      else rq);
                rq = (if ai_has_packet_loss ack_info then HandlePacketLoss rq else rq);
                rq = (if ai_bytes_acked ack_info > 0 then rq_callback [Rtx_OnClearRetransmissionCounter] rq else rq)
            in Value (True, StartT3RtxTimerIfOutstandingData rq, s))))"

definition HandleT3RtxTimerExpiry ::
  "'s discard_callback \<Rightarrow> RetransmissionQueue \<times> 's \<Rightarrow> (RetransmissionQueue \<times> 's) outcome" where
  "HandleT3RtxTimerExpiry discard = (\<lambda>(rq, s).
     let mtu = opts_mtu (rq_options rq);
         rq = rq\<lparr>rq_ssthresh := max (rq_cwnd rq div 2) (4 * mtu), rq_cwnd := 1 * mtu,
                 rq_partial_bytes_acked := 0\<rparr>
     in obind (NackAll discard (rq_outstanding_data rq, s)) (\<lambda>(od, s).
          Value (rq\<lparr>rq_outstanding_data := od\<rparr>, s)))"

section \<open>Sending\<close>

definition bytes_of_chunks :: "RetransmissionQueue \<Rightarrow> (u32 \<times> Data) list \<Rightarrow> nat" where
  "bytes_of_chunks rq chunks = foldl (\<lambda>r d. r + rq_GetSerializedChunkSize rq (snd d)) 0 chunks"

definition GetChunksForFastRetransmit ::
  "nat \<Rightarrow> RetransmissionQueue \<Rightarrow> ((u32 \<times> Data) list \<times> RetransmissionQueue) outcome" where
  "GetChunksForFastRetransmit bytes_in_packet rq =
     RTC_CHECK (has_data_to_be_fast_retransmitted (rq_outstanding_data rq))
       (RTC_CHECK (IsDivisibleBy4 bytes_in_packet)
          (obind (GetChunksToBeFastRetransmitted bytes_in_packet (rq_outstanding_data rq)) (\<lambda>(to_be_sent, od).
             RTC_CHECK (to_be_sent \<noteq> [])
               (let rq = rq\<lparr>rq_outstanding_data := od\<rparr>;
                    rq = (if fst (to_be_sent ! 0) = Wrap (next_value (od_last_cumulative_tsn_ack od))
                          then rq\<lparr>rq_t3_rtx := Timer_Stop (rq_t3_rtx rq)\<rparr> else rq);
                    rq = start_t3_if_stopped rq
                in Value (to_be_sent,
                     rq\<lparr>rq_rtx_packets_count := rq_rtx_packets_count rq + 1,
                        rq_rtx_bytes_count := rq_rtx_bytes_count rq + bytes_of_chunks rq to_be_sent\<rparr>)))))"

type_synonym 's produce_operation = "Timestamp \<Rightarrow> nat \<Rightarrow> 's \<Rightarrow> (DataToSend option \<times> 's) outcome"

text \<open>The body of the loop of \<open>GetChunksToSend\<close>, once a chunk has been produced.\<close>

definition send_chunk ::
  "'s discard_callback \<Rightarrow> Timestamp \<Rightarrow> DataToSend \<Rightarrow> RetransmissionQueue \<times> 's \<Rightarrow>
   ((u32 \<times> Data) list \<times> RetransmissionQueue \<times> 's) outcome" where
  "send_chunk discard now chunk = (\<lambda>(rq, s).
     let rq = rq\<lparr>rq_rwnd := size_sub (rq_rwnd rq) (Data_size (dts_data chunk))\<rparr>;
         (tsn, od, s) =
           OutstandingData_Insert discard (dts_message_id chunk) (dts_data chunk) now
             (if rq_partial_reliability rq then dts_max_retransmissions chunk else MaxRetransmits_NoLimit)
             (if rq_partial_reliability rq then dts_expires_at chunk else PlusInfinity)
             (dts_lifecycle_id chunk) (rq_outstanding_data rq, s);
         rq = rq\<lparr>rq_outstanding_data := od\<rparr>
     in case tsn of
          None \<Rightarrow> Value ([], rq, s)
        | Some tsn \<Rightarrow>
            if LifecycleId_IsSet (dts_lifecycle_id chunk)
            then RTC_CHECK (data_is_end (dts_data chunk))
                   (Value ([(Wrap tsn, dts_data chunk)],
                      rq_callback [Rtx_OnLifecycleMessageFullySent (dts_lifecycle_id chunk)] rq, s))
            else Value ([(Wrap tsn, dts_data chunk)], rq, s))"

text \<open>
  The loop carries fuel; every turn that continues uses at least one byte of the budget, so the
  budget and one more unit for the last test are enough.
\<close>

fun send_loop ::
  "nat \<Rightarrow> 's produce_operation \<Rightarrow> 's discard_callback \<Rightarrow> Timestamp \<Rightarrow> nat \<Rightarrow> RetransmissionQueue \<times> 's \<Rightarrow>
   ((u32 \<times> Data) list \<times> RetransmissionQueue \<times> 's) outcome" where
  "send_loop 0 produce discard now max_bytes rs = Diverges"
| "send_loop (Suc fuel) produce discard now max_bytes (rq, s) =
     (if max_bytes > rq_data_chunk_header_size rq then
        RTC_CHECK (IsDivisibleBy4 max_bytes)
          (obind (produce now (max_bytes - rq_data_chunk_header_size rq) s) (\<lambda>(chunk_opt, s).
             case chunk_opt of
               None \<Rightarrow> Value ([], rq, s)
             | Some chunk \<Rightarrow>
                 let max_bytes = size_sub max_bytes (rq_GetSerializedChunkSize rq (dts_data chunk)) in
                 obind (send_chunk discard now chunk (rq, s)) (\<lambda>(sent, rs).
                 obind (send_loop fuel produce discard now max_bytes rs) (\<lambda>(chunks, rs).
                   Value (sent @ chunks, rs)))))
      else Value ([], rq, s))"

text \<open>The bandwidth budget: how many bytes are allowed to be sent.\<close>

definition send_budget :: "nat \<Rightarrow> RetransmissionQueue \<Rightarrow> nat" where
  "send_budget bytes_remaining_in_packet rq =
     (let unacked_packet_bytes = od_unacked_packet_bytes (rq_outstanding_data rq);
          max_packet_bytes_allowed_by_cwnd =
            (if unacked_packet_bytes \<ge> rq_cwnd rq then 0 else rq_cwnd rq - unacked_packet_bytes);
          max_packet_bytes_allowed_by_rwnd =
            (if od_unacked_items (rq_outstanding_data rq) = 0 then opts_mtu (rq_options rq)
             else size_wrap (RoundUpTo4 (size_wrap (rq_rwnd rq + rq_data_chunk_header_size rq))))
      in RoundDownTo4 (min (min max_packet_bytes_allowed_by_cwnd max_packet_bytes_allowed_by_rwnd)
                         bytes_remaining_in_packet))"

definition GetChunksToSend ::
  "'s produce_operation \<Rightarrow> 's discard_callback \<Rightarrow> Timestamp \<Rightarrow> nat \<Rightarrow> RetransmissionQueue \<times> 's \<Rightarrow>
   ((u32 \<times> Data) list \<times> RetransmissionQueue \<times> 's) outcome" where
  "GetChunksToSend produce discard now bytes_remaining_in_packet = (\<lambda>(rq, s).
     RTC_CHECK (IsDivisibleBy4 bytes_remaining_in_packet)
       (let max_bytes = send_budget bytes_remaining_in_packet rq in
        obind (GetChunksToBeRetransmitted max_bytes (rq_outstanding_data rq)) (\<lambda>(to_be_sent, od).
          let rq = rq\<lparr>rq_outstanding_data := od\<rparr>;
              bytes_retransmitted = bytes_of_chunks rq to_be_sent;
              max_bytes = size_sub max_bytes bytes_retransmitted;
              rq = (if to_be_sent \<noteq> []
                    then rq\<lparr>rq_rtx_packets_count := rq_rtx_packets_count rq + 1,
                            rq_rtx_bytes_count := rq_rtx_bytes_count rq + bytes_retransmitted\<rparr>
                    else rq)
          in obind (send_loop (Suc max_bytes) produce discard now max_bytes (rq, s)) (\<lambda>(chunks, rq, s).
               let to_be_sent = to_be_sent @ chunks
               in Value (to_be_sent, if to_be_sent \<noteq> [] then start_t3_if_stopped rq else rq, s)))))"

definition rq_ShouldSendForwardTsn ::
  "'s discard_callback \<Rightarrow> Timestamp \<Rightarrow> RetransmissionQueue \<times> 's \<Rightarrow> bool \<times> RetransmissionQueue \<times> 's" where
  "rq_ShouldSendForwardTsn discard now = (\<lambda>(rq, s).
     if \<not> rq_partial_reliability rq then (False, rq, s)
     else
       let (od, s) = ExpireOutstandingChunks discard now (rq_outstanding_data rq, s)
       in (ShouldSendForwardTsn od, rq\<lparr>rq_outstanding_data := od\<rparr>, s))"

section \<open>Stream reset and handover\<close>

text \<open>The streams to reset are those of the send queue, which \<open>get_streams\<close> returns.\<close>

definition rq_BeginResetStreams ::
  "('s \<Rightarrow> u16 list \<times> 's) \<Rightarrow> RetransmissionQueue \<times> 's \<Rightarrow> u16 list \<times> RetransmissionQueue \<times> 's" where
  "rq_BeginResetStreams get_streams = (\<lambda>(rq, s).
     let rq = rq\<lparr>rq_outstanding_data := OutstandingData_BeginResetStreams (rq_outstanding_data rq)\<rparr>;
         (streams, s) = get_streams s
     in (streams, rq, s))"

definition RetransmissionQueue_GetHandoverReadiness :: "RetransmissionQueue \<Rightarrow> HandoverReadinessStatus" where
  "RetransmissionQueue_GetHandoverReadiness rq =
     (let od = rq_outstanding_data rq;
          status = HandoverReadinessStatus_none;
          status = (if od_outstanding_data od \<noteq> []
                    then HandoverReadinessStatus_Add kRetransmissionQueueOutstandingData status else status);
          status = (if rq_fast_recovery_exit_tsn rq \<noteq> None
                    then HandoverReadinessStatus_Add kRetransmissionQueueFastRecovery status else status)
      in if has_data_to_be_retransmitted od
         then HandoverReadinessStatus_Add kRetransmissionQueueNotEmpty status else status)"

definition RetransmissionQueue_AddHandoverState ::
  "RetransmissionQueue \<Rightarrow> DcSctpSocketHandoverState \<Rightarrow> DcSctpSocketHandoverState" where
  "RetransmissionQueue_AddHandoverState rq state =
     state\<lparr>hs_tx := (hs_tx state)\<lparr>ht_next_tsn := rq_next_tsn rq, ht_rwnd := of_nat (rq_rwnd rq),
       ht_cwnd := of_nat (rq_cwnd rq), ht_ssthresh := of_nat (rq_ssthresh rq),
       ht_partial_bytes_acked := of_nat (rq_partial_bytes_acked rq)\<rparr>\<rparr>"

definition RetransmissionQueue_RestoreFromState ::
  "DcSctpSocketHandoverState \<Rightarrow> RetransmissionQueue \<Rightarrow> RetransmissionQueue outcome" where
  "RetransmissionQueue_RestoreFromState state rq =
     RTC_CHECK (od_outstanding_data (rq_outstanding_data rq) = [])
       (RTC_CHECK (\<not> tm_is_running (rq_t3_rtx rq))
          (RTC_CHECK (rq_partial_bytes_acked rq = 0)
             (let (tsn, unwrapper) = Unwrap (ht_next_tsn (hs_tx state) - 1) (rq_tsn_unwrapper rq)
              in Value (rq\<lparr>rq_cwnd := unat (ht_cwnd (hs_tx state)), rq_rwnd := unat (ht_rwnd (hs_tx state)),
                   rq_ssthresh := unat (ht_ssthresh (hs_tx state)),
                   rq_partial_bytes_acked := unat (ht_partial_bytes_acked (hs_tx state)),
                   rq_tsn_unwrapper := unwrapper,
                   rq_outstanding_data :=
                     OutstandingData_ResetSequenceNumbers tsn (rq_outstanding_data rq)\<rparr>))))"

section \<open>What the outstanding data keeps\<close>

text \<open>
  A property of the items and one of the send queue that the operations of the outstanding data
  keep. For the first locale an item is abandoned, or its message is ended with a placeholder; in
  the second one items are also acknowledged, nacked and retransmitted.
\<close>

locale outstanding_invariant =
  fixes Q :: "Item \<Rightarrow> bool" and discard :: "'s discard_callback" and inv :: "'s \<Rightarrow> bool"
  assumes abandon: "Q item \<Longrightarrow> Q (Item_Abandon item)"
    and placeholder: "Q item \<Longrightarrow> Q (end_placeholder item)"
    and discard_inv: "inv s \<Longrightarrow> inv (snd (discard i m s))"
begin

definition kept :: "nat \<Rightarrow> OutstandingData \<times> 's \<Rightarrow> bool" where
  "kept h = (\<lambda>(od, s). od_data_chunk_header_size od = h \<and> (\<forall>item\<in>set (od_outstanding_data od). Q item) \<and> inv s)"

lemma AbandonAllFor_loop_items:
  "AbandonAllFor_loop i m t items sets = (items', sets') \<Longrightarrow>
   length items' = length items \<and> ((\<forall>x\<in>set items. Q x) \<longrightarrow> (\<forall>x\<in>set items'. Q x))"
  by (induction i m t items sets arbitrary: items' sets' rule: AbandonAllFor_loop.induct)
    (fastforce simp: Let_def abandon split: if_splits prod.splits)+

lemma AbandonAllFor_kept:
  assumes "kept h (od, s)" and "Q item"
  shows "kept h (AbandonAllFor discard item (od, s))"
    and "length (od_outstanding_data od) \<le> length (od_outstanding_data (fst (AbandonAllFor discard item (od, s))))"
    and "od_unacked_packet_bytes (fst (AbandonAllFor discard item (od, s))) = od_unacked_packet_bytes od"
proof -
  obtain b s1 where d: "discard (data_stream_id (it_data item)) (it_message_id item) s = (b, s1)" by fastforce
  have s1: "inv s1" using assms(1) discard_inv [of s "data_stream_id (it_data item)" "it_message_id item"]
    by (simp add: kept_def d)
  define items where "items = od_outstanding_data od @ (if b then [end_placeholder item] else [])"
  define od1 where "od1 = (if b then od\<lparr>od_outstanding_data := items\<rparr> else od)"
  obtain items' sets' where l: "AbandonAllFor_loop (data_stream_id (it_data item)) (it_message_id item)
      (od_last_cumulative_tsn_ack od) items (od_to_be_fast_retransmitted od, od_to_be_retransmitted od) = (items', sets')"
    by (rule prod.exhaust)
  have "AbandonAllFor discard item (od, s) =
      (od1\<lparr>od_outstanding_data := items', od_to_be_fast_retransmitted := fst sets',
           od_to_be_retransmitted := snd sets'\<rparr>, s1)"
    using l by (cases sets') (auto simp: AbandonAllFor_def d items_def od1_def)
  moreover have "\<forall>x\<in>set items. Q x" using assms placeholder by (auto simp: kept_def items_def)
  ultimately show "kept h (AbandonAllFor discard item (od, s))"
    and "length (od_outstanding_data od) \<le> length (od_outstanding_data (fst (AbandonAllFor discard item (od, s))))"
    and "od_unacked_packet_bytes (fst (AbandonAllFor discard item (od, s))) = od_unacked_packet_bytes od"
    using AbandonAllFor_loop_items [OF l] assms(1) s1 by (auto simp: kept_def od1_def items_def)
qed

lemma expire_loop_kept:
  assumes "kept h (od, s)" and "i + n \<le> length (od_outstanding_data od)"
  shows "kept h (expire_loop discard now i n (od, s))"
  using assms
proof (induction n arbitrary: i od s)
  case (Suc n)
  let ?item = "od_outstanding_data od ! i"
  have q: "Q ?item" using Suc.prems by (auto simp: kept_def)
  obtain od1 s1 where a: "AbandonAllFor discard ?item (od, s) = (od1, s1)" by fastforce
  have "kept h (od1, s1)" "i + 1 + n \<le> length (od_outstanding_data od1)"
    using AbandonAllFor_kept [OF Suc.prems(1) q] Suc.prems(2) by (simp_all add: a)
  with Suc show ?case by (simp add: a Let_def)
qed simp

lemma Expire_kept: "kept h x \<Longrightarrow> kept h (ExpireOutstandingChunks discard now x)"
  using expire_loop_kept by (cases x) (simp add: ExpireOutstandingChunks_def)

lemma Insert_kept:
  assumes "kept h (od, s)" and "Q (Item_new m data now maxr expires lid)"
    and "OutstandingData_Insert discard m data now maxr expires lid (od, s) = (t, od', s')"
  shows "kept h (od', s')"
    and "od_unacked_packet_bytes od' = od_unacked_packet_bytes od + GetSerializedChunkSize od data"
proof -
  let ?item = "Item_new m data now maxr expires lid"
  define od1 where "od1 = od\<lparr>od_unacked_payload_bytes := od_unacked_payload_bytes od + Data_size data,
    od_unacked_packet_bytes := od_unacked_packet_bytes od + GetSerializedChunkSize od data,
    od_unacked_items := od_unacked_items od + 1, od_outstanding_data := od_outstanding_data od @ [?item]\<rparr>"
  have k: "kept h (od1, s)" using assms(1,2) by (auto simp: kept_def od1_def)
  have "(od', s') = (if has_expired now ?item then AbandonAllFor discard ?item (od1, s) else (od1, s))"
    using assms(3) by (auto simp: OutstandingData_Insert_def Let_def od1_def split: if_splits)
  then show "kept h (od', s')"
    and "od_unacked_packet_bytes od' = od_unacked_packet_bytes od + GetSerializedChunkSize od data"
    using k AbandonAllFor_kept [OF k assms(2)]
    by (auto simp: od1_def split: if_splits) (metis fst_conv)+
qed

end

locale outstanding_history = outstanding_invariant +
  assumes ack: "Q item \<Longrightarrow> Q (Item_Ack item)"
    and nack: "Q item \<Longrightarrow> Q (snd (Item_Nack b item))"
    and resend: "Q item \<Longrightarrow> Q (Item_MarkAsRetransmitted item)"
begin

lemma kept_update:
  assumes "kept h (od, s)" and "i < length (od_outstanding_data od) \<Longrightarrow> Q item"
    and "od_data_chunk_header_size od' = od_data_chunk_header_size od"
    and "od_outstanding_data od' = (od_outstanding_data od)[i := item]"
  shows "kept h (od', s)"
  using assms set_update_subset_insert [of "od_outstanding_data od" i item]
  by (cases "i < length (od_outstanding_data od)") (auto simp: kept_def list_update_beyond)

lemma AckChunk_kept:
  assumes "kept h (od, s)" and "AckChunk tsn i (ai, od) = (ai', od')"
  shows "kept h (od', s)"
proof (cases "is_acked (od_outstanding_data od ! i)")
  case True
  with assms show ?thesis by (simp add: AckChunk_def Let_def)
next
  case False
  then have "od_data_chunk_header_size od' = od_data_chunk_header_size od"
      and "od_outstanding_data od' = (od_outstanding_data od)[i := Item_Ack (od_outstanding_data od ! i)]"
    using assms(2) by (auto simp: AckChunk_def Let_def)
  then show ?thesis
    by (rule kept_update [OF assms(1), rotated]) (use assms(1) ack in \<open>auto simp: kept_def\<close>)
qed

lemma remove_front_kept:
  assumes "kept h (snd a, s)"
  shows "kept h (snd (remove_front a), s)"
proof -
  obtain ai od where a: "a = (ai, od)" by fastforce
  obtain ai1 od1 where c: "AckChunk (next_value (od_last_cumulative_tsn_ack od)) 0 (ai, od) = (ai1, od1)"
    by fastforce
  have "kept h (od1, s)" using AckChunk_kept [OF _ c] assms by (simp add: a)
  moreover have "set (tl xs) \<subseteq> set xs" for xs :: "Item list" by (cases xs) auto
  ultimately show ?thesis by (auto simp: remove_front_def a c Let_def kept_def)
qed

lemma RemoveAcked_loop_kept: "kept h (snd a, s) \<Longrightarrow> kept h (snd (RemoveAcked_loop t a), s)"
proof (induction t a rule: RemoveAcked_loop.induct)
  case (1 t a)
  then show ?case using remove_front_kept by (subst RemoveAcked_loop.simps) auto
qed

lemma ack_tsns_kept: "ack_tsns tsns a = Value b \<Longrightarrow> kept h (snd a, s) \<Longrightarrow> kept h (snd b, s)"
proof (induction tsns a rule: ack_tsns.induct)
  case (2 tsn tsns a)
  obtain ai od where a: "a = (ai, od)" by fastforce
  have k: "kept h (snd (AckChunk tsn i a), s)" for i
    using AckChunk_kept [of h od s tsn i ai] 2(4) by (cases "AckChunk tsn i (ai, od)") (simp add: a)
  from 2(1,2,3,4) k show ?case by (cases "GetItem tsn (snd a)") (auto split: if_splits)
qed simp

lemma AckGapBlocks_kept: "AckGapBlocks t blocks a = Value b \<Longrightarrow> kept h (snd a, s) \<Longrightarrow> kept h (snd b, s)"
proof (induction blocks arbitrary: a)
  case (Cons block blocks)
  then show ?case
    by (cases "ack_tsns [AddTo t (uint (gab_start block))..AddTo t (uint (gab_end block))] a")
      (auto simp: Let_def dest: ack_tsns_kept)
qed simp

lemma NackItem_kept:
  assumes "NackItem discard tsn now fast (od, s) = Value (b, x)" and "kept h (od, s)"
  shows "kept h x"
proof -
  obtain i where i: "GetItem tsn od = Value i" using assms(1) by (cases "GetItem tsn od") (auto simp: NackItem_def)
  let ?item = "od_outstanding_data od ! i"
  have len: "i < length (od_outstanding_data od)"
    using i by (auto simp: GetItem_def RTC_CHECK_def od_next_tsn_def highest_outstanding_tsn_def next_value_def AddTo_def
        split: if_splits)
  obtain action item where n: "Item_Nack now ?item = (action, item)" by fastforce
  have q: "Q item" using nack [of ?item now] assms(2) len by (simp add: n kept_def)
  define od1 where "od1 = (no_longer_outstanding ?item od)\<lparr>od_outstanding_data := (od_outstanding_data od)[i := item]\<rparr>"
  have k: "kept h (od1, s)" by (rule kept_update [OF assms(2) q]) (simp_all add: od1_def)
  have "kept h (od2, s)" if "od_data_chunk_header_size od2 = od_data_chunk_header_size od1"
      "od_outstanding_data od2 = od_outstanding_data od1" for od2
    using k that by (simp add: kept_def)
  with AbandonAllFor_kept(1) [OF k q] k assms(1) show ?thesis
    by (auto simp: NackItem_def i n Let_def od1_def split: NackAction.splits if_splits)
qed

lemma nack_tsns_kept:
  "nack_tsns discard now fast tsns (l, x) = Value (l', x') \<Longrightarrow> kept h x \<Longrightarrow> kept h x'"
proof (induction tsns arbitrary: l x)
  case (Cons tsn tsns)
  then show ?case
    by (cases x; cases "NackItem discard tsn now fast x") (auto dest: NackItem_kept)
qed simp

lemma nack_blocks_kept:
  "nack_blocks discard rec t m p blocks (l, x) = Value (l', x') \<Longrightarrow> kept h x \<Longrightarrow> kept h x'"
proof (induction blocks arbitrary: p l x)
  case (Cons block blocks)
  then show ?case
    by (cases "nack_tsns discard False (\<not> rec)
        [next_value p..min (AddTo t (uint (gab_start block)) - 1) m] (l, x)")
      (auto simp: Let_def dest: nack_tsns_kept)
qed simp

lemma HandleSack_kept:
  assumes "OutstandingData_HandleSack discard t blocks rec (od, s) = Value (ai, od', s')" and "kept h (od, s)"
  shows "kept h (od', s')"
proof -
  let ?r = "RemoveAcked t (AckInfo_new t, od)"
  have r: "kept h (snd ?r, s)"
    using RemoveAcked_loop_kept [of h "(AckInfo_new t, od)" s t] assms(2)
    by (auto simp: RemoveAcked_def kept_def split: prod.splits)
  obtain ai1 od1 where a: "AckGapBlocks t blocks ?r = Value (ai1, od1)"
    using assms(1) by (cases "AckGapBlocks t blocks ?r") (auto simp: OutstandingData_HandleSack_def)
  have "kept h (od1, s)" using AckGapBlocks_kept [OF a r] by simp
  with assms(1) show ?thesis
    by (auto simp: OutstandingData_HandleSack_def a NackBetweenAckBlocks_def Let_def obind_Value_iff
        dest: nack_blocks_kept)
qed

lemma NackAll_kept: "NackAll discard (od, s) = Value x \<Longrightarrow> kept h (od, s) \<Longrightarrow> kept h x"
  by (auto simp: NackAll_def obind_Value_iff dest: nack_tsns_kept)

lemma extract_loop_kept:
  "extract_loop tsns n od = Value (E, chunks, od') \<Longrightarrow> kept h (od, s) \<Longrightarrow>
   kept h (od', s) \<and>
   od_unacked_packet_bytes od' =
     od_unacked_packet_bytes od + sum_list (map (GetSerializedChunkSize od \<circ> snd) chunks) \<and>
   (chunks = [] \<longrightarrow> od' = od)"
proof (induction tsns arbitrary: n od E chunks)
  case (Cons tsn tsns)
  obtain i where i: "GetItem tsn od = Value i" using Cons.prems(1) by (cases "GetItem tsn od") auto
  let ?item = "od_outstanding_data od ! i"
  have k: "kept h (resend_at i od, s)"
    by (rule kept_update [where i = i and item = "Item_MarkAsRetransmitted ?item", OF Cons.prems(2)])
      (use Cons.prems(2) resend in \<open>auto simp: kept_def resend_at_def Let_def\<close>)
  have e: "GetSerializedChunkSize (resend_at i od) = GetSerializedChunkSize od"
    by (rule GetSerializedChunkSize_cong) simp
  have u: "od_unacked_packet_bytes (resend_at i od) =
      od_unacked_packet_bytes od + GetSerializedChunkSize od (it_data ?item)"
    by (simp add: resend_at_def Let_def)
  let ?chunk = "(Wrap tsn, it_data ?item)"
  let ?size = "GetSerializedChunkSize od (it_data ?item)"
  note x = Cons.prems(1) [unfolded extract_loop_Cons [OF i]]
  show ?case
  proof (cases "?size \<le> n")
    case fits: True
    show ?thesis
    proof (cases "n - ?size \<le> od_data_chunk_header_size od")
      case True
      with x fits k show ?thesis by (auto simp: u)
    next
      case False
      with x fits obtain E' chunks' where "chunks = ?chunk # chunks'"
          "extract_loop tsns (n - ?size) (resend_at i od) = Value (E', chunks', od')"
        by (cases "extract_loop tsns (n - ?size) (resend_at i od)") auto
      with Cons.IH [OF _ k] show ?thesis by (simp add: e u)
    qed
  next
    case False
    with x Cons.IH [OF _ Cons.prems(2)] Cons.prems(2) show ?thesis
      by (cases "n \<le> od_data_chunk_header_size od") auto
  qed
qed simp

lemma Retransmit_kept:
  assumes "GetChunksToBeRetransmitted n od = Value (chunks, od')" and "kept h (od, s)"
  shows "kept h (od', s)"
    and "od_unacked_packet_bytes od' =
      od_unacked_packet_bytes od + sum_list (map (GetSerializedChunkSize od \<circ> snd) chunks)"
    and "chunks = [] \<Longrightarrow> od_outstanding_data od' = od_outstanding_data od"
proof -
  obtain E od1 where e: "extract_loop (sorted_list_of_set (od_to_be_retransmitted od)) n od = Value (E, chunks, od1)"
      "od' = od1\<lparr>od_to_be_retransmitted := od_to_be_retransmitted od1 - E\<rparr>"
    using assms(1) by (auto simp: GetChunksToBeRetransmitted_def obind_Value_iff)
  with extract_loop_kept [OF e(1) assms(2)] show "kept h (od', s)"
    and "od_unacked_packet_bytes od' =
      od_unacked_packet_bytes od + sum_list (map (GetSerializedChunkSize od \<circ> snd) chunks)"
    and "chunks = [] \<Longrightarrow> od_outstanding_data od' = od_outstanding_data od"
    by (auto simp: kept_def)
qed

lemma FastRetransmit_kept:
  assumes "GetChunksToBeFastRetransmitted n od = Value (chunks, od')" and "kept h (od, s)"
  shows "kept h (od', s)"
proof -
  obtain E od1 where e: "extract_loop (sorted_list_of_set (od_to_be_fast_retransmitted od)) n od = Value (E, chunks, od1)"
      "od_data_chunk_header_size od' = od_data_chunk_header_size od1" "od_outstanding_data od' = od_outstanding_data od1"
    using assms(1) by (auto simp: GetChunksToBeFastRetransmitted_def obind_Value_iff Let_def split: if_splits)
  with extract_loop_kept [OF e(1) assms(2)] show ?thesis by (simp add: kept_def)
qed

end

section \<open>The contract with the send queue\<close>

text \<open>
  What the queue relies on: the send queue keeps its invariant, \<open>produce\<close> returns, does not exceed
  the size it is given and sets a lifecycle identifier only on the last chunk of a message.
\<close>

definition fits_in :: "nat \<Rightarrow> nat \<Rightarrow> Item \<Rightarrow> bool" where
  "fits_in h packet item \<longleftrightarrow>
     RoundUpTo4 h \<le> packet \<and> RoundUpTo4 (h + Data_size (it_data item)) \<le> packet"

definition settled :: "Item \<Rightarrow> bool" where
  "settled item \<longleftrightarrow> is_acked item \<or> is_abandoned item"

definition settled_all :: "OutstandingData \<Rightarrow> bool" where
  "settled_all od \<longleftrightarrow> list_all settled (od_outstanding_data od)"

locale send_queue_contract =
  fixes produce :: "'s produce_operation" and discard :: "'s discard_callback" and inv :: "'s \<Rightarrow> bool"
  assumes discard_inv: "inv s \<Longrightarrow> inv (snd (discard i m s))"
    and produce_inv:
      "\<lbrakk>inv s; 0 < n\<rbrakk> \<Longrightarrow> \<exists>r s'. produce now n s = Value (r, s') \<and> inv s' \<and>
         (case r of
            None \<Rightarrow> True
          | Some d \<Rightarrow> Data_size (dts_data d) \<le> n \<and>
              (LifecycleId_IsSet (dts_lifecycle_id d) \<longrightarrow> data_is_end (dts_data d)))"

lemma end_placeholder_data:
  "Data_size (it_data (end_placeholder item)) = 0" "settled (end_placeholder item)"
  by (simp_all add: end_placeholder_def Item_Ack_def Item_new_def Data_size_def settled_def is_acked_def Let_def)

lemma Item_data_kept [simp]:
  "it_data (Item_Abandon item) = it_data item" "it_data (Item_Ack item) = it_data item"
  "it_data (snd (Item_Nack b item)) = it_data item" "it_data (Item_MarkAsRetransmitted item) = it_data item"
  by (simp_all add: Item_Abandon_def Item_Ack_def Item_Nack_def Item_MarkAsRetransmitted_def Let_def)

sublocale send_queue_contract \<subseteq> fits: outstanding_history "fits_in h packet" discard inv for h packet
  by unfold_locales (simp_all add: fits_in_def end_placeholder_data discard_inv)

sublocale send_queue_contract \<subseteq> settles: outstanding_invariant settled discard inv
  by unfold_locales (simp_all add: end_placeholder_data discard_inv, simp add: settled_def is_abandoned_def Item_Abandon_def)

text \<open>
  The invariant: the outstanding data is consistent and no chunk is larger than a packet, the
  congestion window has room for a packet, and the retransmission timer runs while some chunk is
  neither acknowledged nor abandoned.
\<close>

definition rq_base :: "('s \<Rightarrow> bool) \<Rightarrow> nat \<Rightarrow> RetransmissionQueue \<times> 's \<Rightarrow> bool" where
  "rq_base ok packet = (\<lambda>(rq, s).
     od_ok (rq_outstanding_data rq) \<and> ok s \<and> rq_data_chunk_header_size rq \<in> {16, 20} \<and>
     od_data_chunk_header_size (rq_outstanding_data rq) = rq_data_chunk_header_size rq \<and>
     list_all (fits_in (rq_data_chunk_header_size rq) packet) (od_outstanding_data (rq_outstanding_data rq)) \<and>
     opts_mtu (rq_options rq) \<le> rq_cwnd rq \<and> 0 < opts_cwnd_mtus_min (rq_options rq) \<and>
     to_max_restarts (tm_options (rq_t3_rtx rq)) = None)"

definition rq_ok :: "('s \<Rightarrow> bool) \<Rightarrow> nat \<Rightarrow> RetransmissionQueue \<times> 's \<Rightarrow> bool" where
  "rq_ok ok packet = (\<lambda>(rq, s). rq_base ok packet (rq, s) \<and>
     (settled_all (rq_outstanding_data rq) \<or> tm_is_running (rq_t3_rtx rq)))"

lemmas rq_ok_defs = rq_ok_def rq_base_def

lemma rq_callback_frame [simp]:
  "rq_options (rq_callback cs rq) = rq_options rq"
  "rq_partial_reliability (rq_callback cs rq) = rq_partial_reliability rq"
  "rq_data_chunk_header_size (rq_callback cs rq) = rq_data_chunk_header_size rq"
  "rq_t3_rtx (rq_callback cs rq) = rq_t3_rtx rq" "rq_cwnd (rq_callback cs rq) = rq_cwnd rq"
  "rq_ssthresh (rq_callback cs rq) = rq_ssthresh rq" "rq_rwnd (rq_callback cs rq) = rq_rwnd rq"
  "rq_fast_recovery_exit_tsn (rq_callback cs rq) = rq_fast_recovery_exit_tsn rq"
  "rq_outstanding_data (rq_callback cs rq) = rq_outstanding_data rq"
  by (simp_all add: rq_callback_def)

lemma MaybeExitFastRecovery_frame [simp]:
  "rq_options (MaybeExitFastRecovery t rq) = rq_options rq"
  "rq_data_chunk_header_size (MaybeExitFastRecovery t rq) = rq_data_chunk_header_size rq"
  "rq_t3_rtx (MaybeExitFastRecovery t rq) = rq_t3_rtx rq" "rq_cwnd (MaybeExitFastRecovery t rq) = rq_cwnd rq"
  "rq_ssthresh (MaybeExitFastRecovery t rq) = rq_ssthresh rq"
  "rq_outstanding_data (MaybeExitFastRecovery t rq) = rq_outstanding_data rq"
  by (simp_all add: MaybeExitFastRecovery_def split: option.splits)

lemma UpdateReceiverWindow_frame [simp]:
  "rq_options (UpdateReceiverWindow w rq) = rq_options rq"
  "rq_data_chunk_header_size (UpdateReceiverWindow w rq) = rq_data_chunk_header_size rq"
  "rq_t3_rtx (UpdateReceiverWindow w rq) = rq_t3_rtx rq" "rq_cwnd (UpdateReceiverWindow w rq) = rq_cwnd rq"
  "rq_ssthresh (UpdateReceiverWindow w rq) = rq_ssthresh rq"
  "rq_fast_recovery_exit_tsn (UpdateReceiverWindow w rq) = rq_fast_recovery_exit_tsn rq"
  "rq_outstanding_data (UpdateReceiverWindow w rq) = rq_outstanding_data rq"
  by (simp_all add: UpdateReceiverWindow_def Let_def)

lemma HandleIncreased_frame [simp]:
  "rq_options (HandleIncreasedCumulativeTsnAck u b rq) = rq_options rq"
  "rq_data_chunk_header_size (HandleIncreasedCumulativeTsnAck u b rq) = rq_data_chunk_header_size rq"
  "rq_t3_rtx (HandleIncreasedCumulativeTsnAck u b rq) = rq_t3_rtx rq"
  "rq_ssthresh (HandleIncreasedCumulativeTsnAck u b rq) = rq_ssthresh rq"
  "rq_fast_recovery_exit_tsn (HandleIncreasedCumulativeTsnAck u b rq) = rq_fast_recovery_exit_tsn rq"
  "rq_outstanding_data (HandleIncreasedCumulativeTsnAck u b rq) = rq_outstanding_data rq"
  by (simp_all add: HandleIncreasedCumulativeTsnAck_def Let_def split: CongestionAlgorithmPhase.splits)

lemma HandleIncreased_cwnd:
  "rq_cwnd rq \<le> rq_cwnd (HandleIncreasedCumulativeTsnAck u b rq)"
  "rq_cwnd (HandleIncreasedCumulativeTsnAck u b rq) \<le> rq_cwnd rq + opts_mtu (rq_options rq)"
  by (simp_all add: HandleIncreasedCumulativeTsnAck_def Let_def split: CongestionAlgorithmPhase.splits)

lemma HandlePacketLoss_frame [simp]:
  "rq_options (HandlePacketLoss rq) = rq_options rq"
  "rq_data_chunk_header_size (HandlePacketLoss rq) = rq_data_chunk_header_size rq"
  "rq_t3_rtx (HandlePacketLoss rq) = rq_t3_rtx rq"
  "rq_outstanding_data (HandlePacketLoss rq) = rq_outstanding_data rq"
  by (simp_all add: HandlePacketLoss_def Let_def)

lemma HandlePacketLoss_cwnd:
  "opts_mtu (rq_options rq) \<le> rq_cwnd rq \<Longrightarrow> 0 < opts_cwnd_mtus_min (rq_options rq) \<Longrightarrow>
   opts_mtu (rq_options rq) \<le> rq_cwnd (HandlePacketLoss rq)"
  by (simp add: HandlePacketLoss_def Let_def le_max_iff_disj)

lemma Timer_frame [simp]:
  "tm_options (Timer_Start t) = tm_options t" "tm_options (Timer_Stop t) = tm_options t" "tm_is_running (Timer_Start t)"
  by (simp_all add: Timer_Start_def Timer_Stop_def timeout_call_def Let_def)

lemma start_t3_frame [simp]:
  "rq_options (start_t3_if_stopped rq) = rq_options rq"
  "rq_data_chunk_header_size (start_t3_if_stopped rq) = rq_data_chunk_header_size rq"
  "rq_cwnd (start_t3_if_stopped rq) = rq_cwnd rq" "rq_ssthresh (start_t3_if_stopped rq) = rq_ssthresh rq"
  "rq_fast_recovery_exit_tsn (start_t3_if_stopped rq) = rq_fast_recovery_exit_tsn rq"
  "rq_outstanding_data (start_t3_if_stopped rq) = rq_outstanding_data rq"
  "tm_options (rq_t3_rtx (start_t3_if_stopped rq)) = tm_options (rq_t3_rtx rq)"
  "tm_is_running (rq_t3_rtx (start_t3_if_stopped rq))"
  "rq_rwnd (start_t3_if_stopped rq) = rq_rwnd rq"
  by (simp_all add: start_t3_if_stopped_def)

lemma StartT3_frame [simp]:
  "rq_options (StartT3RtxTimerIfOutstandingData rq) = rq_options rq"
  "rq_data_chunk_header_size (StartT3RtxTimerIfOutstandingData rq) = rq_data_chunk_header_size rq"
  "rq_cwnd (StartT3RtxTimerIfOutstandingData rq) = rq_cwnd rq"
  "rq_ssthresh (StartT3RtxTimerIfOutstandingData rq) = rq_ssthresh rq"
  "rq_fast_recovery_exit_tsn (StartT3RtxTimerIfOutstandingData rq) = rq_fast_recovery_exit_tsn rq"
  "rq_outstanding_data (StartT3RtxTimerIfOutstandingData rq) = rq_outstanding_data rq"
  "tm_options (rq_t3_rtx (StartT3RtxTimerIfOutstandingData rq)) = tm_options (rq_t3_rtx rq)"
  "settled_all (rq_outstanding_data rq) \<or> tm_is_running (rq_t3_rtx (StartT3RtxTimerIfOutstandingData rq))"
  by (simp_all add: StartT3RtxTimerIfOutstandingData_def settled_all_def)

lemma IsSackValid_range:
  "IsSackValid sack rq \<Longrightarrow> Unwrap (sack_cumulative_tsn_ack sack) (rq_tsn_unwrapper rq) = (t, u) \<Longrightarrow>
   sack_in_range t (rq_outstanding_data rq)"
  by (auto simp: IsSackValid_def sack_in_range_def PeekUnwrap_Unwrap Let_def split: if_splits)

lemma UpdateRTT_returns:
  "\<exists>rq'. UpdateRTT on_new_rtt now t rq = Value rq' \<and> rq_options rq' = rq_options rq \<and>
     rq_data_chunk_header_size rq' = rq_data_chunk_header_size rq \<and> rq_cwnd rq' = rq_cwnd rq \<and>
     rq_ssthresh rq' = rq_ssthresh rq \<and> rq_fast_recovery_exit_tsn rq' = rq_fast_recovery_exit_tsn rq \<and>
     rq_outstanding_data rq' = rq_outstanding_data rq \<and>
     (rq_t3_rtx rq' = rq_t3_rtx rq \<or> (\<exists>rtt. rq_t3_rtx rq' = on_new_rtt rtt (rq_t3_rtx rq)))"
  using MeasureRTT_returns [of now t "rq_outstanding_data rq"] by (auto simp: UpdateRTT_def)

text \<open>
  A valid SACK in one equation. The state that the outstanding data is handed to differs from the
  first one in the timer and in the exit point of fast recovery.
\<close>

definition sack_congestion :: "bool \<Rightarrow> nat \<Rightarrow> AckInfo \<Rightarrow> u32 \<Rightarrow> RetransmissionQueue \<Rightarrow> RetransmissionQueue" where
  "sack_congestion increased unacked ack_info a_rwnd rq =
     (let rq = UpdateReceiverWindow a_rwnd (rq_callback (ack_callbacks ack_info) rq);
          rq = (if increased
                then HandleIncreasedCumulativeTsnAck unacked (ai_bytes_acked ack_info)
                       (rq\<lparr>rq_t3_rtx := Timer_Stop (rq_t3_rtx rq)\<rparr>) else rq);
          rq = (if ai_has_packet_loss ack_info then HandlePacketLoss rq else rq);
          rq = (if ai_bytes_acked ack_info > 0 then rq_callback [Rtx_OnClearRetransmissionCounter] rq else rq)
      in StartT3RtxTimerIfOutstandingData rq)"

lemma HandleSack_cases:
  assumes "RetransmissionQueue_HandleSack on_new_rtt discard now sack (rq, s) = Value (True, rq', s')"
  obtains t u rq1 ai od where "Unwrap (sack_cumulative_tsn_ack sack) (rq_tsn_unwrapper rq) = (t, u)"
    and "(if sack_gap_ack_blocks sack = [] then UpdateRTT on_new_rtt now t (rq\<lparr>rq_tsn_unwrapper := u\<rparr>)
          else Value (rq\<lparr>rq_tsn_unwrapper := u\<rparr>)) = Value rq1"
    and "OutstandingData_HandleSack discard t (sack_gap_ack_blocks sack)
           (is_in_fast_recovery (MaybeExitFastRecovery t rq1)) (rq_outstanding_data rq1, s) = Value (ai, od, s')"
    and "rq' = sack_congestion (t > od_last_cumulative_tsn_ack (rq_outstanding_data rq))
           (od_unacked_packet_bytes (rq_outstanding_data rq)) ai (sack_a_rwnd sack)
           ((MaybeExitFastRecovery t rq1)\<lparr>rq_outstanding_data := od\<rparr>)"
proof -
  obtain t u where u: "Unwrap (sack_cumulative_tsn_ack sack) (rq_tsn_unwrapper rq) = (t, u)" by fastforce
  let ?r = "if sack_gap_ack_blocks sack = [] then UpdateRTT on_new_rtt now t (rq\<lparr>rq_tsn_unwrapper := u\<rparr>)
          else Value (rq\<lparr>rq_tsn_unwrapper := u\<rparr>)"
  have valid: "IsSackValid sack rq"
    using assms by (auto simp: RetransmissionQueue_HandleSack_def split: if_splits)
  obtain rq1 where r: "?r = Value rq1"
    using assms valid by (cases ?r) (simp_all add: RetransmissionQueue_HandleSack_def u Let_def)
  let ?h = "OutstandingData_HandleSack discard t (sack_gap_ack_blocks sack)
           (is_in_fast_recovery (MaybeExitFastRecovery t rq1)) (rq_outstanding_data rq1, s)"
  obtain ai od s2 where h: "?h = Value (ai, od, s2)"
    using assms valid r by (cases ?h) (auto simp: RetransmissionQueue_HandleSack_def u Let_def)
  then have "rq' = sack_congestion (t > od_last_cumulative_tsn_ack (rq_outstanding_data rq))
           (od_unacked_packet_bytes (rq_outstanding_data rq)) ai (sack_a_rwnd sack)
           ((MaybeExitFastRecovery t rq1)\<lparr>rq_outstanding_data := od\<rparr>)" and "s2 = s'"
    using assms valid r by (simp_all add: RetransmissionQueue_HandleSack_def u Let_def sack_congestion_def)
  with u r h that show thesis by blast
qed

lemma HandleSack_valid:
  assumes "IsSackValid sack rq" and "Unwrap (sack_cumulative_tsn_ack sack) (rq_tsn_unwrapper rq) = (t, u)"
    and "(if sack_gap_ack_blocks sack = [] then UpdateRTT on_new_rtt now t (rq\<lparr>rq_tsn_unwrapper := u\<rparr>)
          else Value (rq\<lparr>rq_tsn_unwrapper := u\<rparr>)) = Value rq1"
    and "OutstandingData_HandleSack discard t (sack_gap_ack_blocks sack)
           (is_in_fast_recovery (MaybeExitFastRecovery t rq1)) (rq_outstanding_data rq1, s) = Value (ai, od, s')"
  shows "RetransmissionQueue_HandleSack on_new_rtt discard now sack (rq, s) =
    Value (True, sack_congestion (t > od_last_cumulative_tsn_ack (rq_outstanding_data rq))
           (od_unacked_packet_bytes (rq_outstanding_data rq)) ai (sack_a_rwnd sack)
           ((MaybeExitFastRecovery t rq1)\<lparr>rq_outstanding_data := od\<rparr>), s')"
  using assms by (simp add: RetransmissionQueue_HandleSack_def Let_def sack_congestion_def)

lemma sack_congestion_frame [simp]:
  "rq_options (sack_congestion b u ai w rq) = rq_options rq"
  "rq_data_chunk_header_size (sack_congestion b u ai w rq) = rq_data_chunk_header_size rq"
  "rq_outstanding_data (sack_congestion b u ai w rq) = rq_outstanding_data rq"
  "tm_options (rq_t3_rtx (sack_congestion b u ai w rq)) = tm_options (rq_t3_rtx rq)"
  by (simp_all add: sack_congestion_def Let_def)

lemma sack_congestion_running:
  "settled_all (rq_outstanding_data rq) \<or> tm_is_running (rq_t3_rtx (sack_congestion b u ai w rq))"
proof -
  obtain rq1 where "sack_congestion b u ai w rq = StartT3RtxTimerIfOutstandingData rq1"
      and "rq_outstanding_data rq1 = rq_outstanding_data rq"
    by (simp add: sack_congestion_def Let_def)
  then show ?thesis by (metis StartT3_frame(8))
qed

lemma sack_congestion_cwnd:
  assumes "opts_mtu (rq_options rq) \<le> rq_cwnd rq" and "0 < opts_cwnd_mtus_min (rq_options rq)"
  shows "opts_mtu (rq_options rq) \<le> rq_cwnd (sack_congestion b u ai w rq)"
proof -
  define rq1 where "rq1 = UpdateReceiverWindow w (rq_callback (ack_callbacks ai) rq)"
  define rq2 where "rq2 = (if b then HandleIncreasedCumulativeTsnAck u (ai_bytes_acked ai)
                       (rq1\<lparr>rq_t3_rtx := Timer_Stop (rq_t3_rtx rq1)\<rparr>) else rq1)"
  have "rq_cwnd rq1 \<le> rq_cwnd rq2"
    using HandleIncreased_cwnd(1) [of "rq1\<lparr>rq_t3_rtx := Timer_Stop (rq_t3_rtx rq1)\<rparr>"] by (simp add: rq2_def)
  then have "opts_mtu (rq_options rq2) \<le> rq_cwnd rq2" "rq_options rq2 = rq_options rq"
    using assms by (auto simp: rq1_def rq2_def)
  then have "opts_mtu (rq_options rq) \<le> rq_cwnd (if ai_has_packet_loss ai then HandlePacketLoss rq2 else rq2)"
    using HandlePacketLoss_cwnd [of rq2] assms(2) by simp
  then show ?thesis by (auto simp: sack_congestion_def Let_def rq1_def rq2_def split: if_splits)
qed

context send_queue_contract
begin

lemma rq_base_fits:
  "rq_base inv packet (rq, s) \<Longrightarrow>
   fits.kept (rq_data_chunk_header_size rq) packet (rq_data_chunk_header_size rq) (rq_outstanding_data rq, s)"
  by (simp add: rq_base_def fits.kept_def list_all_iff)

lemma HandleSack_rq_ok:
  assumes "rq_ok inv packet (rq, s)" and "od_to_be_fast_retransmitted (rq_outstanding_data rq) = {}"
    and "\<forall>rtt t. tm_options (on_new_rtt rtt t) = tm_options t"
  shows "\<exists>b rq' s'. RetransmissionQueue_HandleSack on_new_rtt discard now sack (rq, s) = Value (b, rq', s') \<and>
    rq_ok inv packet (rq', s')"
proof (cases "IsSackValid sack rq")
  case False
  with assms(1) show ?thesis by (auto simp: RetransmissionQueue_HandleSack_def)
next
  case valid: True
  obtain t u where u: "Unwrap (sack_cumulative_tsn_ack sack) (rq_tsn_unwrapper rq) = (t, u)" by fastforce
  obtain rq1 where r: "(if sack_gap_ack_blocks sack = [] then UpdateRTT on_new_rtt now t (rq\<lparr>rq_tsn_unwrapper := u\<rparr>)
          else Value (rq\<lparr>rq_tsn_unwrapper := u\<rparr>)) = Value rq1"
    and f: "rq_options rq1 = rq_options rq" "rq_data_chunk_header_size rq1 = rq_data_chunk_header_size rq"
      "rq_cwnd rq1 = rq_cwnd rq" "rq_outstanding_data rq1 = rq_outstanding_data rq"
      "tm_options (rq_t3_rtx rq1) = tm_options (rq_t3_rtx rq)"
    using UpdateRTT_returns [of on_new_rtt now t "rq\<lparr>rq_tsn_unwrapper := u\<rparr>"] assms(3)
    by (cases "sack_gap_ack_blocks sack = []") auto
  have ok: "od_ok (rq_outstanding_data rq)" using assms(1) by (simp add: rq_ok_defs)
  obtain ai od s' where h: "OutstandingData_HandleSack discard t (sack_gap_ack_blocks sack)
      (is_in_fast_recovery (MaybeExitFastRecovery t rq1)) (rq_outstanding_data rq1, s) = Value (ai, od, s')"
      "od_ok od"
    using HandleSack_ok [OF ok assms(2) IsSackValid_range [OF valid u], of discard] f(4) by metis
  have k: "fits.kept (rq_data_chunk_header_size rq) packet (rq_data_chunk_header_size rq) (od, s')"
    using fits.HandleSack_kept [OF h(1)] rq_base_fits [of packet rq s] assms(1) by (simp add: f rq_ok_def)
  let ?rq = "(MaybeExitFastRecovery t rq1)\<lparr>rq_outstanding_data := od\<rparr>"
  have "rq_ok inv packet (sack_congestion b n ai w ?rq, s')" for b n w
    using assms(1) k h(2) f sack_congestion_cwnd [of ?rq b n ai w] sack_congestion_running [of ?rq b n ai w]
    by (simp add: rq_ok_defs fits.kept_def list_all_iff)
  with HandleSack_valid [OF valid u r h(1)] show ?thesis by blast
qed

lemma HandleT3_rq_ok:
  assumes "rq_ok inv packet (rq, s)" and "tm_is_running (rq_t3_rtx rq)"
  shows "\<exists>rq' s'. HandleT3RtxTimerExpiry discard (rq, s) = Value (rq', s') \<and> rq_ok inv packet (rq', s') \<and>
    rq_t3_rtx rq' = rq_t3_rtx rq \<and> od_to_be_fast_retransmitted (rq_outstanding_data rq') \<subseteq>
      od_to_be_fast_retransmitted (rq_outstanding_data rq)"
proof -
  have ok: "od_ok (rq_outstanding_data rq)" using assms(1) by (simp add: rq_ok_defs)
  then obtain od s' where n: "NackAll discard (rq_outstanding_data rq, s) = Value (od, s')" "od_ok od"
      "od_to_be_fast_retransmitted od \<subseteq> od_to_be_fast_retransmitted (rq_outstanding_data rq)"
    using NackAll_ok [OF ok, of discard s] by blast
  have "fits.kept (rq_data_chunk_header_size rq) packet (rq_data_chunk_header_size rq) (od, s')"
    using fits.NackAll_kept [OF n(1)] rq_base_fits [of packet rq s] assms(1) by (simp add: rq_ok_def)
  with n assms show ?thesis
    by (simp add: HandleT3RtxTimerExpiry_def Let_def rq_ok_defs fits.kept_def list_all_iff)
qed

end

section \<open>Sending\<close>

lemma bytes_of_chunks_eq: "bytes_of_chunks rq chunks = sum_list (map (rq_GetSerializedChunkSize rq \<circ> snd) chunks)"
proof -
  have "foldl (\<lambda>r d. r + rq_GetSerializedChunkSize rq (snd d)) n chunks =
      n + sum_list (map (rq_GetSerializedChunkSize rq \<circ> snd) chunks)" for n
    by (induction chunks arbitrary: n) simp_all
  then show ?thesis by (simp add: bytes_of_chunks_def)
qed

lemma bytes_of_chunks_cong:
  "rq_data_chunk_header_size rq = rq_data_chunk_header_size rq' \<Longrightarrow> bytes_of_chunks rq = bytes_of_chunks rq'"
  by (simp add: fun_eq_iff bytes_of_chunks_def rq_GetSerializedChunkSize_def)

lemma AbandonAllFor_loop_settles:
  "AbandonAllFor_loop i m t items sets = (items', sets') \<Longrightarrow>
   list_all (\<lambda>x. settled x \<or> data_stream_id (it_data x) = i \<and> it_message_id x = m) items \<Longrightarrow>
   list_all settled items'"
  by (induction i m t items sets arbitrary: items' sets' rule: AbandonAllFor_loop.induct)
    (auto simp: Let_def settled_def Item_Abandon_def is_abandoned_def is_acked_def split: if_splits prod.splits)

text \<open>A chunk that is abandoned when it is inserted leaves nothing that has to be acknowledged.\<close>

lemma Insert_settles:
  assumes "OutstandingData_Insert discard m data now maxr expires lid (od, s) = (None, od', s')" and "settled_all od"
  shows "settled_all od'"
proof -
  let ?item = "Item_new m data now maxr expires lid"
  let ?i = "data_stream_id data"
  define items where "items = od_outstanding_data od @ [?item]"
  obtain b s1 where d: "discard ?i m s = (b, s1)" by fastforce
  obtain items' sets' where l: "AbandonAllFor_loop ?i m (od_last_cumulative_tsn_ack od)
      (items @ (if b then [end_placeholder ?item] else []))
      (od_to_be_fast_retransmitted od, od_to_be_retransmitted od) = (items', sets')"
    by (rule prod.exhaust)
  have "od_outstanding_data od' = items'"
    using assms(1) l d by (cases b; cases sets')
      (auto simp: OutstandingData_Insert_def AbandonAllFor_def items_def Let_def Item_new_def split: if_splits)
  moreover have "list_all (\<lambda>x. settled x \<or> data_stream_id (it_data x) = ?i \<and> it_message_id x = m)
      (items @ (if b then [end_placeholder ?item] else []))"
    using assms(2) by (simp add: items_def settled_all_def end_placeholder_data Item_new_def list.pred_mono_strong)
  ultimately show ?thesis using AbandonAllFor_loop_settles [OF l] by (simp add: settled_all_def)
qed

lemma extract_loop_first:
  assumes "extract_loop (tsn # tsns) n od = Value (E, chunks, od')"
    and "\<forall>item\<in>set (od_outstanding_data od). GetSerializedChunkSize od (it_data item) \<le> n"
  shows "chunks \<noteq> []"
proof -
  obtain i where i: "GetItem tsn od = Value i" using assms(1) by (cases "GetItem tsn od") auto
  then have "i < length (od_outstanding_data od)"
    by (auto simp: GetItem_def RTC_CHECK_def od_next_tsn_def highest_outstanding_tsn_def next_value_def AddTo_def
        split: if_splits)
  with assms(2) have "GetSerializedChunkSize od (it_data (od_outstanding_data od ! i)) \<le> n" by simp
  with assms(1) [unfolded extract_loop_Cons [OF i]] show ?thesis
    by (auto simp: obind_Value_iff split: if_splits)
qed

lemma FastRetransmit_some:
  assumes "GetChunksToBeFastRetransmitted n od = Value (chunks, od')" and "od_ok od"
    and "has_data_to_be_fast_retransmitted od"
    and "\<forall>item\<in>set (od_outstanding_data od). GetSerializedChunkSize od (it_data item) \<le> n"
  shows "chunks \<noteq> []"
proof -
  have "finite (od_to_be_fast_retransmitted od)" using od_ok_finite [OF assms(2)] by simp
  then obtain tsn tsns where "sorted_list_of_set (od_to_be_fast_retransmitted od) = tsn # tsns"
    using assms(3) by (metis has_data_to_be_fast_retransmitted_def neq_Nil_conv sorted_list_of_set_eq_Nil_iff)
  then obtain E od1 where "extract_loop (tsn # tsns) n od = Value (E, chunks, od1)"
    using assms(1) by (auto simp: GetChunksToBeFastRetransmitted_def obind_Value_iff Let_def
        simp del: extract_loop.simps split: if_splits)
  then show ?thesis using extract_loop_first assms(4) by blast
qed

text \<open>What sending leaves alone.\<close>

definition same_control :: "RetransmissionQueue \<Rightarrow> RetransmissionQueue \<Rightarrow> bool" where
  "same_control rq rq' \<longleftrightarrow>
     rq_options rq' = rq_options rq \<and> rq_data_chunk_header_size rq' = rq_data_chunk_header_size rq \<and>
     rq_cwnd rq' = rq_cwnd rq \<and> rq_ssthresh rq' = rq_ssthresh rq \<and>
     rq_fast_recovery_exit_tsn rq' = rq_fast_recovery_exit_tsn rq \<and>
     rq_partial_reliability rq' = rq_partial_reliability rq \<and>
     od_to_be_fast_retransmitted (rq_outstanding_data rq') \<subseteq> od_to_be_fast_retransmitted (rq_outstanding_data rq)"

lemma same_control_trans [trans]: "same_control a b \<Longrightarrow> same_control b c \<Longrightarrow> same_control a c"
  by (auto simp: same_control_def)

context send_queue_contract
begin

lemma GetChunksForFastRetransmit_rq_ok:
  assumes "rq_ok inv packet (rq, s)" and "IsDivisibleBy4 packet"
    and "has_data_to_be_fast_retransmitted (rq_outstanding_data rq)"
  shows "\<exists>chunks rq'. GetChunksForFastRetransmit packet rq = Value (chunks, rq') \<and> rq_ok inv packet (rq', s) \<and>
    od_to_be_fast_retransmitted (rq_outstanding_data rq') = {} \<and> chunks \<noteq> [] \<and>
    bytes_of_chunks rq chunks \<le> packet \<and> rq_cwnd rq' = rq_cwnd rq"
proof -
  let ?od = "rq_outstanding_data rq" and ?h = "rq_data_chunk_header_size rq"
  have ok: "od_ok ?od" and h: "od_data_chunk_header_size ?od = ?h" using assms(1) by (simp_all add: rq_ok_defs)
  obtain chunks od where c: "GetChunksToBeFastRetransmitted packet ?od = Value (chunks, od)" "od_ok od"
      "od_to_be_fast_retransmitted od = {}" "sum_list (map (GetSerializedChunkSize ?od \<circ> snd) chunks) \<le> packet"
    using GetChunksToBeFastRetransmitted_ok [OF ok] by blast
  have k: "fits.kept ?h packet ?h (?od, s)" using rq_base_fits assms(1) by (simp add: rq_ok_def)
  then have "\<forall>item\<in>set (od_outstanding_data ?od). GetSerializedChunkSize ?od (it_data item) \<le> packet"
    by (auto simp: fits.kept_def fits_in_def GetSerializedChunkSize_def)
  then have ne: "chunks \<noteq> []" using FastRetransmit_some [OF c(1) ok assms(3)] by blast
  have "bytes_of_chunks rq chunks \<le> packet"
    using c(4) by (simp add: bytes_of_chunks_eq GetSerializedChunkSize_def rq_GetSerializedChunkSize_def h comp_def)
  moreover define rq1 where "rq1 = (if fst (chunks ! 0) = Wrap (next_value (od_last_cumulative_tsn_ack od))
    then rq\<lparr>rq_outstanding_data := od, rq_t3_rtx := Timer_Stop (rq_t3_rtx rq)\<rparr> else rq\<lparr>rq_outstanding_data := od\<rparr>)"
  define rq2 where "rq2 = (start_t3_if_stopped rq1)\<lparr>rq_rtx_packets_count := rq_rtx_packets_count (start_t3_if_stopped rq1) + 1,
    rq_rtx_bytes_count := rq_rtx_bytes_count (start_t3_if_stopped rq1) + bytes_of_chunks (start_t3_if_stopped rq1) chunks\<rparr>"
  have f: "rq_options rq1 = rq_options rq" "rq_data_chunk_header_size rq1 = ?h" "rq_cwnd rq1 = rq_cwnd rq"
      "rq_outstanding_data rq1 = od" "tm_options (rq_t3_rtx rq1) = tm_options (rq_t3_rtx rq)"
    by (simp_all add: rq1_def)
  have "rq_ok inv packet (rq2, s)" "od_to_be_fast_retransmitted (rq_outstanding_data rq2) = {}" "rq_cwnd rq2 = rq_cwnd rq"
    using assms(1) c(2,3) fits.FastRetransmit_kept [OF c(1) k]
    by (simp_all add: rq2_def f rq_ok_defs fits.kept_def list_all_iff)
  moreover have "GetChunksForFastRetransmit packet rq = Value (chunks, rq2)"
    using assms(2,3) c(1) ne by (simp add: GetChunksForFastRetransmit_def RTC_CHECK_def Let_def rq2_def rq1_def)
  ultimately show ?thesis using ne by blast
qed

lemma send_chunk_ok:
  assumes "rq_base inv packet (rq, s)" and "rq_GetSerializedChunkSize rq (dts_data chunk) \<le> packet"
    and "LifecycleId_IsSet (dts_lifecycle_id chunk) \<longrightarrow> data_is_end (dts_data chunk)"
  obtains sent rq' s' where "send_chunk discard now chunk (rq, s) = Value (sent, rq', s')"
    and "rq_base inv packet (rq', s')" and "same_control rq rq'" and "rq_t3_rtx rq' = rq_t3_rtx rq"
    and "od_unacked_packet_bytes (rq_outstanding_data rq') =
      od_unacked_packet_bytes (rq_outstanding_data rq) + rq_GetSerializedChunkSize rq (dts_data chunk)"
    and "bytes_of_chunks rq sent \<le> rq_GetSerializedChunkSize rq (dts_data chunk)"
    and "sent = [] \<and> settled_all (rq_outstanding_data rq) \<longrightarrow> settled_all (rq_outstanding_data rq')"
proof -
  let ?od = "rq_outstanding_data rq" and ?h = "rq_data_chunk_header_size rq"
  let ?maxr = "if rq_partial_reliability rq then dts_max_retransmissions chunk else MaxRetransmits_NoLimit"
  let ?expires = "if rq_partial_reliability rq then dts_expires_at chunk else PlusInfinity"
  obtain t od s' where i: "OutstandingData_Insert discard (dts_message_id chunk) (dts_data chunk) now ?maxr ?expires
      (dts_lifecycle_id chunk) (?od, s) = (t, od, s')" by (metis prod_cases3)
  have b: "od_ok ?od" "od_data_chunk_header_size ?od = ?h" "?h \<in> {16, 20}" using assms(1) by (simp_all add: rq_base_def)
  have "RoundUpTo4 ?h \<le> packet"
    using assms(2) RoundUpTo4_mono [of ?h "?h + Data_size (dts_data chunk)"] by (simp add: rq_GetSerializedChunkSize_def)
  then have q: "fits_in ?h packet (Item_new (dts_message_id chunk) (dts_data chunk) now ?maxr ?expires
      (dts_lifecycle_id chunk))"
    using assms(2) by (simp add: fits_in_def Item_new_def rq_GetSerializedChunkSize_def)
  note k = fits.Insert_kept [OF rq_base_fits [OF assms(1)] q i] and o = Insert_ok [OF b(1) i]
  define rq1 where "rq1 = rq\<lparr>rq_rwnd := size_sub (rq_rwnd rq) (Data_size (dts_data chunk)), rq_outstanding_data := od\<rparr>"
  define rq2 where "rq2 = (if t \<noteq> None \<and> LifecycleId_IsSet (dts_lifecycle_id chunk)
    then rq_callback [Rtx_OnLifecycleMessageFullySent (dts_lifecycle_id chunk)] rq1 else rq1)"
  define sent where "sent = (case t of None \<Rightarrow> [] | Some tsn \<Rightarrow> [(Wrap tsn :: u32, dts_data chunk)])"
  have "send_chunk discard now chunk (rq, s) = Value (sent, rq2, s')"
    using i assms(3) by (auto simp: send_chunk_def Let_def RTC_CHECK_def rq1_def rq2_def sent_def split: option.splits)
  moreover have "rq_base inv packet (rq2, s')" "same_control rq rq2" "rq_t3_rtx rq2 = rq_t3_rtx rq"
    using assms(1) k(1) o(1,3) by (auto simp: rq2_def rq1_def rq_base_def fits.kept_def list_all_iff same_control_def)
  moreover have "od_unacked_packet_bytes (rq_outstanding_data rq2) =
      od_unacked_packet_bytes ?od + rq_GetSerializedChunkSize rq (dts_data chunk)"
    using k(2) b(2) by (simp add: rq2_def rq1_def GetSerializedChunkSize_def rq_GetSerializedChunkSize_def)
  moreover have "bytes_of_chunks rq sent \<le> rq_GetSerializedChunkSize rq (dts_data chunk)"
    by (simp add: bytes_of_chunks_eq sent_def split: option.splits)
  moreover have "settled_all (rq_outstanding_data rq2)" if "sent = []" "settled_all ?od"
    using Insert_settles [of discard] i that by (auto simp: sent_def rq2_def rq1_def split: option.splits)
  ultimately show thesis using that by blast
qed

end

lemma chunk_within_budget:
  assumes "h mod 4 = 0" and "b mod 4 = 0" and "h < b" and "n \<le> b - h"
  shows "RoundUpTo4 (h + n) \<le> b" and "(b - RoundUpTo4 (h + n)) mod 4 = 0"
proof -
  have "RoundUpTo4 (h + n) \<le> RoundUpTo4 b" by (rule RoundUpTo4_mono) (use assms(3,4) in linarith)
  also have "RoundUpTo4 b = b" using assms(2) unfolding RoundUpTo4_eq by presburger
  finally show le: "RoundUpTo4 (h + n) \<le> b" .
  then show "(b - RoundUpTo4 (h + n)) mod 4 = 0"
    using assms(2) RoundUpTo4_mod [of "h + n"] by (metis dvd_diff_nat mod_0_imp_dvd mod_eq_0_iff_dvd)
qed

lemma send_budget_bounds:
  shows "send_budget bytes rq \<le> bytes"
    and "send_budget bytes rq \<le> rq_cwnd rq - od_unacked_packet_bytes (rq_outstanding_data rq)"
    and "send_budget bytes rq mod 4 = 0"
proof -
  obtain m where m: "send_budget bytes rq = RoundDownTo4 m" "m \<le> bytes"
      "m \<le> rq_cwnd rq - od_unacked_packet_bytes (rq_outstanding_data rq)"
    by (auto simp: send_budget_def Let_def min_le_iff_disj split: if_splits)
  have "RoundDownTo4 m \<le> m" "RoundDownTo4 m mod 4 = 0" unfolding RoundDownTo4_eq by auto
  with m show "send_budget bytes rq \<le> bytes"
    and "send_budget bytes rq \<le> rq_cwnd rq - od_unacked_packet_bytes (rq_outstanding_data rq)"
    and "send_budget bytes rq mod 4 = 0" by (linarith | simp)+
qed

context send_queue_contract
begin

lemma send_loop_ok:
  assumes "rq_base inv packet (rq, s)" and "max_bytes mod 4 = 0" and "max_bytes \<le> packet" and "max_bytes < fuel"
  shows "\<exists>chunks rq' s'. send_loop fuel produce discard now max_bytes (rq, s) = Value (chunks, rq', s') \<and>
    rq_base inv packet (rq', s') \<and> same_control rq rq' \<and> rq_t3_rtx rq' = rq_t3_rtx rq \<and>
    bytes_of_chunks rq chunks \<le> max_bytes \<and>
    od_unacked_packet_bytes (rq_outstanding_data rq') \<le> od_unacked_packet_bytes (rq_outstanding_data rq) + max_bytes \<and>
    (chunks = [] \<and> settled_all (rq_outstanding_data rq) \<longrightarrow> settled_all (rq_outstanding_data rq'))"
  using assms
proof (induction fuel arbitrary: max_bytes rq s)
  case (Suc fuel)
  let ?h = "rq_data_chunk_header_size rq"
  have h: "?h mod 4 = 0" "0 < ?h" and s: "inv s" using Suc.prems(1) by (auto simp: rq_base_def)
  have here: "bytes_of_chunks rq [] \<le> max_bytes" "same_control rq rq"
    by (simp_all add: bytes_of_chunks_def same_control_def)
  show ?case
  proof (cases "?h < max_bytes")
    case False
    with here Suc.prems(1) show ?thesis by simp
  next
    case room: True
    obtain r s1 where p: "produce now (max_bytes - ?h) s = Value (r, s1)" "inv s1"
        "case r of None \<Rightarrow> True | Some d \<Rightarrow> Data_size (dts_data d) \<le> max_bytes - ?h \<and>
           (LifecycleId_IsSet (dts_lifecycle_id d) \<longrightarrow> data_is_end (dts_data d))"
      using produce_inv [OF s, of "max_bytes - ?h" now] room by auto
    have base: "rq_base inv packet (rq, s1)" using Suc.prems(1) p(2) by (simp add: rq_base_def)
    have div: "IsDivisibleBy4 max_bytes" using Suc.prems(2) by (simp add: IsDivisibleBy4_eq)
    show ?thesis
    proof (cases r)
      case None
      with here base room p(1) div show ?thesis by (simp add: RTC_CHECK_def)
    next
      case (Some d)
      let ?n = "rq_GetSerializedChunkSize rq (dts_data d)"
      have "0 < ?n"
        unfolding rq_GetSerializedChunkSize_def using RoundUpTo4_ge [of "?h + Data_size (dts_data d)"] h(2) by linarith
      then have n: "?n \<le> max_bytes" "(max_bytes - ?n) mod 4 = 0" "0 < ?n"
        using chunk_within_budget [OF h(1) Suc.prems(2) room] p(3) Some by (simp_all add: rq_GetSerializedChunkSize_def)
      have lim: "LifecycleId_IsSet (dts_lifecycle_id d) \<longrightarrow> data_is_end (dts_data d)" using p(3) Some by simp
      obtain sent rq1 s2 where c: "send_chunk discard now d (rq, s1) = Value (sent, rq1, s2)"
          "rq_base inv packet (rq1, s2)" "same_control rq rq1" "rq_t3_rtx rq1 = rq_t3_rtx rq"
          "od_unacked_packet_bytes (rq_outstanding_data rq1) = od_unacked_packet_bytes (rq_outstanding_data rq) + ?n"
          "bytes_of_chunks rq sent \<le> ?n"
          "sent = [] \<and> settled_all (rq_outstanding_data rq) \<longrightarrow> settled_all (rq_outstanding_data rq1)"
        by (rule send_chunk_ok [OF base order.trans [OF n(1) Suc.prems(3)] lim, where now = now])
      have less: "max_bytes - ?n \<le> packet" "max_bytes - ?n < fuel" using n(3) room Suc.prems(3,4) by linarith+
      obtain chunks rq2 s3 where l: "send_loop fuel produce discard now (max_bytes - ?n) (rq1, s2) = Value (chunks, rq2, s3)"
          "rq_base inv packet (rq2, s3)" "same_control rq1 rq2" "rq_t3_rtx rq2 = rq_t3_rtx rq1"
          "bytes_of_chunks rq1 chunks \<le> max_bytes - ?n"
          "od_unacked_packet_bytes (rq_outstanding_data rq2) \<le>
             od_unacked_packet_bytes (rq_outstanding_data rq1) + (max_bytes - ?n)"
          "chunks = [] \<and> settled_all (rq_outstanding_data rq1) \<longrightarrow> settled_all (rq_outstanding_data rq2)"
        using Suc.IH [OF c(2) n(2) less] by blast
      have "bytes_of_chunks rq1 = bytes_of_chunks rq"
        using c(3) by (intro bytes_of_chunks_cong) (simp add: same_control_def)
      then have "bytes_of_chunks rq (sent @ chunks) \<le> max_bytes"
        using c(6) l(5) n(1) by (simp add: bytes_of_chunks_eq)
      moreover have "send_loop (Suc fuel) produce discard now max_bytes (rq, s) = Value (sent @ chunks, rq2, s3)"
        using room p(1) Some div c(1) l(1) n(1) by (simp add: RTC_CHECK_def Let_def size_sub_def)
      moreover have "od_unacked_packet_bytes (rq_outstanding_data rq2) \<le>
          od_unacked_packet_bytes (rq_outstanding_data rq) + max_bytes"
        using c(5) l(6) n(1) by linarith
      moreover have "sent @ chunks = [] \<and> settled_all (rq_outstanding_data rq) \<longrightarrow> settled_all (rq_outstanding_data rq2)"
        using c(7) l(7) by simp
      moreover note c(4) [folded l(4)] same_control_trans [OF c(3) l(3)] l(2)
      ultimately show ?thesis by blast
    qed
  qed
qed simp

lemma GetChunksToSend_ok:
  assumes "rq_ok inv packet (rq, s)" and "IsDivisibleBy4 bytes" and "bytes \<le> packet"
  shows "\<exists>chunks rq' s'. GetChunksToSend produce discard now bytes (rq, s) = Value (chunks, rq', s') \<and>
    rq_ok inv packet (rq', s') \<and> same_control rq rq' \<and> bytes_of_chunks rq chunks \<le> send_budget bytes rq \<and>
    od_unacked_packet_bytes (rq_outstanding_data rq') \<le>
      od_unacked_packet_bytes (rq_outstanding_data rq) + send_budget bytes rq"
proof -
  let ?od = "rq_outstanding_data rq" and ?b = "send_budget bytes rq"
  have base: "rq_base inv packet (rq, s)" using assms(1) by (simp add: rq_ok_def)
  then have ok: "od_ok ?od" and h: "od_data_chunk_header_size ?od = rq_data_chunk_header_size rq"
    by (simp_all add: rq_base_def)
  obtain cs od where g: "GetChunksToBeRetransmitted ?b ?od = Value (cs, od)" "od_ok od" "same_queue ?od od"
      "sum_list (map (GetSerializedChunkSize ?od \<circ> snd) cs) \<le> ?b"
      "od_to_be_fast_retransmitted od \<subseteq> od_to_be_fast_retransmitted ?od"
    using GetChunksToBeRetransmitted_ok [OF ok, of ?b] by (auto simp: same_queue_def)
  note k = fits.Retransmit_kept [OF g(1) rq_base_fits [OF base]]
  let ?n = "bytes_of_chunks rq cs"
  have n: "?n = sum_list (map (GetSerializedChunkSize ?od \<circ> snd) cs)"
    by (simp add: bytes_of_chunks_eq GetSerializedChunkSize_def rq_GetSerializedChunkSize_def h comp_def)
  have le: "?n \<le> ?b" using n g(4) by simp
  have mod: "(?b - ?n) mod 4 = 0"
  proof -
    have "?n mod 4 = 0"
      by (induction cs) (simp_all add: bytes_of_chunks_eq rq_GetSerializedChunkSize_def mod_add_eq [symmetric])
    then show ?thesis using send_budget_bounds(3) [of bytes rq] by (metis dvd_diff_nat mod_0_imp_dvd mod_eq_0_iff_dvd)
  qed
  define rq1 where "rq1 = (if cs \<noteq> []
    then rq\<lparr>rq_outstanding_data := od, rq_rtx_packets_count := rq_rtx_packets_count rq + 1,
            rq_rtx_bytes_count := rq_rtx_bytes_count rq + ?n\<rparr>
    else rq\<lparr>rq_outstanding_data := od\<rparr>)"
  have base1: "rq_base inv packet (rq1, s)" and same1: "same_control rq rq1"
    using base k(1) g(2,5) by (auto simp: rq1_def rq_base_def fits.kept_def list_all_iff same_control_def)
  obtain chunks rq2 s2 where l: "send_loop (Suc (?b - ?n)) produce discard now (?b - ?n) (rq1, s) = Value (chunks, rq2, s2)"
      "rq_base inv packet (rq2, s2)" "same_control rq1 rq2" "rq_t3_rtx rq2 = rq_t3_rtx rq1"
      "bytes_of_chunks rq1 chunks \<le> ?b - ?n"
      "od_unacked_packet_bytes (rq_outstanding_data rq2) \<le> od_unacked_packet_bytes (rq_outstanding_data rq1) + (?b - ?n)"
      "chunks = [] \<and> settled_all (rq_outstanding_data rq1) \<longrightarrow> settled_all (rq_outstanding_data rq2)"
    using send_loop_ok [OF base1 mod, of "Suc (?b - ?n)" now] assms(3) send_budget_bounds(1) [of bytes rq] by fastforce
  define rq3 where "rq3 = (if cs @ chunks \<noteq> [] then start_t3_if_stopped rq2 else rq2)"
  have same: "bytes_of_chunks (rq\<lparr>rq_outstanding_data := od\<rparr>) = bytes_of_chunks rq" "bytes_of_chunks rq1 = bytes_of_chunks rq"
    by (rule bytes_of_chunks_cong; simp add: rq1_def)+
  have "bytes_of_chunks rq (cs @ chunks) = ?n + bytes_of_chunks rq chunks" by (simp add: bytes_of_chunks_eq)
  then have "bytes_of_chunks rq (cs @ chunks) \<le> ?b" using l(5) n g(4) by (simp add: same)
  moreover have "GetChunksToSend produce discard now bytes (rq, s) = Value (cs @ chunks, rq3, s2)"
    using assms(2) g(1) l(1) le
    by (cases "cs = []")
      (simp_all add: GetChunksToSend_def RTC_CHECK_def Let_def same(1) rq1_def rq3_def size_sub_def del: send_loop.simps)
  moreover have "rq_base inv packet (rq3, s2)" using l(2) by (simp add: rq3_def rq_base_def)
  moreover have "same_control rq rq3"
    using same_control_trans [OF same1 l(3)] by (simp add: rq3_def same_control_def start_t3_if_stopped_def)
  moreover have "settled_all (rq_outstanding_data rq3) \<or> tm_is_running (rq_t3_rtx rq3)"
    using assms(1) l(4,7) k(3) by (cases "cs @ chunks = []") (auto simp: rq3_def rq1_def rq_ok_def settled_all_def)
  moreover have "od_unacked_packet_bytes (rq_outstanding_data rq3) \<le> od_unacked_packet_bytes ?od + ?b"
    using l(6) k(2) n g(4) by (simp add: rq3_def rq1_def split: if_splits)
  ultimately show ?thesis by (auto simp: rq_ok_def)
qed

lemma ShouldSendForwardTsn_ok:
  assumes "rq_ok inv packet (rq, s)" and "rq_ShouldSendForwardTsn discard now (rq, s) = (b, rq', s')"
  shows "rq_ok inv packet (rq', s')" and "same_control rq rq'"
proof -
  let ?od = "rq_outstanding_data rq" and ?h = "rq_data_chunk_header_size rq"
  obtain od s1 where e: "ExpireOutstandingChunks discard now (?od, s) = (od, s1)" by fastforce
  have base: "rq_base inv packet (rq, s)" using assms(1) by (simp add: rq_ok_def)
  have o: "od_ok od" "od_to_be_fast_retransmitted od \<subseteq> od_to_be_fast_retransmitted ?od"
    using expire_loop_ok [of ?od discard now 0 "length (od_outstanding_data ?od)" s od s1] base e
    by (simp_all add: ExpireOutstandingChunks_def rq_base_def)
  have "fits.kept ?h packet ?h (od, s1)" using fits.Expire_kept [OF rq_base_fits [OF base]] e by metis
  moreover have "settled_all od" if "settled_all ?od"
    using settles.Expire_kept [of "od_data_chunk_header_size ?od" "(?od, s)" now] e base that
    by (simp add: settles.kept_def settled_all_def list_all_iff rq_base_def)
  ultimately have "rq_ok inv packet (rq\<lparr>rq_outstanding_data := od\<rparr>, s1)"
      and "same_control rq (rq\<lparr>rq_outstanding_data := od\<rparr>)"
    using assms(1) o by (auto simp: rq_ok_defs fits.kept_def list_all_iff same_control_def)
  with assms show "rq_ok inv packet (rq', s')" and "same_control rq rq'"
    by (auto simp: rq_ShouldSendForwardTsn_def e same_control_def split: if_splits)
qed

end

section \<open>The send queue as provider\<close>

lemma next_fragment_bounds:
  "Data_size (dts_data (next_fragment n item)) \<le> n"
  "LifecycleId_IsSet (dts_lifecycle_id (next_fragment n item)) \<Longrightarrow> data_is_end (dts_data (next_fragment n item))"
  by (auto simp: next_fragment_def Let_def Data_size_def subview_def LifecycleId_IsSet_def split: if_splits)

lemma OutgoingStream_Produce_fragment:
  "OutgoingStream_Produce i now n (s, g) = (Some d, s', g') \<Longrightarrow> \<exists>item. d = next_fragment n item"
  by (auto simp: OutgoingStream_Produce_def Let_def split: prod.splits list.splits)

lemma RRSendQueue_Produce_contract:
  assumes "sq.scheduled q" and "0 < n"
  shows "\<exists>r q'. RRSendQueue_Produce fl now n q = Value (r, q') \<and> sq.scheduled q' \<and>
    (case r of
       None \<Rightarrow> True
     | Some d \<Rightarrow> Data_size (dts_data d) \<le> n \<and>
         (LifecycleId_IsSet (dts_lifecycle_id d) \<longrightarrow> data_is_end (dts_data d)))"
proof -
  obtain r q' where p: "RRSendQueue_Produce fl now n q = Value (r, q')" "sq.production now n q (r, q')"
    using sq.Produce_scheduled [of q n fl now] assms by (auto simp: RRSendQueue_Produce_def)
  have "\<exists>item. d = next_fragment n item" if some: "r = Some d" for d
  proof -
    obtain i h g' where "produce_from i now n h = (Some d, g')"
      using p(2) some by (auto simp: sq.production_def sq.produced_by_def split: prod.splits)
    then show ?thesis
      using OutgoingStream_Produce_fragment by (fastforce simp: produce_from_def split: prod.splits)
  qed
  with p next_fragment_bounds show ?thesis by (fastforce simp: sq.production_def split: option.splits prod.splits)
qed

interpretation rrq: send_queue_contract "RRSendQueue_Produce fl" "RRSendQueue_Discard fl" sq.scheduled for fl
  by unfold_locales (rule RRSendQueue_Discard_ok RRSendQueue_Produce_contract; assumption)+

section \<open>Sequences of calls\<close>

text \<open>
  The calls of the client, on the two queues. A SACK is followed by the fast retransmission that it
  may ask for, as in the socket; \<open>packet\<close> is the room in an empty packet, and the duration is the
  one that the client gives the timer when it observes a round-trip time. A timeout reaches the
  queue through the timer, when it runs and the generation is the current one.
\<close>

datatype RtxCall =
    RtxQueue QueueCall
  | RtxSend Timestamp nat
  | RtxSack Timestamp SackChunk TimeDelta
  | RtxTimeout u32
  | RtxForwardTsn Timestamp
  | RtxBeginReset

fun rtx_call ::
  "(rat \<Rightarrow> rat) \<Rightarrow> nat \<Rightarrow> RtxCall \<Rightarrow> RetransmissionQueue \<times> RRSendQueue \<Rightarrow>
   ((u32 \<times> Data) list \<times> RetransmissionQueue \<times> RRSendQueue) outcome" where
  "rtx_call fl packet (RtxQueue c) (rq, q) = obind (sq_call fl c q) (\<lambda>(_, q). Value ([], rq, q))"
| "rtx_call fl packet (RtxSend now bytes) (rq, q) =
     GetChunksToSend (RRSendQueue_Produce fl) (RRSendQueue_Discard fl) now bytes (rq, q)"
| "rtx_call fl packet (RtxSack now sack duration) (rq, q) =
     obind (RetransmissionQueue_HandleSack (\<lambda>_. Timer_set_duration duration) (RRSendQueue_Discard fl) now sack (rq, q))
       (\<lambda>(_, rq, q).
          if has_data_to_be_fast_retransmitted (rq_outstanding_data rq)
          then obind (GetChunksForFastRetransmit packet rq) (\<lambda>(chunks, rq). Value (chunks, rq, q))
          else Value ([], rq, q))"
| "rtx_call fl packet (RtxTimeout generation) (rq, q) =
     (if tm_is_running (rq_t3_rtx rq) \<and> generation = tm_generation (rq_t3_rtx rq) then
        let t = fst (Timer_Trigger generation (\<lambda>t s. (0, t, s)) (rq_t3_rtx rq) ())
        in obind (HandleT3RtxTimerExpiry (RRSendQueue_Discard fl) (rq\<lparr>rq_t3_rtx := t\<rparr>, q)) (\<lambda>rs. Value ([], rs))
      else Value ([], rq, q))"
| "rtx_call fl packet (RtxForwardTsn now) (rq, q) =
     Value ([], snd (rq_ShouldSendForwardTsn (RRSendQueue_Discard fl) now (rq, q)))"
| "rtx_call fl packet RtxBeginReset (rq, q) = Value ([], snd (rq_BeginResetStreams GetStreamsReadyToBeReset (rq, q)))"

fun rtx_run ::
  "(rat \<Rightarrow> rat) \<Rightarrow> nat \<Rightarrow> RtxCall list \<Rightarrow> RetransmissionQueue \<times> RRSendQueue \<Rightarrow>
   ((u32 \<times> Data) list list \<times> RetransmissionQueue \<times> RRSendQueue) outcome" where
  "rtx_run fl packet [] rs = Value ([], rs)"
| "rtx_run fl packet (c # cs) rs =
     obind (rtx_call fl packet c rs) (\<lambda>(sent, rs). obind (rtx_run fl packet cs rs) (\<lambda>(sents, rs). Value (sent # sents, rs)))"

fun rtx_call_ok :: "nat \<Rightarrow> RtxCall \<Rightarrow> bool" where
  "rtx_call_ok packet (RtxQueue c) \<longleftrightarrow> call_ok c"
| "rtx_call_ok packet (RtxSend now bytes) \<longleftrightarrow> IsDivisibleBy4 bytes \<and> bytes \<le> packet"
| "rtx_call_ok packet _ \<longleftrightarrow> True"

definition rtx_ok :: "nat \<Rightarrow> RetransmissionQueue \<times> RRSendQueue \<Rightarrow> bool" where
  "rtx_ok packet = (\<lambda>(rq, q). rq_ok sq.scheduled packet (rq, q) \<and>
     od_to_be_fast_retransmitted (rq_outstanding_data rq) = {})"

text \<open>A sensible configuration.\<close>

definition rtx_options_ok :: "DcSctpOptions \<Rightarrow> TimerOptions \<Rightarrow> bool" where
  "rtx_options_ok options timer_options \<longleftrightarrow>
     0 < opts_cwnd_mtus_initial options \<and> 0 < opts_cwnd_mtus_min options \<and> to_max_restarts timer_options = None"

definition rtx_new ::
  "u32 \<Rightarrow> nat \<Rightarrow> TimerOptions \<Rightarrow> DcSctpOptions \<Rightarrow> bool \<Rightarrow> bool \<Rightarrow> RetransmissionQueue \<times> RRSendQueue" where
  "rtx_new my_initial_tsn a_rwnd timer_options options partial_reliability interleaving =
     (RetransmissionQueue_new my_initial_tsn a_rwnd (Timer_new 0 timer_options) options partial_reliability interleaving,
      RRSendQueue_new (opts_mtu options) (opts_default_stream_priority options)
        (opts_total_buffered_amount_low_threshold options))"

lemma rtx_new_ok:
  assumes "rtx_options_ok options timer_options"
  shows "rtx_ok packet (rtx_new my_initial_tsn a_rwnd timer_options options partial_reliability interleaving)"
proof -
  obtain t u where u: "Unwrap (my_initial_tsn - 1) SeqNumUnwrapper_init = (t, u)" by fastforce
  have "opts_mtu options \<le> opts_cwnd_mtus_initial options * opts_mtu options"
    using assms by (simp add: rtx_options_ok_def)
  with assms u show ?thesis
    by (simp add: rtx_ok_def rtx_new_def rq_ok_defs RetransmissionQueue_new_def Let_def od_ok_new RRSendQueue_new_ok
        OutstandingData_new_def Timer_new_def rtx_options_ok_def settled_all_def DataChunkConfig_def IDataChunkConfig_def
        od_ok_new [unfolded OutstandingData_new_def])
qed

lemma Timer_Trigger_running:
  assumes "tm_is_running t" and "generation = tm_generation t" and "to_max_restarts (tm_options t) = None"
  shows "tm_is_running (fst (Timer_Trigger generation (\<lambda>t s. (0, t, s)) t ()))"
    and "tm_options (fst (Timer_Trigger generation (\<lambda>t s. (0, t, s)) t ())) = tm_options t"
  using assms by (simp_all add: Timer_Trigger_def may_restart_def start_backoff_def timeout_call_def Let_def)

lemma rtx_call_returns:
  assumes "rtx_ok packet (rq, q)" and "rtx_call_ok packet c" and "IsDivisibleBy4 packet"
  shows "\<exists>sent rs. rtx_call fl packet c (rq, q) = Value (sent, rs) \<and> rtx_ok packet rs"
proof (cases c)
  case (RtxQueue qc)
  have "sq.scheduled q" using assms(1) by (simp add: rtx_ok_def rq_ok_defs)
  then obtain ds q' where "sq_call fl qc q = Value (ds, q')" "sq.scheduled q'"
    using sq_call_ok assms(2) RtxQueue by fastforce
  with assms(1) RtxQueue show ?thesis by (simp add: rtx_ok_def rq_ok_defs)
next
  case (RtxSend now bytes)
  with assms rrq.GetChunksToSend_ok [of packet rq q bytes fl now] show ?thesis
    by (fastforce simp: rtx_ok_def same_control_def)
next
  case (RtxSack now sack duration)
  obtain b rq1 q1 where h: "RetransmissionQueue_HandleSack (\<lambda>_. Timer_set_duration duration) (RRSendQueue_Discard fl)
      now sack (rq, q) = Value (b, rq1, q1)" "rq_ok sq.scheduled packet (rq1, q1)"
    using rrq.HandleSack_rq_ok [of packet rq q "\<lambda>_. Timer_set_duration duration" fl now sack] assms(1)
    by (auto simp: rtx_ok_def Timer_set_duration_def)
  show ?thesis
  proof (cases "has_data_to_be_fast_retransmitted (rq_outstanding_data rq1)")
    case True
    from rrq.GetChunksForFastRetransmit_rq_ok [OF h(2) assms(3) True] True h(1) RtxSack show ?thesis
      by (cases q1) (auto simp: rtx_ok_def)
  next
    case False
    with h RtxSack show ?thesis by (auto simp: rtx_ok_def has_data_to_be_fast_retransmitted_def)
  qed
next
  case (RtxTimeout generation)
  show ?thesis
  proof (cases "tm_is_running (rq_t3_rtx rq) \<and> generation = tm_generation (rq_t3_rtx rq)")
    case True
    define rq1 where "rq1 = rq\<lparr>rq_t3_rtx := fst (Timer_Trigger generation (\<lambda>t s. (0, t, s)) (rq_t3_rtx rq) ())\<rparr>"
    have "tm_is_running (rq_t3_rtx rq1)" "rq_ok sq.scheduled packet (rq1, q)"
      using assms(1) True Timer_Trigger_running [of "rq_t3_rtx rq" generation]
      by (simp_all add: rq1_def rtx_ok_def rq_ok_defs)
    with rrq.HandleT3_rq_ok [of packet rq1 q fl] True RtxTimeout assms(1) show ?thesis
      by (auto simp: rtx_ok_def rq1_def Let_def)
  next
    case False
    with assms(1) RtxTimeout show ?thesis by (cases q) auto
  qed
next
  case (RtxForwardTsn now)
  obtain b rq1 q1 where "rq_ShouldSendForwardTsn (RRSendQueue_Discard fl) now (rq, q) = (b, rq1, q1)"
    by (metis prod_cases3)
  with rrq.ShouldSendForwardTsn_ok [of packet rq q fl now b rq1 q1] assms(1) RtxForwardTsn show ?thesis
    by (auto simp: rtx_ok_def same_control_def)
next
  case RtxBeginReset
  have "od_ok (OutstandingData_BeginResetStreams (rq_outstanding_data rq))"
    using assms(1) od_ok_BeginResetStreams by (auto simp: rtx_ok_def rq_ok_defs)
  with GetStreamsReadyToBeReset_ok [of q] assms(1) RtxBeginReset show ?thesis
    by (auto simp: rtx_ok_def rq_ok_defs rq_BeginResetStreams_def OutstandingData_BeginResetStreams_def settled_all_def
        split: prod.splits)
qed

lemma rtx_run_returns:
  assumes "rtx_ok packet rs" and "\<forall>c\<in>set cs. rtx_call_ok packet c" and "IsDivisibleBy4 packet"
  shows "\<exists>sents rs'. rtx_run fl packet cs rs = Value (sents, rs') \<and> rtx_ok packet rs'"
  using assms(1,2)
proof (induction cs arbitrary: rs)
  case (Cons c cs)
  obtain sent rs1 where 1: "rtx_call fl packet c rs = Value (sent, rs1)" "rtx_ok packet rs1"
    using rtx_call_returns [OF _ _ assms(3)] Cons.prems by (metis list.set_intros(1) prod.collapse)
  with Cons.IH [OF 1(2)] Cons.prems(2) show ?case by fastforce
qed simp

section \<open>The congestion window\<close>

lemma HandlePacketLoss_cases:
  "if is_in_fast_recovery rq then HandlePacketLoss rq = rq
   else rq_cwnd (HandlePacketLoss rq) =
          max (rq_cwnd rq div 2) (opts_cwnd_mtus_min (rq_options rq) * opts_mtu (rq_options rq)) \<and>
        rq_ssthresh (HandlePacketLoss rq) = rq_cwnd (HandlePacketLoss rq) \<and>
        rq_fast_recovery_exit_tsn (HandlePacketLoss rq) = Some (highest_outstanding_tsn (rq_outstanding_data rq))"
  by (simp add: HandlePacketLoss_def Let_def)

text \<open>What a SACK does to the window, with or without a new loss.\<close>

lemma sack_congestion_window:
  obtains c where "rq_cwnd rq \<le> c" and "c \<le> rq_cwnd rq + opts_mtu (rq_options rq)"
    and "is_in_fast_recovery rq \<and> rq_cwnd rq \<le> rq_ssthresh rq \<longrightarrow> c = rq_cwnd rq"
    and "if ai_has_packet_loss ai \<and> \<not> is_in_fast_recovery rq
         then rq_cwnd (sack_congestion b u ai w rq) =
                max (c div 2) (opts_cwnd_mtus_min (rq_options rq) * opts_mtu (rq_options rq)) \<and>
              rq_ssthresh (sack_congestion b u ai w rq) = rq_cwnd (sack_congestion b u ai w rq) \<and>
              rq_fast_recovery_exit_tsn (sack_congestion b u ai w rq) =
                Some (highest_outstanding_tsn (rq_outstanding_data rq))
         else rq_cwnd (sack_congestion b u ai w rq) = c \<and>
              rq_ssthresh (sack_congestion b u ai w rq) = rq_ssthresh rq \<and>
              rq_fast_recovery_exit_tsn (sack_congestion b u ai w rq) = rq_fast_recovery_exit_tsn rq"
proof -
  define rq1 where "rq1 = UpdateReceiverWindow w (rq_callback (ack_callbacks ai) rq)"
  define rq2 where "rq2 = (if b then HandleIncreasedCumulativeTsnAck u (ai_bytes_acked ai)
                       (rq1\<lparr>rq_t3_rtx := Timer_Stop (rq_t3_rtx rq1)\<rparr>) else rq1)"
  define rq3 where "rq3 = (if ai_has_packet_loss ai then HandlePacketLoss rq2 else rq2)"
  have f: "rq_options rq2 = rq_options rq" "rq_ssthresh rq2 = rq_ssthresh rq"
      "rq_fast_recovery_exit_tsn rq2 = rq_fast_recovery_exit_tsn rq" "rq_outstanding_data rq2 = rq_outstanding_data rq"
    by (simp_all add: rq2_def rq1_def)
  have "rq_cwnd rq \<le> rq_cwnd rq2" "rq_cwnd rq2 \<le> rq_cwnd rq + opts_mtu (rq_options rq)"
    using HandleIncreased_cwnd [where rq = "rq1\<lparr>rq_t3_rtx := Timer_Stop (rq_t3_rtx rq1)\<rparr>" and u = u and b = "ai_bytes_acked ai"]
    by (simp_all add: rq2_def rq1_def)
  moreover have "is_in_fast_recovery rq \<and> rq_cwnd rq \<le> rq_ssthresh rq \<longrightarrow> rq_cwnd rq2 = rq_cwnd rq"
    by (simp add: rq2_def HandleIncreasedCumulativeTsnAck_def rq_phase_def is_in_fast_recovery_def Let_def rq1_def)
  moreover have "rq_cwnd (sack_congestion b u ai w rq) = rq_cwnd rq3"
      "rq_ssthresh (sack_congestion b u ai w rq) = rq_ssthresh rq3"
      "rq_fast_recovery_exit_tsn (sack_congestion b u ai w rq) = rq_fast_recovery_exit_tsn rq3"
    by (simp_all add: sack_congestion_def Let_def rq1_def rq2_def rq3_def)
  moreover have "is_in_fast_recovery rq2 = is_in_fast_recovery rq" by (simp add: is_in_fast_recovery_def f)
  ultimately show thesis
    using HandlePacketLoss_cases [of rq2] that [of "rq_cwnd rq2"] f by (simp add: rq3_def split: if_splits)
qed

section \<open>Properties\<close>

text \<open>
  C6. The retransmission queue works, together with the send queue: after any sequence of calls with
  any SACKs, timeouts and messages, every call has returned, both queues are consistent, no chunk is
  larger than a packet, the congestion window has room for a packet, and the retransmission timer
  runs as long as some chunk is neither acknowledged nor abandoned.
\<close>

theorem retransmission_queue_sound:
  assumes "rtx_options_ok options timer_options" and "IsDivisibleBy4 packet"
    and "\<forall>c\<in>set calls. rtx_call_ok packet c"
  shows "\<exists>sents rq q.
    rtx_run fl packet calls (rtx_new tsn a_rwnd timer_options options partial interleaving) = Value (sents, rq, q) \<and>
    OutstandingData_IsConsistent (rq_outstanding_data rq) \<and> RRSendQueue_IsConsistent q \<and>
    list_all (\<lambda>item. rq_GetSerializedChunkSize rq (it_data item) \<le> packet) (od_outstanding_data (rq_outstanding_data rq)) \<and>
    opts_mtu (rq_options rq) \<le> rq_cwnd rq \<and>
    (settled_all (rq_outstanding_data rq) \<or> tm_is_running (rq_t3_rtx rq))"
proof -
  obtain sents rq q where r: "rtx_run fl packet calls (rtx_new tsn a_rwnd timer_options options partial interleaving) =
      Value (sents, rq, q)" "rtx_ok packet (rq, q)"
    using rtx_run_returns [OF rtx_new_ok [OF assms(1)] assms(3,2)] by (metis prod_cases3)
  then have "OutstandingData_IsConsistent (rq_outstanding_data rq)" "RRSendQueue_IsConsistent q"
      "opts_mtu (rq_options rq) \<le> rq_cwnd rq"
      "settled_all (rq_outstanding_data rq) \<or> tm_is_running (rq_t3_rtx rq)"
    using scheduled_consistent by (simp_all add: rtx_ok_def rq_ok_defs od_ok_def)
  moreover have "list_all (\<lambda>item. rq_GetSerializedChunkSize rq (it_data item) \<le> packet)
      (od_outstanding_data (rq_outstanding_data rq))"
    using r(2) by (simp add: rtx_ok_def rq_ok_defs list_all_iff fits_in_def rq_GetSerializedChunkSize_def)
  ultimately show ?thesis using r(1) by blast
qed

definition sample_sack :: "u32 \<Rightarrow> u32 \<Rightarrow> GapAckBlock list \<Rightarrow> SackChunk" where
  "sample_sack tsn window blocks = \<lparr>sack_cumulative_tsn_ack = tsn, sack_a_rwnd = window,
     sack_gap_ack_blocks = blocks, sack_duplicate_tsns = {}\<rparr>"

definition rtx_timer_options :: TimerOptions where
  "rtx_timer_options = TimerOptions_of (Millis 500) kExponential None PlusInfinity"

definition sample_rtx_calls :: "RtxCall list" where
  "sample_rtx_calls =
     [RtxQueue (CallAdd (Millis 5) (sample_message 1 300) sample_options), RtxSend (Millis 5) 100, RtxSend (Millis 5) 100,
      RtxSack (Millis 9) (sample_sack 10 5000 []) (Millis 400), RtxTimeout 2, RtxForwardTsn (Millis 500), RtxSend (Millis 500) 100]"

theorem retransmission_queue_sound_witness:
  "\<exists>sents rq q.
    rtx_run (\<lambda>x. x) 1168 sample_rtx_calls (rtx_new 10 5000 rtx_timer_options DcSctpOptions_default True False) =
      Value (sents, rq, q) \<and>
    OutstandingData_IsConsistent (rq_outstanding_data rq) \<and> RRSendQueue_IsConsistent q \<and>
    list_all (\<lambda>item. rq_GetSerializedChunkSize rq (it_data item) \<le> 1168) (od_outstanding_data (rq_outstanding_data rq)) \<and>
    opts_mtu (rq_options rq) \<le> rq_cwnd rq \<and>
    (settled_all (rq_outstanding_data rq) \<or> tm_is_running (rq_t3_rtx rq))"
  by (rule retransmission_queue_sound)
    (simp_all add: rtx_options_ok_def rtx_timer_options_def TimerOptions_of_def DcSctpOptions_default_def
      IsDivisibleBy4_eq sample_rtx_calls_def sample_message_def)

text \<open>
  C7. Sending respects the packet and the congestion window: in every reachable state
  \<open>GetChunksToSend\<close> returns, its chunks fit into the room it is given when they are serialized, and
  the bytes in flight do not grow beyond the congestion window.
\<close>

theorem chunks_to_send_fit:
  assumes "rtx_options_ok options timer_options" and "IsDivisibleBy4 packet"
    and "\<forall>c\<in>set calls. rtx_call_ok packet c"
    and "rtx_run fl packet calls (rtx_new tsn a_rwnd timer_options options partial interleaving) = Value (sents, rq, q)"
    and "IsDivisibleBy4 bytes" and "bytes \<le> packet"
  shows "\<exists>chunks rq' q'.
    GetChunksToSend (RRSendQueue_Produce fl) (RRSendQueue_Discard fl) now bytes (rq, q) = Value (chunks, rq', q') \<and>
    bytes_of_chunks rq chunks \<le> bytes \<and> rq_cwnd rq' = rq_cwnd rq \<and>
    od_unacked_packet_bytes (rq_outstanding_data rq') \<le>
      max (rq_cwnd rq) (od_unacked_packet_bytes (rq_outstanding_data rq))"
proof -
  have "rtx_ok packet (rq, q)"
    using rtx_run_returns [OF rtx_new_ok [OF assms(1)] assms(3,2), of fl] assms(4) by (metis outcome.inject prod.inject)
  then have "rq_ok sq.scheduled packet (rq, q)" by (simp add: rtx_ok_def)
  from rrq.GetChunksToSend_ok [OF this assms(5,6), of fl now] obtain chunks rq' q' where
    c: "GetChunksToSend (RRSendQueue_Produce fl) (RRSendQueue_Discard fl) now bytes (rq, q) = Value (chunks, rq', q')"
      "same_control rq rq'" "bytes_of_chunks rq chunks \<le> send_budget bytes rq"
      "od_unacked_packet_bytes (rq_outstanding_data rq') \<le>
         od_unacked_packet_bytes (rq_outstanding_data rq) + send_budget bytes rq"
    by blast
  moreover have "rq_cwnd rq' = rq_cwnd rq" using c(2) by (simp add: same_control_def)
  moreover note send_budget_bounds(1,2) [of bytes rq]
  ultimately show ?thesis by (intro exI conjI) (assumption | linarith)+
qed

definition small_options :: DcSctpOptions where
  "small_options =
     \<lparr>opts_local_port = 5000, opts_remote_port = 5000, opts_announced_maximum_incoming_streams = 65535,
      opts_announced_maximum_outgoing_streams = 65535, opts_mtu = 40, opts_max_message_size = 100,
      opts_default_stream_priority = 1, opts_max_receiver_window_buffer_size = 100,
      opts_enable_receive_pull_mode = False, opts_max_send_buffer_size = 100, opts_per_stream_send_queue_limit
      = 100, opts_total_buffered_amount_low_threshold = 0, opts_rtt_max = 60000, opts_rto_initial = 500,
      opts_rto_max = 60000, opts_rto_min = 400, opts_t1_init_timeout = 1000, opts_t1_cookie_timeout = 1000,
      opts_t2_shutdown_timeout = 1000, opts_max_timer_backoff_duration = None, opts_heartbeat_interval = 30000,
      opts_delayed_ack_max_timeout = 200, opts_min_rtt_variance = 220, opts_cwnd_mtus_initial = 2,
      opts_cwnd_mtus_min = 1, opts_avoid_fragmentation_cwnd_mtus = 6, opts_immediate_sack_under_cwnd_mtus = 10,
      opts_max_burst = 4, opts_max_retransmissions = Some 10, opts_max_init_retransmits = Some 8,
      opts_enable_partial_reliability = True, opts_enable_message_interleaving = False,
      opts_heartbeat_interval_include_rtt = True, opts_disable_checksum_verification = False,
      opts_zero_checksum_alternate_error_detection_method = ZeroChecksumAlternateErrorDetectionMethod_None\<rparr>"

definition sample_rtx_run :: "((u32 \<times> Data) list list \<times> RetransmissionQueue \<times> RRSendQueue) outcome" where
  "sample_rtx_run = rtx_run (\<lambda>x. x) 40 [RtxQueue (CallAdd (Millis 5) (sample_message 1 30) sample_options), RtxSend (Millis 5) 24]
     (rtx_new 10 50 rtx_timer_options small_options True False)"

lemma sample_rtx_run_sends:
  "case sample_rtx_run of
     Value (sents, rq, q) \<Rightarrow> map (map fst) sents = [[], [10]] \<and> od_unacked_packet_bytes (rq_outstanding_data rq) = 24
   | _ \<Rightarrow> False"
  by code_simp

theorem chunks_to_send_fit_witness:
  "\<exists>sents rq q chunks rq' q'. sample_rtx_run = Value (sents, rq, q) \<and> map (map fst) sents = [[], [10]] \<and>
     GetChunksToSend (RRSendQueue_Produce (\<lambda>x. x)) (RRSendQueue_Discard (\<lambda>x. x)) (Millis 6) 28 (rq, q) =
       Value (chunks, rq', q') \<and> bytes_of_chunks rq chunks \<le> 28"
proof -
  obtain sents rq q where r: "sample_rtx_run = Value (sents, rq, q)" "map (map fst) sents = [[], [10]]"
    using sample_rtx_run_sends by (auto split: outcome.splits)
  obtain chunks rq' q' where "GetChunksToSend (RRSendQueue_Produce (\<lambda>x. x)) (RRSendQueue_Discard (\<lambda>x. x)) (Millis 6) 28 (rq, q) =
      Value (chunks, rq', q')" "bytes_of_chunks rq chunks \<le> 28"
    using chunks_to_send_fit [OF _ _ _ r(1) [unfolded sample_rtx_run_def], of 28 "Millis 6"]
    by (auto simp: rtx_options_ok_def rtx_timer_options_def TimerOptions_of_def small_options_def
        IsDivisibleBy4_eq sample_message_def)
  with r show ?thesis by (intro exI conjI)
qed


definition sample_loss_run :: "((u32 \<times> Data) list list \<times> RetransmissionQueue \<times> RRSendQueue) outcome" where
  "sample_loss_run = rtx_run (\<lambda>x. x) 40
     [RtxQueue (CallAdd (Millis 5) (sample_message 1 16) sample_options), RtxSend (Millis 5) 20, RtxSend (Millis 5) 20,
      RtxSend (Millis 5) 20, RtxSend (Millis 5) 20,
      RtxSack (Millis 9) (sample_sack 9 50 [\<lparr>gab_start = 2, gab_end = 2\<rparr>]) (Millis 400),
      RtxSack (Millis 9) (sample_sack 9 50 [\<lparr>gab_start = 2, gab_end = 3\<rparr>]) (Millis 400)]
     (rtx_new 10 50 rtx_timer_options small_options True False)"

definition sample_loss_sack ::
  "RetransmissionQueue \<times> RRSendQueue \<Rightarrow> (bool \<times> RetransmissionQueue \<times> RRSendQueue) outcome" where
  "sample_loss_sack = RetransmissionQueue_HandleSack (\<lambda>_. Timer_set_duration (Millis 400)) (RRSendQueue_Discard (\<lambda>x. x))
     (Millis 9) (sample_sack 9 50 [\<lparr>gab_start = 2, gab_end = 4\<rparr>])"

definition sample_loss_windows :: "nat list" where
  "sample_loss_windows =
     (case sample_loss_run of
        Value (sents, rq, q) \<Rightarrow>
          (case sample_loss_sack (rq, q) of
             Value (b, rq', q') \<Rightarrow> if b then [rq_cwnd rq, rq_cwnd rq'] else []
           | _ \<Rightarrow> [])
      | _ \<Rightarrow> [])"

lemma sample_loss_windows_eval: "sample_loss_windows = [80, 40]"
  by code_simp


lemma Insert_items_count:
  assumes "OutstandingData_Insert discard m data now maxr expires lid (od, s) = (t, od', s')"
  shows "od_unacked_items od' = od_unacked_items od + 1"
proof -
  let ?item = "Item_new m data now maxr expires lid"
  define od1 where "od1 = od\<lparr>od_unacked_payload_bytes := od_unacked_payload_bytes od + Data_size data,
    od_unacked_packet_bytes := od_unacked_packet_bytes od + GetSerializedChunkSize od data,
    od_unacked_items := od_unacked_items od + 1, od_outstanding_data := od_outstanding_data od @ [?item]\<rparr>"
  have "(od', s') = (if has_expired now ?item then AbandonAllFor discard ?item (od1, s) else (od1, s))"
    using assms by (auto simp: OutstandingData_Insert_def Let_def od1_def split: if_splits)
  moreover have "od_unacked_items (fst (AbandonAllFor discard ?item (od1, s))) = od_unacked_items od1"
    by (simp add: AbandonAllFor_def Let_def split: prod.splits)
  ultimately have "od_unacked_items od' = od_unacked_items od1" by (metis fst_conv)
  then show ?thesis by (simp add: od1_def)
qed


definition window_chunk :: DataToSend where
  "window_chunk = \<lparr>dts_message_id = 0, dts_data = (sample_data 1)\<lparr>data_payload := replicate 24 7\<rparr>,
     dts_max_retransmissions = 5, dts_expires_at = PlusInfinity, dts_lifecycle_id = 0\<rparr>"

definition window_state :: "RetransmissionQueue \<times> unit" where
  "window_state = (fst (rtx_new 10 0 rtx_timer_options small_options True False), ())"

lemma window_chunk_sent:
  "\<exists>rq'. send_chunk never_discard (Millis 5) window_chunk window_state = Value ([(10, dts_data window_chunk)], rq', ()) \<and>
     rq_cwnd rq' = 80 \<and> od_unacked_packet_bytes (rq_outstanding_data rq') = 40"
  by (simp add: window_state_def window_chunk_def rtx_new_def RetransmissionQueue_new_def small_options_def send_chunk_def
      OutstandingData_Insert_def OutstandingData_new_def GetSerializedChunkSize_def Data_size_def RoundUpTo4_eq
      DataChunkConfig_def Item_new_def has_expired_def PlusInfinity_def Millis_def LifecycleId_IsSet_def Unwrap_def
      SeqNumUnwrapper_init_def od_next_tsn_def highest_outstanding_tsn_def next_value_def AddTo_def Wrap_def cpp_rem_def Let_def)


end
