(* ===== verification/State_Cookie.thy ===== *)
theory State_Cookie
  imports Byte_IO
begin

text \<open>
  The negotiated capabilities and the state cookie, \<open>net/dcsctp/socket/capabilities.h\<close> and
  \<open>state_cookie.{h,cc}\<close>: what a server sends in INIT-ACK instead of keeping it, and gets back in
  COOKIE-ECHO.
\<close>

record Capabilities =
  cap_partial_reliability :: bool
  cap_message_interleaving :: bool
  cap_reconfig :: bool
  cap_zero_checksum :: bool
  cap_negotiated_maximum_incoming_streams :: u16
  cap_negotiated_maximum_outgoing_streams :: u16

definition Capabilities_default :: Capabilities where
  "Capabilities_default =
     \<lparr>cap_partial_reliability = False, cap_message_interleaving = False, cap_reconfig = False,
      cap_zero_checksum = False, cap_negotiated_maximum_incoming_streams = 0,
      cap_negotiated_maximum_outgoing_streams = 0\<rparr>"

record StateCookie =
  sc_peer_tag :: u32
  sc_my_tag :: u32
  sc_peer_initial_tsn :: u32
  sc_my_initial_tsn :: u32
  sc_a_rwnd :: u32
  sc_tie_tag :: u64
  sc_capabilities :: Capabilities

definition kMagic1 :: u32 where "kMagic1 = 1684230979"
definition kMagic2 :: u32 where "kMagic2 = 1414541360"
definition kCookieSize :: nat where "kCookieSize = 44"

definition u8_of_bool :: "bool \<Rightarrow> u8" where
  "u8_of_bool b = (if b then 1 else 0)"

definition StateCookie_Serialize :: "StateCookie \<Rightarrow> bytes outcome" where
  "StateCookie_Serialize c =
     (let capabilities = sc_capabilities c in
      obind (BoundedByteWriter [] kCookieSize (replicate kCookieSize 0)) (\<lambda>buffer.
      let buffer = Store32 0 kMagic1 buffer;
          buffer = Store32 4 kMagic2 buffer;
          buffer = Store32 8 (sc_peer_tag c) buffer;
          buffer = Store32 12 (sc_my_tag c) buffer;
          buffer = Store32 16 (sc_peer_initial_tsn c) buffer;
          buffer = Store32 20 (sc_my_initial_tsn c) buffer;
          buffer = Store32 24 (sc_a_rwnd c) buffer;
          buffer = Store32 28 (ucast (drop_bit 32 (sc_tie_tag c))) buffer;
          buffer = Store32 32 (ucast (sc_tie_tag c)) buffer;
          buffer = Store8 36 (u8_of_bool (cap_partial_reliability capabilities)) buffer;
          buffer = Store8 37 (u8_of_bool (cap_message_interleaving capabilities)) buffer;
          buffer = Store8 38 (u8_of_bool (cap_reconfig capabilities)) buffer;
          buffer = Store8 39 (u8_of_bool (cap_zero_checksum capabilities)) buffer;
          buffer = Store16 40 (cap_negotiated_maximum_incoming_streams capabilities) buffer;
          buffer = Store16 42 (cap_negotiated_maximum_outgoing_streams capabilities) buffer
      in Value (written buffer)))"

definition StateCookie_Deserialize :: "bytes \<Rightarrow> StateCookie outcome" where
  "StateCookie_Deserialize cookie =
     (if length cookie \<noteq> kCookieSize then Nullopt
      else obind (BoundedByteReader kCookieSize cookie) (\<lambda>buffer.
        let magic1 = Load32 buffer 0; magic2 = Load32 buffer 4 in
        if magic1 \<noteq> kMagic1 \<or> magic2 \<noteq> kMagic2 then Nullopt
        else Value
          \<lparr>sc_peer_tag = Load32 buffer 8, sc_my_tag = Load32 buffer 12,
           sc_peer_initial_tsn = Load32 buffer 16, sc_my_initial_tsn = Load32 buffer 20,
           sc_a_rwnd = Load32 buffer 24,
           sc_tie_tag = push_bit 32 (ucast (Load32 buffer 28)) OR ucast (Load32 buffer 32),
           sc_capabilities =
             \<lparr>cap_partial_reliability = (Load8 buffer 36 \<noteq> 0),
              cap_message_interleaving = (Load8 buffer 37 \<noteq> 0),
              cap_reconfig = (Load8 buffer 38 \<noteq> 0),
              cap_zero_checksum = (Load8 buffer 39 \<noteq> 0),
              cap_negotiated_maximum_incoming_streams = Load16 buffer 40,
              cap_negotiated_maximum_outgoing_streams = Load16 buffer 42\<rparr>\<rparr>))"

lemma join_u64: "push_bit 32 (ucast (ucast (drop_bit 32 v) :: u32)) OR ucast (ucast v :: u32) = (v :: u64)"
  by (rule bit_word_eqI) (auto simp: bit_simps)

lemma u8_of_bool_iff [simp]: "u8_of_bool b = 0 \<longleftrightarrow> \<not> b"
  by (simp add: u8_of_bool_def)

lemma StateCookie_Deserialize_returns: "StateCookie_Deserialize d \<noteq> CheckFailed" "StateCookie_Deserialize d \<noteq> Diverges"
  by (simp_all add: StateCookie_Deserialize_def BoundedByteReader_def RTC_CHECK_def Let_def)

section \<open>Properties\<close>

text \<open>
  C16. The state cookie survives the trip through the peer: serializing never fails and gives 44
  bytes, from which the same cookie is read back.
\<close>

theorem state_cookie_round_trip:
  "\<exists>d. StateCookie_Serialize c = Value d \<and> length d = kCookieSize \<and> StateCookie_Deserialize d = Value c"
  by (simp add: StateCookie_Serialize_def StateCookie_Deserialize_def BoundedByteWriter_def BoundedByteReader_def
      RTC_CHECK_def kCookieSize_def Let_def written_def Store32_def Store16_def Store8_def Load32_def Load16_def Load8_def
      codec_simps join_u64)

end
