(* ===== verification/Spec2Isabelle.thy ===== *)
theory Spec2Isabelle
  imports Sctp_Packet Reassembly_Queue Outstanding_Data Task_Queue_Timeout Retransmission_Timing
    Message_Transfer Retransmission_Queue State_Cookie
begin

text \<open>
  A verification library for the SCTP stack of WebRTC, \<open>net/dcsctp\<close>, and for the parts of
  \<open>rtc_base/numerics\<close> and \<open>rtc_base/units\<close> that it uses. Paths below are relative to
  \<open>src/source_code\<close>, and those without a directory of the top level to \<open>net/dcsctp\<close>.

  \<^bold>\<open>The program.\<close> A client adds messages to a send queue (\<open>tx/rr_send_queue.cc\<close>). The retransmission
  queue (\<open>tx/retransmission_queue.cc\<close>) asks it for fragments when the congestion window and the
  receiver window allow, the stream scheduler (\<open>tx/stream_scheduler.cc\<close>) chooses the stream, and the
  fragments stay in the outstanding data (\<open>tx/outstanding_data.cc\<close>) until they are acknowledged,
  retransmitted or abandoned. Fragments travel as DATA or I-DATA chunks in packets (\<open>packet/\<close>). The
  receiver records the TSNs it has seen in the data tracker (\<open>rx/data_tracker.cc\<close>), which decides when
  a SACK is due, and the reassembly queue (\<open>rx/reassembly_queue.cc\<close>) puts the messages together. Timers
  (\<open>timer/timer.cc\<close>) drive retransmissions and delayed acks. Streams can be reset, messages can expire,
  and a whole association can be handed over to another process (\<open>public/dcsctp_handover_state.h\<close>).

  \<^bold>\<open>Conventions.\<close> A class is a record, an enumeration or a polymorphic class a datatype, and the method
  \<open>Op\<close> of \<open>Class\<close> is the function \<open>Class_Op\<close>, or \<open>Op\<close> where that is not ambiguous, which takes
  the state as its last argument and returns it updated. The type \<^typ>\<open>'a outcome\<close> has the ways in
  which such a function can end: a value, \<open>std::nullopt\<close>, a failing \<open>RTC_CHECK\<close> or \<open>RTC_DCHECK\<close>
  (also where the code would index outside a container), or an endless loop. Wire fields and wrapping
  numbers are words of their width. Values of type \<open>size_t\<close> are natural numbers; where a difference is
  stored without a guard the wrap-around is written out (\<open>remaining_bytes\<close>, \<open>size_sub\<close>,
  \<open>size_wrap\<close>). \<open>std::map\<close> is a list of pairs sorted by key. Calls of the client, and those of a
  timer on its timeout, are recorded in order. Logging and \<open>ToString\<close> are left out.

  \<^bold>\<open>Theories.\<close>
  \<^item> \<open>Prelude\<close>: word types, outcomes, the collections \<open>codec_simps\<close> and others, lists.
    \<open>Ordered_Map\<close>: maps with the locale \<open>map_contract\<close>. \<open>Interval_Set\<close>: sorted interval lists.
  \<^item> \<open>Byte_IO\<close>, \<open>Tlv\<close>: \<open>packet/bounded_byte_reader.h\<close>, \<open>bounded_byte_writer.h\<close>, \<open>tlv_trait.h\<close>,
    \<open>common/math.h\<close>. The locale \<open>tlv_codec\<close> is the contract of a serializable class: what is written
    is framed, and parses back, with any padding after it.
  \<^item> \<open>Parameters\<close>, \<open>Error_Causes\<close>, \<open>Data_Chunks\<close>, \<open>Control_Chunks\<close>: one interpretation of \<open>tlv_codec\<close>
    per class of \<open>packet/parameter\<close>, \<open>packet/error_cause\<close> and \<open>packet/chunk\<close>. \<open>Parameter_List\<close>: the
    container of \<open>parameter.cc\<close>. \<open>Chunks\<close>: the class hierarchy of chunks. \<open>Sctp_Packet\<close>:
    \<open>packet/sctp_packet.cc\<close>, with \<open>Dcsctp_Options\<close>. They show that everything written is read back,
    that no parser fails a check or loops on any input of a legal size, and how packets are tiled and
    verified.
  \<^item> \<open>Chunk_Validators\<close>: \<open>packet/chunk_validators.cc\<close>; cleaning gap ack blocks is sound.
  \<^item> \<open>Sequence_Numbers\<close>: \<open>rtc_base/numerics\<close> and \<open>common/sequence_numbers.h\<close>; the unwrapper recovers
    the numbers of a sender. \<open>Time_Units\<close>: \<open>api/units\<close>, \<open>rtc_base/units\<close>.
  \<^item> \<open>Timer\<close>, \<open>Task_Queue_Timeout\<close>: \<open>timer/\<close>; the timer keeps to the protocol of the locale
    \<open>timeout_implementation\<close>, and the task queue timeout implements it.
  \<^item> \<open>Data_Tracker\<close>: \<open>rx/data_tracker.cc\<close>; it refines a set of TSNs and sends SACKs in time.
  \<^item> \<open>Reassembly_Streams\<close>, \<open>Traditional_Reassembly\<close>, \<open>Interleaved_Reassembly\<close>, \<open>Reassembly_Queue\<close>:
    \<open>rx/\<close>. The locale \<open>reassembly_streams\<close> is the virtual interface with its accounting, the locale
    \<open>ordered_receiver\<close> delivery in order; both kinds of streams are interpretations of both.
  \<^item> \<open>Outstanding_Data\<close>, \<open>Stream_Scheduler\<close>, \<open>Send_Queue\<close>, \<open>Retransmission_Queue\<close>: \<open>tx/\<close>. The
    scheduler is verified in the locale \<open>stream_producer\<close>, which the streams of the send queue
    interpret; the retransmission queue in the locale \<open>send_queue_contract\<close>, which the send queue
    interprets. They show that every sequence of calls returns, that all counters agree with the
    queues, that sending respects the windows and the packet, and that the retransmission timer runs
    while data is in flight. \<open>Retransmission_Timing\<close>: \<open>tx/retransmission_timeout.cc\<close> and
    \<open>retransmission_error_counter.cc\<close>.
  \<^item> \<open>State_Cookie\<close>: \<open>socket/state_cookie.cc\<close>. \<open>Handover_State\<close>: the snapshot of a handover.
  \<^item> \<open>Message_Transfer\<close> and this theory: the chunks of a stream are the fragments of its messages, and
    what the receiver delivers is what was sent.

  \<^bold>\<open>Arguments.\<close> The third-party function \<open>crc32c_value\<close> is an argument of the packet functions; no
  property assumes anything of it. The rounding \<open>fl\<close> of double arithmetic is an argument of the
  scheduler; its properties hold for every rounding. The callback \<open>discard\<close> of the outstanding data and
  the two operations \<open>produce\<close> and \<open>discard\<close> of the retransmission queue are arguments that the send queue
  instantiates. \<open>on_new_rtt\<close> is the effect of a measurement on the retransmission timer, and
  \<open>on_expired\<close> the callback of a timer.

  \<^bold>\<open>Fuel.\<close> The loops of \<open>Parameters::Parse\<close> and \<open>descriptors()\<close> carry one unit of fuel per byte and one
  for the last test; each turn that continues consumes at least four bytes, and it is shown that more
  fuel changes nothing. The loop of \<open>GetChunksToSend\<close> carries one unit per byte of its budget, of which
  every turn uses at least the chunk header. Running out of fuel is an endless loop, and is shown not to
  happen where a property says that an operation returns. The loop in which the scheduler asks the
  current stream again is a partial function, shown to return in every reachable state.

  \<^bold>\<open>Not modelled.\<close> Of \<open>net/dcsctp/socket\<close> the socket with its connection state machine, the transmission
  control block, the heartbeat and stream reset handlers, the packet sender and the callback deferrer:
  they connect the parts above through the interface of the client, and of their behaviour only the order
  of a SACK and the fast retransmission that it asks for is part of the sequences of calls here. The
  state that the handlers act on and the chunks that they exchange are modelled. Of \<open>rtc_base\<close> and
  \<open>api\<close> only numerics, units and array views are modelled. The rest of the repository, the media, RTP and
  network stacks, is a separate system over threads, sockets, devices and floating-point signals.
  Durations beyond 35 years and counters of bytes in flight beyond 64 bits are outside the models.
\<close>

section \<open>Properties\<close>

text \<open>
  C1. Messages arrive in order and intact. Ordered messages are added to the streams of a send queue
  and cut into chunks of arbitrary sizes, the chunks are numbered consecutively, and any selection
  of the chunks of a stream reaches the receiving stream, each once and in any order that keeps
  neighbouring arrivals less than half the range of the stream sequence number apart. What the
  receiver hands over is a prefix of the messages that were added, in order and with their whole
  payloads; it is all of them when the queue was emptied and every chunk arrived.
\<close>

theorem messages_arrive_in_order:
  assumes "\<forall>c\<in>set calls. reliable_call c"
    and "sq_run fl calls (RRSendQueue_new mtu priority threshold) = Value (ds, q)"
    and "cs = stream_fragments i (number_from t ds)"
    and "distinct arrivals" and "\<forall>x\<in>set arrivals. x < length cs"
    and "small_steps (2 ^ 15) 0 (map (\<lambda>x. int (message_number cs x)) arrivals)"
    and "add_all OrderedStream_Add (map ((!) cs) arrivals) (OrderedStream_new 0) = (delivered, s)"
  shows "prefix (map snd delivered) (messages_added i calls) \<and>
    (IsEmpty q \<and> length arrivals = length cs \<longrightarrow> map snd delivered = messages_added i calls)"
proof -
  obtain ms where ms: "\<forall>j<length ms. ordered_message j (ms ! j)" "prefix cs (concat ms)"
      "prefix (map (snd \<circ> message_of) ms) (messages_added i calls)"
      "IsEmpty q \<Longrightarrow> concat ms = cs \<and> map (snd \<circ> message_of) ms = messages_added i calls"
    using run_messages [OF assms(1,2), of i t] assms(3) by blast
  obtain k where k: "map snd delivered = take k (map (snd \<circ> message_of) ms)"
      "cs = concat ms \<and> length arrivals = length cs \<longrightarrow> length ms \<le> k"
    using messages_arrive [OF ms(1,2) assms(4-7)] by blast
  have "prefix (map snd delivered) (messages_added i calls)"
    using take_is_prefix ms(3) prefix_order.trans unfolding k(1) by blast
  moreover have "map snd delivered = messages_added i calls" if "IsEmpty q" "length arrivals = length cs"
    using k ms(4) [OF that(1)] that(2) by (metis length_map take_all)
  ultimately show ?thesis by blast
qed

theorem messages_arrive_in_order_witness:
  "\<exists>ds q. transfer_run = Value (ds, q) \<and>
     map snd (fst (add_all OrderedStream_Add (map ((!) (stream_fragments 1 (number_from 100 ds))) [2, 0, 1])
       (OrderedStream_new 0))) = [sample_message 1 30, sample_message 1 5]"
proof -
  obtain ds q where r: "transfer_run = Value (ds, q)" "IsEmpty q"
      and l: "length (stream_fragments 1 (number_from 100 ds)) = 3"
      and m: "map (message_number (stream_fragments 1 (number_from 100 ds))) [2, 0, 1] = [1, 0, 0]"
    using transfer_run_eval by (auto split: outcome.splits)
  obtain delivered s where a: "add_all OrderedStream_Add (map ((!) (stream_fragments 1 (number_from 100 ds))) [2, 0, 1])
      (OrderedStream_new 0) = (delivered, s)" by fastforce
  have "messages_added 1 transfer_calls = [sample_message 1 30, sample_message 1 5]"
    by (simp add: messages_added_def transfer_calls_def sample_message_def sample_options_def)
  moreover have "distinct [2, 0, 1 :: nat]" "\<forall>x\<in>set [2, 0, 1]. x < length (stream_fragments 1 (number_from 100 ds))"
      "small_steps (2 ^ 15) 0 (map (\<lambda>x. int (message_number (stream_fragments 1 (number_from 100 ds)) x)) [2, 0, 1])"
    using l m by simp_all
  from messages_arrive_in_order [OF transfer_calls_reliable r(1) [unfolded transfer_run_def] refl this a] r(2) l
  have "map snd delivered = messages_added 1 transfer_calls" by simp
  ultimately show ?thesis using r(1) a by (intro exI [of _ ds] exI [of _ q]) simp
qed

end
